(* ===== verification/Bqti_Prelude.thy ===== *)
theory Bqti_Prelude
  imports Main "HOL-Library.Word" "HOL-Library.Product_Lexorder" "HOL-Library.AList"
begin

text \<open>
  Shared vocabulary of the development: the machine types of the Rust sources, byte
  encodings of integers, slice chunking, socket addresses, the three generic
  interfaces (operations that preserve an invariant, operations that never panic, self-delimiting wire formats) and the lemmas
  about them that the component theories use.

  Conventions. A panic of the source (an index out of bounds, an arithmetic overflow in a
  checked build) is the value \<open>None\<close> of a function whose result is an \<open>option\<close>; an \<open>Err\<close>
  of the source is the \<open>Inl\<close> side of a sum. A \<open>usize\<close> that only counts objects held in memory
  is a \<open>nat\<close>; an integer whose width matters is a word. The 64-bit offsets of \<open>Chunks\<close> are numbers with
  the wrap-around of a release build written out.
\<close>

unbundle bit_operations_syntax

type_synonym u8 = "8 word"
type_synonym u16 = "16 word"
type_synonym u32 = "32 word"
type_synonym u64 = "64 word"
type_synonym bytes = "u8 list"

named_theorems wf_intros \<open>operations preserve the well-formedness of their component\<close>

subsection \<open>Big-endian and little-endian byte strings\<close>

fun be_bytes :: "nat \<Rightarrow> nat \<Rightarrow> bytes" where
  "be_bytes 0 n = []"
| "be_bytes (Suc k) n = be_bytes k (n div 256) @ [word_of_nat n]"

definition from_be_bytes :: "bytes \<Rightarrow> nat" where
  "from_be_bytes bs = foldl (\<lambda>a b. a * 256 + unat b) 0 bs"

definition to_be_bytes_u32 :: "u32 \<Rightarrow> bytes" where
  "to_be_bytes_u32 w = be_bytes 4 (unat w)"

definition to_le_bytes_u32 :: "u32 \<Rightarrow> bytes" where
  "to_le_bytes_u32 w = rev (be_bytes 4 (unat w))"

definition to_be_bytes_u64 :: "u64 \<Rightarrow> bytes" where
  "to_be_bytes_u64 w = be_bytes 8 (unat w)"

definition to_le_bytes_u64 :: "u64 \<Rightarrow> bytes" where
  "to_le_bytes_u64 w = rev (be_bytes 8 (unat w))"

subsection \<open>Slices cut into chunks\<close>

text \<open>\<open>chunks\<close> is the slice method of the same name for a positive chunk size;
  \<open>chunks_exact\<close> drops a last chunk that is not full.\<close>

function chunks :: "nat \<Rightarrow> 'a list \<Rightarrow> 'a list list" where
  "chunks n xs = (if n = 0 \<or> xs = [] then [] else take n xs # chunks n (drop n xs))"
  by pat_completeness auto
termination
  by (relation "measure (\<lambda>(n, xs). length xs)") auto

declare chunks.simps [simp del]

definition chunks_exact :: "nat \<Rightarrow> 'a list \<Rightarrow> 'a list list" where
  "chunks_exact n xs = filter (\<lambda>c. length c = n) (chunks n xs)"

subsection \<open>Loops whose body can panic\<close>

fun fold_opt :: "('s \<Rightarrow> 'a \<Rightarrow> 's option) \<Rightarrow> 's \<Rightarrow> 'a list \<Rightarrow> 's option" where
  "fold_opt f s [] = Some s"
| "fold_opt f s (x # xs) = (case f s x of None \<Rightarrow> None | Some s' \<Rightarrow> fold_opt f s' xs)"

lemma fold_opt_append: "fold_opt f s (xs @ ys) = (case fold_opt f s xs of None \<Rightarrow> None | Some s' \<Rightarrow> fold_opt f s' ys)"
  by (induction xs arbitrary: s) (auto split: option.split)

text \<open>Every request of a run is acceptable in the state it meets.\<close>

fun all_ok :: "('s \<Rightarrow> 'e \<Rightarrow> 's option) \<Rightarrow> ('s \<Rightarrow> 'e \<Rightarrow> bool) \<Rightarrow> 's \<Rightarrow> 'e list \<Rightarrow> bool" where
  "all_ok f ok s [] = True"
| "all_ok f ok s (e # es) = (ok s e \<and> (case f s e of None \<Rightarrow> True | Some s' \<Rightarrow> all_ok f ok s' es))"

subsection \<open>Requests in flight\<close>

text \<open>\<open>FuturesUnordered\<close> yields the futures in the order they complete, which the parameter
  \<open>pick\<close> stands for: it names the next one to complete among those in flight.\<close>

definition next_done :: "('a list \<Rightarrow> nat) \<Rightarrow> 'a list \<Rightarrow> 'a \<times> 'a list" where
  "next_done pick fs = (let i = pick fs mod length fs in (fs ! i, take i fs @ drop (Suc i) fs))"

subsection \<open>Socket addresses\<close>

text \<open>\<open>std::net::SocketAddr\<close> and its derived order: a V4 address precedes a V6 one, then the
  address, then the port (then flow information and scope for V6).\<close>

datatype ip_addr = V4 u32 | V6 "128 word"

datatype sock_addr = SocketV4 u32 u16 | SocketV6 "128 word" u16 u32 u32

fun addr_ip :: "sock_addr \<Rightarrow> ip_addr" where
  "addr_ip (SocketV4 a p) = V4 a"
| "addr_ip (SocketV6 a p f s) = V6 a"

fun addr_port :: "sock_addr \<Rightarrow> u16" where
  "addr_port (SocketV4 a p) = p"
| "addr_port (SocketV6 a p f s) = p"

fun addr_rank :: "sock_addr \<Rightarrow> nat \<times> nat \<times> nat \<times> nat \<times> nat" where
  "addr_rank (SocketV4 a p) = (0, unat a, unat p, 0, 0)"
| "addr_rank (SocketV6 a p f s) = (1, unat a, unat p, unat f, unat s)"

lemma addr_rank_inject: "addr_rank a = addr_rank b \<longleftrightarrow> a = b"
  by (cases a; cases b) (auto simp: word_unat_eq_iff)

instantiation sock_addr :: linorder
begin

definition less_eq_sock_addr :: "sock_addr \<Rightarrow> sock_addr \<Rightarrow> bool" where
  "a \<le> b \<longleftrightarrow> addr_rank a \<le> addr_rank b"

definition less_sock_addr :: "sock_addr \<Rightarrow> sock_addr \<Rightarrow> bool" where
  "a < b \<longleftrightarrow> addr_rank a < addr_rank b"

instance
proof
  fix x y z :: sock_addr
  show "x < y \<longleftrightarrow> x \<le> y \<and> \<not> y \<le> x"
    unfolding less_sock_addr_def less_eq_sock_addr_def by (rule less_le_not_le)
  show "x \<le> x"
    unfolding less_eq_sock_addr_def by (rule order_refl)
  show "x \<le> z" if "x \<le> y" and "y \<le> z"
    using that unfolding less_eq_sock_addr_def by (rule order_trans)
  show "x = y" if "x \<le> y" and "y \<le> x"
    using that antisym[of "addr_rank x" "addr_rank y"]
    unfolding less_eq_sock_addr_def by (simp add: addr_rank_inject)
  show "x \<le> y \<or> y \<le> x"
    unfolding less_eq_sock_addr_def by (rule linear)
qed

end

subsection \<open>Interface: operations that preserve an invariant\<close>

text \<open>Every stateful component is a step function over its requests; a run is a left fold.
  A component that keeps an invariant in one step keeps it in every run.\<close>

locale preserved_by =
  fixes step :: "'s \<Rightarrow> 'e \<Rightarrow> 's"
    and inv :: "'s \<Rightarrow> bool"
  assumes step_inv: "inv s \<Longrightarrow> inv (step s e)"
begin

lemma run_inv: "inv s \<Longrightarrow> inv (foldl step s es)"
  by (induction es arbitrary: s) (auto intro: step_inv)

lemma run_prefix_inv: "inv s \<Longrightarrow> inv (foldl step s (take n es))"
  by (rule run_inv)

end

subsection \<open>Interface: operations that never panic\<close>

text \<open>A component whose operations can panic, with the requests it must cope with: one step on an
  acceptable request returns and keeps the invariant, so no run of acceptable requests panics.\<close>

locale panic_free =
  fixes step :: "'s \<Rightarrow> 'e \<Rightarrow> 's option"
    and inv :: "'s \<Rightarrow> bool"
    and ok :: "'s \<Rightarrow> 'e \<Rightarrow> bool"
  assumes step_total: "inv s \<Longrightarrow> ok s e \<Longrightarrow> \<exists>s'. step s e = Some s' \<and> inv s'"
begin

lemma run_total: "inv s \<Longrightarrow> all_ok step ok s es \<Longrightarrow> \<exists>s'. fold_opt step s es = Some s' \<and> inv s'"
proof (induction es arbitrary: s)
  case (Cons e es)
  then obtain s1 where "step s e = Some s1" "inv s1" using step_total[of s e] by auto
  then show ?case using Cons.IH[of s1] Cons.prems(2) by simp
qed simp

end

subsection \<open>Interface: self-delimiting wire formats\<close>

text \<open>An encoder and a decoder that reads one message off the front of a stream. The laws are
  the round trip for the messages the format admits; the client lemma is that a stream of
  messages is read back message by message.\<close>

locale wire_format =
  fixes enc :: "'m \<Rightarrow> bytes"
    and dec :: "bytes \<Rightarrow> 'e + ('m \<times> bytes)"
    and ok :: "'m \<Rightarrow> bool"
  assumes dec_enc: "ok m \<Longrightarrow> dec (enc m @ rest) = Inr (m, rest)"
begin

lemma enc_inject:
  assumes "ok m" and "ok m'" and "enc m @ r = enc m' @ r'"
  shows "m = m' \<and> r = r'"
proof -
  have "Inr (m, r) = dec (enc m @ r)" by (rule dec_enc[OF assms(1), symmetric])
  also have "\<dots> = dec (enc m' @ r')" by (rule arg_cong[OF assms(3)])
  also have "\<dots> = Inr (m', r')" by (rule dec_enc[OF assms(2)])
  finally show ?thesis by blast
qed

lemma prefix_free:
  assumes "ok m" and "ok m'" and "enc m @ r = enc m'"
  shows "m = m' \<and> r = []"
proof (rule enc_inject[OF assms(1,2)])
  show "enc m @ r = enc m' @ []" unfolding append_Nil2 by (rule assms(3))
qed

end

subsection \<open>Lemmas on byte strings\<close>

lemma length_be_bytes [simp]: "length (be_bytes k n) = k"
  by (induction k arbitrary: n) auto

lemma from_be_bytes_append:
  "from_be_bytes (bs @ [b]) = from_be_bytes bs * 256 + unat b"
  by (simp add: from_be_bytes_def)

lemma from_be_be_bytes: "from_be_bytes (be_bytes k n) = n mod 256 ^ k"
proof (induction k arbitrary: n)
  case 0
  then show ?case by (simp add: from_be_bytes_def)
next
  case (Suc k)
  have "unat (word_of_nat n :: u8) = n mod 256"
    by (simp add: unat_of_nat)
  moreover have "n mod 256 ^ Suc k = 256 * (n div 256 mod 256 ^ k) + n mod 256"
    by (simp add: mod_mult2_eq)
  ultimately show ?case
    by (simp add: from_be_bytes_append Suc.IH)
qed

lemma unat_u32_less: "unat (w :: u32) < 4294967296"
  using unsigned_less[of w] by simp

lemma from_to_be_bytes_u32 [simp]: "from_be_bytes (to_be_bytes_u32 w) = unat w"
  using unat_u32_less[of w] by (simp add: to_be_bytes_u32_def from_be_be_bytes)

lemma length_to_be_bytes_u32 [simp]: "length (to_be_bytes_u32 w) = 4"
  by (simp add: to_be_bytes_u32_def)

lemma length_to_le_bytes_u32 [simp]: "length (to_le_bytes_u32 w) = 4"
  by (simp add: to_le_bytes_u32_def)

lemma from_be_bytes_u32_of_nat:
  "n < 2 ^ 32 \<Longrightarrow> from_be_bytes (to_be_bytes_u32 (word_of_nat n)) = n"
  by (simp add: unat_of_nat)

lemma to_le_bytes_u32_inject:
  assumes "to_le_bytes_u32 a = to_le_bytes_u32 b"
  shows "a = b"
proof -
  have "to_be_bytes_u32 a = to_be_bytes_u32 b"
    using assms by (simp add: to_le_bytes_u32_def to_be_bytes_u32_def)
  then have "unat a = unat b"
    by (metis from_to_be_bytes_u32)
  then show ?thesis by (simp add: word_unat_eq_iff)
qed

lemma and_exp_eq_0_iff: "(x :: 'a::len word) AND 2 ^ k = 0 \<longleftrightarrow> \<not> bit x k"
  by (simp add: bit_iff_and_push_bit_not_eq_0)

subsection \<open>Lemmas on chunks\<close>

lemma chunks_Nil [simp]: "chunks n [] = []"
  by (simp add: chunks.simps)

lemma chunks_step: "0 < n \<Longrightarrow> xs \<noteq> [] \<Longrightarrow> chunks n xs = take n xs # chunks n (drop n xs)"
  by (simp add: chunks.simps[of n xs])

lemma chunks_append_full:
  assumes "0 < n" and "length c = n"
  shows "chunks n (c @ xs) = c # chunks n xs"
  using assms chunks_step[of n "c @ xs"] by auto

lemma chunks_short: "0 < n \<Longrightarrow> xs \<noteq> [] \<Longrightarrow> length xs \<le> n \<Longrightarrow> chunks n xs = [xs]"
  by (simp add: chunks_step)

lemma concat_chunks: "0 < n \<Longrightarrow> concat (chunks n xs) = xs"
proof (induction n xs rule: chunks.induct)
  case (1 n xs)
  then show ?case by (cases "xs = []") (auto simp: chunks_step)
qed

lemma ceil_div_step:
  fixes m n :: nat
  assumes "0 < n" and "0 < m"
  shows "(m + n - 1) div n = Suc ((m - n + n - 1) div n)"
proof (cases "n \<le> m")
  case True
  then have "m + n - 1 = (m - n + n - 1) + n" using assms by simp
  then show ?thesis using assms by (metis div_add_self2 not_gr_zero Suc_eq_plus1)
next
  case False
  then have "m + n - 1 = (m - 1) + n" and "(m - 1) div n = 0" using assms by auto
  then have "(m + n - 1) div n = Suc 0" using assms by (metis Suc_eq_plus1 div_add_self2 not_gr_zero)
  then show ?thesis using False assms by simp
qed

lemma length_chunks: "0 < n \<Longrightarrow> length (chunks n xs) = (length xs + n - 1) div n"
proof (induction n xs rule: chunks.induct)
  case (1 n xs)
  show ?case
  proof (cases "xs = []")
    case True
    then show ?thesis using 1 by simp
  next
    case False
    then have "length (chunks n (drop n xs)) = (length xs - n + n - 1) div n"
      using 1 by simp
    then show ?thesis
      using False 1(2) ceil_div_step[of n "length xs"] by (simp add: chunks_step)
  qed
qed

lemma nth_chunks:
  "0 < n \<Longrightarrow> k * n < length xs \<Longrightarrow> chunks n xs ! k = take n (drop (k * n) xs)"
proof (induction k arbitrary: xs)
  case 0
  then show ?case by (auto simp: chunks_step)
next
  case (Suc k)
  then have "xs \<noteq> []" and "k * n < length (drop n xs)" by auto
  then have "chunks n (drop n xs) ! k = take n (drop (k * n) (drop n xs))"
    using Suc by blast
  then show ?case
    using \<open>xs \<noteq> []\<close> chunks_step[OF Suc.prems(1), of xs] by (simp add: add.commute)
qed

lemma chunk_inside:
  assumes "0 < n" and "k < length (chunks n xs)"
  shows "k * n < length xs"
proof -
  have "Suc k * n \<le> length xs + n - 1"
    using assms(2) by (simp only: length_chunks[OF assms(1)] Suc_le_eq[symmetric] less_eq_div_iff_mult_less_eq[OF assms(1)])
  then show ?thesis using assms(1) by simp
qed

lemma set_chunks_length: "c \<in> set (chunks n xs) \<Longrightarrow> c \<noteq> [] \<and> length c \<le> n"
proof (induction n xs rule: chunks.induct)
  case (1 n xs)
  then show ?case by (cases "n = 0 \<or> xs = []") (auto simp: chunks.simps[of n xs])
qed

subsection \<open>Index ranges\<close>

lemma filter_upt_extend:
  assumes "\<And>i. Q i \<Longrightarrow> i < m" and "\<And>i. Q i \<Longrightarrow> i < n"
  shows "filter Q [0..<m] = filter Q [0..<n]"
proof -
  have ext: "filter Q [0..<k + d] = filter Q [0..<k]" if "\<And>i. Q i \<Longrightarrow> i < k" for k d
  proof -
    have "filter Q [k..<k + d] = []" by (auto simp: filter_empty_conv dest: that)
    then show ?thesis using upt_add_eq_append[of 0 k d] by simp
  qed
  show ?thesis
  proof (cases "m \<le> n")
    case True
    then show ?thesis using ext[of m "n - m"] assms(1) by simp
  next
    case False
    then show ?thesis using ext[of n "m - n"] assms(2) by simp
  qed
qed

lemma map_filter_blocks:
  "concat (map (\<lambda>b. List.map_filter (\<lambda>k. h (b * c + k)) [0..<c]) [0..<L])
     = List.map_filter h [0..<L * c]"
proof (induction L)
  case 0
  then show ?case by simp
next
  case (Suc L)
  have shift: "map (\<lambda>k. L * c + k) [0..<c] = [L * c..<L * c + c]"
    using map_add_upt[of "L * c" c] by (simp add: add.commute)
  have "[0..<Suc L * c] = [0..<L * c] @ map (\<lambda>k. L * c + k) [0..<c]"
    unfolding shift using upt_add_eq_append[of 0 "L * c" c] by (simp add: add.commute)
  then show ?case
    using Suc by (simp add: List.map_filter_def comp_def filter_map)
qed

lemma map_filter_cong:
  "(\<And>x. x \<in> set xs \<Longrightarrow> f x = g x) \<Longrightarrow> List.map_filter f xs = List.map_filter g xs"
  by (induction xs) (auto simp: List.map_filter_simps split: option.split)

lemma filter_fresh: "k \<notin> f ` set xs \<Longrightarrow> filter (\<lambda>m. f m \<noteq> k) xs = xs"
  by (induction xs) auto

lemma map_filter_if: "List.map_filter (\<lambda>i. if P i then Some i else None) xs = filter P xs"
  by (induction xs) (auto simp: List.map_filter_simps)

subsection \<open>Concatenated lists of known lengths\<close>

lemma length_concat_const:
  "(\<And>x. x \<in> set xss \<Longrightarrow> length x = n) \<Longrightarrow> length (concat xss) = n * length xss"
  by (induction xss) auto

lemma chunks_concat_const:
  assumes "0 < n" and "\<And>x. x \<in> set xss \<Longrightarrow> length x = n"
  shows "chunks n (concat xss) = xss"
  using assms(2)
proof (induction xss)
  case Nil
  then show ?case by simp
next
  case (Cons x xss)
  then show ?case using assms(1) by (simp add: chunks_append_full)
qed

lemma chunks_exact_concat_const:
  assumes "0 < n" and "\<And>x. x \<in> set xss \<Longrightarrow> length x = n"
  shows "chunks_exact n (concat xss) = xss"
  using assms by (simp add: chunks_exact_def chunks_concat_const)

subsection \<open>Lemmas on requests in flight\<close>

lemma next_done_props:
  assumes "fs \<noteq> []" and "next_done pick fs = (t, rest)"
  shows "t \<in> set fs" and "Suc (length rest) = length fs" and "set fs \<subseteq> insert t (set rest)" and "set rest \<subseteq> set fs"
proof -
  let ?i = "pick fs mod length fs"
  have i: "?i < length fs" using assms(1) by simp
  have t: "t = fs ! ?i" and r: "rest = take ?i fs @ drop (Suc ?i) fs" using assms(2) by (auto simp: next_done_def Let_def)
  have fs: "fs = take ?i fs @ t # drop (Suc ?i) fs" using id_take_nth_drop[OF i] by (simp add: t)
  show "t \<in> set fs" using i by (simp add: t)
  show "Suc (length rest) = length fs" using i by (simp add: r)
  have "set fs = insert t (set rest)" unfolding r by (subst fs) auto
  then show "set fs \<subseteq> insert t (set rest)" "set rest \<subseteq> set fs" by auto
qed

subsection \<open>Association lists\<close>

lemma set_update_subset: "x \<in> set (AList.update k v al) \<Longrightarrow> x = (k, v) \<or> x \<in> set al"
  by (induction al) (auto split: if_splits)

lemma update_new: "k \<notin> fst ` set al \<Longrightarrow> AList.update k v al = al @ [(k, v)]"
  by (induction al) auto

end
