(* ===== verification/KeySpace.thy ===== *)
theory KeySpace
  imports Bqti_Prelude "HOL-Library.List_Lexorder" "HOL-Library.Multiset"
begin

text \<open>
  Keys and nodes of the DHT (\<open>dht/key_id.rs\<close>, \<open>dht/node.rs\<close>). A key is a 32-byte identifier
  with the public key it was hashed from; SHA-256 is the parameter \<open>sha256\<close>. The theory gives
  the distance function the routing table and the lookups order nodes by, and the bit view of
  identifiers shared by the bucket index and by bucket splitting.
\<close>

unbundle bit_operations_syntax

definition KEY_ID_LENGTH :: nat where
  "KEY_ID_LENGTH = 32"

record key =
  key_id :: bytes
  pub_key :: bytes

definition Key_new :: "(bytes \<Rightarrow> bytes) \<Rightarrow> bytes \<Rightarrow> key" where
  "Key_new sha256 pk = \<lparr>key_id = sha256 pk, pub_key = pk\<rparr>"

definition distance :: "(bytes \<Rightarrow> bytes) \<Rightarrow> key \<Rightarrow> key \<Rightarrow> key" where
  "distance sha256 self other = Key_new sha256 (map2 (XOR) (key_id self) (key_id other))"

definition key_less_eq :: "key \<Rightarrow> key \<Rightarrow> bool" where
  "key_less_eq a b \<longleftrightarrow> key_id a \<le> key_id b"

text \<open>\<open>randomize\<close> flips the bit at \<open>index\<close> and redraws every later one from the generator
  \<open>rng\<close>; the index is used unchecked, so it panics from 256 on.\<close>

definition set_bit_at :: "bytes \<Rightarrow> nat \<Rightarrow> bool \<Rightarrow> bytes" where
  "set_bit_at bs i b =
     bs[i div 8 := if b then bs ! (i div 8) OR push_bit (7 - i mod 8) 1
                   else bs ! (i div 8) AND NOT (push_bit (7 - i mod 8) 1)]"

definition randomize :: "(bytes \<Rightarrow> bytes) \<Rightarrow> (nat \<Rightarrow> bool) \<Rightarrow> key \<Rightarrow> nat \<Rightarrow> key option" where
  "randomize sha256 rng self index =
     (if index div 8 < length (key_id self)
      then let flipped = (key_id self)[index div 8 := (key_id self) ! (index div 8) XOR push_bit (7 - index mod 8) 1]
           in Some (Key_new sha256 (foldl (\<lambda>r i. set_bit_at r i (rng i)) flipped [index + 1..<256]))
      else None)"

record node =
  node_id :: key
  node_addr :: sock_addr

definition from_socket :: "key \<Rightarrow> sock_addr \<Rightarrow> node" where
  "from_socket k a = \<lparr>node_id = k, node_addr = a\<rparr>"

definition bootstrap_node :: "(bytes \<Rightarrow> bytes) \<Rightarrow> sock_addr \<Rightarrow> node" where
  "bootstrap_node sha256 a = from_socket (Key_new sha256 (replicate 32 0)) a"

subsection \<open>Identifiers as bit strings\<close>

text \<open>Bit \<open>n\<close> of an identifier, most significant first.\<close>

definition id_bit :: "bytes \<Rightarrow> nat \<Rightarrow> bool" where
  "id_bit bs n \<longleftrightarrow> bit (bs ! (n div 8)) (7 - n mod 8)"

lemma drop_bit_and_1: "drop_bit j (x :: u8) AND 1 \<noteq> 0 \<longleftrightarrow> bit x j"
  by (simp add: and_one_eq bit_iff_odd_drop_bit odd_iff_mod_2_eq_one)

lemma drop_bit_and_1_eq_1: "drop_bit j (x :: u8) AND 1 = 1 \<longleftrightarrow> bit x j"
  by (simp add: and_one_eq bit_iff_odd_drop_bit odd_iff_mod_2_eq_one)

lemma Key_new_simps [simp]:
  "key_id (Key_new H pk) = H pk" "pub_key (Key_new H pk) = pk"
  by (simp_all add: Key_new_def)

lemma from_socket_simps [simp]:
  "node_id (from_socket k a) = k" "node_addr (from_socket k a) = a"
  by (simp_all add: from_socket_def)

lemma map2_xor_commute: "map2 (XOR) xs ys = map2 (XOR) ys (xs :: bytes)"
  by (induction xs ys rule: list_induct2') (auto simp: xor.commute)

lemma distance_commute: "distance H a b = distance H b a"
  by (simp add: distance_def map2_xor_commute)

lemma map2_xor_self: "map2 (XOR) xs (xs :: bytes) = replicate (length xs) 0"
  by (induction xs) auto

end
