(* ===== verification/Auth.thy ===== *)
theory Auth
  imports KeySpace
begin

text \<open>
  Admission to the DHT: \<open>dht/auth/*.rs\<close> and the attestation report of \<open>bqti-tee/src/lib.rs\<close>.
  Proof of work, access tokens, the token issuer and the rate limiter. SHA-256, the signature
  scheme, the PGP library, the manifest service and the clock are parameters; the clock is the
  argument \<open>now\<close> of every operation that reads it. A panic is \<open>None\<close>.
\<close>

unbundle bit_operations_syntax

definition TOKEN_EXP_SECONDS :: u64 where "TOKEN_EXP_SECONDS = 30 * 60"
definition DIFFICULTY :: u32 where "DIFFICULTY = 24"
definition REQUEST_NUMBER :: u32 where "REQUEST_NUMBER = 100"
definition REQUEST_PER_SECOND :: u64 where "REQUEST_PER_SECOND = 60"

datatype trust_level = Attested | Unattested | Rejected

datatype auth_error =
    UnAuthorized | InvalidToken | InvalidPGPSignature | RoguePeer | RateLimited
  | PowSignFailed | ManifestError

record signer =
  signer_pub_key :: bytes
  signer_sign :: "bytes \<Rightarrow> bytes option"

type_synonym verifier = "bytes \<Rightarrow> bytes \<Rightarrow> bytes \<Rightarrow> bool"

subsection \<open>Attestation reports\<close>

record enclave_report =
  er_hash :: bytes
  er_data_len :: u64
  er_data :: bytes
  er_signature :: bytes

record sm_report =
  sm_hash :: bytes
  sm_public_key :: bytes
  sm_signature :: bytes

record attest_report =
  ar_enclave :: enclave_report
  ar_sm :: sm_report
  dev_public_key :: bytes

definition keystone_verify :: "verifier \<Rightarrow> attest_report \<Rightarrow> bytes \<Rightarrow> bytes \<Rightarrow> bytes \<Rightarrow> bool option" where
  "keystone_verify ed_verify r nonce expected_hash trusted_dev_key =
     (if trusted_dev_key \<noteq> dev_public_key r then Some False
      else if \<not> ed_verify trusted_dev_key (sm_hash (ar_sm r) @ sm_public_key (ar_sm r)) (sm_signature (ar_sm r))
      then Some False
      else let data_len = unat (er_data_len (ar_enclave r))
           in if length (er_data (ar_enclave r)) < data_len then None
              else let enclave_msg = er_hash (ar_enclave r) @ to_le_bytes_u64 (er_data_len (ar_enclave r))
                                     @ take data_len (er_data (ar_enclave r))
                   in if \<not> ed_verify (sm_public_key (ar_sm r)) enclave_msg (er_signature (ar_enclave r)) then Some False
                      else if er_hash (ar_enclave r) \<noteq> expected_hash then Some False
                      else let nonce_len = min (length nonce) data_len
                           in Some (0 < nonce_len \<and> take nonce_len (er_data (ar_enclave r)) = take nonce_len nonce))"

subsection \<open>Proof of work\<close>

fun ip_octets :: "ip_addr \<Rightarrow> bytes" where
  "ip_octets (V4 a) = be_bytes 4 (unat a)"
| "ip_octets (V6 a) = be_bytes 16 (unat a)"

definition calculate_challenge :: "(bytes \<Rightarrow> bytes) \<Rightarrow> bytes \<Rightarrow> ip_addr \<Rightarrow> bytes \<Rightarrow> u32" where
  "calculate_challenge sha256 pk sender_ip secret_salt =
     word_of_nat (from_be_bytes (take 4 (sha256 (pk @ ip_octets sender_ip @ secret_salt))))"

record pow =
  pow_value :: bytes
  pow_challange :: u32
  pow_nonce :: u32
  pow_signature :: "bytes option"
  pow_attestation :: "attest_report option"
  pow_difficulty :: u32

definition pow_calculate :: "(bytes \<Rightarrow> bytes) \<Rightarrow> bytes \<Rightarrow> u32 \<Rightarrow> u32 \<Rightarrow> bytes" where
  "pow_calculate sha256 pk challenge nonce =
     sha256 (pk @ to_be_bytes_u32 challenge @ to_be_bytes_u32 nonce)"

fun zero_bytes :: "bytes \<Rightarrow> nat \<Rightarrow> bool option" where
  "zero_bytes hash 0 = Some True"
| "zero_bytes [] (Suc n) = None"
| "zero_bytes (b # hash) (Suc n) = (if b \<noteq> 0 then Some False else zero_bytes hash n)"

definition pow_validate :: "bytes \<Rightarrow> u32 \<Rightarrow> bool option" where
  "pow_validate hash difficulty =
     (let target_zeros = unat difficulty;
          full_bytes = target_zeros div 8;
          remaining_bits = target_zeros mod 8
      in case zero_bytes hash full_bytes of
           None \<Rightarrow> None
         | Some False \<Rightarrow> Some False
         | Some True \<Rightarrow>
             if 0 < remaining_bits then
               if full_bytes < length hash
               then Some ((hash ! full_bytes) AND push_bit (8 - remaining_bits) 0xFF = 0)
               else None
             else Some True)"

text \<open>The search for a nonce: the outer option is a search that never ends, the inner one a
  panic.\<close>

partial_function (option) prove_loop ::
  "(bytes \<Rightarrow> bytes) \<Rightarrow> signer \<Rightarrow> bytes \<Rightarrow> u32 \<Rightarrow> u32 \<Rightarrow> u32 \<Rightarrow> (auth_error + pow) option option" where
  "prove_loop sha256 sg pk challenge difficulty nonce =
     (let hash = pow_calculate sha256 pk challenge nonce
      in case pow_validate hash difficulty of
           None \<Rightarrow> Some None
         | Some ok \<Rightarrow>
             if ok then
               (case signer_sign sg hash of
                  None \<Rightarrow> Some (Some (Inl PowSignFailed))
                | Some s \<Rightarrow>
                    Some (Some (Inr \<lparr>pow_value = hash, pow_challange = challenge, pow_nonce = nonce,
                      pow_signature = Some s, pow_attestation = None, pow_difficulty = difficulty\<rparr>)))
             else prove_loop sha256 sg pk challenge difficulty (nonce + 1))"

definition pow_prove ::
  "(bytes \<Rightarrow> bytes) \<Rightarrow> signer \<Rightarrow> bytes \<Rightarrow> u32 \<Rightarrow> u32 \<Rightarrow> (auth_error + pow) option option" where
  "pow_prove sha256 sg pk challenge difficulty = prove_loop sha256 sg pk challenge difficulty 0"

definition pow_verify :: "(bytes \<Rightarrow> bytes) \<Rightarrow> verifier \<Rightarrow> pow \<Rightarrow> bytes \<Rightarrow> bool option" where
  "pow_verify sha256 verify p pk =
     (case pow_signature p of
        None \<Rightarrow> Some False
      | Some signature \<Rightarrow>
          let expected_hash = pow_calculate sha256 pk (pow_challange p) (pow_nonce p)
          in if expected_hash \<noteq> pow_value p then Some False
             else case pow_validate expected_hash (pow_difficulty p) of
                    None \<Rightarrow> None
                  | Some False \<Rightarrow> Some False
                  | Some True \<Rightarrow> Some (verify pk (pow_value p) signature))"

subsection \<open>Tokens\<close>

record token =
  tk_swarm_id :: bytes
  tk_peer :: bytes
  tk_pow :: bytes
  issued_at :: u64
  exp_at :: u64
  tk_issuer :: bytes
  issuer_ca_cert :: bytes
  issuer_ca_cert_sig :: bytes
  tk_trust_level :: trust_level
  tk_signature :: "bytes option"

definition Token_new :: "bytes \<Rightarrow> bytes \<Rightarrow> trust_level \<Rightarrow> token" where
  "Token_new peer pw level =
     \<lparr>tk_swarm_id = replicate 32 0, tk_peer = peer, tk_pow = pw, issued_at = 0, exp_at = 0, tk_issuer = [],
      issuer_ca_cert = [], issuer_ca_cert_sig = [], tk_trust_level = level, tk_signature = None\<rparr>"

definition token_sender :: "(bytes \<Rightarrow> bytes) \<Rightarrow> token \<Rightarrow> key" where
  "token_sender sha256 t = Key_new sha256 (tk_peer t)"

definition bind_swarm :: "token \<Rightarrow> bytes \<Rightarrow> bytes \<Rightarrow> bytes \<Rightarrow> token" where
  "bind_swarm t swarm_id ca_cert ca_cert_sig =
     t\<lparr>issuer_ca_cert := ca_cert, issuer_ca_cert_sig := ca_cert_sig, tk_swarm_id := swarm_id\<rparr>"

fun trust_byte :: "trust_level \<Rightarrow> u8" where
  "trust_byte Attested = 0"
| "trust_byte Unattested = 1"
| "trust_byte Rejected = 2"

definition calculate_hash :: "(bytes \<Rightarrow> bytes) \<Rightarrow> token \<Rightarrow> bytes \<Rightarrow> bytes" where
  "calculate_hash sha256 t issuer =
     sha256 (tk_peer t @ tk_pow t @ to_be_bytes_u64 (exp_at t) @ to_be_bytes_u64 (issued_at t)
       @ [trust_byte (tk_trust_level t)] @ tk_swarm_id t @ issuer_ca_cert t @ issuer_ca_cert_sig t @ issuer)"

definition token_hash :: "(bytes \<Rightarrow> bytes) \<Rightarrow> token \<Rightarrow> bytes" where
  "token_hash sha256 t = calculate_hash sha256 t (tk_issuer t)"

definition token_sign :: "(bytes \<Rightarrow> bytes) \<Rightarrow> u64 \<Rightarrow> signer \<Rightarrow> token \<Rightarrow> auth_error + token" where
  "token_sign sha256 now sg t =
     (let t = t\<lparr>issued_at := now, exp_at := now + TOKEN_EXP_SECONDS\<rparr>
      in case signer_sign sg (calculate_hash sha256 t (signer_pub_key sg)) of
           None \<Rightarrow> Inl UnAuthorized
         | Some s \<Rightarrow> Inr (t\<lparr>tk_issuer := signer_pub_key sg, tk_signature := Some s\<rparr>))"

definition token_is_expired :: "u64 \<Rightarrow> token \<Rightarrow> bool" where
  "token_is_expired now t \<longleftrightarrow> (if exp_at t = 0 then True else exp_at t < now)"

definition token_verify :: "(bytes \<Rightarrow> bytes) \<Rightarrow> verifier \<Rightarrow> u64 \<Rightarrow> token \<Rightarrow> bool" where
  "token_verify sha256 verify now t =
     (if token_is_expired now t then False
      else case tk_signature t of
             None \<Rightarrow> False
           | Some signature \<Rightarrow> verify (tk_issuer t) (calculate_hash sha256 t (tk_issuer t)) signature)"

definition verify_for :: "(bytes \<Rightarrow> bytes) \<Rightarrow> verifier \<Rightarrow> u64 \<Rightarrow> token \<Rightarrow> bytes \<Rightarrow> bool" where
  "verify_for sha256 verify now t pk = (if tk_peer t \<noteq> pk then False else token_verify sha256 verify now t)"

record ('k, 's) pgp =
  pgp_parse :: "bytes \<Rightarrow> 's option"
  pgp_print :: "'s \<Rightarrow> bytes option"
  pgp_check :: "'s \<Rightarrow> 'k \<Rightarrow> bytes \<Rightarrow> bool"

definition verify_pgp :: "('k, 's) pgp \<Rightarrow> token \<Rightarrow> (bytes \<rightharpoonup> 'k) \<Rightarrow> bool" where
  "verify_pgp lib t pgp_keys =
     (if issuer_ca_cert_sig t = [] then False
      else case pgp_keys (tk_swarm_id t) of
             None \<Rightarrow> False
           | Some pgp_key \<Rightarrow>
               (case pgp_parse lib (issuer_ca_cert_sig t) of
                  None \<Rightarrow> False
                | Some s \<Rightarrow> pgp_check lib s pgp_key (issuer_ca_cert t)))"

subsection \<open>The rate limiter\<close>

record rate_limiter =
  requests :: "key \<rightharpoonup> u32 \<times> u64"
  max_per_window :: u32
  window_seconds :: u64

definition RateLimiter_new :: "u32 \<Rightarrow> u64 \<Rightarrow> rate_limiter" where
  "RateLimiter_new m w = \<lparr>requests = Map.empty, max_per_window = m, window_seconds = w\<rparr>"

definition retain_windows :: "u64 \<Rightarrow> u64 \<Rightarrow> (key \<rightharpoonup> u32 \<times> u64) \<Rightarrow> (key \<rightharpoonup> u32 \<times> u64)" where
  "retain_windows now window reqs =
     (\<lambda>k. case reqs k of Some (c, start) \<Rightarrow> if now - start \<le> window then Some (c, start) else None | None \<Rightarrow> None)"

definition rate_check :: "u64 \<Rightarrow> rate_limiter \<Rightarrow> key \<Rightarrow> bool \<times> rate_limiter" where
  "rate_check now rl sender_key =
     (let reqs = retain_windows now (window_seconds rl) (requests rl);
          (cnt, start) = (case reqs sender_key of Some e \<Rightarrow> e | None \<Rightarrow> (0, now));
          reqs = reqs(sender_key \<mapsto> (cnt, start))
      in if window_seconds rl < now - start then (True, rl\<lparr>requests := reqs(sender_key \<mapsto> (1, now))\<rparr>)
         else if max_per_window rl \<le> cnt then (False, rl\<lparr>requests := reqs\<rparr>)
         else (True, rl\<lparr>requests := reqs(sender_key \<mapsto> (cnt + 1, start))\<rparr>))"

subsection \<open>The manager\<close>

record 's auth_manager =
  am_ca_cert :: bytes
  am_pgp_details :: "(bytes \<times> 's) option"
  am_signer :: signer
  am_secret_salt :: bytes
  am_rate_limiter :: rate_limiter
  am_token :: "token option"

definition am_challange :: "(bytes \<Rightarrow> bytes) \<Rightarrow> 's auth_manager \<Rightarrow> bytes \<Rightarrow> ip_addr \<Rightarrow> u32" where
  "am_challange sha256 am pk ip = calculate_challenge sha256 pk ip (am_secret_salt am)"

definition refresh_salt :: "'s auth_manager \<Rightarrow> bytes \<Rightarrow> 's auth_manager" where
  "refresh_salt am salt = am\<lparr>am_secret_salt := salt\<rparr>"

definition SANCTUM_DEV_PUBLIC_KEY :: bytes where
  "SANCTUM_DEV_PUBLIC_KEY =
     [0x0f, 0xaa, 0xd4, 0xff, 0x01, 0x17, 0x85, 0x83, 0xba, 0xa5, 0x88, 0x96, 0x6f, 0x7c, 0x1f, 0xf3,
      0x25, 0x64, 0xdd, 0x17, 0xd7, 0xdc, 0x2b, 0x46, 0xcb, 0x50, 0xa8, 0x4a, 0x69, 0x27, 0x0b, 0x4c]"

definition issue_token ::
  "(bytes \<Rightarrow> bytes) \<Rightarrow> verifier \<Rightarrow> verifier \<Rightarrow> ('k, 's) pgp \<Rightarrow> (string \<Rightarrow> bytes option) \<Rightarrow> u64 \<Rightarrow> 's auth_manager
     \<Rightarrow> node \<Rightarrow> pow \<Rightarrow> string \<Rightarrow> (auth_error + token) option" where
  "issue_token sha256 verify ed_verify lib manifest now am sender secret app_version =
     (case pow_verify sha256 verify secret (pub_key (node_id sender)) of
        None \<Rightarrow> None
      | Some False \<Rightarrow> Some (Inl RoguePeer)
      | Some True \<Rightarrow>
          let level =
            (case pow_attestation secret of
               Some report \<Rightarrow>
                 (case manifest app_version of
                    None \<Rightarrow> Some (Inl ManifestError)
                  | Some expected \<Rightarrow>
                      map_option (\<lambda>ok. Inr (if ok then Attested else Rejected))
                        (keystone_verify ed_verify report (pow_value secret) expected SANCTUM_DEV_PUBLIC_KEY))
             | None \<Rightarrow> Some (Inr Unattested))
          in case level of
               None \<Rightarrow> None
             | Some (Inl e) \<Rightarrow> Some (Inl e)
             | Some (Inr trust) \<Rightarrow>
                 let t = Token_new (pub_key (node_id sender)) (pow_value secret) trust
                 in (case am_pgp_details am of
                       Some (swarm_id, s) \<Rightarrow>
                         (case pgp_print lib s of
                            None \<Rightarrow> Some (Inl InvalidPGPSignature)
                          | Some sig_bytes \<Rightarrow>
                              Some (token_sign sha256 now (am_signer am) (bind_swarm t swarm_id (am_ca_cert am) sig_bytes)))
                     | None \<Rightarrow> Some (token_sign sha256 now (am_signer am) t)))"

definition store_token :: "'s auth_manager \<Rightarrow> token \<Rightarrow> 's auth_manager" where
  "store_token am t = am\<lparr>am_token := Some t\<rparr>"

definition best_token :: "u64 \<Rightarrow> 's auth_manager \<Rightarrow> token option" where
  "best_token now am =
     (case am_token am of Some t \<Rightarrow> if \<not> token_is_expired now t then Some t else None | None \<Rightarrow> None)"

definition check_rate :: "u64 \<Rightarrow> 's auth_manager \<Rightarrow> key \<Rightarrow> (auth_error + unit) \<times> 's auth_manager" where
  "check_rate now am peer =
     (case rate_check now (am_rate_limiter am) peer of
        (ok, rl) \<Rightarrow> (if \<not> ok then Inl RateLimited else Inr (), am\<lparr>am_rate_limiter := rl\<rparr>))"

subsection \<open>Leading zero bits\<close>

lemma zero_bytes_all: "n \<le> length hash \<Longrightarrow> zero_bytes hash n = Some (\<forall>i<n. hash ! i = 0)"
proof (induction hash n rule: zero_bytes.induct)
  case (3 b hash n)
  have "(\<forall>i<Suc n. (b # hash) ! i = 0) \<longleftrightarrow> b = 0 \<and> (\<forall>i<n. hash ! i = 0)"
    by (auto simp: less_Suc_eq_0_disj)
  then show ?case using 3 by simp
qed simp_all

lemma high_mask_zero:
  fixes b :: u8
  assumes "r \<le> 8"
  shows "b AND push_bit (8 - r) 0xFF = 0 \<longleftrightarrow> (\<forall>j<r. \<not> bit b (7 - j))"
proof -
  have ff: "(0xFF :: u8) = - 1" by simp
  have "b AND push_bit (8 - r) 0xFF = 0 \<longleftrightarrow> (\<forall>m. \<not> (bit b m \<and> 8 - r \<le> m \<and> m < 8))"
    unfolding ff by (auto simp: bit_eq_iff bit_and_iff bit_push_bit_iff bit_not_iff bit_mask_iff bit_imp_le_length not_less[symmetric])
  also have "\<dots> \<longleftrightarrow> (\<forall>j<r. \<not> bit b (7 - j))"
  proof
    assume *: "\<forall>m. \<not> (bit b m \<and> 8 - r \<le> m \<and> m < 8)"
    show "\<forall>j<r. \<not> bit b (7 - j)"
    proof (intro allI impI)
      fix j assume "j < r"
      then have "8 - r \<le> 7 - j" "7 - j < 8" using assms by auto
      then show "\<not> bit b (7 - j)" using * by blast
    qed
  next
    assume *: "\<forall>j<r. \<not> bit b (7 - j)"
    show "\<forall>m. \<not> (bit b m \<and> 8 - r \<le> m \<and> m < 8)"
    proof (intro allI notI)
      fix m assume m: "bit b m \<and> 8 - r \<le> m \<and> m < 8"
      then have "7 - m < r" "7 - (7 - m) = m" by auto
      then show False using * m by metis
    qed
  qed
  finally show ?thesis .
qed

lemma byte_zero_bits: "(b :: u8) = 0 \<longleftrightarrow> (\<forall>j<8. \<not> bit b (7 - j))"
proof -
  have "(0xFF :: u8) = - 1" by simp
  then have "b AND 0xFF = b" by (simp only: and.right_neutral)
  then show ?thesis using high_mask_zero[of 8 b] by simp
qed

definition leading_zeros :: "bytes \<Rightarrow> nat \<Rightarrow> bool" where
  "leading_zeros hash d \<longleftrightarrow> (\<forall>i<d. \<not> id_bit hash i)"

lemma leading_zeros_split:
  "leading_zeros hash d \<longleftrightarrow> (\<forall>i<d div 8. hash ! i = 0) \<and> (\<forall>j<d mod 8. \<not> bit (hash ! (d div 8)) (7 - j))"
    (is "?l \<longleftrightarrow> ?f \<and> ?r")
proof
  assume l: ?l
  have "\<not> bit (hash ! i) (7 - j)" if "8 * i + j < d" "j < 8" for i j
  proof -
    have "(8 * i + j) div 8 = i" "(8 * i + j) mod 8 = j" using that(2) by simp_all
    then show ?thesis using l that(1) unfolding leading_zeros_def id_bit_def by metis
  qed
  moreover have "8 * i + j < d" if "i < d div 8" "j < 8" for i j using that by presburger
  moreover have "8 * (d div 8) + j < d" "j < 8" if "j < d mod 8" for j using that by presburger+
  ultimately show "?f \<and> ?r" unfolding byte_zero_bits by blast
next
  assume fr: "?f \<and> ?r"
  show ?l
    unfolding leading_zeros_def id_bit_def
  proof (intro allI impI)
    fix i assume "i < d"
    then consider "i div 8 < d div 8" | "i div 8 = d div 8" "i mod 8 < d mod 8"
      by (metis div_le_mono le_neq_implies_less less_imp_le_nat add_less_cancel_left mult_div_mod_eq)
    then show "\<not> bit (hash ! (i div 8)) (7 - i mod 8)"
      using fr by cases (auto simp: byte_zero_bits)
  qed
qed

lemma pow_validate_zeros:
  assumes "length hash = 32" and "unat d \<le> 256"
  shows "pow_validate hash d = Some (leading_zeros hash (unat d))"
proof -
  let ?n = "unat d div 8"
  have n: "?n \<le> length hash" using assms by simp
  have inside: "?n < length hash" if "0 < unat d mod 8"
    using assms(2) that unfolding assms(1) by presburger
  have m: "(hash ! ?n AND push_bit (8 - unat d mod 8) 0xFF = 0) \<longleftrightarrow> (\<forall>j<unat d mod 8. \<not> bit (hash ! ?n) (7 - j))"
    by (rule high_mask_zero) simp
  show ?thesis
    unfolding pow_validate_def Let_def zero_bytes_all[OF n] leading_zeros_split m
    using inside by (auto split: bool.split)
qed

subsection \<open>The search for a nonce\<close>

lemma prove_loop_finds:
  assumes valid: "\<And>k. \<exists>b. pow_validate (pow_calculate H pk ch k) d = Some b"
    and hit: "pow_validate (pow_calculate H pk ch n) d = Some True"
    and sg: "\<And>m. \<exists>s. signer_sign sg m = Some s"
  shows "unat m \<le> unat n \<Longrightarrow> \<exists>k s. prove_loop H sg pk ch d m =
      Some (Some (Inr \<lparr>pow_value = pow_calculate H pk ch k, pow_challange = ch, pow_nonce = k,
                       pow_signature = Some s, pow_attestation = None, pow_difficulty = d\<rparr>))
     \<and> pow_validate (pow_calculate H pk ch k) d = Some True \<and> signer_sign sg (pow_calculate H pk ch k) = Some s"
proof (induction "unat n - unat m" arbitrary: m rule: less_induct)
  case less
  obtain b where b: "pow_validate (pow_calculate H pk ch m) d = Some b" using valid by blast
  show ?case
  proof (cases b)
    case True
    obtain s where "signer_sign sg (pow_calculate H pk ch m) = Some s" using sg by blast
    then show ?thesis using b True by (auto simp: prove_loop.simps[of H sg pk ch d m])
  next
    case False
    then have "m \<noteq> n" using b hit by auto
    then have lt: "unat m < unat n" using less.prems by (simp add: word_unat_eq_iff)
    then have "unat m + unat (1 :: u32) < 2 ^ LENGTH(32)" using unat_u32_less[of n] by simp
    then have "unat (m + 1) = unat m + unat (1 :: u32)" by (rule iffD1[OF unat_add_lem])
    then have "unat (m + 1) = Suc (unat m)" by simp
    then have "\<exists>k s. prove_loop H sg pk ch d (m + 1) =
      Some (Some (Inr \<lparr>pow_value = pow_calculate H pk ch k, pow_challange = ch, pow_nonce = k,
                       pow_signature = Some s, pow_attestation = None, pow_difficulty = d\<rparr>))
     \<and> pow_validate (pow_calculate H pk ch k) d = Some True \<and> signer_sign sg (pow_calculate H pk ch k) = Some s"
      using lt by (intro less.hyps) auto
    then show ?thesis using b False by (simp add: prove_loop.simps[of H sg pk ch d m])
  qed
qed

subsection \<open>A window of the rate limiter\<close>

fun rate_run :: "rate_limiter \<Rightarrow> (key \<times> u64) list \<Rightarrow> (key \<times> bool) list" where
  "rate_run rl [] = []"
| "rate_run rl ((k, now) # evs) = (case rate_check now rl k of (ok, rl') \<Rightarrow> (k, ok) # rate_run rl' evs)"

definition accepted :: "key \<Rightarrow> (key \<times> bool) list \<Rightarrow> nat" where
  "accepted k rs = length (filter (\<lambda>(k', ok). k' = k \<and> ok) rs)"

definition requested :: "key \<Rightarrow> (key \<times> u64) list \<Rightarrow> nat" where
  "requested k evs = length (filter (\<lambda>(k', t). k' = k) evs)"

lemma rate_check_params:
  "rate_check now rl k = (ok, rl') \<Longrightarrow> max_per_window rl' = max_per_window rl \<and> window_seconds rl' = window_seconds rl"
  by (auto simp: rate_check_def Let_def split: prod.splits if_splits)

lemma rate_check_other:
  "rate_check now rl j = (ok, rl') \<Longrightarrow> k \<noteq> j
    \<Longrightarrow> requests rl' k = retain_windows now (window_seconds rl) (requests rl) k"
  by (auto simp: rate_check_def Let_def split: prod.splits if_splits)

lemma rate_check_open:
  assumes "requests rl k = Some (c, s)" and "now - s \<le> window_seconds rl"
  shows "rate_check now rl k =
     (let reqs = retain_windows now (window_seconds rl) (requests rl)
      in if max_per_window rl \<le> c then (False, rl\<lparr>requests := reqs(k \<mapsto> (c, s))\<rparr>)
         else (True, rl\<lparr>requests := reqs(k \<mapsto> (c + 1, s))\<rparr>))"
  using assms by (auto simp: rate_check_def retain_windows_def Let_def not_less[symmetric])

lemma unat_Suc_less: "(c :: u32) < m \<Longrightarrow> unat (c + 1) = Suc (unat c)"
proof -
  assume "c < m"
  then have "unat c + unat (1 :: u32) < 2 ^ LENGTH(32)"
    using unat_u32_less[of m] by (simp add: word_less_nat_alt)
  then have "unat (c + 1) = unat c + unat (1 :: u32)" by (rule iffD1[OF unat_add_lem])
  then show ?thesis by simp
qed

lemma open_window_accepts:
  "requests rl k = Some (c, s) \<Longrightarrow> c \<le> max_per_window rl \<Longrightarrow> \<forall>(j, t)\<in>set evs. t - s \<le> window_seconds rl
    \<Longrightarrow> accepted k (rate_run rl evs) = min (unat (max_per_window rl) - unat c) (requested k evs)"
proof (induction evs arbitrary: rl c)
  case Nil
  then show ?case by (simp add: accepted_def requested_def)
next
  case (Cons e evs)
  obtain j t where e: "e = (j, t)" by (cases e)
  obtain ok rl' where rc: "rate_check t rl j = (ok, rl')" by (cases "rate_check t rl j")
  note par = rate_check_params[OF rc]
  have now: "t - s \<le> window_seconds rl" and rest: "\<forall>(j, t)\<in>set evs. t - s \<le> window_seconds rl'"
    using Cons.prems(3) par by (auto simp: e)
  show ?case
  proof (cases "j = k")
    case False
    then have "requests rl' k = Some (c, s)"
      using rate_check_other[OF rc, of k] Cons.prems(1) now by (simp add: retain_windows_def)
    from Cons.IH[OF this _ rest] show ?thesis
      using Cons.prems(2) par False by (simp add: e rc accepted_def requested_def)
  next
    case True
    note chk = rate_check_open[OF Cons.prems(1) now] rc
    have rk: "rate_check t rl k = (ok, rl')" using rc True by simp
    show ?thesis
    proof (cases "max_per_window rl \<le> c")
      case full: True
      then have "requests rl' k = Some (c, s)" "\<not> ok" using chk True by (auto simp: Let_def)
      from Cons.IH[OF this(1) _ rest] show ?thesis
        using Cons.prems(2) par True full \<open>\<not> ok\<close>
        by (simp add: e rk accepted_def requested_def word_le_nat_alt)
    next
      case False
      then have lt: "c < max_per_window rl" by simp
      have st: "requests rl' k = Some (c + 1, s)" ok using chk True False by (auto simp: Let_def)
      have "c + 1 \<le> max_per_window rl'"
        using lt unat_Suc_less[OF lt] par by (simp add: word_less_nat_alt word_le_nat_alt)
      from Cons.IH[OF st(1) this rest] show ?thesis
        using lt par True st(2) unat_Suc_less[OF lt]
        by (simp add: e rk accepted_def requested_def word_less_nat_alt)
    qed
  qed
qed

lemma word_diff_mono:
  fixes a b t w :: u64
  assumes "a \<le> b" and "b \<le> t" and "t - a \<le> w"
  shows "t - b \<le> w"
proof -
  have "unat (t - b) = unat t - unat b" "unat (t - a) = unat t - unat a"
    using assms(1,2) by (auto intro!: unat_sub)
  then show ?thesis using assms unfolding word_le_nat_alt by linarith
qed

lemma fresh_window_accepts:
  "requests rl k = None \<Longrightarrow> \<forall>(j, t)\<in>set evs. t0 \<le> t \<and> t - t0 \<le> window_seconds rl \<Longrightarrow> sorted (map snd evs)
    \<Longrightarrow> accepted k (rate_run rl evs) = min (unat (max_per_window rl)) (requested k evs)"
proof (induction evs arbitrary: rl)
  case Nil
  then show ?case by (simp add: accepted_def requested_def)
next
  case (Cons e evs)
  obtain j t where e: "e = (j, t)" by (cases e)
  obtain ok rl' where rc: "rate_check t rl j = (ok, rl')" by (cases "rate_check t rl j")
  note par = rate_check_params[OF rc]
  show ?case
  proof (cases "j = k")
    case False
    then have "requests rl' k = None"
      using rate_check_other[OF rc, of k] Cons.prems(1) by (simp add: retain_windows_def)
    from Cons.IH[OF this] show ?thesis
      using Cons.prems(2,3) par False by (auto simp: e rc accepted_def requested_def)
  next
    case True
    define rl0 where "rl0 = rl\<lparr>requests := (requests rl)(k \<mapsto> (0, t))\<rparr>"
    have "rate_check t rl k = rate_check t rl0 k"
      by (simp add: rl0_def rate_check_def retain_windows_def Let_def Cons.prems(1) fun_eq_iff split: option.splits)
    then have same: "rate_run rl (e # evs) = rate_run rl0 (e # evs)" by (simp add: e True)
    have "\<forall>(j, u)\<in>set (e # evs). u - t \<le> window_seconds rl0"
    proof safe
      fix j' u assume m: "(j', u) \<in> set (e # evs)"
      then have "t \<le> u" using Cons.prems(3) by (auto simp: e)
      moreover have "t0 \<le> t" "u - t0 \<le> window_seconds rl" using Cons.prems(2) m by (auto simp: e)
      ultimately show "u - t \<le> window_seconds rl0" by (simp add: rl0_def word_diff_mono)
    qed
    then have "accepted k (rate_run rl0 (e # evs)) = min (unat (max_per_window rl0) - unat (0 :: u32)) (requested k (e # evs))"
      by (intro open_window_accepts[where s = t]) (simp_all add: rl0_def)
    then show ?thesis unfolding same by (simp add: rl0_def)
  qed
qed

subsection \<open>Signed tokens\<close>

definition signs :: "verifier \<Rightarrow> signer \<Rightarrow> bool" where
  "signs verify sg \<longleftrightarrow> (\<forall>m s. signer_sign sg m = Some s \<longrightarrow> verify (signer_pub_key sg) m s)"

lemma unat_expiry: "unat now + 1800 < 2 ^ 64 \<Longrightarrow> unat (now + TOKEN_EXP_SECONDS) = unat now + 1800"
proof -
  assume "unat now + 1800 < 2 ^ 64"
  then have "unat now + unat TOKEN_EXP_SECONDS < 2 ^ LENGTH(64)" by (simp add: TOKEN_EXP_SECONDS_def)
  then have "unat (now + TOKEN_EXP_SECONDS) = unat now + unat TOKEN_EXP_SECONDS" by (rule iffD1[OF unat_add_lem])
  then show ?thesis by (simp add: TOKEN_EXP_SECONDS_def)
qed

lemma token_sign_fields:
  assumes "token_sign H now sg t0 = Inr t"
  shows "tk_peer t = tk_peer t0" "exp_at t = now + TOKEN_EXP_SECONDS" "tk_issuer t = signer_pub_key sg"
    "issuer_ca_cert t = issuer_ca_cert t0" "issuer_ca_cert_sig t = issuer_ca_cert_sig t0"
    "tk_swarm_id t = tk_swarm_id t0" "tk_trust_level t = tk_trust_level t0"
    "\<exists>s. tk_signature t = Some s \<and> signer_sign sg (calculate_hash H t (signer_pub_key sg)) = Some s"
  using assms by (auto simp: token_sign_def Let_def calculate_hash_def split: option.splits)

lemma signed_token_valid:
  assumes "token_sign H now sg t0 = Inr t" and "signs verify sg" and "unat now + 1800 < 2 ^ 64"
  shows "token_verify H verify later t \<longleftrightarrow> later \<le> now + TOKEN_EXP_SECONDS"
proof -
  note f = token_sign_fields[OF assms(1)]
  have "exp_at t \<noteq> 0" using unat_expiry[OF assms(3)] by (simp add: f(2) word_unat_eq_iff)
  then show ?thesis
    using f(2,3,8) assms(2) by (auto simp: token_verify_def token_is_expired_def signs_def not_less)
qed

lemma token_sign_total: "\<forall>m. signer_sign sg m \<noteq> None \<Longrightarrow> \<exists>t. token_sign H now sg t0 = Inr t"
  by (fastforce simp: token_sign_def Let_def split: option.split)

lemma tk_peer_simps [simp]: "tk_peer (Token_new pk pw l) = pk" "tk_peer (bind_swarm t sw c b) = tk_peer t"
  by (simp_all add: Token_new_def bind_swarm_def)

lemma issue_token_signed:
  assumes "issue_token H verify ed lib manifest now am sender secret ver = Some (Inr t)"
  shows "pow_verify H verify secret (pub_key (node_id sender)) = Some True"
    and "\<exists>t0. token_sign H now (am_signer am) t0 = Inr t \<and> tk_peer t0 = pub_key (node_id sender)"
proof -
  show "pow_verify H verify secret (pub_key (node_id sender)) = Some True"
    using assms unfolding issue_token_def by (auto split: option.splits bool.splits)
  then show "\<exists>t0. token_sign H now (am_signer am) t0 = Inr t \<and> tk_peer t0 = pub_key (node_id sender)"
    using assms unfolding issue_token_def Let_def
    by (auto split: option.splits sum.splits prod.splits intro: exI[of _ "bind_swarm _ _ _ _"] exI[of _ "Token_new _ _ _"])
qed

subsection \<open>Properties\<close>

text \<open>The proof-of-work test accepts a digest exactly when its first \<open>difficulty\<close> bits are
  zero, for every difficulty up to the length of the digest.\<close>

lemma pow_validate_leading_zeros:
  assumes "length hash = 32" and "unat difficulty \<le> 256"
  shows "pow_validate hash difficulty = Some (\<forall>i<unat difficulty. \<not> id_bit hash i)"
  using pow_validate_zeros[OF assms] by (simp add: leading_zeros_def)

text \<open>When some nonce meets the difficulty, the search started at nonce zero ends, and the
  proof it returns passes verification under the prover's key and meets the difficulty.\<close>

lemma pow_search_ends_with_valid_proof:
  assumes sha: "\<forall>m. length (sha256 m) = 32" and d: "unat difficulty \<le> 256"
    and hit: "leading_zeros (pow_calculate sha256 (signer_pub_key sg) challenge nonce) (unat difficulty)"
    and total: "\<forall>m. signer_sign sg m \<noteq> None" and sg: "signs verify sg"
  shows "\<exists>p. pow_prove sha256 sg (signer_pub_key sg) challenge difficulty = Some (Some (Inr p)) \<and>
     pow_verify sha256 verify p (signer_pub_key sg) = Some True \<and> leading_zeros (pow_value p) (unat difficulty)"
proof -
  let ?pk = "signer_pub_key sg" and ?hash = "pow_calculate sha256 (signer_pub_key sg) challenge"
  have val: "pow_validate (?hash k) difficulty = Some (leading_zeros (?hash k) (unat difficulty))" for k
    using sha d by (intro pow_validate_zeros) (simp_all add: pow_calculate_def)
  obtain k s where loop: "prove_loop sha256 sg ?pk challenge difficulty 0 =
      Some (Some (Inr \<lparr>pow_value = ?hash k, pow_challange = challenge, pow_nonce = k,
                       pow_signature = Some s, pow_attestation = None, pow_difficulty = difficulty\<rparr>))"
    and ok: "pow_validate (?hash k) difficulty = Some True" and s: "signer_sign sg (?hash k) = Some s"
    using prove_loop_finds[of sha256 ?pk challenge difficulty nonce sg 0] val hit total by auto
  show ?thesis
    using ok s sg val[of k] by (auto simp: pow_prove_def loop pow_verify_def Let_def signs_def)
qed

text \<open>A token is issued only for a proof of work that verifies, and it is then valid for the
  peer that earned it from its issue until thirty minutes later, not after, and for no other
  public key.\<close>

lemma issued_token_lifetime:
  assumes issue: "issue_token sha256 verify ed_verify lib manifest now am sender secret app_version = Some (Inr t)"
    and sg: "signs verify (am_signer am)" and small: "unat now + 1800 < 2 ^ 64"
  shows "pow_verify sha256 verify secret (pub_key (node_id sender)) = Some True \<and>
     (verify_for sha256 verify later t pk \<longleftrightarrow> pk = pub_key (node_id sender) \<and> unat later \<le> unat now + 1800)"
proof -
  obtain t0 where t0: "token_sign sha256 now (am_signer am) t0 = Inr t" "tk_peer t0 = pub_key (node_id sender)"
    using issue_token_signed(2)[OF issue] by blast
  then show ?thesis
    using issue_token_signed(1)[OF issue] signed_token_valid[OF t0(1) sg small, of later] token_sign_fields(1)[OF t0(1)]
    by (auto simp: verify_for_def word_le_nat_alt unat_expiry[OF small])
qed

definition sample_manager :: "nat auth_manager" where
  "sample_manager = \<lparr>am_ca_cert = [9], am_pgp_details = None, am_signer = \<lparr>signer_pub_key = [7], signer_sign = Some\<rparr>,
     am_secret_salt = [], am_rate_limiter = RateLimiter_new 100 60, am_token = None\<rparr>"

definition sample_pow :: pow where
  "sample_pow = \<lparr>pow_value = replicate 32 0, pow_challange = 5, pow_nonce = 0, pow_signature = Some (replicate 32 0),
     pow_attestation = None, pow_difficulty = 0\<rparr>"

definition sample_pgp :: "(nat, nat) pgp" where
  "sample_pgp = \<lparr>pgp_parse = (\<lambda>b. Some (length b)), pgp_print = (\<lambda>s. Some (replicate s 0)), pgp_check = (\<lambda>s k c. s = k)\<rparr>"

text \<open>C28: within one window of a fresh limiter entry, requests of other peers notwithstanding,
  exactly the first hundred requests of a peer are let through.\<close>

theorem rate_limiter_window:
  assumes "requests rl k = None" and "max_per_window rl = REQUEST_NUMBER" and "window_seconds rl = REQUEST_PER_SECOND"
    and "\<forall>(j, t)\<in>set evs. t0 \<le> t \<and> t - t0 \<le> 60" and "sorted (map snd evs)"
  shows "accepted k (rate_run rl evs) = min 100 (requested k evs)"
  using fresh_window_accepts[of rl k evs t0] assms by (simp add: REQUEST_NUMBER_def REQUEST_PER_SECOND_def)

theorem rate_limiter_window_witness:
  "accepted (Key_new id [1]) (rate_run (RateLimiter_new REQUEST_NUMBER REQUEST_PER_SECOND)
     (replicate 150 (Key_new id [1], 10))) = 100"
  using rate_limiter_window[of "RateLimiter_new REQUEST_NUMBER REQUEST_PER_SECOND" "Key_new id [1]"
      "replicate 150 (Key_new id [1], 10)" 10]
  by (simp add: RateLimiter_new_def requested_def sorted_replicate)

text \<open>C35: nothing ties the issuing key of a token to the certificate that the swarm key signed:
  whoever has seen one accepted token can sign, with any key of their own, tokens for any peer
  that pass both checks, at the highest trust level.\<close>

theorem copied_certificate_forges_tokens:
  assumes seen: "verify_pgp lib t pgp_keys" and total: "\<forall>m. signer_sign forger m \<noteq> None"
    and sg: "signs verify forger" and small: "unat now + 1800 < 2 ^ 64"
  shows "\<exists>t'. tk_issuer t' = signer_pub_key forger \<and> tk_trust_level t' = Attested \<and>
     verify_for sha256 verify now t' pk \<and> verify_pgp lib t' pgp_keys"
proof -
  let ?t0 = "bind_swarm (Token_new pk [] Attested) (tk_swarm_id t) (issuer_ca_cert t) (issuer_ca_cert_sig t)"
  obtain t' where t': "token_sign sha256 now forger ?t0 = Inr t'"
    using token_sign_total[OF total] by blast
  note f = token_sign_fields[OF t']
  have "now \<le> now + TOKEN_EXP_SECONDS" using unat_expiry[OF small] by (simp add: word_le_nat_alt)
  then have "verify_for sha256 verify now t' pk"
    using signed_token_valid[OF t' sg small, of now] f(1) by (simp add: verify_for_def bind_swarm_def Token_new_def)
  moreover have cert: "issuer_ca_cert t' = issuer_ca_cert t" "issuer_ca_cert_sig t' = issuer_ca_cert_sig t"
      "tk_swarm_id t' = tk_swarm_id t"
    using f(4-6) by (simp_all add: bind_swarm_def)
  have "verify_pgp lib t' pgp_keys"
    using seen by (simp only: verify_pgp_def cert)
  ultimately show ?thesis using f(3,7) by (intro exI[of _ t']) (simp add: bind_swarm_def Token_new_def)
qed

theorem copied_certificate_forges_tokens_witness:
  "\<exists>t'. tk_issuer t' = [66] \<and> tk_trust_level t' = Attested \<and>
     verify_for id (\<lambda>pk m s. s = m) 1000 t' [5] \<and> verify_pgp sample_pgp t' [replicate 32 0 \<mapsto> 3]"
  using copied_certificate_forges_tokens
    [of sample_pgp "(Token_new [1] [] Unattested)\<lparr>issuer_ca_cert_sig := [1, 2, 3]\<rparr>" "[replicate 32 0 \<mapsto> 3]"
        "\<lparr>signer_pub_key = [66], signer_sign = Some\<rparr>" "\<lambda>pk m s. s = m" 1000 id "[5]"]
  by (simp add: verify_pgp_def sample_pgp_def Token_new_def signs_def)

text \<open>A report whose declared data length exceeds its buffer makes verification panic, and one
  byte of report data is enough to match a nonce of any length.\<close>

lemma oversized_report_panics:
  assumes "dev_public_key r = trusted" and "ed trusted (sm_hash (ar_sm r) @ sm_public_key (ar_sm r)) (sm_signature (ar_sm r))"
    and "length (er_data (ar_enclave r)) < unat (er_data_len (ar_enclave r))"
  shows "keystone_verify ed r nonce expected trusted = None"
  using assms by (simp add: keystone_verify_def Let_def)

lemma one_byte_nonce_suffices:
  assumes "keystone_verify ed r (n # ns) expected trusted = Some True" and "er_data_len (ar_enclave r) = 1"
  shows "keystone_verify ed r (n # ms) expected trusted = Some True"
  using assms by (auto simp: keystone_verify_def Let_def split: if_splits)

text \<open>A report that fails verification lowers the trust level of the token and nothing else.\<close>

lemma rejected_report_still_issues:
  assumes "pow_verify H verify secret (pub_key (node_id sender)) = Some True"
    and "pow_attestation secret = Some report" and "manifest ver = Some expected"
    and "keystone_verify ed report (pow_value secret) expected SANCTUM_DEV_PUBLIC_KEY = Some False"
    and "am_pgp_details am = None" and "\<forall>m. signer_sign (am_signer am) m \<noteq> None"
  shows "\<exists>t. issue_token H verify ed lib manifest now am sender secret ver = Some (Inr t) \<and> tk_trust_level t = Rejected"
  using assms by (auto simp: issue_token_def Let_def token_sign_def Token_new_def split: option.split)

end
