(* ===== verification/DhtStore.thy ===== *)
theory DhtStore
  imports Auth
begin

text \<open>
  The DHT's messages (\<open>dht/message.rs\<close>) and its key-value store (\<open>dht/store.rs\<close>). An
  \<open>IndexMap\<close> is the list of its entries in index order: \<open>insert\<close> of a new key appends,
  \<open>shift_remove\<close> closes the gap. A \<open>HashSet\<close> is a set. The clock is the argument \<open>now\<close>.
\<close>

datatype kademlia_data = DataPeers "sock_addr set" | I2Peers "string set" | Value bytes

fun data_merge :: "kademlia_data \<Rightarrow> kademlia_data \<Rightarrow> kademlia_data" where
  "data_merge (DataPeers existing) (DataPeers new) = DataPeers (existing \<union> new)"
| "data_merge existing new = new"

datatype auth_dht_request =
    PingReq
  | FindNode key
  | FindValue key
  | StoreReq key kademlia_data

datatype dht_request =
    RequestHandshake key
  | SubmitHandshake token bytes
  | RequestChallange key
  | SubmitChallange key bytes u32 bytes "attest_report option" string

record peer_response =
  pr_id :: key
  pr_addr :: sock_addr

definition peer_response_from :: "node \<Rightarrow> peer_response" where
  "peer_response_from n = \<lparr>pr_id = node_id n, pr_addr = node_addr n\<rparr>"

definition node_from_response :: "peer_response \<Rightarrow> node" where
  "node_from_response p = from_socket (pr_id p) (pr_addr p)"

datatype dht_response =
    HandshakeChallange u32
  | Pong key
  | ValueResp key kademlia_data
  | PeersResp key "peer_response list"
  | Challange u32 u32
  | Welcome token

record 'p rpc_envelope =
  env_id :: u64
  env_payload :: 'p

datatype dht_packet =
    RequestPacket "auth_dht_request rpc_envelope"
  | HandShake "dht_request rpc_envelope"
  | ResponsePacket "dht_response rpc_envelope"

subsection \<open>The store\<close>

definition MAX_STORE_ENTRIES :: nat where "MAX_STORE_ENTRIES = 10000"
definition DEFAULT_TTL :: u64 where "DEFAULT_TTL = 35 * 60"

record store_value =
  sv_data :: kademlia_data
  expires_at :: u64

record dht_store =
  ds_store :: "(key \<times> store_value) list"
  max_entries :: nat

definition DHTStore_new :: dht_store where
  "DHTStore_new = \<lparr>ds_store = [], max_entries = MAX_STORE_ENTRIES\<rparr>"

definition shift_remove :: "key \<Rightarrow> (key \<times> store_value) list \<Rightarrow> (key \<times> store_value) list" where
  "shift_remove k es = filter (\<lambda>e. fst e \<noteq> k) es"

definition store_insert :: "u64 \<Rightarrow> dht_store \<Rightarrow> key \<Rightarrow> kademlia_data \<Rightarrow> dht_store" where
  "store_insert now s k v =
     (let expiry = now + DEFAULT_TTL
      in case map_of (ds_store s) k of
           Some entry \<Rightarrow>
             let entry = entry\<lparr>sv_data := data_merge (sv_data entry) v, expires_at := expiry\<rparr>
             in s\<lparr>ds_store := shift_remove k (ds_store s) @ [(k, entry)]\<rparr>
         | None \<Rightarrow>
             let es = (if max_entries s \<le> length (ds_store s) then tl (ds_store s) else ds_store s)
             in s\<lparr>ds_store := es @ [(k, \<lparr>sv_data = v, expires_at = expiry\<rparr>)]\<rparr>)"

definition store_prune :: "u64 \<Rightarrow> dht_store \<Rightarrow> dht_store" where
  "store_prune now s = s\<lparr>ds_store := filter (\<lambda>(_, entry). now < expires_at entry) (ds_store s)\<rparr>"

definition store_get :: "u64 \<Rightarrow> dht_store \<Rightarrow> key \<Rightarrow> kademlia_data option" where
  "store_get now s k =
     (case map_of (ds_store s) k of
        None \<Rightarrow> None
      | Some entry \<Rightarrow> if expires_at entry < now then None else Some (sv_data entry))"

subsection \<open>Invariant\<close>

definition store_wf :: "dht_store \<Rightarrow> bool" where
  "store_wf s \<longleftrightarrow> distinct (map fst (ds_store s)) \<and> length (ds_store s) \<le> max_entries s \<and> max_entries s = MAX_STORE_ENTRIES"

lemma shift_remove_props:
  assumes "distinct (map fst es)" and "map_of es k = Some v"
  shows "distinct (map fst (shift_remove k es))" and "k \<notin> fst ` set (shift_remove k es)"
    and "Suc (length (shift_remove k es)) = length es"
proof -
  show "distinct (map fst (shift_remove k es))"
    using assms(1) unfolding shift_remove_def by (rule distinct_map_filter)
  show "k \<notin> fst ` set (shift_remove k es)" by (auto simp: shift_remove_def)
  show "Suc (length (shift_remove k es)) = length es"
    using assms
  proof (induction es)
    case Nil
    then show ?case by simp
  next
    case (Cons e es)
    then show ?case
      by (cases "fst e = k") (auto simp: shift_remove_def filter_fresh split: if_splits)
  qed
qed

lemma store_insert_wf [wf_intros]: "store_wf s \<Longrightarrow> store_wf (store_insert now s k v)"
proof (cases "map_of (ds_store s) k")
  case None
  assume "store_wf s"
  moreover have "k \<notin> fst ` set (ds_store s)" using None by (simp add: map_of_eq_None_iff)
  ultimately show ?thesis
    using None
    by (cases "ds_store s") (auto simp: store_insert_def store_wf_def Let_def MAX_STORE_ENTRIES_def)
next
  case (Some entry)
  assume wf: "store_wf s"
  then have "distinct (map fst (ds_store s))" by (simp add: store_wf_def)
  from shift_remove_props[OF this Some] wf Some show ?thesis
    by (simp add: store_insert_def store_wf_def Let_def)
qed

lemma store_prune_wf [wf_intros]: "store_wf s \<Longrightarrow> store_wf (store_prune now s)"
  unfolding store_prune_def store_wf_def
  by (auto simp: distinct_map_filter intro: le_trans[OF length_filter_le])

datatype store_event = StoreInsert u64 key kademlia_data | StorePrune u64

fun store_step :: "dht_store \<Rightarrow> store_event \<Rightarrow> dht_store" where
  "store_step s (StoreInsert now k v) = store_insert now s k v"
| "store_step s (StorePrune now) = store_prune now s"

interpretation ds: preserved_by store_step store_wf
proof
  show "store_wf (store_step s e)" if "store_wf s" for s e
    using that by (cases e) (auto intro: wf_intros)
qed

lemma map_of_shift_remove: "map_of (shift_remove k es) j = (if j = k then None else map_of es j)"
  by (induction es) (auto simp: shift_remove_def)

lemma map_of_tl:
  "distinct (map fst es) \<Longrightarrow> map_of (tl es) j = (if es \<noteq> [] \<and> j = fst (hd es) then None else map_of es j)"
  by (cases es) (auto simp: map_of_eq_None_iff)

definition evicts :: "dht_store \<Rightarrow> key \<Rightarrow> key \<Rightarrow> bool" where
  "evicts s k j \<longleftrightarrow> k \<notin> fst ` set (ds_store s) \<and> MAX_STORE_ENTRIES \<le> length (ds_store s) \<and> j = fst (hd (ds_store s))"

lemma map_of_store_insert:
  assumes wf: "store_wf s"
  shows "map_of (ds_store (store_insert now s k v)) j =
     (if j = k then Some \<lparr>sv_data = (case map_of (ds_store s) k of Some e \<Rightarrow> data_merge (sv_data e) v | None \<Rightarrow> v),
                          expires_at = now + DEFAULT_TTL\<rparr>
      else if evicts s k j then None else map_of (ds_store s) j)"
proof (cases "map_of (ds_store s) k")
  case None
  then have fresh: "k \<notin> fst ` set (ds_store s)" by (simp add: map_of_eq_None_iff)
  have dist: "distinct (map fst (ds_store s))" and m: "max_entries s = MAX_STORE_ENTRIES"
    using wf by (auto simp: store_wf_def)
  have k: "map_of (tl (ds_store s)) k = None" using None by (simp add: map_of_tl[OF dist])
  have ne: "ds_store s \<noteq> []" if "MAX_STORE_ENTRIES \<le> length (ds_store s)"
    using that by (auto simp: MAX_STORE_ENTRIES_def)
  show ?thesis
    using None fresh k ne m
    by (auto simp: store_insert_def Let_def map_add_def evicts_def map_of_tl[OF dist] split: option.splits)
next
  case (Some entry)
  then have "k \<in> fst ` set (ds_store s)" by (metis map_of_eq_None_iff option.distinct(1))
  then have "\<not> evicts s k j" by (simp add: evicts_def)
  then show ?thesis
    using Some by (cases entry)
      (auto simp: store_insert_def Let_def map_add_def map_of_shift_remove split: option.splits)
qed

subsection \<open>Properties\<close>

text \<open>C29: however entries are inserted and pruned, the store never holds a key twice and never
  holds more than ten thousand entries.\<close>

theorem store_stays_bounded:
  "distinct (map fst (ds_store (foldl store_step DHTStore_new es))) \<and>
   length (ds_store (foldl store_step DHTStore_new es)) \<le> 10000"
proof -
  have "store_wf DHTStore_new" by (simp add: store_wf_def DHTStore_new_def)
  then have "store_wf (foldl store_step DHTStore_new es)" by (rule ds.run_inv)
  then show ?thesis by (simp add: store_wf_def MAX_STORE_ENTRIES_def)
qed

text \<open>A value inserted at a time is found until thirty-five minutes later, merged with what
  was stored under its key; every other key still answers as before, except that inserting a new
  key into a full store drops the entry at the front.\<close>

lemma store_insert_get:
  assumes "store_wf s" and "unat now + 2100 < 2 ^ 64"
  shows "store_get later (store_insert now s k v) j =
     (if j = k then if unat later \<le> unat now + 2100
                    then Some (case map_of (ds_store s) k of Some e \<Rightarrow> data_merge (sv_data e) v | None \<Rightarrow> v)
                    else None
      else if evicts s k j then None else store_get later s j)"
proof -
  have "unat now + unat DEFAULT_TTL < 2 ^ LENGTH(64)" using assms(2) by (simp add: DEFAULT_TTL_def)
  then have "unat (now + DEFAULT_TTL) = unat now + unat DEFAULT_TTL" by (rule iffD1[OF unat_add_lem])
  then have "now + DEFAULT_TTL < later \<longleftrightarrow> \<not> unat later \<le> unat now + 2100"
    by (simp add: word_less_nat_alt DEFAULT_TTL_def not_le)
  then show ?thesis
    by (simp add: store_get_def map_of_store_insert[OF assms(1)])
qed

text \<open>A second announcement under a key replaces a set of I2P destinations, where it extends a
  set of socket addresses.\<close>

lemma i2p_peers_overwritten:
  assumes "store_wf s" and "map_of (ds_store s) k = Some e" and "unat now + 2100 < 2 ^ 64"
  shows "store_get now (store_insert now s k (I2Peers new)) k = Some (I2Peers new)"
  using store_insert_get[OF assms(1,3), of now k "I2Peers new" k] assms(2)
  by (cases "sv_data e") auto

text \<open>At the second of its expiry an entry is still served and may already be pruned.\<close>

lemma expiry_second_differs:
  assumes "map_of (ds_store s) k = Some e" and "distinct (map fst (ds_store s))"
  shows "store_get (expires_at e) s k = Some (sv_data e) \<and> store_get (expires_at e) (store_prune (expires_at e) s) k = None"
proof -
  have "map_of (filter (\<lambda>(_, x). expires_at e < expires_at x) (ds_store s)) k = None"
    using assms by (auto simp: map_of_eq_None_iff dest!: map_of_SomeD dest: eq_key_imp_eq_value[of "ds_store s" k e])
  then show ?thesis using assms(1) by (simp add: store_get_def store_prune_def)
qed

end
