(* ===== verification/RouteTable.thy ===== *)
theory RouteTable
  imports KeySpace
begin

text \<open>
  The Kademlia routing table: \<open>dht/k_bucket.rs\<close> and \<open>dht/route_table.rs\<close>, with the
  \<open>acknowledge\<close> loop of \<open>dht/kademlia/mod.rs\<close> through which every contact enters the table.
  A bucket is a queue ordered from the least to the most recently seen node. The theory
  states the bucket contract as an interface, shows that buckets keep their capacity and hold
  an identifier once, that the table invariant survives every operation, that the splitting
  branch of \<open>try_insert\<close> is never taken, that \<open>acknowledge\<close>, undisturbed, ends after at most
  three rounds and evicts only contacts that failed a ping, what remains of this when several
  acknowledges interleave, and what \<open>get_closest_nodes\<close> returns.
\<close>

unbundle bit_operations_syntax

subsection \<open>Buckets\<close>

record kbucket =
  kb_nodes :: "node list"
  bucket_size :: nat
  kb_depth :: nat

definition KBucket_new :: "nat \<Rightarrow> nat \<Rightarrow> kbucket" where
  "KBucket_new cap depth = \<lparr>kb_nodes = [], bucket_size = cap, kb_depth = depth\<rparr>"

definition kb_contains :: "kbucket \<Rightarrow> key \<Rightarrow> bool" where
  "kb_contains b k \<longleftrightarrow> (\<exists>n\<in>set (kb_nodes b). node_id n = k)"

definition is_full :: "kbucket \<Rightarrow> bool" where
  "is_full b \<longleftrightarrow> length (kb_nodes b) = bucket_size b"

text \<open>\<open>position\<close> followed by \<open>remove\<close>: the first node with the identifier goes.\<close>

fun remove_pos :: "key \<Rightarrow> node list \<Rightarrow> node list option" where
  "remove_pos k [] = None"
| "remove_pos k (n # ns) = (if node_id n = k then Some ns else map_option ((#) n) (remove_pos k ns))"

definition kb_insert :: "kbucket \<Rightarrow> node \<Rightarrow> kbucket" where
  "kb_insert b n =
     (case remove_pos (node_id n) (kb_nodes b) of
        Some rest \<Rightarrow> b\<lparr>kb_nodes := rest @ [n]\<rparr>
      | None \<Rightarrow> if bucket_size b \<le> length (kb_nodes b) then b
                else b\<lparr>kb_nodes := kb_nodes b @ [n]\<rparr>)"

definition envict_and_insert :: "kbucket \<Rightarrow> node \<Rightarrow> kbucket" where
  "envict_and_insert b n = kb_insert (b\<lparr>kb_nodes := tl (kb_nodes b)\<rparr>) n"

definition kb_remove :: "kbucket \<Rightarrow> key \<Rightarrow> kbucket" where
  "kb_remove b k =
     (case remove_pos k (kb_nodes b) of Some rest \<Rightarrow> b\<lparr>kb_nodes := rest\<rparr> | None \<Rightarrow> b)"

definition get_oldest_node :: "kbucket \<Rightarrow> node option" where
  "get_oldest_node b = (case kb_nodes b of [] \<Rightarrow> None | n # _ \<Rightarrow> Some n)"

definition get_bit :: "key \<Rightarrow> nat \<Rightarrow> bool" where
  "get_bit k bit_index =
     (let byte_index = bit_index div 8; bit_offset = 7 - bit_index mod 8
      in if length (key_id k) \<le> byte_index then False
         else drop_bit bit_offset (key_id k ! byte_index) AND 1 = 1)"

text \<open>\<open>split\<close> hands \<open>KBucket::new\<close> the new depth as the capacity and the capacity as the depth.\<close>

definition kb_split :: "kbucket \<Rightarrow> kbucket \<times> kbucket" where
  "kb_split b =
     (let next_depth = kb_depth b + 1;
          left = KBucket_new next_depth (bucket_size b);
          right = KBucket_new next_depth (bucket_size b)
      in foldl (\<lambda>(l, r) n. if get_bit (node_id n) (kb_depth b) then (l, kb_insert r n) else (kb_insert l n, r))
           (left, right) (kb_nodes b))"

subsection \<open>The table\<close>

definition KBUCKET_MAX :: nat where
  "KBUCKET_MAX = 20"

datatype insert_result = NoInsert | Inserted | Split | Ping node node

record route_table =
  rt_host :: node
  kbuckets :: "kbucket list"

definition gen_kbuckets :: "kbucket list" where
  "gen_kbuckets = map (\<lambda>depth. KBucket_new KBUCKET_MAX depth) [0..<KEY_ID_LENGTH * 8]"

definition RouteTable_new :: "node \<Rightarrow> route_table" where
  "RouteTable_new h = \<lparr>rt_host = h, kbuckets = gen_kbuckets\<rparr>"

text \<open>The nested loops over bytes and, from the top, bits.\<close>

definition bit_positions :: "(nat \<times> nat) list" where
  "bit_positions = concat (map (\<lambda>i. map (\<lambda>j. (i, j)) (rev [0..<8])) [0..<KEY_ID_LENGTH])"

definition get_bucket_index :: "(bytes \<Rightarrow> bytes) \<Rightarrow> route_table \<Rightarrow> key \<Rightarrow> nat" where
  "get_bucket_index sha256 rt k =
     (let d = key_id (distance sha256 (node_id (rt_host rt)) k)
      in case find (\<lambda>(i, j). drop_bit j (d ! i) AND 1 \<noteq> 0) bit_positions of
           Some (i, j) \<Rightarrow> i * 8 + (7 - j)
         | None \<Rightarrow> KEY_ID_LENGTH * 8 - 1)"

definition try_insert :: "(bytes \<Rightarrow> bytes) \<Rightarrow> route_table \<Rightarrow> node \<Rightarrow> insert_result \<times> route_table" where
  "try_insert sha256 rt n =
     (let index = get_bucket_index sha256 rt (node_id n)
      in if length (kbuckets rt) \<le> index then (NoInsert, rt)
         else if node_id n = node_id (rt_host rt) then (NoInsert, rt)
         else let kb = kbuckets rt ! index
              in if \<not> is_full kb
                 then (Inserted, rt\<lparr>kbuckets := (kbuckets rt)[index := kb_insert kb n]\<rparr>)
                 else if kb_contains kb (node_id (rt_host rt))
                 then let (left, right) = kb_split kb
                      in (Split, rt\<lparr>kbuckets := take index (kbuckets rt) @ [left, right]
                                                @ drop (index + 1) (kbuckets rt)\<rparr>)
                 else case get_oldest_node kb of
                        None \<Rightarrow> (NoInsert, rt)
                      | Some oldest \<Rightarrow> (Ping oldest n, rt))"

definition rt_replace :: "(bytes \<Rightarrow> bytes) \<Rightarrow> route_table \<Rightarrow> node \<Rightarrow> route_table" where
  "rt_replace sha256 rt n =
     (let index = get_bucket_index sha256 rt (node_id n)
      in if length (kbuckets rt) \<le> index then rt
         else rt\<lparr>kbuckets := (kbuckets rt)[index := envict_and_insert (kbuckets rt ! index) n]\<rparr>)"

definition rt_remove :: "(bytes \<Rightarrow> bytes) \<Rightarrow> route_table \<Rightarrow> node \<Rightarrow> route_table" where
  "rt_remove sha256 rt n =
     (let index = get_bucket_index sha256 rt (node_id n)
      in if length (kbuckets rt) \<le> index then rt
         else rt\<lparr>kbuckets := (kbuckets rt)[index := kb_remove (kbuckets rt ! index) (node_id n)]\<rparr>)"

definition rt_nodes :: "route_table \<Rightarrow> node list" where
  "rt_nodes rt = concat (map kb_nodes (kbuckets rt))"

definition get_closest_nodes :: "(bytes \<Rightarrow> bytes) \<Rightarrow> route_table \<Rightarrow> key \<Rightarrow> nat \<Rightarrow> node list" where
  "get_closest_nodes sha256 rt k cnt =
     (let distances = map (\<lambda>n. (distance sha256 k (node_id n), n))
                        (filter (\<lambda>n. node_id n \<noteq> node_id (rt_host rt)) (rt_nodes rt))
      in map snd (take cnt (sort_key (\<lambda>(d, _). key_id d) distances)))"

text \<open>The \<open>acknowledge\<close> loop, run on its own; \<open>ping\<close> says which contacts answer. Fuel bounds the
  rounds. The loop holds the lock of the table within \<open>try_insert\<close> and within \<open>replace\<close> only, so
  other tasks may change the table while it waits for a ping; these interleavings are the steps of
  \<open>ack_step\<close> below.\<close>

fun acknowledge :: "nat \<Rightarrow> (bytes \<Rightarrow> bytes) \<Rightarrow> (node \<Rightarrow> bool) \<Rightarrow> route_table \<Rightarrow> node \<Rightarrow> route_table option" where
  "acknowledge 0 sha256 ping rt n = None"
| "acknowledge (Suc fuel) sha256 ping rt n =
     (case try_insert sha256 rt n of
        (NoInsert, rt') \<Rightarrow> Some rt'
      | (Inserted, rt') \<Rightarrow> Some rt'
      | (Split, rt') \<Rightarrow> acknowledge fuel sha256 ping rt' n
      | (Ping old new, rt') \<Rightarrow>
          if ping old then Some rt'
          else acknowledge fuel sha256 ping (rt_replace sha256 rt' new) n)"

declare acknowledge.simps(2) [simp del]

text \<open>One \<open>acknowledge\<close> between two acquisitions of the lock: about to call \<open>try_insert\<close>, waiting for
  the ping of the first node on behalf of the second, or about to call \<open>replace\<close>.\<close>

datatype ack_task = AckTry node | AckPing node node | AckReplace node

definition ack_try :: "(bytes \<Rightarrow> bytes) \<Rightarrow> route_table \<Rightarrow> node \<Rightarrow> ack_task list \<times> route_table" where
  "ack_try sha256 rt n =
     (case try_insert sha256 rt n of
        (NoInsert, rt') \<Rightarrow> ([], rt')
      | (Inserted, rt') \<Rightarrow> ([], rt')
      | (Split, rt') \<Rightarrow> ([AckTry n], rt')
      | (Ping old new, rt') \<Rightarrow> ([AckPing old new], rt'))"

text \<open>The table with the acknowledges under way; beside it, the contacts whose ping failed and those
  that were forgotten, in the order this happened.\<close>

record ack_state =
  as_table :: route_table
  as_tasks :: "ack_task list"
  as_failed :: "node list"
  as_forgotten :: "node list"

inductive ack_step :: "(bytes \<Rightarrow> bytes) \<Rightarrow> ack_state \<Rightarrow> ack_state \<Rightarrow> bool" for H where
  starts: "ack_step H s (s\<lparr>as_tasks := AckTry n # as_tasks s\<rparr>)"
| tries: "as_tasks s = xs @ AckTry n # ys \<Longrightarrow> ack_try H (as_table s) n = (rest, rt) \<Longrightarrow>
     ack_step H s (s\<lparr>as_table := rt, as_tasks := xs @ rest @ ys\<rparr>)"
| pongs: "as_tasks s = xs @ AckPing old new # ys \<Longrightarrow> ack_step H s (s\<lparr>as_tasks := xs @ ys\<rparr>)"
| fails: "as_tasks s = xs @ AckPing old new # ys \<Longrightarrow>
     ack_step H s (s\<lparr>as_tasks := xs @ AckReplace new # ys, as_failed := as_failed s @ [old]\<rparr>)"
| replaces: "as_tasks s = xs @ AckReplace new # ys \<Longrightarrow>
     ack_step H s (s\<lparr>as_table := rt_replace H (as_table s) new, as_tasks := xs @ AckTry new # ys\<rparr>)"
| forgets: "ack_step H s (s\<lparr>as_table := rt_remove H (as_table s) n, as_forgotten := as_forgotten s @ [n]\<rparr>)"

inductive ack_run :: "(bytes \<Rightarrow> bytes) \<Rightarrow> ack_state \<Rightarrow> ack_state \<Rightarrow> bool" for H where
  ack_here: "ack_run H s s"
| ack_further: "ack_run H s s' \<Longrightarrow> ack_step H s' s'' \<Longrightarrow> ack_run H s s''"

subsection \<open>Interface: a bounded queue of distinct contacts\<close>

text \<open>What the table relies on: an insertion moves a known identifier to the back and appends
  an unknown one while there is room; an eviction drops the front first; a removal drops one
  identifier. Capacity and distinctness follow for all three.\<close>

locale contact_queue =
  fixes items :: "'b \<Rightarrow> 'n list"
    and cap :: "'b \<Rightarrow> nat"
    and ident :: "'n \<Rightarrow> 'k"
    and ins :: "'b \<Rightarrow> 'n \<Rightarrow> 'b"
    and evict :: "'b \<Rightarrow> 'n \<Rightarrow> 'b"
    and del :: "'b \<Rightarrow> 'k \<Rightarrow> 'b"
  assumes items_ins: "distinct (map ident (items b)) \<Longrightarrow> items (ins b n) =
        (if ident n \<in> ident ` set (items b) \<or> length (items b) < cap b
         then filter (\<lambda>m. ident m \<noteq> ident n) (items b) @ [n] else items b)"
    and items_evict: "distinct (map ident (items b)) \<Longrightarrow> items (evict b n) =
        (if ident n \<in> ident ` set (tl (items b)) \<or> length (tl (items b)) < cap b
         then filter (\<lambda>m. ident m \<noteq> ident n) (tl (items b)) @ [n] else tl (items b))"
    and items_del: "distinct (map ident (items b)) \<Longrightarrow>
        items (del b k) = filter (\<lambda>m. ident m \<noteq> k) (items b)"
    and cap_ops: "cap (ins b n) = cap b" "cap (evict b n) = cap b" "cap (del b k) = cap b"
begin

lemma push_back_distinct:
  "distinct (map ident xs) \<Longrightarrow> distinct (map ident (filter (\<lambda>m. ident m \<noteq> ident n) xs @ [n]))"
  by (auto simp: distinct_map inj_on_def)

lemma push_back_length:
  assumes "ident n \<in> ident ` set xs \<or> length xs < c" and "length xs \<le> c"
  shows "length (filter (\<lambda>m. ident m \<noteq> ident n) xs @ [n]) \<le> c"
proof (cases "ident n \<in> ident ` set xs")
  case True
  then have "length (filter (\<lambda>m. ident m \<noteq> ident n) xs) < length xs"
    by (metis (mono_tags, lifting) imageE length_filter_less)
  then show ?thesis using assms(2) by simp
next
  case False
  then show ?thesis using assms by (simp add: filter_fresh)
qed

lemma ins_inv:
  assumes "distinct (map ident (items b))" and "length (items b) \<le> cap b"
  shows "distinct (map ident (items (ins b n))) \<and> length (items (ins b n)) \<le> cap (ins b n)
           \<and> set (items (ins b n)) \<subseteq> insert n (set (items b))"
  using assms push_back_distinct[OF assms(1), of n] push_back_length[of n "items b" "cap b"]
  by (auto simp: items_ins cap_ops)

lemma evict_inv:
  assumes "distinct (map ident (items b))" and "length (items b) \<le> cap b"
  shows "distinct (map ident (items (evict b n))) \<and> length (items (evict b n)) \<le> cap (evict b n)
           \<and> set (items (evict b n)) \<subseteq> insert n (set (items b))"
proof -
  have tl: "distinct (map ident (tl (items b)))" "length (tl (items b)) \<le> cap b"
      "set (tl (items b)) \<subseteq> set (items b)"
    using assms by (auto simp: map_tl distinct_tl dest: list.set_sel(2)[rotated])
       (metis list.sel(2) list.set_sel(2))
  show ?thesis
    using assms tl push_back_distinct[OF tl(1), of n] push_back_length[of n "tl (items b)" "cap b"]
    by (auto simp: items_evict cap_ops)
qed

lemma del_inv:
  assumes "distinct (map ident (items b))" and "length (items b) \<le> cap b"
  shows "distinct (map ident (items (del b k))) \<and> length (items (del b k)) \<le> cap (del b k)
           \<and> set (items (del b k)) \<subseteq> set (items b)"
  using assms le_trans[OF length_filter_le assms(2)]
  by (auto simp: items_del cap_ops distinct_map inj_on_def)

end

lemma remove_pos_None: "remove_pos k ns = None \<longleftrightarrow> k \<notin> node_id ` set ns"
  by (induction ns) auto

lemma remove_pos_Some:
  "distinct (map node_id ns) \<Longrightarrow> k \<in> node_id ` set ns \<Longrightarrow>
     remove_pos k ns = Some (filter (\<lambda>m. node_id m \<noteq> k) ns)"
  by (induction ns) (auto simp: filter_fresh)

lemma kb_insert_nodes:
  assumes "distinct (map node_id (kb_nodes b))"
  shows "kb_nodes (kb_insert b n) =
     (if node_id n \<in> node_id ` set (kb_nodes b) \<or> length (kb_nodes b) < bucket_size b
      then filter (\<lambda>m. node_id m \<noteq> node_id n) (kb_nodes b) @ [n] else kb_nodes b)"
proof (cases "node_id n \<in> node_id ` set (kb_nodes b)")
  case True
  then show ?thesis using remove_pos_Some[OF assms] by (simp add: kb_insert_def)
next
  case False
  then have "filter (\<lambda>m. node_id m \<noteq> node_id n) (kb_nodes b) = kb_nodes b"
    by (rule filter_fresh)
  with False show ?thesis
    using remove_pos_None[of "node_id n" "kb_nodes b"] by (auto simp: kb_insert_def)
qed

lemma kb_insert_size [simp]: "bucket_size (kb_insert b n) = bucket_size b"
  by (simp add: kb_insert_def split: option.splits)

interpretation kb: contact_queue kb_nodes bucket_size node_id kb_insert envict_and_insert kb_remove
proof
  fix b :: kbucket and n :: node and k :: key
  assume d: "distinct (map node_id (kb_nodes b))"
  show "kb_nodes (kb_insert b n) =
     (if node_id n \<in> node_id ` set (kb_nodes b) \<or> length (kb_nodes b) < bucket_size b
      then filter (\<lambda>m. node_id m \<noteq> node_id n) (kb_nodes b) @ [n] else kb_nodes b)"
    by (rule kb_insert_nodes[OF d])
  show "kb_nodes (envict_and_insert b n) =
     (if node_id n \<in> node_id ` set (tl (kb_nodes b)) \<or> length (tl (kb_nodes b)) < bucket_size b
      then filter (\<lambda>m. node_id m \<noteq> node_id n) (tl (kb_nodes b)) @ [n] else tl (kb_nodes b))"
    using kb_insert_nodes[of "b\<lparr>kb_nodes := tl (kb_nodes b)\<rparr>" n] d
    by (simp add: envict_and_insert_def map_tl distinct_tl)
  show "kb_nodes (kb_remove b k) = filter (\<lambda>m. node_id m \<noteq> k) (kb_nodes b)"
  proof (cases "k \<in> node_id ` set (kb_nodes b)")
    case True
    then show ?thesis using remove_pos_Some[OF d] by (simp add: kb_remove_def)
  next
    case False
    then have "filter (\<lambda>m. node_id m \<noteq> k) (kb_nodes b) = kb_nodes b" by (rule filter_fresh)
    with False show ?thesis
      using remove_pos_None[of k "kb_nodes b"] by (auto simp: kb_remove_def)
  qed
qed (simp_all add: envict_and_insert_def kb_remove_def split: option.splits)

subsection \<open>The bucket index\<close>

lemma bit_positions_less: "(i, j) \<in> set bit_positions \<Longrightarrow> i < 32 \<and> j < 8"
  by (auto simp: bit_positions_def KEY_ID_LENGTH_def)

lemma get_bucket_index_less: "get_bucket_index H rt k < 256"
proof (cases "find (\<lambda>(i, j). drop_bit j (key_id (distance H (node_id (rt_host rt)) k) ! i) AND 1 \<noteq> 0)
    bit_positions")
  case None
  then show ?thesis by (simp add: get_bucket_index_def KEY_ID_LENGTH_def)
next
  case (Some p)
  obtain i j where p: "p = (i, j)" by (cases p)
  then have "(i, j) \<in> set bit_positions"
    using Some by (metis (mono_tags, lifting) find_Some_iff nth_mem)
  then have "i < 32" "j < 8" using bit_positions_less by blast+
  then have "i * 8 + (7 - j) < 256" by linarith
  then show ?thesis using Some p by (simp add: get_bucket_index_def)
qed

lemma get_bucket_index_host:
  "rt_host rt' = rt_host rt \<Longrightarrow> get_bucket_index H rt' k = get_bucket_index H rt k"
  by (simp add: get_bucket_index_def)

subsection \<open>The table invariant\<close>

text \<open>There are 256 buckets of capacity \<open>KBUCKET_MAX\<close>; a bucket holds an identifier at most once,
  never the host, and only contacts whose index is the bucket's.\<close>

definition bucket_ok :: "(bytes \<Rightarrow> bytes) \<Rightarrow> route_table \<Rightarrow> nat \<Rightarrow> kbucket \<Rightarrow> bool" where
  "bucket_ok H rt i b \<longleftrightarrow>
     distinct (map node_id (kb_nodes b)) \<and> length (kb_nodes b) \<le> bucket_size b
     \<and> bucket_size b = KBUCKET_MAX
     \<and> (\<forall>n\<in>set (kb_nodes b). node_id n \<noteq> node_id (rt_host rt) \<and> get_bucket_index H rt (node_id n) = i)"

definition rt_wf :: "(bytes \<Rightarrow> bytes) \<Rightarrow> route_table \<Rightarrow> bool" where
  "rt_wf H rt \<longleftrightarrow> length (kbuckets rt) = 256 \<and> (\<forall>i<256. bucket_ok H rt i (kbuckets rt ! i))"

definition home_bucket :: "(bytes \<Rightarrow> bytes) \<Rightarrow> route_table \<Rightarrow> node \<Rightarrow> kbucket" where
  "home_bucket H rt n = kbuckets rt ! get_bucket_index H rt (node_id n)"

definition put_home :: "(bytes \<Rightarrow> bytes) \<Rightarrow> route_table \<Rightarrow> node \<Rightarrow> kbucket \<Rightarrow> route_table" where
  "put_home H rt n b = rt\<lparr>kbuckets := (kbuckets rt)[get_bucket_index H rt (node_id n) := b]\<rparr>"

lemma rt_wf_new [wf_intros]: "rt_wf H (RouteTable_new h)"
  by (auto simp: rt_wf_def bucket_ok_def RouteTable_new_def gen_kbuckets_def KBucket_new_def
      KEY_ID_LENGTH_def)

lemma put_home_host [simp]: "rt_host (put_home H rt n b) = rt_host rt"
  by (simp add: put_home_def)

lemma put_home_index [simp]: "get_bucket_index H (put_home H' rt n b) k = get_bucket_index H rt k"
  by (rule get_bucket_index_host) simp

lemma put_home_nth:
  "rt_wf H rt \<Longrightarrow> kbuckets (put_home H rt n b) ! i
     = (if i = get_bucket_index H rt (node_id n) then b else kbuckets rt ! i)"
  using get_bucket_index_less[of H rt "node_id n"]
  by (simp add: put_home_def rt_wf_def nth_list_update)

lemma put_home_length [simp]: "length (kbuckets (put_home H rt n b)) = length (kbuckets rt)"
  by (simp add: put_home_def)

lemma home_put_home [simp]:
  "rt_wf H rt \<Longrightarrow> home_bucket H (put_home H rt n b) n = b"
  by (simp add: home_bucket_def put_home_nth)

lemma home_bucket_ok:
  "rt_wf H rt \<Longrightarrow> bucket_ok H rt (get_bucket_index H rt (node_id n)) (home_bucket H rt n)"
  using get_bucket_index_less[of H rt "node_id n"] by (simp add: rt_wf_def home_bucket_def)

lemma put_home_wf [wf_intros]:
  assumes "rt_wf H rt" and "bucket_ok H rt (get_bucket_index H rt (node_id n)) b"
  shows "rt_wf H (put_home H rt n b)"
proof -
  have same: "bucket_ok H (put_home H rt n b) i c \<longleftrightarrow> bucket_ok H rt i c" for i c
    by (simp add: bucket_ok_def)
  show ?thesis
    unfolding rt_wf_def same
    using assms put_home_nth[OF assms(1)] by (auto simp: rt_wf_def)
qed

lemma rt_nodes_iff: "m \<in> set (rt_nodes rt) \<longleftrightarrow> (\<exists>i<length (kbuckets rt). m \<in> set (kb_nodes (kbuckets rt ! i)))"
  by (auto simp: rt_nodes_def) (metis in_set_conv_nth)

lemma rt_nodes_put_home:
  assumes "rt_wf H rt"
  shows "m \<in> set (rt_nodes (put_home H rt n b)) \<longleftrightarrow>
     m \<in> set (kb_nodes b) \<or>
     (m \<in> set (rt_nodes rt) \<and> get_bucket_index H rt (node_id m) \<noteq> get_bucket_index H rt (node_id n))"
    (is "?L \<longleftrightarrow> ?R")
proof -
  let ?x = "get_bucket_index H rt (node_id n)"
  have x: "?x < 256" by (rule get_bucket_index_less)
  have idx: "get_bucket_index H rt (node_id m) = i" if "i < 256" "m \<in> set (kb_nodes (kbuckets rt ! i))" for i
    using assms that by (auto simp: rt_wf_def bucket_ok_def)
  have "?L \<longleftrightarrow> (\<exists>i<256. m \<in> set (kb_nodes (if i = ?x then b else kbuckets rt ! i)))"
    using assms by (simp add: rt_nodes_iff put_home_nth) (simp add: rt_wf_def)
  also have "\<dots> \<longleftrightarrow> m \<in> set (kb_nodes b) \<or> (\<exists>i<256. i \<noteq> ?x \<and> m \<in> set (kb_nodes (kbuckets rt ! i)))"
  proof
    assume "m \<in> set (kb_nodes b) \<or> (\<exists>i<256. i \<noteq> ?x \<and> m \<in> set (kb_nodes (kbuckets rt ! i)))"
    then show "\<exists>i<256. m \<in> set (kb_nodes (if i = ?x then b else kbuckets rt ! i))"
      using x by (elim disjE) (auto intro: exI[of _ ?x])
  qed (auto split: if_splits)
  also have "\<dots> \<longleftrightarrow> ?R"
    using assms idx by (auto simp: rt_nodes_iff rt_wf_def)
  finally show ?thesis .
qed

lemma rt_nodes_home:
  assumes "rt_wf H rt" and "get_bucket_index H rt (node_id m) = get_bucket_index H rt (node_id n)"
  shows "m \<in> set (rt_nodes rt) \<longleftrightarrow> m \<in> set (kb_nodes (home_bucket H rt n))"
  using assms get_bucket_index_less[of H rt "node_id n"]
  by (auto simp: rt_nodes_iff rt_wf_def bucket_ok_def home_bucket_def)

subsection \<open>One round of \<open>acknowledge\<close>\<close>

lemma home_insert_ok:
  assumes "rt_wf H rt" and "node_id n \<noteq> node_id (rt_host rt)"
  shows "bucket_ok H rt (get_bucket_index H rt (node_id n)) (kb_insert (home_bucket H rt n) n)"
    and "bucket_ok H rt (get_bucket_index H rt (node_id n)) (envict_and_insert (home_bucket H rt n) n)"
  using home_bucket_ok[OF assms(1), of n] assms(2)
    kb.ins_inv[of "home_bucket H rt n" n] kb.evict_inv[of "home_bucket H rt n" n]
  by (auto simp: bucket_ok_def kb.cap_ops dest!: subsetD)

lemma home_remove_ok:
  assumes "rt_wf H rt"
  shows "bucket_ok H rt (get_bucket_index H rt (node_id n)) (kb_remove (home_bucket H rt n) k)"
  using home_bucket_ok[OF assms(1), of n] kb.del_inv[of "home_bucket H rt n" k]
  by (auto simp: bucket_ok_def kb.cap_ops dest!: subsetD)

lemma try_insert_eq:
  assumes "rt_wf H rt"
  shows "try_insert H rt n =
     (if node_id n = node_id (rt_host rt) then (NoInsert, rt)
      else if length (kb_nodes (home_bucket H rt n)) < KBUCKET_MAX
      then (Inserted, put_home H rt n (kb_insert (home_bucket H rt n) n))
      else (Ping (hd (kb_nodes (home_bucket H rt n))) n, rt))"
proof -
  let ?b = "home_bucket H rt n"
  have ok: "bucket_ok H rt (get_bucket_index H rt (node_id n)) ?b"
    by (rule home_bucket_ok[OF assms])
  have "\<not> kb_contains ?b (node_id (rt_host rt))"
    using ok by (auto simp: bucket_ok_def kb_contains_def)
  moreover have "is_full ?b \<longleftrightarrow> \<not> length (kb_nodes ?b) < KBUCKET_MAX"
    using ok by (auto simp: bucket_ok_def is_full_def)
  moreover have "kb_nodes ?b \<noteq> []" if "\<not> length (kb_nodes ?b) < KBUCKET_MAX"
    using that by (auto simp: KBUCKET_MAX_def)
  ultimately show ?thesis
    using assms get_bucket_index_less[of H rt "node_id n"]
    by (auto simp: try_insert_def Let_def rt_wf_def put_home_def home_bucket_def[symmetric]
        get_oldest_node_def split: list.splits)
qed

lemma rt_replace_eq:
  "rt_wf H rt \<Longrightarrow> rt_replace H rt n = put_home H rt n (envict_and_insert (home_bucket H rt n) n)"
  using get_bucket_index_less[of H rt "node_id n"]
  by (simp add: rt_replace_def Let_def rt_wf_def put_home_def home_bucket_def)

lemma rt_remove_eq:
  "rt_wf H rt \<Longrightarrow> rt_remove H rt n = put_home H rt n (kb_remove (home_bucket H rt n) (node_id n))"
  using get_bucket_index_less[of H rt "node_id n"]
  by (simp add: rt_remove_def Let_def rt_wf_def put_home_def home_bucket_def)

lemma rt_remove_wf [wf_intros]: "rt_wf H rt \<Longrightarrow> rt_wf H (rt_remove H rt n)"
  by (simp add: rt_remove_eq put_home_wf home_remove_ok)

lemma acknowledge_round:
  assumes "rt_wf H rt"
  shows "acknowledge (Suc fuel) H ping rt n =
     (if node_id n = node_id (rt_host rt) then Some rt
      else let b = home_bucket H rt n
           in if length (kb_nodes b) < KBUCKET_MAX then Some (put_home H rt n (kb_insert b n))
              else if ping (hd (kb_nodes b)) then Some rt
              else acknowledge fuel H ping (put_home H rt n (envict_and_insert b n)) n)"
  using assms by (simp add: acknowledge.simps(2) try_insert_eq rt_replace_eq Let_def)

subsection \<open>What \<open>acknowledge\<close> does to the table\<close>

text \<open>Relation between the tables before and after: the invariant and the host are kept, a
  contact other than the acknowledged one stays if it answers pings, and nothing but the
  acknowledged contact is new.\<close>

definition ack_rel :: "(bytes \<Rightarrow> bytes) \<Rightarrow> (node \<Rightarrow> bool) \<Rightarrow> node \<Rightarrow> route_table \<Rightarrow> route_table \<Rightarrow> bool" where
  "ack_rel H ping n rt rt' \<longleftrightarrow>
     rt_wf H rt' \<and> rt_host rt' = rt_host rt
     \<and> (\<forall>m\<in>set (rt_nodes rt). ping m \<longrightarrow> node_id m \<noteq> node_id n \<longrightarrow> m \<in> set (rt_nodes rt'))
     \<and> set (rt_nodes rt') \<subseteq> insert n (set (rt_nodes rt))"

lemma ack_rel_trans: "ack_rel H ping n a b \<Longrightarrow> ack_rel H ping n b c \<Longrightarrow> ack_rel H ping n a c"
  unfolding ack_rel_def by (elim conjE, intro conjI) (simp_all, blast+)

lemma ack_rel_refl: "rt_wf H rt \<Longrightarrow> ack_rel H ping n rt rt"
  by (auto simp: ack_rel_def)

lemma ack_rel_put_home:
  assumes wf: "rt_wf H rt" and ok: "bucket_ok H rt (get_bucket_index H rt (node_id n)) b"
    and keep: "\<And>m. m \<in> set (kb_nodes (home_bucket H rt n)) \<Longrightarrow> ping m \<Longrightarrow> node_id m \<noteq> node_id n \<Longrightarrow>
                 m \<in> set (kb_nodes b)"
    and new: "set (kb_nodes b) \<subseteq> insert n (set (kb_nodes (home_bucket H rt n)))"
  shows "ack_rel H ping n rt (put_home H rt n b)"
proof -
  have home: "set (kb_nodes (home_bucket H rt n)) \<subseteq> set (rt_nodes rt)"
    using home_bucket_ok[OF wf, of n] rt_nodes_home[OF wf] by (auto simp: bucket_ok_def)
  have kept: "m \<in> set (rt_nodes (put_home H rt n b))"
    if "m \<in> set (rt_nodes rt)" "ping m" "node_id m \<noteq> node_id n" for m
    using that keep[of m] rt_nodes_home[OF wf, of m n] by (auto simp: rt_nodes_put_home[OF wf])
  have "set (rt_nodes (put_home H rt n b)) \<subseteq> insert n (set (rt_nodes rt))"
    using new home by (auto simp: rt_nodes_put_home[OF wf])
  with kept put_home_wf[OF wf ok] show ?thesis by (simp add: ack_rel_def)
qed

lemma ack_rel_insert:
  assumes wf: "rt_wf H rt" and "node_id n \<noteq> node_id (rt_host rt)"
    and "length (kb_nodes (home_bucket H rt n)) < KBUCKET_MAX"
  shows "ack_rel H ping n rt (put_home H rt n (kb_insert (home_bucket H rt n) n))"
  using assms home_bucket_ok[OF wf, of n]
  by (intro ack_rel_put_home home_insert_ok) (auto simp: bucket_ok_def kb.items_ins)

lemma ack_rel_evict:
  assumes wf: "rt_wf H rt" and "node_id n \<noteq> node_id (rt_host rt)"
    and full: "\<not> length (kb_nodes (home_bucket H rt n)) < KBUCKET_MAX"
    and dead: "\<not> ping (hd (kb_nodes (home_bucket H rt n)))"
  shows "ack_rel H ping n rt (put_home H rt n (envict_and_insert (home_bucket H rt n) n))"
proof -
  let ?b = "home_bucket H rt n"
  have ok: "bucket_ok H rt (get_bucket_index H rt (node_id n)) ?b"
    by (rule home_bucket_ok[OF wf])
  obtain x xs where xs: "kb_nodes ?b = x # xs"
    using full by (cases "kb_nodes ?b") (auto simp: KBUCKET_MAX_def)
  have "kb_nodes (envict_and_insert ?b n) = filter (\<lambda>m. node_id m \<noteq> node_id n) xs @ [n]"
    using ok xs by (simp add: bucket_ok_def kb.items_evict)
  then show ?thesis
    using assms xs by (intro ack_rel_put_home home_insert_ok) auto
qed

lemma acknowledge_rel:
  "rt_wf H rt \<Longrightarrow> acknowledge fuel H ping rt n = Some rt' \<Longrightarrow> ack_rel H ping n rt rt'"
proof (induction fuel arbitrary: rt)
  case 0
  then show ?case by simp
next
  case (Suc fuel)
  let ?b = "home_bucket H rt n" and ?e = "put_home H rt n (envict_and_insert (home_bucket H rt n) n)"
  consider "rt' = rt"
    | "node_id n \<noteq> node_id (rt_host rt)" "length (kb_nodes ?b) < KBUCKET_MAX"
      "rt' = put_home H rt n (kb_insert ?b n)"
    | "node_id n \<noteq> node_id (rt_host rt)" "\<not> length (kb_nodes ?b) < KBUCKET_MAX"
      "\<not> ping (hd (kb_nodes ?b))" "acknowledge fuel H ping ?e n = Some rt'"
    using Suc.prems(2) unfolding acknowledge_round[OF Suc.prems(1)] Let_def
    by (auto split: if_splits)
  then show ?case
  proof cases
    case 1
    then show ?thesis using Suc.prems(1) by (simp add: ack_rel_refl)
  next
    case 2
    then show ?thesis using Suc.prems(1) by (simp add: ack_rel_insert)
  next
    case 3
    have step: "ack_rel H ping n rt ?e" using Suc.prems(1) 3 by (intro ack_rel_evict)
    then have "rt_wf H ?e" by (simp add: ack_rel_def)
    with 3 have "ack_rel H ping n ?e rt'" by (intro Suc.IH)
    with step show ?thesis by (rule ack_rel_trans)
  qed
qed

text \<open>Rounds needed: none with a free slot after the first, since an eviction that finds the
  acknowledged contact already present leaves the bucket one short of full.\<close>

lemma acknowledge_room:
  assumes "rt_wf H rt" and "length (kb_nodes (home_bucket H rt n)) < KBUCKET_MAX"
  shows "\<exists>rt'. acknowledge (Suc fuel) H ping rt n = Some rt'"
  using assms by (simp add: acknowledge_round Let_def)

lemma evict_present_room:
  assumes "bucket_ok H rt i b" and "node_id n \<in> node_id ` set (tl (kb_nodes b))"
  shows "length (kb_nodes (envict_and_insert b n)) < KBUCKET_MAX"
proof -
  have "length (filter (\<lambda>m. node_id m \<noteq> node_id n) (tl (kb_nodes b))) < length (tl (kb_nodes b))"
    using assms(2) by (metis (mono_tags, lifting) imageE length_filter_less)
  then show ?thesis using assms by (auto simp: bucket_ok_def kb.items_evict)
qed

lemma acknowledge_present:
  assumes wf: "rt_wf H rt" and pres: "node_id n \<in> node_id ` set (tl (kb_nodes (home_bucket H rt n)))"
  shows "\<exists>rt'. acknowledge (Suc (Suc fuel)) H ping rt n = Some rt'"
proof (cases "node_id n = node_id (rt_host rt)")
  case True
  then show ?thesis using wf by (simp add: acknowledge_round)
next
  case False
  let ?e = "put_home H rt n (envict_and_insert (home_bucket H rt n) n)"
  have "rt_wf H ?e" using wf False by (intro put_home_wf home_insert_ok)
  moreover have "length (kb_nodes (home_bucket H ?e n)) < KBUCKET_MAX"
    using evict_present_room[OF home_bucket_ok[OF wf] pres] wf by simp
  ultimately obtain rt' where "acknowledge (Suc fuel) H ping ?e n = Some rt'"
    using acknowledge_room by blast
  then show ?thesis using acknowledge_round[OF wf, of "Suc fuel" ping n] by (simp add: Let_def)
qed

lemma acknowledge_three_rounds:
  assumes wf: "rt_wf H rt"
  shows "\<exists>rt'. acknowledge (Suc (Suc (Suc fuel))) H ping rt n = Some rt'"
proof (cases "node_id n \<noteq> node_id (rt_host rt) \<and> \<not> length (kb_nodes (home_bucket H rt n)) < KBUCKET_MAX")
  case False
  then show ?thesis using acknowledge_round[OF wf, of "Suc (Suc fuel)" ping n] by (auto simp: Let_def)
next
  case True
  let ?b = "home_bucket H rt n" and ?e = "put_home H rt n (envict_and_insert (home_bucket H rt n) n)"
  have ok: "bucket_ok H rt (get_bucket_index H rt (node_id n)) ?b" by (rule home_bucket_ok[OF wf])
  have wf': "rt_wf H ?e" using wf True by (intro put_home_wf home_insert_ok) auto
  have nodes: "kb_nodes (home_bucket H ?e n) = filter (\<lambda>m. node_id m \<noteq> node_id n) (tl (kb_nodes ?b)) @ [n]"
    using ok True wf by (auto simp: bucket_ok_def kb.items_evict KBUCKET_MAX_def)
  have "\<exists>rt'. acknowledge (Suc (Suc fuel)) H ping ?e n = Some rt'"
  proof (cases "length (kb_nodes (home_bucket H ?e n)) < KBUCKET_MAX")
    case True
    then show ?thesis by (rule acknowledge_room[OF wf'])
  next
    case False
    then have "filter (\<lambda>m. node_id m \<noteq> node_id n) (tl (kb_nodes ?b)) \<noteq> []"
      using nodes by (auto simp: KBUCKET_MAX_def)
    then have "n \<in> set (tl (kb_nodes (home_bucket H ?e n)))"
      unfolding nodes by (cases "filter (\<lambda>m. node_id m \<noteq> node_id n) (tl (kb_nodes ?b))") auto
    then have "node_id n \<in> node_id ` set (tl (kb_nodes (home_bucket H ?e n)))" by (rule imageI)
    then show ?thesis by (rule acknowledge_present[OF wf'])
  qed
  then show ?thesis
    using acknowledge_round[OF wf, of "Suc (Suc fuel)" ping n] by (auto simp: Let_def)
qed

subsection \<open>Acknowledges at the same time\<close>

definition ids :: "route_table \<Rightarrow> key set" where
  "ids rt = node_id ` set (rt_nodes rt)"

definition is_replace :: "ack_task \<Rightarrow> bool" where
  "is_replace t \<longleftrightarrow> (case t of AckReplace _ \<Rightarrow> True | _ \<Rightarrow> False)"

text \<open>A task only pings or replaces on behalf of another node than the host, and every contact lost is
  paid for by a failed ping or a forgotten contact.\<close>

fun task_ok :: "node \<Rightarrow> ack_task \<Rightarrow> bool" where
  "task_ok host (AckTry n) = True"
| "task_ok host (AckPing old new) \<longleftrightarrow> node_id new \<noteq> node_id host"
| "task_ok host (AckReplace new) \<longleftrightarrow> node_id new \<noteq> node_id host"

definition ack_inv :: "(bytes \<Rightarrow> bytes) \<Rightarrow> route_table \<Rightarrow> ack_state \<Rightarrow> bool" where
  "ack_inv H rt0 s \<longleftrightarrow> rt_wf H (as_table s) \<and> (\<forall>t\<in>set (as_tasks s). task_ok (rt_host (as_table s)) t)
     \<and> card (ids rt0 - ids (as_table s)) + length (filter is_replace (as_tasks s))
         \<le> length (as_failed s) + length (as_forgotten s)"

lemma ids_put_home:
  assumes "rt_wf H rt" and "node_id ` set (kb_nodes (home_bucket H rt n)) - {k} \<subseteq> node_id ` set (kb_nodes b)"
  shows "ids rt - {k} \<subseteq> ids (put_home H rt n b)"
proof
  fix x
  assume "x \<in> ids rt - {k}"
  then obtain m where m: "m \<in> set (rt_nodes rt)" "node_id m = x" "x \<noteq> k" by (auto simp: ids_def)
  show "x \<in> ids (put_home H rt n b)"
  proof (cases "get_bucket_index H rt (node_id m) = get_bucket_index H rt (node_id n)")
    case True
    then have "m \<in> set (kb_nodes (home_bucket H rt n))" using m(1) rt_nodes_home[OF assms(1)] by blast
    then obtain m' where "m' \<in> set (kb_nodes b)" "node_id m' = x" using assms(2) m(2,3) by fastforce
    then show ?thesis using rt_nodes_put_home[OF assms(1)] by (force simp: ids_def)
  next
    case False
    then show ?thesis using m rt_nodes_put_home[OF assms(1), of m n b] by (auto simp: ids_def)
  qed
qed

lemma ids_lose_one:
  assumes "ids rt - {k} \<subseteq> ids rt'"
  shows "card (ids rt0 - ids rt') \<le> Suc (card (ids rt0 - ids rt))"
proof -
  have "ids rt0 - ids rt' \<subseteq> insert k (ids rt0 - ids rt)" using assms by blast
  then have "card (ids rt0 - ids rt') \<le> card (insert k (ids rt0 - ids rt))" by (intro card_mono) (auto simp: ids_def)
  also have "\<dots> \<le> Suc (card (ids rt0 - ids rt))" by (rule card_insert_le_m1) auto
  finally show ?thesis .
qed

lemma ids_keep: "ids rt \<subseteq> ids rt' \<Longrightarrow> card (ids rt0 - ids rt') \<le> card (ids rt0 - ids rt)"
  by (rule card_mono) (auto simp: ids_def)

lemma bucket_ids:
  assumes "bucket_ok H rt i b"
  shows "node_id ` set (kb_nodes b) - {node_id (hd (kb_nodes b))} \<subseteq> node_id ` set (kb_nodes (envict_and_insert b n))"
    and "node_id ` set (kb_nodes b) - {k} \<subseteq> node_id ` set (kb_nodes (kb_remove b k))"
    and "length (kb_nodes b) < KBUCKET_MAX \<Longrightarrow> node_id ` set (kb_nodes b) \<subseteq> node_id ` set (kb_nodes (kb_insert b n))"
  using assms by (cases "kb_nodes b"; auto simp: bucket_ok_def kb.items_evict kb.items_del kb.items_ins)+

lemma ack_try_inv:
  assumes wf: "rt_wf H rt" and run: "ack_try H rt n = (rest, rt')"
  shows "rt_wf H rt' \<and> rt_host rt' = rt_host rt \<and> ids rt \<subseteq> ids rt' \<and> filter is_replace rest = []
     \<and> (\<forall>t\<in>set rest. task_ok (rt_host rt) t)"
proof (cases "node_id n \<noteq> node_id (rt_host rt) \<and> length (kb_nodes (home_bucket H rt n)) < KBUCKET_MAX")
  case True
  let ?b = "home_bucket H rt n"
  have res: "rest = []" "rt' = put_home H rt n (kb_insert ?b n)" using run True by (simp_all add: ack_try_def try_insert_eq[OF wf])
  have "ids rt - {node_id n} \<subseteq> ids rt'"
    unfolding res using bucket_ids(3)[OF home_bucket_ok[OF wf]] True by (intro ids_put_home[OF wf]) blast
  moreover have "node_id n \<in> ids rt'"
    using home_bucket_ok[OF wf, of n] True unfolding res(2) ids_def
    by (intro image_eqI[OF refl]) (simp add: rt_nodes_put_home[OF wf] bucket_ok_def kb.items_ins)
  ultimately show ?thesis using put_home_wf[OF wf home_insert_ok(1)[OF wf]] True by (auto simp: res)
next
  case False
  then have "rt' = rt \<and> (rest = [] \<or> node_id n \<noteq> node_id (rt_host rt) \<and> (\<exists>old. rest = [AckPing old n]))"
    using run by (auto simp: ack_try_def try_insert_eq[OF wf] split: if_splits)
  then show ?thesis using wf by (auto simp: is_replace_def)
qed

lemma ack_step_inv:
  assumes "ack_step H s s'" and inv: "ack_inv H rt0 s"
  shows "ack_inv H rt0 s'"
  using assms(1)
proof cases
  case (starts n)
  then show ?thesis using inv by (simp add: ack_inv_def is_replace_def)
next
  case (tries xs n ys rest rt)
  have wf: "rt_wf H (as_table s)" using inv by (simp add: ack_inv_def)
  note t = ack_try_inv[OF wf tries(3)]
  then show ?thesis
    using tries(1,2) inv ids_keep[of "as_table s" rt rt0] by (auto simp: ack_inv_def is_replace_def)
next
  case (pongs xs old new ys)
  then show ?thesis using inv by (auto simp: ack_inv_def is_replace_def)
next
  case (fails xs old new ys)
  then show ?thesis using inv by (auto simp: ack_inv_def is_replace_def)
next
  case (replaces xs new ys)
  let ?rt = "as_table s"
  have wf: "rt_wf H ?rt" and new: "node_id new \<noteq> node_id (rt_host ?rt)" using inv replaces(2) by (auto simp: ack_inv_def)
  have "ids ?rt - {node_id (hd (kb_nodes (home_bucket H ?rt new)))} \<subseteq> ids (rt_replace H ?rt new)"
    unfolding rt_replace_eq[OF wf] by (rule ids_put_home[OF wf bucket_ids(1)[OF home_bucket_ok[OF wf]]])
  from ids_lose_one[OF this, of rt0] have "card (ids rt0 - ids (rt_replace H ?rt new)) \<le> Suc (card (ids rt0 - ids ?rt))" .
  moreover have "rt_wf H (rt_replace H ?rt new)" "rt_host (rt_replace H ?rt new) = rt_host ?rt"
    using put_home_wf[OF wf home_insert_ok(2)[OF wf new]] by (simp_all add: rt_replace_eq[OF wf])
  ultimately show ?thesis using replaces inv by (auto simp: ack_inv_def is_replace_def)
next
  case (forgets n)
  let ?rt = "as_table s"
  have wf: "rt_wf H ?rt" using inv by (simp add: ack_inv_def)
  have "ids ?rt - {node_id n} \<subseteq> ids (rt_remove H ?rt n)"
    unfolding rt_remove_eq[OF wf] by (rule ids_put_home[OF wf bucket_ids(2)[OF home_bucket_ok[OF wf]]])
  from ids_lose_one[OF this, of rt0] have "card (ids rt0 - ids (rt_remove H ?rt n)) \<le> Suc (card (ids rt0 - ids ?rt))" .
  moreover have "rt_host (rt_remove H ?rt n) = rt_host ?rt" by (simp add: rt_remove_eq[OF wf])
  ultimately show ?thesis using forgets inv rt_remove_wf[OF wf] by (auto simp: ack_inv_def)
qed

lemma ack_run_inv: "ack_run H s s' \<Longrightarrow> ack_inv H rt0 s \<Longrightarrow> ack_inv H rt0 s'"
  by (induction rule: ack_run.induct) (auto intro: ack_step_inv)

lemma ack_run_trans: "ack_run H b c \<Longrightarrow> ack_run H a b \<Longrightarrow> ack_run H a c"
  by (induction rule: ack_run.induct) (auto intro: ack_run.intros)

text \<open>The function \<open>acknowledge\<close> is the run of these steps in which one task has the table to itself and
  exactly the pings of contacts that do not answer fail.\<close>

lemma acknowledge_is_a_run:
  assumes "acknowledge fuel H ping rt n = Some rt'"
  shows "\<exists>dead. (\<forall>m\<in>set dead. \<not> ping m) \<and>
     ack_run H \<lparr>as_table = rt, as_tasks = [AckTry n], as_failed = fs, as_forgotten = gs\<rparr>
       \<lparr>as_table = rt', as_tasks = [], as_failed = fs @ dead, as_forgotten = gs\<rparr>"
  using assms
proof (induction fuel arbitrary: rt fs)
  case (Suc fuel)
  let ?s = "\<lambda>rt ts fs. \<lparr>as_table = rt, as_tasks = ts, as_failed = fs, as_forgotten = gs\<rparr>"
  obtain r rt1 where t: "try_insert H rt n = (r, rt1)" by (cases "try_insert H rt n")
  have new: "new = n" if "r = Ping old new" for old new
    using t that by (auto simp: try_insert_def Let_def split: if_splits option.splits prod.splits)
  have first: "ack_run H (?s rt [AckTry n] fs) (?s rt1 rest fs)" if "ack_try H rt n = (rest, rt1)" for rest
    using ack_further[OF ack_here tries[of "?s rt [AckTry n] fs" "[]" n "[]" H rest rt1]] that by simp
  show ?case
  proof (cases r)
    case (Ping old new)
    have p: "ack_run H (?s rt [AckTry n] fs) (?s rt1 [AckPing old n] fs)"
      using first new[OF Ping] by (simp add: ack_try_def t Ping)
    show ?thesis
    proof (cases "ping old")
      case True
      then have "rt' = rt1" using Suc.prems t Ping by (simp add: acknowledge.simps(2))
      then show ?thesis using ack_further[OF p pongs[of _ "[]" old n "[]"]] by (intro exI[of _ "[]"]) simp
    next
      case False
      then have go: "acknowledge fuel H ping (rt_replace H rt1 n) n = Some rt'"
        using Suc.prems t Ping new[OF Ping] by (simp add: acknowledge.simps(2))
      have "ack_run H (?s rt [AckTry n] fs) (?s (rt_replace H rt1 n) [AckTry n] (fs @ [old]))"
        using ack_further[OF ack_further[OF p fails[of _ "[]" old n "[]"]] replaces[of _ "[]" n "[]"]] by simp
      moreover obtain dead where "\<forall>m\<in>set dead. \<not> ping m"
        "ack_run H (?s (rt_replace H rt1 n) [AckTry n] (fs @ [old])) (?s rt' [] ((fs @ [old]) @ dead))"
        using Suc.IH[OF go] by blast
      ultimately show ?thesis using False by (intro exI[of _ "old # dead"]) (auto intro: ack_run_trans)
    qed
  next
    case Split
    then have go: "acknowledge fuel H ping rt1 n = Some rt'" using Suc.prems t by (simp add: acknowledge.simps(2))
    have p: "ack_run H (?s rt [AckTry n] fs) (?s rt1 [AckTry n] fs)" using first by (simp add: ack_try_def t Split)
    then show ?thesis using Suc.IH[OF go, of fs] by (blast intro: ack_run_trans)
  qed (use Suc.prems t first in \<open>auto simp: acknowledge.simps(2) ack_try_def intro!: exI[of _ "[]"]\<close>)
qed simp

text \<open>Two acknowledges of new contacts for the same full bucket, at the same time, ping the same dead
  oldest contact; each then evicts the front of the bucket, and the second eviction takes the next
  contact, which was never pinged.\<close>

lemma concurrent_acknowledges_evict_live:
  assumes wf: "rt_wf H rt" and full: "kb_nodes (home_bucket H rt a) = dead # live # others" "length others = KBUCKET_MAX - 2"
    and new: "node_id a \<noteq> node_id (rt_host rt)" "node_id b \<noteq> node_id (rt_host rt)" "node_id a \<noteq> node_id b"
      "get_bucket_index H rt (node_id b) = get_bucket_index H rt (node_id a)"
      "{node_id a, node_id b} \<inter> node_id ` set (dead # live # others) = {}"
  shows "\<exists>s. ack_run H \<lparr>as_table = rt, as_tasks = [AckTry a, AckTry b], as_failed = [], as_forgotten = []\<rparr> s
     \<and> as_failed s = [dead, dead] \<and> as_forgotten s = [] \<and> kb_nodes (home_bucket H (as_table s) a) = others @ [a, b]
     \<and> live \<notin> set (rt_nodes (as_table s))"
proof -
  let ?s = "\<lambda>rt ts fs. \<lparr>as_table = rt, as_tasks = ts, as_failed = fs, as_forgotten = []\<rparr>"
  let ?B = "home_bucket H rt a"
  have same: "home_bucket H rt' b = home_bucket H rt' a" "put_home H rt' b c = put_home H rt' a c" if "rt_host rt' = rt_host rt" for rt' c
    using that new(4) get_bucket_index_host[OF that] by (simp_all add: home_bucket_def put_home_def)
  have ok: "bucket_ok H rt (get_bucket_index H rt (node_id a)) ?B" by (rule home_bucket_ok[OF wf])
  let ?B1 = "envict_and_insert ?B a"
  let ?rt1 = "put_home H rt a ?B1"
  let ?B2 = "envict_and_insert ?B1 b"
  let ?rt2 = "put_home H ?rt1 a ?B2"
  have n1: "kb_nodes ?B1 = live # others @ [a]" and b1: "bucket_ok H rt (get_bucket_index H rt (node_id a)) ?B1"
    using ok full new(5) home_insert_ok(2)[OF wf new(1)] by (auto simp: bucket_ok_def kb.items_evict filter_id_conv image_iff)
  have wf1: "rt_wf H ?rt1" by (rule put_home_wf[OF wf b1])
  have n2: "kb_nodes ?B2 = others @ [a, b]"
    using b1 n1 new(3,5) by (auto simp: bucket_ok_def kb.items_evict filter_id_conv image_iff)
  have len: "length (kb_nodes ?B) = KBUCKET_MAX" using full by (simp add: KBUCKET_MAX_def)
  have asks: "ack_try H rt a = ([AckPing dead a], rt)" "ack_try H rt b = ([AckPing dead b], rt)"
    using new len full(1) by (simp_all add: ack_try_def try_insert_eq[OF wf] same)
  have r1: "ack_run H (?s rt [AckTry a, AckTry b] []) (?s rt [AckPing dead a, AckTry b] [])"
    using ack_further[OF ack_here tries[of "?s rt [AckTry a, AckTry b] []" "[]" a "[AckTry b]" H "[AckPing dead a]" rt]] asks(1) by simp
  have r2: "ack_run H (?s rt [AckTry a, AckTry b] []) (?s rt [AckPing dead a, AckPing dead b] [])"
    using ack_further[OF r1 tries[of _ "[AckPing dead a]" b "[]" H "[AckPing dead b]" rt]] asks(2) by simp
  have r3: "ack_run H (?s rt [AckTry a, AckTry b] []) (?s rt [AckReplace a, AckPing dead b] [dead])"
    using ack_further[OF r2 fails[of _ "[]" dead a "[AckPing dead b]"]] by simp
  have r4: "ack_run H (?s rt [AckTry a, AckTry b] []) (?s rt [AckReplace a, AckReplace b] [dead, dead])"
    using ack_further[OF r3 fails[of _ "[AckReplace a]" dead b "[]"]] by simp
  have r5: "ack_run H (?s rt [AckTry a, AckTry b] []) (?s ?rt1 [AckTry a, AckReplace b] [dead, dead])"
    using ack_further[OF r4 replaces[of _ "[]" a "[AckReplace b]"]] by (simp add: rt_replace_eq[OF wf])
  have r6: "ack_run H (?s rt [AckTry a, AckTry b] []) (?s ?rt2 [AckTry a, AckTry b] [dead, dead])"
    using ack_further[OF r5 replaces[of _ "[AckTry a]" b "[]"]] wf by (simp add: rt_replace_eq[OF wf1] same)
  have "live \<notin> set (rt_nodes ?rt2)"
    using ok full new(5) rt_nodes_put_home[OF wf1, of live a ?B2] n2 by (auto simp: bucket_ok_def)
  then show ?thesis using r6 n2 wf1 by (intro exI[of _ "?s ?rt2 [AckTry a, AckTry b] [dead, dead]"]) simp
qed

subsection \<open>Runs of the table\<close>

text \<open>The two ways \<open>Kademlia\<close> changes its table: acknowledging a contact and forgetting one
  that failed a request.\<close>

datatype table_event = Acknowledge "node \<Rightarrow> bool" node | Forget node

fun rt_step :: "(bytes \<Rightarrow> bytes) \<Rightarrow> route_table \<Rightarrow> table_event \<Rightarrow> route_table" where
  "rt_step H rt (Acknowledge ping n) = (case acknowledge 3 H ping rt n of Some rt' \<Rightarrow> rt' | None \<Rightarrow> rt)"
| "rt_step H rt (Forget n) = rt_remove H rt n"

lemma rt_step_wf: "rt_wf H rt \<Longrightarrow> rt_wf H (rt_step H rt e)"
  by (cases e) (auto simp: ack_rel_def intro: rt_remove_wf dest: acknowledge_rel split: option.splits)

interpretation rt: preserved_by "rt_step H" "rt_wf H" for H
  by unfold_locales (rule rt_step_wf)

subsection \<open>Bit positions and sorting\<close>

lemma bit_positions_upt: "bit_positions = map (\<lambda>n. (n div 8, 7 - n mod 8)) [0..<256]"
proof -
  have e8: "[0..<8] = [0, 1, 2, 3, 4, 5, 6, 7 :: nat]" by (simp add: upt_rec)
  have "concat (map (\<lambda>i. map (\<lambda>j. (i, j)) (rev [0..<8])) [0..<L])
          = map (\<lambda>n. (n div 8, 7 - n mod 8)) [0..<L * 8]" for L
  proof (induction L)
    case 0
    then show ?case by simp
  next
    case (Suc L)
    have "map (\<lambda>k. k + L * 8) [0..<8] = [L * 8..<L * 8 + 8]"
      using map_add_upt[of "L * 8" 8] by (simp only: add.commute)
    then have blk: "[L * 8..<L * 8 + 8] = map (\<lambda>k. k + L * 8) [0, 1, 2, 3, 4, 5, 6, 7]"
      unfolding e8 by (rule sym)
    have "[0..<Suc L * 8] = [0..<L * 8] @ [L * 8..<L * 8 + 8]"
      using upt_add_eq_append[of 0 "L * 8" 8] by (simp add: add.commute)
    then show ?case unfolding blk using Suc by (simp add: e8) presburger
  qed
  from this[of 32] show ?thesis by (simp add: bit_positions_def KEY_ID_LENGTH_def)
qed

lemma find_map: "find P (map f xs) = map_option f (find (P \<circ> f) xs)"
  by (induction xs) auto

lemma find_upt_Some: "find P [0..<n] = Some i \<Longrightarrow> i < n \<and> P i \<and> (\<forall>m<i. \<not> P m)"
  by (auto simp: find_Some_iff)

lemma get_bucket_index_find:
  "get_bucket_index H rt k =
     (case find (id_bit (key_id (distance H (node_id (rt_host rt)) k))) [0..<256] of
        Some n \<Rightarrow> n | None \<Rightarrow> 255)"
proof -
  let ?d = "key_id (distance H (node_id (rt_host rt)) k)"
  have test: "(\<lambda>(i, j). drop_bit j (?d ! i) AND 1 \<noteq> 0) \<circ> (\<lambda>n. (n div 8, 7 - n mod 8)) = id_bit ?d"
    by (auto simp: fun_eq_iff id_bit_def drop_bit_and_1)
  have pos: "n div 8 * 8 + (7 - (7 - n mod 8)) = n" for n :: nat by presburger
  show ?thesis
    unfolding get_bucket_index_def Let_def bit_positions_upt find_map KEY_ID_LENGTH_def test
    by (cases "find (id_bit ?d) [0..<256]") (simp_all only: option.map option.case prod.case pos)
qed

lemma insort_key_map: "insort_key f (g x) (map g ys) = map g (insort_key (f \<circ> g) x ys)"
  by (induction ys) auto

lemma sort_key_map: "sort_key f (map g xs) = map g (sort_key (\<lambda>x. f (g x)) xs)"
  by (induction xs) (auto simp: insort_key_map comp_def)

lemma get_closest_nodes_sort:
  "get_closest_nodes H rt k c =
     take c (sort_key (\<lambda>n. key_id (distance H k (node_id n)))
               (filter (\<lambda>n. node_id n \<noteq> node_id (rt_host rt)) (rt_nodes rt)))"
  by (simp add: get_closest_nodes_def Let_def sort_key_map take_map comp_def)

lemma sorted_take_le:
  assumes "sorted (map f xs)" and "x \<in> set (take c xs)" and "y \<in> set (drop c xs)"
  shows "f x \<le> f y"
proof -
  have "sorted (map f (take c xs) @ map f (drop c xs))"
    using assms(1) by (metis append_take_drop_id map_append)
  then show ?thesis using assms(2,3) by (auto simp: sorted_append)
qed

subsection \<open>Splitting\<close>

lemma kb_split_fold:
  assumes "length (kb_nodes l) \<le> bucket_size l" and "length (kb_nodes r) \<le> bucket_size r"
    and "foldl (\<lambda>(l, r) n. if p n then (l, kb_insert r n) else (kb_insert l n, r)) (l, r) ns = (l', r')"
  shows "bucket_size l' = bucket_size l \<and> bucket_size r' = bucket_size r
     \<and> length (kb_nodes l') \<le> bucket_size l \<and> length (kb_nodes r') \<le> bucket_size r"
  using assms
proof (induction ns arbitrary: l r)
  case Nil
  then show ?case by simp
next
  case (Cons n ns)
  have cap: "length (kb_nodes (kb_insert b n)) \<le> bucket_size b" if "length (kb_nodes b) \<le> bucket_size b" for b
  proof -
    have "remove_pos k ns = Some rest \<Longrightarrow> Suc (length rest) = length ns" for k ns rest
      by (induction ns arbitrary: rest) (auto split: if_splits)
    then show ?thesis using that by (auto simp: kb_insert_def split: option.splits)
  qed
  show ?case
    using Cons.prems Cons.IH[of l "kb_insert r n"] Cons.IH[of "kb_insert l n" r] cap[of l] cap[of r]
    by (auto split: if_splits)
qed

lemma kb_split_sizes:
  assumes "kb_split b = (l, r)"
  shows "bucket_size l = kb_depth b + 1 \<and> bucket_size r = kb_depth b + 1
     \<and> length (kb_nodes l) \<le> kb_depth b + 1 \<and> length (kb_nodes r) \<le> kb_depth b + 1"
  using kb_split_fold[of "KBucket_new (kb_depth b + 1) (bucket_size b)"
      "KBucket_new (kb_depth b + 1) (bucket_size b)" "\<lambda>n. get_bit (node_id n) (kb_depth b)" "kb_nodes b" l r] assms
  by (simp add: kb_split_def KBucket_new_def)

subsection \<open>Properties\<close>

text \<open>C8: every routing table the node can reach, from the empty table through any sequence of
  acknowledged and forgotten contacts, has 256 buckets of at most \<open>KBUCKET_MAX\<close> contacts with
  distinct identifiers, each in the bucket its identifier selects and none of them the host.\<close>

theorem route_table_invariant: "rt_wf H (foldl (rt_step H) (RouteTable_new h) es)"
  by (rule rt.run_inv) (rule rt_wf_new)

text \<open>C15: \<open>acknowledge\<close> on a well-formed table. When no other task changes the table while it waits
  for a ping, it ends after at most three rounds of \<open>try_insert\<close> and only evicts contacts that
  failed a ping: every other contact that answers is still in the table, and the only contact that
  can be new is the acknowledged one. When any number of acknowledges and removals interleave, in
  every order of their critical sections, the table stays well formed and the contacts that have
  left it are at most as many as there were failed pings and forgotten contacts together (but the
  contact that leaves need not be the one whose ping failed, see
  \<open>concurrent_acknowledges_evict_live\<close>).\<close>

theorem acknowledge_keeps_live_contacts:
  assumes "rt_wf H rt"
  shows "(\<exists>rt'. acknowledge (3 + extra) H ping rt n = Some rt'
       \<and> (\<forall>m\<in>set (rt_nodes rt). ping m \<longrightarrow> node_id m \<noteq> node_id n \<longrightarrow> m \<in> set (rt_nodes rt'))
       \<and> set (rt_nodes rt') \<subseteq> insert n (set (rt_nodes rt)))
     \<and> (\<forall>s. ack_run H \<lparr>as_table = rt, as_tasks = [], as_failed = [], as_forgotten = []\<rparr> s \<longrightarrow>
          rt_wf H (as_table s)
          \<and> card (node_id ` set (rt_nodes rt) - node_id ` set (rt_nodes (as_table s)))
              \<le> length (as_failed s) + length (as_forgotten s))"
proof -
  obtain rt' where rt': "acknowledge (3 + extra) H ping rt n = Some rt'"
    using acknowledge_three_rounds[OF assms, of extra ping n] by (auto simp: numeral_3_eq_3)
  have "ack_inv H rt \<lparr>as_table = rt, as_tasks = [], as_failed = [], as_forgotten = []\<rparr>"
    using assms by (simp add: ack_inv_def)
  from ack_run_inv[OF _ this] acknowledge_rel[OF assms rt'] rt' show ?thesis
    by (fastforce simp: ack_rel_def ack_inv_def ids_def)
qed

definition near :: node where
  "near = \<lparr>node_id = \<lparr>key_id = replicate 32 1, pub_key = [1]\<rparr>, node_addr = SocketV4 2 2\<rparr>"

definition small_table :: route_table where
  "small_table = RouteTable_new \<lparr>node_id = \<lparr>key_id = replicate 32 0, pub_key = []\<rparr>, node_addr = SocketV4 1 1\<rparr>"

theorem acknowledge_keeps_live_contacts_witness:
  "(\<exists>rt'. acknowledge (3 + 0) (\<lambda>_. replicate 32 0) (\<lambda>_. True) small_table near = Some rt')
     \<and> ack_run (\<lambda>_. replicate 32 0) \<lparr>as_table = small_table, as_tasks = [], as_failed = [], as_forgotten = []\<rparr>
         \<lparr>as_table = small_table, as_tasks = [AckTry near, AckTry near], as_failed = [], as_forgotten = []\<rparr>
     \<and> rt_wf (\<lambda>_. replicate 32 0) small_table"
proof -
  have wf: "rt_wf (\<lambda>_. replicate 32 0) small_table" unfolding small_table_def by (rule rt_wf_new)
  have run: "ack_run (\<lambda>_. replicate 32 0) \<lparr>as_table = small_table, as_tasks = [], as_failed = [], as_forgotten = []\<rparr>
      \<lparr>as_table = small_table, as_tasks = [AckTry near, AckTry near], as_failed = [], as_forgotten = []\<rparr>"
    using ack_further[OF ack_further[OF ack_here starts[of _ "\<lparr>as_table = small_table, as_tasks = [], as_failed = [], as_forgotten = []\<rparr>" near]] starts[of _ _ near]] by simp
  note both = acknowledge_keeps_live_contacts[OF wf, of 0 "\<lambda>_. True" near]
  show ?thesis using both[THEN conjunct1] both[THEN conjunct2, rule_format, OF run] run by auto
qed

text \<open>In a table that satisfies the invariant \<open>try_insert\<close> never splits a bucket: it ignores
  the host, stores the contact while its bucket has room and otherwise asks for a ping of the
  bucket's oldest contact, leaving the table as it was.\<close>

lemma try_insert_behaviour:
  assumes "rt_wf H rt"
  shows "try_insert H rt n =
     (if node_id n = node_id (rt_host rt) then (NoInsert, rt)
      else if length (kb_nodes (kbuckets rt ! get_bucket_index H rt (node_id n))) < KBUCKET_MAX
      then (Inserted, rt\<lparr>kbuckets := (kbuckets rt)[get_bucket_index H rt (node_id n) :=
                 kb_insert (kbuckets rt ! get_bucket_index H rt (node_id n)) n]\<rparr>)
      else (Ping (hd (kb_nodes (kbuckets rt ! get_bucket_index H rt (node_id n)))) n, rt))"
  unfolding try_insert_eq[OF assms] put_home_def home_bucket_def ..

text \<open>C23: \<open>get_closest_nodes\<close> returns as many table contacts as it was asked for (or all of
  them), ordered by the distance to the key, and no contact it leaves out is strictly closer
  than one it returns.\<close>

theorem closest_nodes_are_closest:
  fixes H :: "bytes \<Rightarrow> bytes" and k :: key and c :: nat
  defines "d \<equiv> \<lambda>n. key_id (distance H k (node_id n))"
  assumes "others = filter (\<lambda>n. node_id n \<noteq> node_id (rt_host rt)) (rt_nodes rt)"
  shows "\<exists>left_out. mset (get_closest_nodes H rt k c @ left_out) = mset others
     \<and> sorted (map d (get_closest_nodes H rt k c))
     \<and> length (get_closest_nodes H rt k c) = min c (length others)
     \<and> (\<forall>n\<in>set (get_closest_nodes H rt k c). \<forall>m\<in>set left_out. d n \<le> d m)"
proof (intro exI conjI ballI)
  let ?s = "sort_key d others"
  have eq: "get_closest_nodes H rt k c = take c ?s"
    unfolding assms(2) d_def by (rule get_closest_nodes_sort)
  show "mset (get_closest_nodes H rt k c @ drop c ?s) = mset others"
    by (simp add: eq del: mset_append)
  show "sorted (map d (get_closest_nodes H rt k c))"
    by (simp add: eq sorted_wrt_take flip: take_map)
  show "length (get_closest_nodes H rt k c) = min c (length others)"
    by (simp add: eq min.commute)
  show "d n \<le> d m" if "n \<in> set (get_closest_nodes H rt k c)" "m \<in> set (drop c ?s)" for n m
    using that by (intro sorted_take_le[of d ?s]) (auto simp: eq)
qed

theorem closest_nodes_are_closest_witness:
  "length (get_closest_nodes (\<lambda>x. x)
     \<lparr>rt_host = \<lparr>node_id = \<lparr>key_id = [0], pub_key = []\<rparr>, node_addr = SocketV4 1 1\<rparr>,
      kbuckets = [\<lparr>kb_nodes = [\<lparr>node_id = \<lparr>key_id = [7], pub_key = []\<rparr>, node_addr = SocketV4 2 2\<rparr>,
                               \<lparr>node_id = \<lparr>key_id = [5], pub_key = []\<rparr>, node_addr = SocketV4 3 3\<rparr>],
                   bucket_size = 20, kb_depth = 0\<rparr>]\<rparr>
     \<lparr>key_id = [4], pub_key = []\<rparr> 1) = 1"
  using closest_nodes_are_closest[OF refl, of "\<lambda>x. x" "\<lparr>rt_host = \<lparr>node_id = \<lparr>key_id = [0], pub_key = []\<rparr>, node_addr = SocketV4 1 1\<rparr>,
      kbuckets = [\<lparr>kb_nodes = [\<lparr>node_id = \<lparr>key_id = [7], pub_key = []\<rparr>, node_addr = SocketV4 2 2\<rparr>,
                               \<lparr>node_id = \<lparr>key_id = [5], pub_key = []\<rparr>, node_addr = SocketV4 3 3\<rparr>],
                   bucket_size = 20, kb_depth = 0\<rparr>]\<rparr>" "\<lparr>key_id = [4], pub_key = []\<rparr>" 1]
  by (auto simp: rt_nodes_def)

text \<open>The bucket index is the position of the first set bit of the distance, that is of the
  hash of the XOR of the two identifiers, and the last bucket when no bit is set.\<close>

lemma bucket_index_first_bit:
  fixes H :: "bytes \<Rightarrow> bytes" and rt :: route_table and k :: key
  defines "d \<equiv> H (map2 (XOR) (key_id (node_id (rt_host rt))) (key_id k))"
    and "i \<equiv> get_bucket_index H rt k"
  shows "i < 256 \<and> (\<forall>m<i. \<not> id_bit d m) \<and> (id_bit d i \<or> (i = 255 \<and> (\<forall>m<256. \<not> id_bit d m)))"
proof -
  have d: "key_id (distance H (node_id (rt_host rt)) k) = d"
    by (simp add: d_def distance_def)
  show ?thesis
  proof (cases "find (id_bit d) [0..<256]")
    case None
    then have "i = 255" by (simp add: i_def get_bucket_index_find d)
    moreover have "\<forall>m<256. \<not> id_bit d m" using None by (auto simp: find_None_iff)
    ultimately show ?thesis by simp
  next
    case (Some n)
    then have "i = n" by (simp add: i_def get_bucket_index_find d)
    with find_upt_Some[OF Some] show ?thesis by simp
  qed
qed

text \<open>\<open>split\<close> swaps the two arguments of the bucket constructor, so each half can hold only
  one contact more than the depth of the bucket: splitting a full bucket of depth below nine
  loses contacts.\<close>

lemma split_loses_contacts:
  assumes "kb_split b = (l, r)" and "is_full b" and "bucket_size b = KBUCKET_MAX" and "kb_depth b < 9"
  shows "length (kb_nodes l) + length (kb_nodes r) < length (kb_nodes b)"
  using kb_split_sizes[OF assms(1)] assms(2-4) by (simp add: is_full_def KBUCKET_MAX_def)

end
