(* ===== verification/Kademlia.thy ===== *)
theory Kademlia
  imports DhtStore RouteTable
begin

text \<open>
  Requests and replies of the DHT: \<open>dht/rpc.rs\<close> and \<open>dht/kademlia/server.rs\<close>. The state of a node
  is its token issuer, PGP keys, store and routing table; the state of a connection is the peer it
  is authenticated for. Hashes, signatures, the PGP library, the manifest service, the clock,
  which contacts answer a ping and which replies can be sent are the fields of an environment
  record. A handler returns its result, both states and the replies it sent; \<open>None\<close> is a panic.
  The replies of one handler are sent in sequence, so an early return leaves the earlier effects.
\<close>

datatype rpc_error = RpcTimeout | ChannelClosed | UnexpectedResponse | Transport | RpcMessage

datatype kademlia_error =
    KadNode | KadAuth auth_error | BootstrapFailed | NoNodesFound | KadConnection | KadCert
  | KadMessage | NoValue | KadRpc rpc_error

subsection \<open>Pending requests\<close>

record rpc_handler =
  pending :: "u64 \<Rightarrow> bool"
  next_id :: u64

definition RpcHandler_new :: rpc_handler where
  "RpcHandler_new = \<lparr>pending = (\<lambda>_. False), next_id = 0\<rparr>"

definition alloc_id :: "rpc_handler \<Rightarrow> u64 \<times> rpc_handler" where
  "alloc_id h = (next_id h, h\<lparr>next_id := next_id h + 1\<rparr>)"

definition rpc_begin :: "rpc_handler \<Rightarrow> u64 \<times> rpc_handler" where
  "rpc_begin h = (case alloc_id h of (i, h) \<Rightarrow> (i, h\<lparr>pending := (pending h)(i := True)\<rparr>))"

definition rpc_dispatch :: "rpc_handler \<Rightarrow> dht_packet \<Rightarrow> dht_packet option \<times> (u64 \<times> dht_response) option \<times> rpc_handler" where
  "rpc_dispatch h pkt =
     (case pkt of
        ResponsePacket r \<Rightarrow>
          if pending h (env_id r)
          then (None, Some (env_id r, env_payload r), h\<lparr>pending := (pending h)(env_id r := False)\<rparr>)
          else (None, None, h)
      | _ \<Rightarrow> (Some pkt, None, h))"

text \<open>How the transport and the peer behave for one request; the response, if any, has taken the
  entry out of the table through \<open>dispatch\<close>.\<close>

datatype rpc_outcome = ConnectFails | EncodeFails | SendFails | Answered dht_response | SenderDropped | TimesOut

definition rpc_handle_request :: "rpc_handler \<Rightarrow> rpc_outcome \<Rightarrow> (rpc_error + dht_response) \<times> rpc_handler" where
  "rpc_handle_request h oc =
     (case rpc_begin h of
        (i, h) \<Rightarrow>
          let removed = h\<lparr>pending := (pending h)(i := False)\<rparr>
          in case oc of
               ConnectFails \<Rightarrow> (Inl Transport, h)
             | EncodeFails \<Rightarrow> (Inl RpcMessage, h)
             | SendFails \<Rightarrow> (Inl Transport, removed)
             | Answered r \<Rightarrow>
                 (case rpc_dispatch h (ResponsePacket \<lparr>env_id = i, env_payload = r\<rparr>) of
                    (_, Some (_, payload), h) \<Rightarrow> (Inr payload, h)
                  | (_, None, h) \<Rightarrow> (Inl ChannelClosed, h))
             | SenderDropped \<Rightarrow> (Inl ChannelClosed, removed)
             | TimesOut \<Rightarrow> (Inl RpcTimeout, removed))"

subsection \<open>State and environment\<close>

record ('k, 's) dht_env =
  e_sha256 :: "bytes \<Rightarrow> bytes"
  e_verify :: verifier
  e_ed_verify :: verifier
  e_pgp :: "('k, 's) pgp"
  e_manifest :: "string \<Rightarrow> bytes option"
  e_now :: u64
  e_ping :: "node \<Rightarrow> bool"
  e_can_reply :: "node \<Rightarrow> bool"

record ('k, 's) kademlia =
  kd_auth :: "'s auth_manager"
  kd_pgp_keys :: "bytes \<rightharpoonup> 'k"
  kd_store :: dht_store
  kd_routes :: route_table

record conn_state =
  conn_inbound :: "key option"
  conn_outbound :: bool
  conn_closed :: bool

type_synonym replies = "(node \<times> dht_response rpc_envelope) list"

type_synonym ('k, 's) served = "(kademlia_error + unit) \<times> ('k, 's) kademlia \<times> conn_state \<times> replies"

text \<open>\<open>acknowledge\<close> needs at most three rounds on a well-formed table.\<close>

definition kd_acknowledge :: "('k, 's) dht_env \<Rightarrow> ('k, 's) kademlia \<Rightarrow> node \<Rightarrow> ('k, 's) kademlia" where
  "kd_acknowledge env kd n =
     (case acknowledge 3 (e_sha256 env) (e_ping env) (kd_routes kd) n of
        Some rt \<Rightarrow> kd\<lparr>kd_routes := rt\<rparr>
      | None \<Rightarrow> kd)"

definition kd_reply :: "('k, 's) dht_env \<Rightarrow> ('k, 's) kademlia \<Rightarrow> conn_state \<Rightarrow> node \<Rightarrow> u64 \<Rightarrow> dht_response \<Rightarrow> ('k, 's) served" where
  "kd_reply env kd c peer i response =
     (if e_can_reply env peer
      then (Inr (), kd, c, [(peer, \<lparr>env_id = i, env_payload = response\<rparr>)])
      else (Inl (KadRpc Transport), kd, c, []))"

definition host_id :: "('k, 's) kademlia \<Rightarrow> key" where
  "host_id kd = node_id (rt_host (kd_routes kd))"

definition set_inbound_auth :: "(bytes \<Rightarrow> bytes) \<Rightarrow> conn_state \<Rightarrow> token \<Rightarrow> conn_state" where
  "set_inbound_auth sha256 c t = c\<lparr>conn_inbound := Some (token_sender sha256 t)\<rparr>"

definition set_inbound_peer :: "conn_state \<Rightarrow> key \<Rightarrow> conn_state" where
  "set_inbound_peer c k = c\<lparr>conn_inbound := Some k\<rparr>"

definition set_outbound_authenticated :: "conn_state \<Rightarrow> conn_state" where
  "set_outbound_authenticated c = c\<lparr>conn_outbound := True\<rparr>"

text \<open>A reply followed by an effect on the connection that only happens when it was sent.\<close>

definition then_connection :: "('k, 's) served \<Rightarrow> (conn_state \<Rightarrow> conn_state) \<Rightarrow> ('k, 's) served" where
  "then_connection r f = (case r of (Inr _, kd, c, rs) \<Rightarrow> (Inr (), kd, f c, rs) | (Inl e, kd, c, rs) \<Rightarrow> (Inl e, kd, c, rs))"

subsection \<open>Handlers\<close>

definition handle_ping :: "('k, 's) dht_env \<Rightarrow> ('k, 's) kademlia \<Rightarrow> conn_state \<Rightarrow> u64 \<Rightarrow> node \<Rightarrow> ('k, 's) served" where
  "handle_ping env kd c i sender =
     (let kd = kd_acknowledge env kd sender in kd_reply env kd c sender i (Pong (host_id kd)))"

definition handle_find_node :: "('k, 's) dht_env \<Rightarrow> ('k, 's) kademlia \<Rightarrow> conn_state \<Rightarrow> u64 \<Rightarrow> node \<Rightarrow> key \<Rightarrow> ('k, 's) served" where
  "handle_find_node env kd c i sender lookup =
     (let closest_nodes = get_closest_nodes (e_sha256 env) (kd_routes kd) lookup KBUCKET_MAX;
          host = host_id kd;
          kd = kd_acknowledge env kd sender
      in kd_reply env kd c sender i (PeersResp host (map peer_response_from closest_nodes)))"

definition handle_store :: "('k, 's) dht_env \<Rightarrow> ('k, 's) kademlia \<Rightarrow> conn_state \<Rightarrow> u64 \<Rightarrow> node \<Rightarrow> key \<Rightarrow> kademlia_data \<Rightarrow> ('k, 's) served" where
  "handle_store env kd c i sender k data =
     (let host = host_id kd;
          kd = kd_acknowledge env kd sender;
          kd = kd\<lparr>kd_store := store_insert (e_now env) (kd_store kd) k data\<rparr>
      in kd_reply env kd c sender i (Pong host))"

definition handle_find_value :: "('k, 's) dht_env \<Rightarrow> ('k, 's) kademlia \<Rightarrow> conn_state \<Rightarrow> u64 \<Rightarrow> node \<Rightarrow> key \<Rightarrow> ('k, 's) served" where
  "handle_find_value env kd c i sender k =
     (let response =
        (case store_get (e_now env) (kd_store kd) k of
           Some value \<Rightarrow> ValueResp (host_id kd) value
         | None \<Rightarrow> PeersResp (host_id kd)
             (map peer_response_from (get_closest_nodes (e_sha256 env) (kd_routes kd) k KBUCKET_MAX)))
      in kd_reply env kd c sender i response)"

fun kd_handle_request :: "('k, 's) dht_env \<Rightarrow> ('k, 's) kademlia \<Rightarrow> conn_state \<Rightarrow> key \<Rightarrow> u64 \<Rightarrow> auth_dht_request \<Rightarrow> sock_addr \<Rightarrow> ('k, 's) served" where
  "kd_handle_request env kd c sender_id i PingReq src = handle_ping env kd c i (from_socket sender_id src)"
| "kd_handle_request env kd c sender_id i (FindNode lookup_id) src =
     handle_find_node env kd c i (from_socket sender_id src) lookup_id"
| "kd_handle_request env kd c sender_id i (FindValue k) src =
     handle_find_value env kd c i (from_socket sender_id src) k"
| "kd_handle_request env kd c sender_id i (StoreReq k data) src =
     handle_store env kd c i (from_socket sender_id src) k data"

definition handle_request_challange :: "('k, 's) dht_env \<Rightarrow> ('k, 's) kademlia \<Rightarrow> conn_state \<Rightarrow> u64 \<Rightarrow> node \<Rightarrow> ('k, 's) served" where
  "handle_request_challange env kd c i sender =
     (let challange = am_challange (e_sha256 env) (kd_auth kd) (pub_key (node_id sender)) (addr_ip (node_addr sender))
      in kd_reply env kd c sender i (Challange challange DIFFICULTY))"

definition handle_submit_challange ::
  "('k, 's) dht_env \<Rightarrow> ('k, 's) kademlia \<Rightarrow> conn_state \<Rightarrow> u64 \<Rightarrow> node \<Rightarrow> bytes \<Rightarrow> u32 \<Rightarrow> bytes \<Rightarrow> attest_report option \<Rightarrow> string
     \<Rightarrow> ('k, 's) served option" where
  "handle_submit_challange env kd c i sender pw nonce pow_sign attest app_version =
     (let challange = am_challange (e_sha256 env) (kd_auth kd) (pub_key (node_id sender)) (addr_ip (node_addr sender));
          secret = \<lparr>pow_value = pw, pow_challange = challange, pow_nonce = nonce, pow_signature = Some pow_sign,
                    pow_attestation = attest, pow_difficulty = DIFFICULTY\<rparr>
      in case issue_token (e_sha256 env) (e_verify env) (e_ed_verify env) (e_pgp env) (e_manifest env) (e_now env)
                (kd_auth kd) sender secret app_version of
           None \<Rightarrow> None
         | Some (Inl e) \<Rightarrow> Some (Inl (KadAuth e), kd, c, [])
         | Some (Inr t) \<Rightarrow>
             Some (then_connection (kd_reply env kd c sender i (Welcome t)) (\<lambda>c. set_inbound_auth (e_sha256 env) c t)))"

definition handle_submit_handshake ::
  "('k, 's) dht_env \<Rightarrow> ('k, 's) kademlia \<Rightarrow> conn_state \<Rightarrow> u64 \<Rightarrow> token \<Rightarrow> bytes \<Rightarrow> sock_addr \<Rightarrow> ('k, 's) served" where
  "handle_submit_handshake env kd c i t signature src =
     (let sender_id = token_sender (e_sha256 env) t;
          challange = am_challange (e_sha256 env) (kd_auth kd) (pub_key sender_id) (addr_ip src)
      in if \<not> token_verify (e_sha256 env) (e_verify env) (e_now env) t \<or> \<not> verify_pgp (e_pgp env) t (kd_pgp_keys kd)
         then (Inl (KadAuth InvalidToken), kd, c\<lparr>conn_closed := True\<rparr>, [])
         else let token_bytes = token_hash (e_sha256 env) t @ to_be_bytes_u32 challange
              in if \<not> e_verify env (pub_key sender_id) token_bytes signature
                 then (Inl (KadAuth RoguePeer), kd, c\<lparr>conn_closed := True\<rparr>, [])
                 else then_connection (kd_reply env kd c (from_socket sender_id src) i (Pong (host_id kd)))
                        (\<lambda>c. set_inbound_auth (e_sha256 env) c t))"

fun handle_handshake ::
  "('k, 's) dht_env \<Rightarrow> ('k, 's) kademlia \<Rightarrow> conn_state \<Rightarrow> u64 \<Rightarrow> dht_request \<Rightarrow> sock_addr \<Rightarrow> ('k, 's) served option" where
  "handle_handshake env kd c i (RequestChallange sender_id) src =
     Some (handle_request_challange env kd c i (from_socket sender_id src))"
| "handle_handshake env kd c i (SubmitChallange sender_id pw nonce signature attest app_version) src =
     handle_submit_challange env kd c i (from_socket sender_id src) pw nonce signature attest app_version"
| "handle_handshake env kd c i (RequestHandshake sender_id) src =
     (let sender = from_socket sender_id src;
          challange = am_challange (e_sha256 env) (kd_auth kd) (pub_key (node_id sender)) (addr_ip (node_addr sender))
      in Some (kd_reply env kd c sender i (HandshakeChallange challange)))"
| "handle_handshake env kd c i (SubmitHandshake t signature) src =
     Some (handle_submit_handshake env kd c i t signature src)"

fun handle_packet ::
  "('k, 's) dht_env \<Rightarrow> ('k, 's) kademlia \<Rightarrow> conn_state \<Rightarrow> dht_packet \<Rightarrow> sock_addr \<Rightarrow> ('k, 's) served option" where
  "handle_packet env kd c (RequestPacket envelop) src =
     (case conn_inbound c of
        None \<Rightarrow> Some (Inl (KadAuth InvalidToken), kd, c, [])
      | Some sender \<Rightarrow>
          (case check_rate (e_now env) (kd_auth kd) sender of
             (Inl e, am) \<Rightarrow> Some (Inl (KadAuth e), kd\<lparr>kd_auth := am\<rparr>, c, [])
           | (Inr _, am) \<Rightarrow>
               Some (kd_handle_request env (kd\<lparr>kd_auth := am\<rparr>) c sender (env_id envelop) (env_payload envelop) src)))"
| "handle_packet env kd c (HandShake rpc) src = handle_handshake env kd c (env_id rpc) (env_payload rpc) src"
| "handle_packet env kd c (ResponsePacket r) src = None"

subsection \<open>Lemmas\<close>

definition kd_wf :: "('k, 's) dht_env \<Rightarrow> ('k, 's) kademlia \<Rightarrow> bool" where
  "kd_wf env kd \<longleftrightarrow> rt_wf (e_sha256 env) (kd_routes kd) \<and> store_wf (kd_store kd)"

lemma kd_acknowledge_step:
  "kd_acknowledge env kd n = kd\<lparr>kd_routes := rt_step (e_sha256 env) (kd_routes kd) (Acknowledge (e_ping env) n)\<rparr>"
  by (simp add: kd_acknowledge_def split: option.split)

lemma kd_reply_simps [simp]:
  "fst (snd (kd_reply env kd c p i r)) = kd" "fst (snd (snd (kd_reply env kd c p i r))) = c"
  by (simp_all add: kd_reply_def)

lemma then_connection_simps [simp]: "fst (snd (then_connection r f)) = fst (snd r)"
  by (auto simp: then_connection_def split: prod.splits sum.splits)

lemma kd_handle_request_wf:
  assumes "kd_wf env kd"
  shows "kd_wf env (fst (snd (kd_handle_request env kd c k i req src)))"
  using assms rt_step_wf[of "e_sha256 env" "kd_routes kd"]
  by (cases req)
    (auto simp: handle_ping_def handle_find_node_def handle_store_def handle_find_value_def kd_acknowledge_step
      kd_wf_def Let_def simp del: rt_step.simps intro: store_insert_wf)

lemma handle_handshake_state:
  "handle_handshake env kd c i req src = Some r \<Longrightarrow> fst (snd r) = kd"
  by (cases req)
    (auto simp: handle_request_challange_def handle_submit_challange_def handle_submit_handshake_def Let_def
      split: option.splits sum.splits)

lemma handle_packet_wf:
  assumes "kd_wf env kd" and "handle_packet env kd c pkt src = Some (r, kd', c', rs)"
  shows "kd_wf env kd'"
proof (cases pkt)
  case (RequestPacket envelop)
  show ?thesis
  proof (cases "conn_inbound c")
    case None
    then show ?thesis using assms RequestPacket by simp
  next
    case (Some sender)
    obtain ok am where cr: "check_rate (e_now env) (kd_auth kd) sender = (ok, am)" by fastforce
    have wf: "kd_wf env (kd\<lparr>kd_auth := am\<rparr>)" using assms(1) by (simp add: kd_wf_def)
    show ?thesis
      using assms(2) RequestPacket Some cr wf
        kd_handle_request_wf[OF wf, of c sender "env_id envelop" "env_payload envelop" src]
      by (cases ok) auto
  qed
next
  case (HandShake rpc)
  then show ?thesis using assms handle_handshake_state[of env kd c "env_id rpc" "env_payload rpc" src] by fastforce
next
  case (ResponsePacket r)
  then show ?thesis using assms by simp
qed

lemma requests_keep_connection:
  "fst (snd (snd (kd_handle_request env kd c k i req src))) = c"
  by (cases req) (auto simp: handle_ping_def handle_find_node_def handle_store_def handle_find_value_def Let_def)

text \<open>What the two packets that authenticate have to contain: the hash, the nonce and the signature of
  a proof of work for the key, and a token with a signature of its owner.\<close>

definition proved_work :: "('k, 's) dht_env \<Rightarrow> ('k, 's) kademlia \<Rightarrow> sock_addr \<Rightarrow> key \<Rightarrow> bytes \<Rightarrow> u32 \<Rightarrow> bytes \<Rightarrow> bool" where
  "proved_work env kd src k hash nonce signature \<longleftrightarrow>
     hash = pow_calculate (e_sha256 env) (pub_key k) (am_challange (e_sha256 env) (kd_auth kd) (pub_key k) (addr_ip src)) nonce \<and>
     pow_validate hash DIFFICULTY = Some True \<and> e_verify env (pub_key k) hash signature"

definition owns_token :: "('k, 's) dht_env \<Rightarrow> ('k, 's) kademlia \<Rightarrow> sock_addr \<Rightarrow> token \<Rightarrow> bytes \<Rightarrow> bool" where
  "owns_token env kd src t signature \<longleftrightarrow> token_verify (e_sha256 env) (e_verify env) (e_now env) t \<and>
     verify_pgp (e_pgp env) t (kd_pgp_keys kd) \<and>
     e_verify env (tk_peer t) (token_hash (e_sha256 env) t @
         to_be_bytes_u32 (am_challange (e_sha256 env) (kd_auth kd) (tk_peer t) (addr_ip src))) signature"

lemma pow_verify_proved:
  assumes "pow_verify H verify p pk = Some True"
  shows "pow_value p = pow_calculate H pk (pow_challange p) (pow_nonce p) \<and> pow_validate (pow_value p) (pow_difficulty p) = Some True
     \<and> (\<exists>s. pow_signature p = Some s \<and> verify pk (pow_value p) s)"
  using assms by (auto simp: pow_verify_def Let_def split: option.splits if_splits bool.splits)

lemma pub_key_token_sender [simp]: "pub_key (token_sender H t) = tk_peer t"
  by (simp add: token_sender_def Key_new_def)

lemma submit_challange_inbound:
  assumes "handle_submit_challange env kd c i (from_socket k src) pw nonce s att ver = Some (r, kd', c', rs)"
    and "conn_inbound c' \<noteq> conn_inbound c"
  shows "conn_inbound c' = Some (Key_new (e_sha256 env) (pub_key k)) \<and> proved_work env kd src k pw nonce s"
proof -
  let ?secret = "\<lparr>pow_value = pw, pow_challange = am_challange (e_sha256 env) (kd_auth kd) (pub_key k) (addr_ip src),
    pow_nonce = nonce, pow_signature = Some s, pow_attestation = att, pow_difficulty = DIFFICULTY\<rparr>"
  obtain t where issue: "issue_token (e_sha256 env) (e_verify env) (e_ed_verify env) (e_pgp env) (e_manifest env) (e_now env)
      (kd_auth kd) (from_socket k src) ?secret ver = Some (Inr t)" and c': "c' = c \<or> c' = set_inbound_auth (e_sha256 env) c t"
    using assms by (auto simp: handle_submit_challange_def Let_def from_socket_def then_connection_def kd_reply_def
        split: option.splits sum.splits if_splits)
  have peer: "tk_peer t = pub_key k"
    using issue_token_signed(2)[OF issue] token_sign_fields(1) by (fastforce simp: from_socket_def)
  have "proved_work env kd src k pw nonce s"
    using pow_verify_proved[OF issue_token_signed(1)[OF issue]]
    by (auto simp: proved_work_def from_socket_def Let_def)
  then show ?thesis using c' assms(2) peer by (auto simp: set_inbound_auth_def token_sender_def)
qed

lemma submit_handshake_inbound:
  assumes "handle_submit_handshake env kd c i t s src = (r, kd', c', rs)" and "conn_inbound c' \<noteq> conn_inbound c"
  shows "conn_inbound c' = Some (token_sender (e_sha256 env) t) \<and> owns_token env kd src t s"
  using assms
  by (auto simp: handle_submit_handshake_def Let_def then_connection_def kd_reply_def set_inbound_auth_def owns_token_def
      split: if_splits)

subsection \<open>Properties\<close>

text \<open>C10: a packet changes the peer a connection is authenticated for only if that peer presented
  a valid, swarm-signed token with a signature over this node's challenge for its address, or a
  proof of work of full difficulty for that challenge, signed by the key it names. The packet is then
  one of two: it submits a token and a signature, and the connection is authenticated for the
  owner of that token; or it submits a key with the hash, the nonce and the signature of a proof,
  and the connection is authenticated for that key.\<close>

theorem authentication_requires_proof:
  assumes "handle_packet env kd c pkt src = Some (r, kd', c', rs)" and "conn_inbound c' \<noteq> conn_inbound c"
  shows "(\<exists>i t signature. pkt = HandShake \<lparr>env_id = i, env_payload = SubmitHandshake t signature\<rparr>
        \<and> owns_token env kd src t signature \<and> conn_inbound c' = Some (token_sender (e_sha256 env) t)) \<or>
     (\<exists>i k hash nonce signature attest version. pkt = HandShake \<lparr>env_id = i, env_payload = SubmitChallange k hash nonce signature attest version\<rparr>
        \<and> proved_work env kd src k hash nonce signature \<and> conn_inbound c' = Some (Key_new (e_sha256 env) (pub_key k)))"
proof (cases pkt)
  case (RequestPacket envelop)
  have "c' = c"
  proof (cases "conn_inbound c")
    case (Some sender)
    obtain ok am where "check_rate (e_now env) (kd_auth kd) sender = (ok, am)" by fastforce
    then show ?thesis
      using assms(1) RequestPacket Some
        requests_keep_connection[of env "kd\<lparr>kd_auth := am\<rparr>" c sender "env_id envelop" "env_payload envelop" src]
      by (cases ok) auto
  qed (use assms(1) RequestPacket in simp)
  then show ?thesis using assms(2) by simp
next
  case (HandShake rpc)
  obtain i req where rpc: "rpc = \<lparr>env_id = i, env_payload = req\<rparr>" by (cases rpc)
  show ?thesis
  proof (cases req)
    case (SubmitHandshake t s)
    then show ?thesis using assms submit_handshake_inbound[of env kd c i t s src r kd' c' rs] by (simp add: HandShake rpc)
  next
    case (SubmitChallange k pw nonce s att ver)
    then show ?thesis using assms submit_challange_inbound[of env kd c i k src pw nonce s att ver r kd' c' rs] by (simp add: HandShake rpc)
  qed (use assms HandShake rpc in \<open>auto simp: handle_request_challange_def Let_def kd_reply_def split: if_splits\<close>)
next
  case (ResponsePacket x)
  then show ?thesis using assms by simp
qed

definition sample_env :: "(nat, nat) dht_env" where
  "sample_env = \<lparr>e_sha256 = (\<lambda>_. replicate 32 0), e_verify = (\<lambda>pk m s. s = m), e_ed_verify = (\<lambda>_ _ _. False),
     e_pgp = sample_pgp, e_manifest = (\<lambda>_. None), e_now = 1000, e_ping = (\<lambda>_. True), e_can_reply = (\<lambda>_. True)\<rparr>"

definition sample_kademlia :: "(nat, nat) kademlia" where
  "sample_kademlia = \<lparr>kd_auth = sample_manager, kd_pgp_keys = Map.empty, kd_store = DHTStore_new,
     kd_routes = RouteTable_new (from_socket (Key_new id [7]) (SocketV4 9 9))\<rparr>"

definition fresh_connection :: conn_state where
  "fresh_connection = \<lparr>conn_inbound = None, conn_outbound = False, conn_closed = False\<rparr>"

theorem authentication_requires_proof_witness:
  "\<exists>r kd' c' rs. handle_packet sample_env sample_kademlia fresh_connection
       (HandShake \<lparr>env_id = 4, env_payload = SubmitChallange (Key_new id [1]) (replicate 32 0) 0 (replicate 32 0) None ''1''\<rparr>)
       (SocketV4 5 5) = Some (r, kd', c', rs) \<and>
     conn_inbound c' = Some (Key_new (e_sha256 sample_env) [1]) \<and>
     proved_work sample_env sample_kademlia (SocketV4 5 5) (Key_new id [1]) (replicate 32 0) 0 (replicate 32 0)"
proof -
  let ?pkt = "HandShake \<lparr>env_id = 4, env_payload = SubmitChallange (Key_new id [1]) (replicate 32 0) 0 (replicate 32 0) None ''1''\<rparr>"
  have "pow_validate (replicate 32 0) DIFFICULTY = Some True"
    using pow_validate_zeros[of "replicate 32 0" DIFFICULTY] by (simp add: DIFFICULTY_def leading_zeros_def id_bit_def)
  then obtain r kd' c' rs where h: "handle_packet sample_env sample_kademlia fresh_connection ?pkt (SocketV4 5 5) = Some (r, kd', c', rs)"
    and n: "conn_inbound c' \<noteq> conn_inbound fresh_connection"
    by (simp add: sample_env_def sample_kademlia_def fresh_connection_def handle_submit_challange_def issue_token_def
        pow_verify_def pow_calculate_def from_socket_def Key_new_def sample_manager_def token_sign_def Let_def
        then_connection_def kd_reply_def set_inbound_auth_def)
  show ?thesis using h authentication_requires_proof[OF h n] by (auto simp: Key_new_def)
qed

text \<open>A store request that was served makes the value available: until thirty-five minutes
  later a request for the key is answered with the value, merged with earlier ones, rather than
  with contacts.\<close>

lemma stored_value_is_served:
  assumes "handle_store env kd c i sender k v = (r, kd', c', rs)" and "kd_wf env kd"
    and "unat (e_now env) + 2100 < 2 ^ 64" and "unat (e_now env') \<le> unat (e_now env) + 2100" and "e_can_reply env' asker"
  shows "\<exists>merged. handle_find_value env' kd' c'' j asker k =
       (Inr (), kd', c'', [(asker, \<lparr>env_id = j, env_payload = ValueResp (host_id kd') merged\<rparr>)])
     \<and> merged = (case map_of (ds_store (kd_store kd)) k of Some e \<Rightarrow> data_merge (sv_data e) v | None \<Rightarrow> v)"
proof -
  have st: "kd_store kd' = store_insert (e_now env) (kd_store kd) k v"
    using assms(1) by (auto simp: handle_store_def Let_def kd_reply_def kd_acknowledge_step split: if_splits)
  have "store_wf (kd_store kd)" using assms(2) by (simp add: kd_wf_def)
  from store_insert_get[OF this assms(3), of "e_now env'" k v k] assms(4,5)
  show ?thesis by (simp add: handle_find_value_def kd_reply_def st)
qed

text \<open>A request on a connection that is not authenticated is refused without any effect.\<close>

lemma unauthenticated_request_refused:
  "conn_inbound c = None \<Longrightarrow> handle_packet env kd c (RequestPacket e) src = Some (Inl (KadAuth InvalidToken), kd, c, [])"
  by simp

text \<open>A request whose connection cannot be made returns before its entry is taken out of the
  table of pending requests, so every such request leaves one entry behind.\<close>

lemma failed_connect_leaks_entry:
  assumes "rpc_handle_request h ConnectFails = (r, h')"
  shows "pending h' (next_id h) \<and> r = Inl Transport"
  using assms by (auto simp: rpc_handle_request_def rpc_begin_def alloc_id_def Let_def)

lemma answered_request_leaves_no_entry:
  assumes "rpc_handle_request h (Answered x) = (r, h')"
  shows "\<not> pending h' (next_id h) \<and> r = Inr x \<and> (\<forall>i. i \<noteq> next_id h \<longrightarrow> pending h' i = pending h i)"
  using assms by (auto simp: rpc_handle_request_def rpc_begin_def alloc_id_def rpc_dispatch_def Let_def)

end
