(* ===== verification/Lookup.thy ===== *)
theory Lookup
  imports Kademlia
begin

text \<open>
  Iterative lookups: \<open>dht/kademlia/client.rs\<close> and the \<open>TorrentDht\<close> methods of \<open>dht/mod.rs\<close>.
  What an authenticated request to a contact returns is the parameter \<open>resp\<close>; the order in which
  requests in flight complete is the parameter \<open>pick\<close>. Both loops are bounded by fuel; the lemmas
  show that four rounds per identifier the contacts can mention, and one more, are enough.
\<close>

definition ALPHA :: nat where "ALPHA = 3"

record lookup_state =
  candidates :: "node list"
  visited :: "key set"
  in_flight :: "node list"
  lk_routes :: route_table

definition sort_candidates :: "(bytes \<Rightarrow> bytes) \<Rightarrow> key \<Rightarrow> node list \<Rightarrow> node list" where
  "sort_candidates sha256 k ns = sort_key (\<lambda>n. key_id (distance sha256 k (node_id n))) ns"

fun dedup_by_id :: "node list \<Rightarrow> node list" where
  "dedup_by_id [] = []"
| "dedup_by_id [n] = [n]"
| "dedup_by_id (n # m # ns) =
     (if node_id n = node_id m then dedup_by_id (n # ns) else n # dedup_by_id (m # ns))"

text \<open>The part both loops share: order the candidates and start requests to unvisited ones while
  fewer than \<open>ALPHA\<close> are in flight.\<close>

definition lookup_batch :: "(bytes \<Rightarrow> bytes) \<Rightarrow> key \<Rightarrow> lookup_state \<Rightarrow> lookup_state" where
  "lookup_batch sha256 k st =
     (let cs = dedup_by_id (sort_candidates sha256 k (candidates st));
          batch = take (ALPHA - length (in_flight st)) (filter (\<lambda>n. node_id n \<notin> visited st) cs)
      in st\<lparr>candidates := cs, visited := visited st \<union> node_id ` set batch, in_flight := in_flight st @ batch\<rparr>)"

definition all_visited :: "lookup_state \<Rightarrow> bool" where
  "all_visited st \<longleftrightarrow> (\<forall>n\<in>set (take KBUCKET_MAX (candidates st)). node_id n \<in> visited st)"

subsection \<open>Looking up nodes\<close>

definition find_node :: "node \<Rightarrow> kademlia_error + dht_response \<Rightarrow> kademlia_error + node list" where
  "find_node target result =
     (case result of
        Inl e \<Rightarrow> Inl e
      | Inr (PeersResp sender_id peers) \<Rightarrow>
          if node_id target \<noteq> sender_id then Inl (KadRpc UnexpectedResponse)
          else Inr (map node_from_response peers)
      | Inr _ \<Rightarrow> Inl (KadRpc UnexpectedResponse))"

definition push_candidate :: "key \<Rightarrow> key set \<Rightarrow> node list \<Rightarrow> node \<Rightarrow> node list" where
  "push_candidate host vis cs n =
     (if node_id n \<noteq> host \<and> node_id n \<notin> vis \<and> \<not> (\<exists>c\<in>set cs. node_id c = node_id n) then cs @ [n] else cs)"

definition lookup_complete ::
  "(bytes \<Rightarrow> bytes) \<Rightarrow> (node \<Rightarrow> bool) \<Rightarrow> key \<Rightarrow> lookup_state \<Rightarrow> node \<Rightarrow> kademlia_error + node list \<Rightarrow> lookup_state" where
  "lookup_complete sha256 ping host st target result =
     (case result of
        Inl _ \<Rightarrow> st\<lparr>lk_routes := rt_remove sha256 (lk_routes st) target,
                  candidates := filter (\<lambda>n. node_id n \<noteq> node_id target) (candidates st)\<rparr>
      | Inr nodes \<Rightarrow>
          st\<lparr>lk_routes := rt_step sha256 (lk_routes st) (Acknowledge ping target),
             candidates := foldl (push_candidate host (visited st)) (candidates st) nodes\<rparr>)"

fun node_lookup_loop ::
  "nat \<Rightarrow> (bytes \<Rightarrow> bytes) \<Rightarrow> (node \<Rightarrow> bool) \<Rightarrow> (node \<Rightarrow> kademlia_error + dht_response) \<Rightarrow> (node list \<Rightarrow> nat) \<Rightarrow> key \<Rightarrow> key
     \<Rightarrow> lookup_state \<Rightarrow> lookup_state option" where
  "node_lookup_loop 0 sha256 ping resp pick host k st = None"
| "node_lookup_loop (Suc fuel) sha256 ping resp pick host k st =
     (let st = lookup_batch sha256 k st
      in if in_flight st = [] then Some st
         else let (target, rest) = next_done pick (in_flight st);
                  st = lookup_complete sha256 ping host (st\<lparr>in_flight := rest\<rparr>) target (find_node target (resp target));
                  st = st\<lparr>candidates := sort_candidates sha256 k (candidates st)\<rparr>
              in if all_visited st \<and> in_flight st = [] then Some st
                 else node_lookup_loop fuel sha256 ping resp pick host k st)"

declare node_lookup_loop.simps(2) [simp del]

definition lookup_start :: "(bytes \<Rightarrow> bytes) \<Rightarrow> route_table \<Rightarrow> key \<Rightarrow> lookup_state" where
  "lookup_start sha256 rt k =
     \<lparr>candidates = get_closest_nodes sha256 rt k KBUCKET_MAX, visited = {}, in_flight = [], lk_routes = rt\<rparr>"

definition node_lookup ::
  "nat \<Rightarrow> (bytes \<Rightarrow> bytes) \<Rightarrow> (node \<Rightarrow> bool) \<Rightarrow> (node \<Rightarrow> kademlia_error + dht_response) \<Rightarrow> (node list \<Rightarrow> nat) \<Rightarrow> route_table \<Rightarrow> key
     \<Rightarrow> (node list \<times> route_table) option" where
  "node_lookup fuel sha256 ping resp pick rt k =
     map_option (\<lambda>st. (take KBUCKET_MAX (candidates st), lk_routes st))
       (node_lookup_loop fuel sha256 ping resp pick (node_id (rt_host rt)) k (lookup_start sha256 rt k))"

subsection \<open>Looking up values\<close>

definition value_push :: "key \<Rightarrow> key set \<Rightarrow> node list \<Rightarrow> peer_response \<Rightarrow> node list" where
  "value_push host vis cs p =
     (let n = node_from_response p
      in if node_id n \<noteq> host \<and> node_id n \<notin> vis then cs @ [n] else cs)"

definition value_complete ::
  "(bytes \<Rightarrow> bytes) \<Rightarrow> key \<Rightarrow> lookup_state \<Rightarrow> node \<Rightarrow> kademlia_error + dht_response \<Rightarrow> kademlia_data + lookup_state" where
  "value_complete sha256 host st target result =
     (let failed = Inr (st\<lparr>lk_routes := rt_remove sha256 (lk_routes st) target,
                           candidates := filter (\<lambda>n. node_id n \<noteq> node_id target) (candidates st)\<rparr>)
      in case result of
           Inr (ValueResp receiver_id value) \<Rightarrow> if node_id target = receiver_id then Inl value else failed
         | Inr (PeersResp receiver_id peers) \<Rightarrow>
             if node_id target = receiver_id
             then Inr (st\<lparr>candidates := foldl (value_push host (visited st)) (candidates st) peers\<rparr>)
             else failed
         | _ \<Rightarrow> failed)"

fun find_value_loop ::
  "nat \<Rightarrow> (bytes \<Rightarrow> bytes) \<Rightarrow> (node \<Rightarrow> kademlia_error + dht_response) \<Rightarrow> (node list \<Rightarrow> nat) \<Rightarrow> key \<Rightarrow> key
     \<Rightarrow> lookup_state \<Rightarrow> (kademlia_data option \<times> route_table) option" where
  "find_value_loop 0 sha256 resp pick host k st = None"
| "find_value_loop (Suc fuel) sha256 resp pick host k st =
     (let st = lookup_batch sha256 k st
      in if in_flight st = [] then Some (None, lk_routes st)
         else let (target, rest) = next_done pick (in_flight st)
              in case value_complete sha256 host (st\<lparr>in_flight := rest\<rparr>) target (resp target) of
                   Inl value \<Rightarrow> Some (Some value, lk_routes st)
                 | Inr st \<Rightarrow>
                     let st = st\<lparr>candidates := sort_candidates sha256 k (candidates st)\<rparr>
                     in if all_visited st \<and> in_flight st = [] then Some (None, lk_routes st)
                        else find_value_loop fuel sha256 resp pick host k st)"

declare find_value_loop.simps(2) [simp del]

definition find_value ::
  "nat \<Rightarrow> (bytes \<Rightarrow> bytes) \<Rightarrow> (node \<Rightarrow> kademlia_error + dht_response) \<Rightarrow> (node list \<Rightarrow> nat) \<Rightarrow> route_table \<Rightarrow> key
     \<Rightarrow> (kademlia_data option \<times> route_table) option" where
  "find_value fuel sha256 resp pick rt k =
     find_value_loop fuel sha256 resp pick (node_id (rt_host rt)) k (lookup_start sha256 rt k)"

subsection \<open>Storing and announcing\<close>

definition store_result :: "(bytes \<Rightarrow> bytes) \<Rightarrow> route_table \<Rightarrow> node \<times> (kademlia_error + dht_response) \<Rightarrow> route_table" where
  "store_result sha256 rt r =
     (case r of
        (target, Inr (Pong sender_id)) \<Rightarrow> if node_id target = sender_id then rt else rt_remove sha256 rt target
      | (target, _) \<Rightarrow> rt_remove sha256 rt target)"

text \<open>\<open>store_resp\<close> is what the store requests return, \<open>order\<close> the order they complete in.\<close>

definition kd_store_value ::
  "nat \<Rightarrow> ('k, 's) dht_env \<Rightarrow> (node \<Rightarrow> kademlia_error + dht_response) \<Rightarrow> (node \<Rightarrow> kademlia_error + dht_response)
     \<Rightarrow> (node list \<Rightarrow> nat) \<Rightarrow> (node list \<Rightarrow> node list) \<Rightarrow> ('k, 's) kademlia \<Rightarrow> key \<Rightarrow> kademlia_data \<Rightarrow> ('k, 's) kademlia option" where
  "kd_store_value fuel env resp store_resp pick order kd k value =
     (case node_lookup fuel (e_sha256 env) (e_ping env) resp pick (kd_routes kd) k of
        None \<Rightarrow> None
      | Some (closest_nodes, rt) \<Rightarrow>
          let rt = foldl (store_result (e_sha256 env)) rt (map (\<lambda>n. (n, store_resp n)) (order closest_nodes))
          in Some (kd\<lparr>kd_routes := rt, kd_store := store_insert (e_now env) (kd_store kd) k value\<rparr>))"

definition announce_data :: "string option \<Rightarrow> sock_addr \<Rightarrow> kademlia_data" where
  "announce_data destination host_addr =
     (case destination of Some d \<Rightarrow> I2Peers {d} | None \<Rightarrow> DataPeers {host_addr})"

text \<open>\<open>get_peers\<close> on the value found; sets become the set of addresses they resolve to.\<close>

definition get_peers :: "(string \<Rightarrow> sock_addr option) \<Rightarrow> kademlia_data option \<Rightarrow> kademlia_error + sock_addr set" where
  "get_peers resolve found_data =
     (case found_data of
        Some (Value _) \<Rightarrow> Inl NoValue
      | Some (I2Peers peers) \<Rightarrow> Inr {a. \<exists>p\<in>peers. resolve p = Some a}
      | Some (DataPeers peers) \<Rightarrow> Inr peers
      | None \<Rightarrow> Inl NoValue)"

subsection \<open>One round\<close>

definition lk_measure :: "key set \<Rightarrow> lookup_state \<Rightarrow> nat" where
  "lk_measure U st = 4 * card (U - visited st) + length (in_flight st)"

definition lk_bounded :: "key set \<Rightarrow> lookup_state \<Rightarrow> bool" where
  "lk_bounded U st \<longleftrightarrow> node_id ` set (candidates st) \<subseteq> U \<and> length (in_flight st) \<le> ALPHA"

lemma set_dedup: "set (dedup_by_id ns) \<subseteq> set ns"
  by (induction ns rule: dedup_by_id.induct) auto

lemma hd_dedup: "ns \<noteq> [] \<Longrightarrow> dedup_by_id ns \<noteq> [] \<and> hd (dedup_by_id ns) = hd ns"
  by (induction ns rule: dedup_by_id.induct) auto

lemma sorted_dedup: "sorted (map f ns) \<Longrightarrow> sorted (map f (dedup_by_id ns))"
proof (induction ns rule: dedup_by_id.induct)
  case (3 n m ns)
  show ?case
  proof (cases "node_id n = node_id m")
    case True
    then show ?thesis using 3 by simp
  next
    case False
    have "sorted (map f (dedup_by_id (m # ns)))" using 3 False by simp
    moreover have "\<forall>x\<in>set (dedup_by_id (m # ns)). f n \<le> f x"
      using 3(3) set_dedup[of "m # ns"] by auto
    ultimately show ?thesis using False by simp
  qed
qed simp_all

lemma sort_candidates_set [simp]: "set (sort_candidates H k ns) = set ns"
  by (simp add: sort_candidates_def)

lemma lookup_batch_fields:
  "set (candidates (lookup_batch H k st)) \<subseteq> set (candidates st)"
  "lk_routes (lookup_batch H k st) = lk_routes st" "visited st \<subseteq> visited (lookup_batch H k st)"
  using set_dedup[of "sort_candidates H k (candidates st)"] by (auto simp: lookup_batch_def Let_def)

lemma lookup_batch_bounded: "lk_bounded U st \<Longrightarrow> lk_bounded U (lookup_batch H k st)"
  using lookup_batch_fields(1)[of H k st] by (auto simp: lk_bounded_def lookup_batch_def Let_def min_def)

lemma lookup_batch_measure:
  assumes fin: "finite U" and b: "lk_bounded U st" and ne: "in_flight (lookup_batch H k st) \<noteq> []"
  shows "4 * card (U - visited (lookup_batch H k st)) + (length (in_flight (lookup_batch H k st)) - 1) < lk_measure U st"
proof -
  let ?st = "lookup_batch H k st"
  define batch where "batch = take (ALPHA - length (in_flight st))
    (filter (\<lambda>n. node_id n \<notin> visited st) (dedup_by_id (sort_candidates H k (candidates st))))"
  have fl: "in_flight ?st = in_flight st @ batch" and vis: "visited ?st = visited st \<union> node_id ` set batch"
    by (simp_all add: lookup_batch_def batch_def Let_def)
  show ?thesis
  proof (cases "batch = []")
    case True
    then show ?thesis using ne by (simp add: lk_measure_def fl vis)
  next
    case False
    then obtain n where n: "n \<in> set batch" by (cases batch) auto
    then have "node_id n \<notin> visited st" "n \<in> set (candidates st)"
      using set_dedup[of "sort_candidates H k (candidates st)"] by (auto simp: batch_def dest!: in_set_takeD)
    then have "node_id n \<in> U - visited st" using b by (auto simp: lk_bounded_def)
    then have "U - visited ?st \<subset> U - visited st" using n by (auto simp: vis)
    then have "card (U - visited ?st) < card (U - visited st)" using fin by (simp add: psubset_card_mono)
    moreover have "length (in_flight ?st) \<le> 3"
      using lookup_batch_bounded[OF b, of H k] by (simp add: lk_bounded_def ALPHA_def)
    ultimately show ?thesis by (simp add: lk_measure_def)
  qed
qed

subsection \<open>The node lookup ends\<close>

definition answered :: "(node \<Rightarrow> kademlia_error + dht_response) \<Rightarrow> key \<Rightarrow> bool" where
  "answered resp i \<longleftrightarrow> (\<exists>m nodes. node_id m = i \<and> find_node m (resp m) = Inr nodes)"

definition lk_inv :: "(bytes \<Rightarrow> bytes) \<Rightarrow> (node \<Rightarrow> kademlia_error + dht_response) \<Rightarrow> key set \<Rightarrow> key \<Rightarrow> lookup_state \<Rightarrow> bool" where
  "lk_inv H resp U host st \<longleftrightarrow> lk_bounded U st \<and> rt_wf H (lk_routes st) \<and> host \<notin> node_id ` set (candidates st)
     \<and> (\<forall>c\<in>set (candidates st). node_id c \<in> visited st \<longrightarrow> answered resp (node_id c) \<or> node_id c \<in> node_id ` set (in_flight st))"

definition closed_world :: "(node \<Rightarrow> kademlia_error + dht_response) \<Rightarrow> key set \<Rightarrow> bool" where
  "closed_world resp U \<longleftrightarrow> finite U \<and> (\<forall>m s ps. resp m = Inr (PeersResp s ps) \<longrightarrow> pr_id ` set ps \<subseteq> U)"

lemma find_node_closed:
  assumes "closed_world resp U" and "find_node m (resp m) = Inr nodes"
  shows "node_id ` set nodes \<subseteq> U"
proof -
  obtain s ps where r: "resp m = Inr (PeersResp s ps)" and n: "nodes = map node_from_response ps"
    using assms(2) by (auto simp: find_node_def split: sum.splits dht_response.splits if_splits)
  have "node_id ` set nodes = pr_id ` set ps"
    by (force simp: n node_from_response_def from_socket_def)
  then show ?thesis using assms(1) r by (auto simp: closed_world_def)
qed

lemma push_candidates:
  assumes "node_id ` set cs \<subseteq> U" and "host \<notin> node_id ` set cs" and "node_id ` set ns \<subseteq> U"
  shows "node_id ` set (foldl (push_candidate host vis) cs ns) \<subseteq> U \<and> host \<notin> node_id ` set (foldl (push_candidate host vis) cs ns)
    \<and> (\<forall>c\<in>set (foldl (push_candidate host vis) cs ns). c \<in> set cs \<or> node_id c \<notin> vis)"
  using assms
proof (induction ns arbitrary: cs)
  case Nil
  then show ?case by simp
next
  case (Cons n ns)
  have "node_id ` set (push_candidate host vis cs n) \<subseteq> U" "host \<notin> node_id ` set (push_candidate host vis cs n)"
    "\<forall>c\<in>set (push_candidate host vis cs n). c \<in> set cs \<or> node_id c \<notin> vis"
    using Cons.prems by (auto simp: push_candidate_def)
  moreover have "node_id ` set ns \<subseteq> U" using Cons.prems(3) by simp
  ultimately show ?case using Cons.IH[of "push_candidate host vis cs n"] by simp blast
qed

lemma lookup_batch_inv: "lk_inv H resp U host st \<Longrightarrow> lk_inv H resp U host (lookup_batch H k st)"
proof -
  assume inv: "lk_inv H resp U host st"
  have sub: "set (candidates (lookup_batch H k st)) \<subseteq> set (candidates st)" by (rule lookup_batch_fields(1))
  have new: "visited (lookup_batch H k st) \<subseteq> visited st \<union> node_id ` set (in_flight (lookup_batch H k st))"
    "set (in_flight st) \<subseteq> set (in_flight (lookup_batch H k st))"
    by (auto simp: lookup_batch_def Let_def)
  show ?thesis
    using inv sub new lookup_batch_bounded[of U st H k]
    unfolding lk_inv_def lookup_batch_fields(2) by blast
qed

lemma lookup_complete_inv:
  assumes inv: "lk_inv H resp U host st" and cw: "closed_world resp U"
    and ne: "in_flight st \<noteq> []" and nd: "next_done pick (in_flight st) = (t, rest)"
  shows "lk_inv H resp U host (lookup_complete H ping host (st\<lparr>in_flight := rest\<rparr>) t (find_node t (resp t)))"
proof (cases "find_node t (resp t)")
  case (Inl e)
  have "\<forall>c\<in>set (candidates st). node_id c \<noteq> node_id t \<longrightarrow> node_id c \<in> visited st \<longrightarrow>
      answered resp (node_id c) \<or> node_id c \<in> node_id ` set rest"
    using inv next_done_props(3)[OF ne nd] unfolding lk_inv_def by blast
  then show ?thesis
    using inv next_done_props(2)[OF ne nd]
    by (auto simp: lk_inv_def lk_bounded_def lookup_complete_def Inl rt_remove_wf)
next
  case (Inr nodes)
  have ans: "answered resp (node_id t)" using Inr by (auto simp: answered_def)
  have fl: "node_id ` set (in_flight st) \<subseteq> insert (node_id t) (node_id ` set rest)"
    using next_done_props(3)[OF ne nd] by auto
  have "\<forall>c\<in>set (candidates st). node_id c \<in> visited st \<longrightarrow> answered resp (node_id c) \<or> node_id c \<in> node_id ` set rest"
  proof (intro ballI impI)
    fix c assume "c \<in> set (candidates st)" "node_id c \<in> visited st"
    then have "answered resp (node_id c) \<or> node_id c \<in> node_id ` set (in_flight st)"
      using inv unfolding lk_inv_def by blast
    then show "answered resp (node_id c) \<or> node_id c \<in> node_id ` set rest"
      using subsetD[OF fl, of "node_id c"] ans by auto
  qed
  moreover have "node_id ` set (candidates st) \<subseteq> U" "host \<notin> node_id ` set (candidates st)"
    using inv by (auto simp: lk_inv_def lk_bounded_def)
  note push_candidates[OF this find_node_closed[OF cw Inr], of "visited st"]
  ultimately show ?thesis
    using inv next_done_props(2)[OF ne nd] rt_step_wf[of H "lk_routes st"]
    by (auto simp: lk_inv_def lk_bounded_def lookup_complete_def Inr simp del: rt_step.simps)
qed

lemma lk_inv_sorted: "lk_inv H resp U host (st\<lparr>candidates := sort_candidates H k cs\<rparr>) = lk_inv H resp U host (st\<lparr>candidates := cs\<rparr>)"
  by (simp add: lk_inv_def lk_bounded_def)

definition lk_result :: "(bytes \<Rightarrow> bytes) \<Rightarrow> (node \<Rightarrow> kademlia_error + dht_response) \<Rightarrow> key \<Rightarrow> key \<Rightarrow> lookup_state \<Rightarrow> bool" where
  "lk_result H resp host k st \<longleftrightarrow> (\<forall>n\<in>set (take KBUCKET_MAX (candidates st)). answered resp (node_id n) \<and> node_id n \<noteq> host)
     \<and> sorted (map (\<lambda>n. key_id (distance H k (node_id n))) (candidates st)) \<and> rt_wf H (lk_routes st)"

lemma sorted_candidates: "sorted (map (\<lambda>n. key_id (distance H k (node_id n))) (sort_candidates H k ns))"
  by (simp add: sort_candidates_def)

lemma batch_idle_result:
  assumes inv: "lk_inv H resp U host st" and idle: "in_flight (lookup_batch H k st) = []"
  shows "lk_result H resp host k (lookup_batch H k st)"
proof -
  let ?cs = "dedup_by_id (sort_candidates H k (candidates st))"
  have cs: "candidates (lookup_batch H k st) = ?cs" by (simp add: lookup_batch_def Let_def)
  have "in_flight st = []" "filter (\<lambda>n. node_id n \<notin> visited st) ?cs = []"
    using idle by (auto simp: lookup_batch_def Let_def ALPHA_def)
  then have "\<forall>c\<in>set ?cs. answered resp (node_id c)"
    using inv set_dedup[of "sort_candidates H k (candidates st)"] by (auto simp: lk_inv_def filter_empty_conv)
  moreover have "lk_inv H resp U host (lookup_batch H k st)" by (rule lookup_batch_inv[OF inv])
  ultimately show ?thesis
    using sorted_dedup[OF sorted_candidates, of H k "candidates st"]
    by (auto simp: lk_result_def lk_inv_def cs dest!: in_set_takeD)
qed

lemma node_lookup_loop_ends:
  assumes cw: "closed_world resp U"
  shows "lk_inv H resp U host st \<Longrightarrow> lk_measure U st < fuel
    \<Longrightarrow> \<exists>st'. node_lookup_loop fuel H ping resp pick host k st = Some st' \<and> lk_result H resp host k st'"
proof (induction fuel arbitrary: st)
  case 0
  then show ?case by simp
next
  case (Suc fuel)
  define st1 where "st1 = lookup_batch H k st"
  have inv1: "lk_inv H resp U host st1" unfolding st1_def by (rule lookup_batch_inv[OF Suc.prems(1)])
  show ?case
  proof (cases "in_flight st1 = []")
    case True
    then show ?thesis
      using batch_idle_result[OF Suc.prems(1), of k]
      by (simp add: node_lookup_loop.simps(2)[of fuel H ping resp pick host k st] st1_def[symmetric] Let_def)
  next
    case ne: False
    obtain t rest where nd: "next_done pick (in_flight st1) = (t, rest)" by fastforce
    define st2 where "st2 = lookup_complete H ping host (st1\<lparr>in_flight := rest\<rparr>) t (find_node t (resp t))"
    define st3 where "st3 = st2\<lparr>candidates := sort_candidates H k (candidates st2)\<rparr>"
    have "lk_inv H resp U host st2" unfolding st2_def by (rule lookup_complete_inv[OF inv1 cw ne nd])
    then have inv3: "lk_inv H resp U host st3" by (simp add: st3_def lk_inv_def lk_bounded_def)
    have f3: "in_flight st3 = rest" "visited st3 = visited st1" "in_flight st2 = rest"
      by (simp_all add: st3_def st2_def lookup_complete_def split: sum.split)
    have "lk_measure U st3 < lk_measure U st"
      using lookup_batch_measure[of U st H k] cw Suc.prems(1) ne next_done_props(2)[OF ne nd]
      by (simp add: lk_measure_def f3 closed_world_def lk_inv_def st1_def)
    then have less: "lk_measure U st3 < fuel" using Suc.prems(2) by simp
    have srt: "sorted (map (\<lambda>n. key_id (distance H k (node_id n))) (candidates st3))"
      by (simp add: st3_def sorted_candidates)
    have "lk_result H resp host k st3" if "all_visited st3" "rest = []"
      using that inv3 srt set_take_subset[of KBUCKET_MAX "candidates st3"]
      unfolding lk_result_def lk_inv_def all_visited_def f3 by auto
    moreover have "node_lookup_loop (Suc fuel) H ping resp pick host k st =
        (if all_visited st3 \<and> rest = [] then Some st3 else node_lookup_loop fuel H ping resp pick host k st3)"
      unfolding node_lookup_loop.simps(2)[of fuel H ping resp pick host k st] st1_def[symmetric] Let_def nd prod.case
        st2_def[symmetric] st3_def[symmetric] f3
      using ne by simp
    ultimately show ?thesis using Suc.IH[OF inv3 less] by simp
  qed
qed

subsection \<open>The value lookup ends\<close>

lemma value_push_bounded:
  "node_id ` set cs \<subseteq> U \<Longrightarrow> pr_id ` set ps \<subseteq> U \<Longrightarrow> node_id ` set (foldl (value_push host vis) cs ps) \<subseteq> U"
proof (induction ps arbitrary: cs)
  case Nil
  then show ?case by simp
next
  case (Cons p ps)
  have "node_id ` set (value_push host vis cs p) \<subseteq> U"
    using Cons.prems by (auto simp: value_push_def node_from_response_def from_socket_def Let_def)
  then show ?case using Cons.IH Cons.prems(2) by simp
qed

lemma value_complete_bounded:
  assumes "lk_bounded U st" and "closed_world resp U" and "value_complete H host st t (resp t) = Inr st'"
  shows "lk_bounded U st'" and "visited st' = visited st" and "in_flight st' = in_flight st"
proof -
  have dropped: "node_id ` set (filter (\<lambda>n. node_id n \<noteq> node_id t) (candidates st)) \<subseteq> U"
    using assms(1) by (auto simp: lk_bounded_def)
  have "node_id ` set (candidates st') \<subseteq> U \<and> visited st' = visited st \<and> in_flight st' = in_flight st"
  proof (cases "\<exists>s ps. resp t = Inr (PeersResp s ps) \<and> node_id t = s")
    case True
    then obtain ps where r: "resp t = Inr (PeersResp (node_id t) ps)" by blast
    then have "pr_id ` set ps \<subseteq> U" using assms(2) by (auto simp: closed_world_def)
    then have "node_id ` set (foldl (value_push host (visited st)) (candidates st) ps) \<subseteq> U"
      using assms(1) by (intro value_push_bounded) (auto simp: lk_bounded_def)
    moreover have "st' = st\<lparr>candidates := foldl (value_push host (visited st)) (candidates st) ps\<rparr>"
      using assms(3) r by (simp add: value_complete_def)
    ultimately show ?thesis by simp
  next
    case False
    then have "st' = st\<lparr>lk_routes := rt_remove H (lk_routes st) t,
        candidates := filter (\<lambda>n. node_id n \<noteq> node_id t) (candidates st)\<rparr>"
      using assms(3) by (auto simp: value_complete_def Let_def split: sum.splits dht_response.splits if_splits)
    then show ?thesis using dropped by simp
  qed
  then show "lk_bounded U st'" "visited st' = visited st" "in_flight st' = in_flight st"
    using assms(1) by (auto simp: lk_bounded_def)
qed

lemma value_complete_value:
  "value_complete H host st t r = Inl v \<Longrightarrow> r = Inr (ValueResp (node_id t) v)"
  by (auto simp: value_complete_def Let_def split: sum.splits dht_response.splits if_splits)

lemma find_value_loop_ends:
  assumes cw: "closed_world resp U"
  shows "lk_bounded U st \<Longrightarrow> lk_measure U st < fuel
    \<Longrightarrow> \<exists>v rt. find_value_loop fuel H resp pick host k st = Some (v, rt)
      \<and> (\<forall>x. v = Some x \<longrightarrow> (\<exists>m. resp m = Inr (ValueResp (node_id m) x)))"
proof (induction fuel arbitrary: st)
  case 0
  then show ?case by simp
next
  case (Suc fuel)
  define st1 where "st1 = lookup_batch H k st"
  have b1: "lk_bounded U st1" unfolding st1_def by (rule lookup_batch_bounded[OF Suc.prems(1)])
  note unf = find_value_loop.simps(2)[of fuel H resp pick host k st] st1_def[symmetric] Let_def
  show ?case
  proof (cases "in_flight st1 = []")
    case True
    then show ?thesis by (simp add: unf)
  next
    case ne: False
    obtain t rest where nd: "next_done pick (in_flight st1) = (t, rest)" by fastforce
    show ?thesis
    proof (cases "value_complete H host (st1\<lparr>in_flight := rest\<rparr>) t (resp t)")
      case (Inl v)
      then show ?thesis using ne nd value_complete_value[OF Inl] by (auto simp: unf)
    next
      case (Inr st2)
      define st3 where "st3 = st2\<lparr>candidates := sort_candidates H k (candidates st2)\<rparr>"
      have "lk_bounded U (st1\<lparr>in_flight := rest\<rparr>)"
        using b1 next_done_props(2)[OF ne nd] by (simp add: lk_bounded_def)
      note c = value_complete_bounded[OF this cw Inr]
      have b3: "lk_bounded U st3" using c by (simp add: st3_def lk_bounded_def)
      have "lk_measure U st3 < lk_measure U st"
        using lookup_batch_measure[of U st H k] cw Suc.prems(1) ne next_done_props(2)[OF ne nd] c
        by (simp add: lk_measure_def st3_def closed_world_def st1_def)
      then have less: "lk_measure U st3 < fuel" using Suc.prems(2) by simp
      show ?thesis
        using Suc.IH[OF b3 less] ne unfolding unf nd prod.case Inr sum.case st3_def[symmetric] by simp
    qed
  qed
qed

lemma lookup_start_inv:
  assumes "rt_wf H rt" and "node_id ` set (rt_nodes rt) \<subseteq> U"
  shows "lk_inv H resp U (node_id (rt_host rt)) (lookup_start H rt k)"
proof -
  have "set (get_closest_nodes H rt k KBUCKET_MAX) \<subseteq> {n \<in> set (rt_nodes rt). node_id n \<noteq> node_id (rt_host rt)}"
    by (auto simp: get_closest_nodes_def Let_def dest!: in_set_takeD)
  then show ?thesis
    using assms by (auto simp: lk_inv_def lk_bounded_def lookup_start_def)
qed

lemma lookup_start_measure: "finite U \<Longrightarrow> lk_measure U (lookup_start H rt k) = 4 * card U"
  by (simp add: lk_measure_def lookup_start_def)

subsection \<open>Properties\<close>

text \<open>C16: however requests complete and whatever the contacts answer, a node lookup ends, after at
  most four rounds for each identifier that the table and the answers can mention; the contacts
  it returns are at most twenty, ordered by distance from the key, none of them the host, each of
  them answered a request of this lookup, and the routing table is still well formed.\<close>

theorem node_lookup_ends_with_live_nodes:
  assumes "rt_wf sha256 rt" and "closed_world resp U" and "node_id ` set (rt_nodes rt) \<subseteq> U"
  shows "\<exists>ns rt'. node_lookup (Suc (4 * card U)) sha256 ping resp pick rt k = Some (ns, rt') \<and> length ns \<le> 20 \<and>
     list_all (\<lambda>n. answered resp (node_id n) \<and> node_id n \<noteq> node_id (rt_host rt)) ns \<and>
     sorted (map (\<lambda>n. key_id (distance sha256 k (node_id n))) ns) \<and> rt_wf sha256 rt'"
proof -
  have "lk_measure U (lookup_start sha256 rt k) < Suc (4 * card U)"
    using assms(2) by (simp add: lookup_start_measure closed_world_def)
  from node_lookup_loop_ends[OF assms(2) lookup_start_inv[OF assms(1,3)] this, of ping pick k]
  obtain st where st: "node_lookup_loop (Suc (4 * card U)) sha256 ping resp pick (node_id (rt_host rt)) k (lookup_start sha256 rt k) = Some st"
    and res: "lk_result sha256 resp (node_id (rt_host rt)) k st" by blast
  have "sorted (map (\<lambda>n. key_id (distance sha256 k (node_id n))) (take KBUCKET_MAX (candidates st)))"
    using res unfolding lk_result_def take_map[symmetric] by (simp add: sorted_wrt_take)
  then show ?thesis
    using res by (auto simp: node_lookup_def st lk_result_def list_all_iff KBUCKET_MAX_def)
qed

definition two_contacts :: "node \<Rightarrow> kademlia_error + dht_response" where
  "two_contacts n = Inr (PeersResp (node_id n) [peer_response_from (from_socket (Key_new id [2]) (SocketV4 2 2))])"

lemma two_contacts_closed: "closed_world two_contacts {Key_new id [1], Key_new id [2]}"
  by (auto simp: closed_world_def two_contacts_def peer_response_from_def from_socket_def)

definition one_contact_table :: route_table where
  "one_contact_table = rt_step (\<lambda>b. b @ replicate (32 - length b) 0)
     (RouteTable_new (from_socket (Key_new id [9]) (SocketV4 9 9)))
     (Acknowledge (\<lambda>_. True) (from_socket (Key_new id [1]) (SocketV4 1 1)))"

lemma one_contact_table_ok:
  "rt_wf (\<lambda>b. b @ replicate (32 - length b) 0) one_contact_table"
  "node_id ` set (rt_nodes one_contact_table) \<subseteq> {Key_new id [1], Key_new id [2]}"
proof -
  let ?H = "\<lambda>b :: bytes. b @ replicate (32 - length b) 0" and ?h = "from_socket (Key_new id [9]) (SocketV4 9 9)"
  have wf: "rt_wf ?H (RouteTable_new ?h)" by (rule rt_wf_new)
  show "rt_wf ?H one_contact_table" unfolding one_contact_table_def by (rule rt_step_wf[OF wf])
  obtain rt' where a: "acknowledge 3 ?H (\<lambda>_. True) (RouteTable_new ?h) (from_socket (Key_new id [1]) (SocketV4 1 1)) = Some rt'"
    using acknowledge_three_rounds[OF wf, of 0] unfolding numeral_3_eq_3 by blast
  have "set (rt_nodes (RouteTable_new ?h)) = {}"
    by (simp add: rt_nodes_def RouteTable_new_def gen_kbuckets_def KBucket_new_def)
  then have "set (rt_nodes rt') \<subseteq> {from_socket (Key_new id [1]) (SocketV4 1 1)}"
    using acknowledge_rel[OF wf a] by (auto simp: ack_rel_def)
  then show "node_id ` set (rt_nodes one_contact_table) \<subseteq> {Key_new id [1], Key_new id [2]}"
    using a by (auto simp: one_contact_table_def from_socket_def)
qed

theorem node_lookup_ends_with_live_nodes_witness:
  "\<exists>ns rt'. node_lookup (Suc (4 * card {Key_new id [1], Key_new id [2]})) (\<lambda>b. b @ replicate (32 - length b) 0) (\<lambda>_. True)
      two_contacts (\<lambda>_. 0) one_contact_table (Key_new id [5]) = Some (ns, rt') \<and> length ns \<le> 20"
  using node_lookup_ends_with_live_nodes[OF one_contact_table_ok(1) two_contacts_closed one_contact_table_ok(2),
      of "\<lambda>_. True" "\<lambda>_. 0" "Key_new id [5]"] by blast

text \<open>A value lookup ends under the same bound, and a value it returns was sent by a contact
  under that contact's own identifier.\<close>

lemma find_value_ends:
  assumes "rt_wf sha256 rt" and "closed_world resp U" and "node_id ` set (rt_nodes rt) \<subseteq> U"
  shows "\<exists>v rt'. find_value (Suc (4 * card U)) sha256 resp pick rt k = Some (v, rt') \<and>
     (\<forall>x. v = Some x \<longrightarrow> (\<exists>m. resp m = Inr (ValueResp (node_id m) x)))"
proof -
  have "lk_bounded U (lookup_start sha256 rt k)"
    using lookup_start_inv[OF assms(1,3), of resp k] by (simp add: lk_inv_def)
  moreover have "lk_measure U (lookup_start sha256 rt k) < Suc (4 * card U)"
    using assms(2) by (simp add: lookup_start_measure closed_world_def)
  ultimately show ?thesis
    using find_value_loop_ends[OF assms(2)] by (simp add: find_value_def)
qed

subsection \<open>A value that is held is found\<close>

lemma dedup_ids: "node_id ` set (dedup_by_id ns) = node_id ` set ns"
  by (induction ns rule: dedup_by_id.induct) auto

lemma distinct_dedup:
  assumes "sorted (map (\<lambda>n. f (node_id n)) ns)" and "inj_on f (node_id ` set ns)"
  shows "distinct (map node_id (dedup_by_id ns))"
  using assms
proof (induction ns rule: dedup_by_id.induct)
  case (3 n m ns)
  show ?case
  proof (cases "node_id n = node_id m")
    case False
    have "f (node_id n) \<noteq> f (node_id m)" using 3(4) False by (simp add: inj_on_def)
    then have "f (node_id n) < f (node_id m)" "\<forall>x\<in>set (m # ns). f (node_id m) \<le> f (node_id x)" using 3(3) by auto
    then have "node_id n \<notin> node_id ` set (m # ns)" by fastforce
    then have "node_id n \<notin> node_id ` set (dedup_by_id (m # ns))" unfolding dedup_ids .
    moreover have "distinct (map node_id (dedup_by_id (m # ns)))"
      using 3(2)[OF False] 3(3,4) by (simp add: inj_on_def)
    ultimately show ?thesis using False by simp
  qed (use 3 in \<open>simp add: inj_on_def\<close>)
qed simp_all

text \<open>Contact \<open>i\<close> has still to be asked or is being asked, and no visited contact is listed twice.\<close>

definition seeks :: "key \<Rightarrow> lookup_state \<Rightarrow> bool" where
  "seeks i st \<longleftrightarrow> i \<in> node_id ` set (if i \<in> visited st then in_flight st else candidates st) \<and>
     distinct (map node_id (filter (\<lambda>n. node_id n \<in> visited st) (candidates st)))"

definition dist_to :: "(bytes \<Rightarrow> bytes) \<Rightarrow> key \<Rightarrow> key \<Rightarrow> bytes" where
  "dist_to H k i = key_id (distance H k i)"

lemma distinct_map_filter_sort: "distinct (map f (filter P (sort_key g xs))) = distinct (map f (filter P xs))"
  by (simp add: filter_sort distinct_map)

lemma seeks_sorted: "seeks i (st\<lparr>candidates := sort_candidates H k cs\<rparr>) = seeks i (st\<lparr>candidates := cs\<rparr>)"
  by (simp add: seeks_def sort_candidates_def distinct_map_filter_sort)

lemma distinct_map_filter: "distinct (map f xs) \<Longrightarrow> distinct (map f (filter P xs))"
  by (induction xs) auto

lemma seeks_batch:
  assumes "seeks i st" and "lk_bounded U st" and "inj_on (dist_to H k) U"
  shows "seeks i (lookup_batch H k st)"
proof -
  let ?cs = "dedup_by_id (sort_candidates H k (candidates st))"
  have ids: "node_id ` set ?cs = node_id ` set (candidates st)" by (simp add: dedup_ids)
  have "distinct (map node_id ?cs)"
    by (rule distinct_dedup[where f = "dist_to H k"])
      (use assms(2,3) sorted_candidates[of H k "candidates st"] in \<open>auto simp: dist_to_def lk_bounded_def intro: inj_on_subset\<close>)
  then have "distinct (map node_id (filter P ?cs))" for P by (rule distinct_map_filter)
  then show ?thesis
    using assms(1) ids by (auto simp: seeks_def lookup_batch_def Let_def split: if_splits)
qed

lemma seeks_complete:
  assumes "seeks i st" and "value_complete H host (st\<lparr>in_flight := rest\<rparr>) t r = Inr st'" and "node_id t \<noteq> i"
    and "node_id ` set (in_flight st) \<subseteq> insert (node_id t) (node_id ` set rest)"
  shows "seeks i st'"
proof -
  have same: "filter (\<lambda>n. node_id n \<in> vis) (foldl (value_push host vis) cs ps) = filter (\<lambda>n. node_id n \<in> vis) cs" for vis cs ps
    by (induction ps arbitrary: cs) (auto simp: value_push_def Let_def)
  have push: "c \<in> set cs \<Longrightarrow> c \<in> set (foldl (value_push host vis) cs ps)" for c vis cs ps
    by (induction ps arbitrary: cs) (auto simp: value_push_def Let_def)
  have kept: "i \<in> node_id ` set rest" if "i \<in> node_id ` set (in_flight st)" using that assms(3) subsetD[OF assms(4), of i] by simp
  show ?thesis
  proof (cases "\<exists>ps. r = Inr (PeersResp (node_id t) ps)")
    case True
    then obtain ps where "st' = st\<lparr>in_flight := rest, candidates := foldl (value_push host (visited st)) (candidates st) ps\<rparr>"
      using assms(2) by (auto simp: value_complete_def)
    then show ?thesis using assms(1) kept by (auto simp: seeks_def same push split: if_splits)
  next
    case False
    then have "st' = st\<lparr>in_flight := rest, lk_routes := rt_remove H (lk_routes st) t,
        candidates := filter (\<lambda>n. node_id n \<noteq> node_id t) (candidates st)\<rparr>"
      using assms(2) by (auto simp: value_complete_def Let_def split: sum.splits dht_response.splits if_splits)
    moreover have "distinct (map node_id (filter P (filter Q xs)))" if "distinct (map node_id (filter P xs))" for P Q and xs :: "node list"
      using distinct_map_filter[OF that, of Q] by (simp add: conj_commute)
    ultimately show ?thesis using assms(1,3) kept by (auto simp: seeks_def split: if_splits)
  qed
qed

text \<open>When the first candidates have all been asked, so has every contact that is near enough.\<close>

lemma near_is_visited:
  assumes seek: "seeks i st" and bound: "lk_bounded U st" "finite U" and sorted: "candidates st = sort_candidates H k cs"
    and few: "card {j \<in> U. j \<noteq> i \<and> dist_to H k j \<le> dist_to H k i} < KBUCKET_MAX" and all: "all_visited st"
  shows "i \<in> visited st"
proof (rule ccontr)
  assume not: "i \<notin> visited st"
  let ?top = "take KBUCKET_MAX (candidates st)"
  obtain c where c: "c \<in> set (candidates st)" "node_id c = i" using seek not by (auto simp: seeks_def)
  have top: "\<forall>n\<in>set ?top. node_id n \<in> visited st" using all by (simp add: all_visited_def)
  then have "c \<notin> set ?top" using c not by blast
  then have rest: "c \<in> set (drop KBUCKET_MAX (candidates st))" using c(1) by (metis Un_iff append_take_drop_id set_append)
  then have len: "length ?top = KBUCKET_MAX" by (cases "length (candidates st) \<le> KBUCKET_MAX") auto
  have "filter (\<lambda>n. node_id n \<in> visited st) (candidates st) = ?top @ filter (\<lambda>n. node_id n \<in> visited st) (drop KBUCKET_MAX (candidates st))"
    using top by (subst append_take_drop_id[symmetric, of "candidates st" KBUCKET_MAX], subst filter_append) simp
  then have "distinct (map node_id ?top)" using seek by (simp add: seeks_def)
  then have "card (node_id ` set ?top) = KBUCKET_MAX" using len by (metis distinct_card length_map set_map)
  moreover have "sorted (map (\<lambda>n. dist_to H k (node_id n)) (?top @ drop KBUCKET_MAX (candidates st)))"
    using sorted_candidates[of H k cs] sorted by (simp add: dist_to_def)
  then have "\<forall>n\<in>set ?top. dist_to H k (node_id n) \<le> dist_to H k i" using rest c(2) unfolding map_append sorted_append by fastforce
  then have "node_id ` set ?top \<subseteq> {j \<in> U. j \<noteq> i \<and> dist_to H k j \<le> dist_to H k i}"
    using top not bound(1) set_take_subset[of KBUCKET_MAX "candidates st"] unfolding lk_bounded_def by blast
  then have "card (node_id ` set ?top) \<le> card {j \<in> U. j \<noteq> i \<and> dist_to H k j \<le> dist_to H k i}" using bound(2) by (intro card_mono) auto
  ultimately show False using few by simp
qed

lemma find_value_loop_finds:
  assumes cw: "closed_world resp U" and inj: "inj_on (dist_to H k) U" and few: "card {j \<in> U. j \<noteq> i \<and> dist_to H k j \<le> dist_to H k i} < KBUCKET_MAX"
    and holds: "\<forall>n. node_id n = i \<longrightarrow> (\<exists>v. resp n = Inr (ValueResp i v))"
  shows "lk_bounded U st \<Longrightarrow> seeks i st \<Longrightarrow> find_value_loop fuel H resp pick host k st \<noteq> Some (None, rt)"
proof (induction fuel arbitrary: st)
  case (Suc fuel)
  define st1 where "st1 = lookup_batch H k st"
  have b1: "lk_bounded U st1" unfolding st1_def by (rule lookup_batch_bounded[OF Suc.prems(1)])
  have s1: "seeks i st1" unfolding st1_def by (rule seeks_batch[OF Suc.prems(2,1) inj])
  have ne: "in_flight st1 \<noteq> []"
  proof
    assume empty: "in_flight st1 = []"
    then have "\<forall>n\<in>set (candidates st1). node_id n \<in> visited st1"
      by (auto simp: st1_def lookup_batch_def Let_def ALPHA_def filter_empty_conv)
    then show False using s1 empty by (auto simp: seeks_def split: if_splits)
  qed
  note unf = find_value_loop.simps(2)[of fuel H resp pick host k st] st1_def[symmetric] Let_def
  obtain t rest where nd: "next_done pick (in_flight st1) = (t, rest)" by fastforce
  show ?case
  proof (cases "value_complete H host (st1\<lparr>in_flight := rest\<rparr>) t (resp t)")
    case (Inl v)
    then show ?thesis using ne nd by (simp add: unf)
  next
    case (Inr st2)
    define st3 where "st3 = st2\<lparr>candidates := sort_candidates H k (candidates st2)\<rparr>"
    have "lk_bounded U (st1\<lparr>in_flight := rest\<rparr>)" using b1 next_done_props(2)[OF ne nd] by (simp add: lk_bounded_def)
    note c = value_complete_bounded[OF this cw Inr]
    have "node_id t \<noteq> i" using holds Inr by (auto simp: value_complete_def)
    then have "seeks i st2"
      by (rule seeks_complete[OF s1 Inr]) (use next_done_props(3)[OF ne nd] in auto)
    then have s3: "seeks i st3" using seeks_sorted[where st = st2 and cs = "candidates st2"] by (simp add: st3_def)
    have b3: "lk_bounded U st3" using c by (simp add: st3_def lk_bounded_def)
    have "\<not> (all_visited st3 \<and> in_flight st3 = [])"
      using near_is_visited[OF s3 b3 _ _ few, of "candidates st2"] s3 cw by (auto simp: st3_def seeks_def closed_world_def)
    then show ?thesis
      using Suc.IH[OF b3 s3] ne unfolding unf nd prod.case Inr sum.case st3_def[symmetric] by auto
  qed
qed simp

text \<open>One of the closest contacts of the table holds a value, and fewer than \<open>KBUCKET_MAX\<close> nodes are
  nearer to the key: the lookup returns a value.\<close>

lemma find_value_finds:
  assumes wf: "rt_wf H rt" and cw: "closed_world resp U" and known: "node_id ` set (rt_nodes rt) \<subseteq> U" and inj: "inj_on (dist_to H k) U"
    and near: "card {j \<in> U. j \<noteq> i \<and> dist_to H k j \<le> dist_to H k i} < KBUCKET_MAX"
    and n: "i \<in> node_id ` set (get_closest_nodes H rt k KBUCKET_MAX)" and holds: "\<forall>n. node_id n = i \<longrightarrow> (\<exists>v. resp n = Inr (ValueResp i v))"
  shows "\<exists>v rt' m. find_value (Suc (4 * card U)) H resp pick rt k = Some (Some v, rt') \<and> resp m = Inr (ValueResp (node_id m) v)"
proof -
  obtain v rt' where ends: "find_value (Suc (4 * card U)) H resp pick rt k = Some (v, rt')"
    "\<forall>x. v = Some x \<longrightarrow> (\<exists>m. resp m = Inr (ValueResp (node_id m) x))"
    using find_value_ends[OF wf cw known, of pick k] by blast
  have "lk_bounded U (lookup_start H rt k)" using lookup_start_inv[OF wf known, of resp k] by (simp add: lk_inv_def)
  moreover have "seeks i (lookup_start H rt k)" using n by (simp add: seeks_def lookup_start_def)
  ultimately have "find_value (Suc (4 * card U)) H resp pick rt k \<noteq> Some (None, rt')"
    unfolding find_value_def by (rule find_value_loop_finds[OF cw inj near holds])
  then show ?thesis using ends by (cases v) auto
qed

end
