(* ===== verification/Join.thy ===== *)
theory Join
  imports Lookup
begin

text \<open>
  Joining the DHT and authenticated requests: the client half of \<open>dht/kademlia/client.rs\<close> and
  \<open>dht/kademlia/mod.rs\<close>. A client is its node state, its connections by address and the rest of the
  network; sending a packet and waiting for the reply is the parameter \<open>transport\<close>, which may open
  the connection and change the network. \<open>None\<close> is a search for a nonce that never ends.
  The second part runs the client against the modelled server.
\<close>

record ('k, 's, 'w) dht_client =
  cl_kd :: "('k, 's) kademlia"
  cl_conns :: "sock_addr \<rightharpoonup> conn_state"
  cl_net :: 'w

type_synonym 'w transport =
  "node \<Rightarrow> (u64 \<Rightarrow> dht_packet) \<Rightarrow> (sock_addr \<rightharpoonup> conn_state) \<times> 'w \<Rightarrow> (rpc_error + dht_response) \<times> (sock_addr \<rightharpoonup> conn_state) \<times> 'w"

definition Connection_new :: conn_state where
  "Connection_new = \<lparr>conn_inbound = None, conn_outbound = False, conn_closed = False\<rparr>"

definition BQTI_VERSION :: string where "BQTI_VERSION = ''0.1.0''"

subsection \<open>A new node\<close>

text \<open>\<open>leaf\<close> is the certificate derived from the root, \<open>None\<close> when that fails; \<open>local_addr\<close> the address
  of the endpoint.\<close>

definition AuthManager_new :: "bytes \<Rightarrow> signer option \<Rightarrow> (bytes \<times> 's) option \<Rightarrow> bytes \<Rightarrow> kademlia_error + 's auth_manager" where
  "AuthManager_new ca_root leaf pgp_signature salt =
     (case leaf of
        None \<Rightarrow> Inl KadCert
      | Some certificate \<Rightarrow>
          Inr \<lparr>am_ca_cert = ca_root, am_pgp_details = pgp_signature, am_signer = certificate, am_secret_salt = salt,
               am_rate_limiter = RateLimiter_new REQUEST_NUMBER REQUEST_PER_SECOND, am_token = None\<rparr>)"

definition Kademlia_new ::
  "(bytes \<Rightarrow> bytes) \<Rightarrow> bytes \<Rightarrow> signer option \<Rightarrow> (bytes \<times> 's) option \<Rightarrow> bytes \<Rightarrow> sock_addr option \<Rightarrow> kademlia_error + ('k, 's) kademlia" where
  "Kademlia_new sha256 ca_root leaf pgp_signature salt local_addr =
     (case AuthManager_new ca_root leaf pgp_signature salt of
        Inl e \<Rightarrow> Inl e
      | Inr auth_manager \<Rightarrow>
          (case local_addr of
             None \<Rightarrow> Inl KadConnection
           | Some addr \<Rightarrow>
               Inr \<lparr>kd_auth = auth_manager, kd_pgp_keys = Map.empty, kd_store = DHTStore_new,
                    kd_routes = RouteTable_new (from_socket (Key_new sha256 (signer_pub_key (am_signer auth_manager))) addr)\<rparr>))"

subsection \<open>Requests\<close>

definition rpc_send ::
  "'w transport \<Rightarrow> node \<Rightarrow> (u64 \<Rightarrow> dht_packet) \<Rightarrow> ('k, 's, 'w) dht_client \<Rightarrow> (kademlia_error + dht_response) \<times> ('k, 's, 'w) dht_client" where
  "rpc_send transport target make_packet cl =
     (case transport target make_packet (cl_conns cl, cl_net cl) of
        (r, conns, w) \<Rightarrow> (map_sum KadRpc id r, cl\<lparr>cl_conns := conns, cl_net := w\<rparr>))"

definition rpc_handshake ::
  "'w transport \<Rightarrow> node \<Rightarrow> dht_request \<Rightarrow> ('k, 's, 'w) dht_client \<Rightarrow> (kademlia_error + dht_response) \<times> ('k, 's, 'w) dht_client" where
  "rpc_handshake transport target payload = rpc_send transport target (\<lambda>i. HandShake \<lparr>env_id = i, env_payload = payload\<rparr>)"

definition rpc_request ::
  "'w transport \<Rightarrow> node \<Rightarrow> auth_dht_request \<Rightarrow> ('k, 's, 'w) dht_client \<Rightarrow> (kademlia_error + dht_response) \<times> ('k, 's, 'w) dht_client" where
  "rpc_request transport target payload = rpc_send transport target (\<lambda>i. RequestPacket \<lparr>env_id = i, env_payload = payload\<rparr>)"

text \<open>What the code does to a connection it finds in the manager's table, and nothing otherwise.\<close>

definition with_connection :: "sock_addr \<Rightarrow> (conn_state \<Rightarrow> conn_state) \<Rightarrow> ('k, 's, 'w) dht_client \<Rightarrow> ('k, 's, 'w) dht_client" where
  "with_connection addr f cl =
     (case cl_conns cl addr of
        Some conn \<Rightarrow> cl\<lparr>cl_conns := (cl_conns cl)(addr \<mapsto> f conn)\<rparr>
      | None \<Rightarrow> cl)"

subsection \<open>Joining\<close>

definition request_challange ::
  "'w transport \<Rightarrow> ('k, 's) dht_env \<Rightarrow> node \<Rightarrow> ('k, 's, 'w) dht_client \<Rightarrow> ((kademlia_error + pow) \<times> ('k, 's, 'w) dht_client) option" where
  "request_challange transport env bootstrap cl =
     (case rpc_handshake transport bootstrap (RequestChallange (host_id (cl_kd cl))) cl of
        (Inl e, cl) \<Rightarrow> Some (Inl e, cl)
      | (Inr (Challange challange difficulty), cl) \<Rightarrow>
          let auth = kd_auth (cl_kd cl)
          in (case pow_prove (e_sha256 env) (am_signer auth) (signer_pub_key (am_signer auth)) challange difficulty of
                None \<Rightarrow> None
              | Some None \<Rightarrow> Some (Inl (KadAuth UnAuthorized), cl)
              | Some (Some (Inl e)) \<Rightarrow> Some (Inl (KadAuth e), cl)
              | Some (Some (Inr secret)) \<Rightarrow> Some (Inr secret, cl))
      | (Inr _, cl) \<Rightarrow> Some (Inl (KadRpc UnexpectedResponse), cl))"

definition submit_challange ::
  "'w transport \<Rightarrow> ('k, 's) dht_env \<Rightarrow> node \<Rightarrow> pow \<Rightarrow> ('k, 's, 'w) dht_client \<Rightarrow> (kademlia_error + node) \<times> ('k, 's, 'w) dht_client" where
  "submit_challange transport env bootstrap secret cl =
     (let host = host_id (cl_kd cl)
      in case pow_signature secret of
           None \<Rightarrow> (Inl (KadAuth UnAuthorized), cl)
         | Some signature \<Rightarrow>
             (case rpc_handshake transport bootstrap (SubmitChallange host (pow_value secret) (pow_nonce secret) signature
                     (pow_attestation secret) BQTI_VERSION) cl of
                (Inl e, cl) \<Rightarrow> (Inl e, cl)
              | (Inr (Welcome t), cl) \<Rightarrow>
                  if \<not> verify_for (e_sha256 env) (e_verify env) (e_now env) t (pub_key host)
                     \<or> \<not> verify_pgp (e_pgp env) t (kd_pgp_keys (cl_kd cl))
                  then (Inl (KadAuth RoguePeer), cl)
                  else let issuer = Key_new (e_sha256 env) (tk_issuer t);
                           cl = with_connection (node_addr bootstrap) (\<lambda>conn. set_inbound_peer (set_outbound_authenticated conn) issuer) cl
                       in (Inr (from_socket issuer (node_addr bootstrap)),
                           cl\<lparr>cl_kd := (cl_kd cl)\<lparr>kd_auth := store_token (kd_auth (cl_kd cl)) t\<rparr>\<rparr>)
              | (Inr _, cl) \<Rightarrow> (Inl (KadRpc UnexpectedResponse), cl)))"

definition MAX_RETRIES :: nat where "MAX_RETRIES = 2"

text \<open>The argument counts the attempts that are left.\<close>

fun join_attempts ::
  "nat \<Rightarrow> 'w transport \<Rightarrow> ('k, 's) dht_env \<Rightarrow> node \<Rightarrow> ('k, 's, 'w) dht_client \<Rightarrow> ((kademlia_error + node) \<times> ('k, 's, 'w) dht_client) option" where
  "join_attempts 0 transport env bootstrap cl = Some (Inl BootstrapFailed, cl)"
| "join_attempts (Suc left) transport env bootstrap cl =
     (case request_challange transport env bootstrap cl of
        None \<Rightarrow> None
      | Some (Inl e, cl) \<Rightarrow> Some (Inl e, cl)
      | Some (Inr signed_secret, cl) \<Rightarrow>
          (case submit_challange transport env bootstrap signed_secret cl of
             (Inr node, cl) \<Rightarrow> Some (Inr node, cl)
           | (Inl e, cl) \<Rightarrow>
               if e = KadAuth RoguePeer \<and> 0 < left then join_attempts left transport env bootstrap cl
               else Some (Inl e, cl)))"

definition join_with_retry ::
  "'w transport \<Rightarrow> ('k, 's) dht_env \<Rightarrow> node \<Rightarrow> ('k, 's, 'w) dht_client \<Rightarrow> ((kademlia_error + node) \<times> ('k, 's, 'w) dht_client) option" where
  "join_with_retry = join_attempts MAX_RETRIES"

text \<open>The lookup that ends joining, with its parameters; it never fails.\<close>

definition join_network ::
  "nat \<Rightarrow> (node \<Rightarrow> kademlia_error + dht_response) \<Rightarrow> (node list \<Rightarrow> nat) \<Rightarrow> 'w transport \<Rightarrow> ('k, 's) dht_env \<Rightarrow> node
     \<Rightarrow> ('k, 's, 'w) dht_client \<Rightarrow> ((kademlia_error + unit) \<times> ('k, 's, 'w) dht_client) option" where
  "join_network fuel resp pick transport env bootstrap cl =
     (case join_with_retry transport env bootstrap cl of
        None \<Rightarrow> None
      | Some (Inl e, cl) \<Rightarrow> Some (Inl e, cl)
      | Some (Inr bootstrap, cl) \<Rightarrow>
          let kd = kd_acknowledge env (cl_kd cl) bootstrap
          in (case node_lookup fuel (e_sha256 env) (e_ping env) resp pick (kd_routes kd) (host_id kd) of
                None \<Rightarrow> None
              | Some (_, rt) \<Rightarrow> Some (Inr (), cl\<lparr>cl_kd := kd\<lparr>kd_routes := rt\<rparr>\<rparr>)))"

subsection \<open>Authenticated requests\<close>

definition authenticate ::
  "'w transport \<Rightarrow> ('k, 's) dht_env \<Rightarrow> node \<Rightarrow> ('k, 's, 'w) dht_client \<Rightarrow> (kademlia_error + unit) \<times> ('k, 's, 'w) dht_client" where
  "authenticate transport env target cl =
     (let host = host_id (cl_kd cl)
      in case best_token (e_now env) (kd_auth (cl_kd cl)) of
           None \<Rightarrow> (Inl (KadAuth UnAuthorized), cl)
         | Some t \<Rightarrow>
             (case rpc_handshake transport target (RequestHandshake host) cl of
                (Inl e, cl) \<Rightarrow> (Inl e, cl)
              | (Inr (HandshakeChallange nonce), cl) \<Rightarrow>
                  (case signer_sign (am_signer (kd_auth (cl_kd cl))) (token_hash (e_sha256 env) t @ to_be_bytes_u32 nonce) of
                     None \<Rightarrow> (Inl (KadAuth InvalidToken), cl)
                   | Some signature \<Rightarrow>
                       (case rpc_handshake transport target (SubmitHandshake t signature) cl of
                          (Inl e, cl) \<Rightarrow> (Inl e, cl)
                        | (Inr (Pong receiver_id), cl) \<Rightarrow>
                            if receiver_id \<noteq> node_id target then (Inl (KadAuth RoguePeer), cl)
                            else (Inr (), with_connection (node_addr target) set_outbound_authenticated cl)
                        | (Inr _, cl) \<Rightarrow> (Inl (KadAuth UnAuthorized), cl)))
              | (Inr _, cl) \<Rightarrow> (Inl (KadAuth UnAuthorized), cl)))"

definition auth_request ::
  "'w transport \<Rightarrow> ('k, 's) dht_env \<Rightarrow> node \<Rightarrow> auth_dht_request \<Rightarrow> ('k, 's, 'w) dht_client
     \<Rightarrow> (kademlia_error + dht_response) \<times> ('k, 's, 'w) dht_client" where
  "auth_request transport env target request cl =
     (let needs_auth = (case cl_conns cl (node_addr target) of Some c \<Rightarrow> \<not> conn_outbound c | None \<Rightarrow> True)
      in case (if needs_auth then authenticate transport env target cl else (Inr (), cl)) of
           (Inl _, cl) \<Rightarrow> (Inl (KadAuth UnAuthorized), cl)
         | (Inr _, cl) \<Rightarrow> rpc_request transport target request cl)"

definition kd_ping ::
  "'w transport \<Rightarrow> ('k, 's) dht_env \<Rightarrow> node \<Rightarrow> ('k, 's, 'w) dht_client \<Rightarrow> (kademlia_error + unit) \<times> ('k, 's, 'w) dht_client" where
  "kd_ping transport env target cl =
     (case auth_request transport env target PingReq cl of
        (Inl e, cl) \<Rightarrow> (Inl e, cl)
      | (Inr (Pong target_id), cl) \<Rightarrow> if node_id target \<noteq> target_id then (Inl (KadRpc UnexpectedResponse), cl) else (Inr (), cl)
      | (Inr _, cl) \<Rightarrow> (Inl (KadRpc UnexpectedResponse), cl))"

subsection \<open>The client against the modelled server\<close>

text \<open>The network of a client with one server: its table of pending requests, the server's state
  and its end of the connection, and the salts the server's timer installs, one before each packet
  while there are any. A packet travels over the connection there is, or a new one; the server
  handles it, and its reply, if it sends one, completes the request. A connection the server
  closed is gone from the client's table.\<close>

record ('k, 's) peer_link =
  pl_rpc :: rpc_handler
  pl_server :: "('k, 's) kademlia"
  pl_conn :: conn_state
  pl_salts :: "bytes list"

definition rotate_salt :: "('k, 's) peer_link \<Rightarrow> ('k, 's) peer_link" where
  "rotate_salt w =
     (case pl_salts w of
        [] \<Rightarrow> w
      | salt # rest \<Rightarrow>
          w\<lparr>pl_server := (pl_server w)\<lparr>kd_auth := refresh_salt (kd_auth (pl_server w)) salt\<rparr>, pl_salts := rest\<rparr>)"

definition reply_outcome :: "u64 \<Rightarrow> replies \<Rightarrow> rpc_outcome" where
  "reply_outcome i rs = (case find (\<lambda>(_, e). env_id e = i) rs of Some (_, e) \<Rightarrow> Answered (env_payload e) | None \<Rightarrow> TimesOut)"

definition server_transport :: "('k, 's) dht_env \<Rightarrow> sock_addr \<Rightarrow> ('k, 's) peer_link transport" where
  "server_transport env src target make_packet = (\<lambda>(conns, w).
     let w = rotate_salt w;
         addr = node_addr target;
         i = next_id (pl_rpc w);
         c = (case conns addr of None \<Rightarrow> Connection_new | Some _ \<Rightarrow> pl_conn w);
         own = (case conns addr of None \<Rightarrow> Connection_new | Some own \<Rightarrow> own);
         (server, c, rs) = (case handle_packet env (pl_server w) c (make_packet i) src of
             None \<Rightarrow> (pl_server w, c, [])
           | Some (_, server, c, rs) \<Rightarrow> (server, c, rs));
         (r, rpc) = rpc_handle_request (pl_rpc w) (reply_outcome i rs)
     in (r, conns(addr := if conn_closed c then None else Some own),
         w\<lparr>pl_rpc := rpc, pl_server := server, pl_conn := c\<rparr>))"

subsection \<open>One packet\<close>

lemma rotate_nothing [simp]: "pl_salts w = [] \<Longrightarrow> rotate_salt w = w"
  by (simp add: rotate_salt_def)

lemma pl_salts_rotate [simp]: "pl_salts (rotate_salt w) = tl (pl_salts w)"
  by (simp add: rotate_salt_def split: list.split)

lemma rotate_keeps [simp]: "pl_rpc (rotate_salt w) = pl_rpc w" "pl_conn (rotate_salt w) = pl_conn w"
  by (simp_all add: rotate_salt_def split: list.split)

lemma answered_outcome:
  obtains h' where "rpc_handle_request h (Answered x) = (Inr x, h')"
  by (simp add: rpc_handle_request_def rpc_begin_def alloc_id_def rpc_dispatch_def Let_def)

lemma timed_out_outcome:
  obtains h' where "rpc_handle_request h TimesOut = (Inl RpcTimeout, h')"
  by (simp add: rpc_handle_request_def rpc_begin_def alloc_id_def Let_def)

text \<open>The server's end of the connection that the next packet travels over.\<close>

definition server_end :: "('k, 's, ('k, 's) peer_link) dht_client \<Rightarrow> node \<Rightarrow> conn_state" where
  "server_end cl target = (case cl_conns cl (node_addr target) of None \<Rightarrow> Connection_new | Some _ \<Rightarrow> pl_conn (cl_net cl))"

definition client_end :: "('k, 's, 'w) dht_client \<Rightarrow> node \<Rightarrow> conn_state" where
  "client_end cl target = (case cl_conns cl (node_addr target) of None \<Rightarrow> Connection_new | Some own \<Rightarrow> own)"

text \<open>A packet that is answered leaves the connection open on both ends.\<close>

lemma send_answered:
  assumes "\<exists>r peer. handle_packet env (pl_server (rotate_salt (cl_net cl))) (server_end cl target) (make_packet (next_id (pl_rpc (cl_net cl)))) src =
      Some (r, server, c, [(peer, \<lparr>env_id = next_id (pl_rpc (cl_net cl)), env_payload = x\<rparr>)])"
    and "\<not> conn_closed c"
  obtains cl' where "rpc_send (server_transport env src) target make_packet cl = (Inr x, cl')" and "cl_kd cl' = cl_kd cl"
    and "cl_conns cl' = (cl_conns cl)(node_addr target \<mapsto> client_end cl target)"
    and "pl_salts (cl_net cl') = tl (pl_salts (cl_net cl))" and "pl_server (cl_net cl') = server" and "pl_conn (cl_net cl') = c"
proof -
  obtain rpc where "rpc_handle_request (pl_rpc (cl_net cl)) (Answered x) = (Inr x, rpc)" by (rule answered_outcome)
  moreover obtain r peer where "handle_packet env (pl_server (rotate_salt (cl_net cl))) (server_end cl target)
      (make_packet (next_id (pl_rpc (cl_net cl)))) src =
      Some (r, server, c, [(peer, \<lparr>env_id = next_id (pl_rpc (cl_net cl)), env_payload = x\<rparr>)])"
    using assms(1) by blast
  ultimately show thesis
    using assms(2)
    by (intro that[where cl' = "cl\<lparr>cl_conns := (cl_conns cl)(node_addr target \<mapsto> client_end cl target),
          cl_net := (rotate_salt (cl_net cl))\<lparr>pl_rpc := rpc, pl_server := server, pl_conn := c\<rparr>\<rparr>"])
      (cases "cl_conns cl (node_addr target)",
        simp_all add: rpc_send_def server_transport_def server_end_def client_end_def reply_outcome_def Let_def)
qed

text \<open>A packet that the server refuses without a reply times out.\<close>

lemma send_refused:
  assumes "handle_packet env (pl_server (rotate_salt (cl_net cl))) (server_end cl target) (make_packet (next_id (pl_rpc (cl_net cl)))) src =
      Some (r, server, c, [])"
  shows "\<exists>cl'. rpc_send (server_transport env src) target make_packet cl = (Inl (KadRpc RpcTimeout), cl') \<and> cl_kd cl' = cl_kd cl"
proof -
  obtain rpc where "rpc_handle_request (pl_rpc (cl_net cl)) TimesOut = (Inl RpcTimeout, rpc)" by (rule timed_out_outcome)
  then show ?thesis
    using assms
    by (auto simp: rpc_send_def server_transport_def server_end_def reply_outcome_def Let_def split: option.splits)
qed

subsection \<open>Honest nodes\<close>

definition honest :: "('k, 's) dht_env \<Rightarrow> ('k, 's) kademlia \<Rightarrow> bool" where
  "honest env kd \<longleftrightarrow> host_id kd = Key_new (e_sha256 env) (signer_pub_key (am_signer (kd_auth kd))) \<and>
     signs (e_verify env) (am_signer (kd_auth kd)) \<and> (\<forall>m. signer_sign (am_signer (kd_auth kd)) m \<noteq> None)"

lemma new_node_honest:
  assumes "Kademlia_new (e_sha256 env) ca (Some sg) pgp salt local_addr = Inr kd" and "signs (e_verify env) sg" and "\<forall>m. signer_sign sg m \<noteq> None"
  shows "honest env kd \<and> kd_wf env kd \<and> am_token (kd_auth kd) = None"
  using assms
  by (auto simp: Kademlia_new_def AuthManager_new_def honest_def kd_wf_def host_id_def RouteTable_new_def from_socket_def
      rt_wf_new[unfolded RouteTable_new_def] store_wf_def DHTStore_new_def split: option.splits)

text \<open>The certificate that an issuer puts into its tokens passes the check under these keys.\<close>

definition certified :: "('k, 's) dht_env \<Rightarrow> 's auth_manager \<Rightarrow> (bytes \<rightharpoonup> 'k) \<Rightarrow> bool" where
  "certified env am pgp_keys \<longleftrightarrow>
     (case am_pgp_details am of
        None \<Rightarrow> False
      | Some (swarm_id, s) \<Rightarrow>
          (case pgp_print (e_pgp env) s of
             None \<Rightarrow> False
           | Some b \<Rightarrow> verify_pgp (e_pgp env) (bind_swarm (Token_new [] [] Unattested) swarm_id (am_ca_cert am) b) pgp_keys))"

lemma verify_pgp_cong:
  assumes "issuer_ca_cert t = issuer_ca_cert t'" and "issuer_ca_cert_sig t = issuer_ca_cert_sig t'" and "tk_swarm_id t = tk_swarm_id t'"
  shows "verify_pgp lib t keys = verify_pgp lib t' keys"
  by (simp only: verify_pgp_def assms)

lemma certified_token:
  assumes pow: "pow_verify (e_sha256 env) (e_verify env) secret (pub_key (node_id sender)) = Some True"
    and plain: "pow_attestation secret = None" and total: "\<forall>m. signer_sign (am_signer am) m \<noteq> None"
    and cert: "certified env am keys"
  obtains t where "issue_token (e_sha256 env) (e_verify env) (e_ed_verify env) (e_pgp env) (e_manifest env) now am sender secret ver = Some (Inr t)"
    and "verify_pgp (e_pgp env) t keys" and "tk_issuer t = signer_pub_key (am_signer am)" and "tk_peer t = pub_key (node_id sender)"
proof -
  obtain swarm s b where d: "am_pgp_details am = Some (swarm, s)" "pgp_print (e_pgp env) s = Some b"
    and v: "verify_pgp (e_pgp env) (bind_swarm (Token_new [] [] Unattested) swarm (am_ca_cert am) b) keys"
    using cert by (auto simp: certified_def split: option.splits)
  let ?t0 = "bind_swarm (Token_new (pub_key (node_id sender)) (pow_value secret) Unattested) swarm (am_ca_cert am) b"
  obtain t where t: "token_sign (e_sha256 env) now (am_signer am) ?t0 = Inr t" using token_sign_total[OF total] by blast
  note f = token_sign_fields[OF t]
  show thesis
  proof (rule that)
    show "issue_token (e_sha256 env) (e_verify env) (e_ed_verify env) (e_pgp env) (e_manifest env) now am sender secret ver = Some (Inr t)"
      using pow plain d t by (simp add: issue_token_def Let_def)
    show "verify_pgp (e_pgp env) t keys"
      using v by (rule iffD1[OF verify_pgp_cong, rotated -1]) (simp_all add: f bind_swarm_def)
    show "tk_issuer t = signer_pub_key (am_signer am)" "tk_peer t = pub_key (node_id sender)" by (simp_all add: f)
  qed
qed

abbreviation found_proof :: "(bytes \<Rightarrow> bytes) \<Rightarrow> bytes \<Rightarrow> u32 \<Rightarrow> u32 \<Rightarrow> u32 \<Rightarrow> bytes \<Rightarrow> pow" where
  "found_proof H pk challenge difficulty k s \<equiv>
     \<lparr>pow_value = pow_calculate H pk challenge k, pow_challange = challenge, pow_nonce = k,
      pow_signature = Some s, pow_attestation = None, pow_difficulty = difficulty\<rparr>"

lemma pow_prove_finds:
  assumes "\<forall>m. length (H m) = 32" and "unat difficulty \<le> 256"
    and "leading_zeros (pow_calculate H pk challenge nonce) (unat difficulty)" and "\<forall>m. signer_sign sg m \<noteq> None"
  obtains k s where "pow_prove H sg pk challenge difficulty = Some (Some (Inr (found_proof H pk challenge difficulty k s)))"
    and "pow_validate (pow_calculate H pk challenge k) difficulty = Some True"
    and "signer_sign sg (pow_calculate H pk challenge k) = Some s"
proof -
  have "pow_validate (pow_calculate H pk challenge k) difficulty = Some (leading_zeros (pow_calculate H pk challenge k) (unat difficulty))" for k
    using assms(1,2) by (intro pow_validate_zeros) (simp_all add: pow_calculate_def)
  then show ?thesis
    using prove_loop_finds[of H pk challenge difficulty nonce sg 0] assms(3,4) that by (auto simp: pow_prove_def)
qed

text \<open>What a valid proof and an answering peer make of the two challenge requests.\<close>

lemma request_challange_answered:
  assumes sha: "\<forall>m. length (e_sha256 env m) = 32" and total: "\<forall>m. signer_sign (am_signer (kd_auth (cl_kd cl))) m \<noteq> None"
    and reply: "\<forall>n. e_can_reply env n" and same: "e_sha256 cenv = e_sha256 env" and up: "\<not> conn_closed (server_end cl boot)"
    and pk: "pk = signer_pub_key (am_signer (kd_auth (cl_kd cl)))" "pub_key (host_id (cl_kd cl)) = pk"
    and ch: "ch = am_challange (e_sha256 env) (kd_auth (pl_server (rotate_salt (cl_net cl)))) pk (addr_ip src)"
    and hit: "leading_zeros (pow_calculate (e_sha256 env) pk ch nonce) (unat DIFFICULTY)"
  obtains k s cl' where "request_challange (server_transport env src) cenv boot cl = Some (Inr (found_proof (e_sha256 env) pk ch DIFFICULTY k s), cl')"
    and "pow_validate (pow_calculate (e_sha256 env) pk ch k) DIFFICULTY = Some True"
    and "signer_sign (am_signer (kd_auth (cl_kd cl))) (pow_calculate (e_sha256 env) pk ch k) = Some s"
    and "cl_kd cl' = cl_kd cl" and "cl_conns cl' (node_addr boot) = Some (client_end cl boot)"
    and "pl_salts (cl_net cl') = tl (pl_salts (cl_net cl))" and "pl_server (cl_net cl') = pl_server (rotate_salt (cl_net cl))"
    and "pl_conn (cl_net cl') = server_end cl boot"
proof -
  have d: "unat DIFFICULTY \<le> 256" by (simp add: DIFFICULTY_def)
  obtain k s where p: "pow_prove (e_sha256 env) (am_signer (kd_auth (cl_kd cl))) pk ch DIFFICULTY =
      Some (Some (Inr (found_proof (e_sha256 env) pk ch DIFFICULTY k s)))"
    and v: "pow_validate (pow_calculate (e_sha256 env) pk ch k) DIFFICULTY = Some True"
    and s: "signer_sign (am_signer (kd_auth (cl_kd cl))) (pow_calculate (e_sha256 env) pk ch k) = Some s"
    using pow_prove_finds[OF sha d hit total] by blast
  obtain cl' where send: "rpc_send (server_transport env src) boot
      (\<lambda>i. HandShake \<lparr>env_id = i, env_payload = RequestChallange (host_id (cl_kd cl))\<rparr>) cl = (Inr (Challange ch DIFFICULTY), cl')"
    and cl': "cl_kd cl' = cl_kd cl" "cl_conns cl' = (cl_conns cl)(node_addr boot \<mapsto> client_end cl boot)"
      "pl_salts (cl_net cl') = tl (pl_salts (cl_net cl))" "pl_server (cl_net cl') = pl_server (rotate_salt (cl_net cl))"
      "pl_conn (cl_net cl') = server_end cl boot"
    by (rule send_answered[where env = env and src = src and target = boot and make_packet = "\<lambda>i. HandShake \<lparr>env_id = i, env_payload = RequestChallange (host_id (cl_kd cl))\<rparr>" and cl = cl
        and c = "server_end cl boot" and server = "pl_server (rotate_salt (cl_net cl))" and x = "Challange ch DIFFICULTY"])
      (use up pk(2) in \<open>simp_all add: handle_request_challange_def kd_reply_def reply from_socket_def ch\<close>)
  show thesis
    by (rule that[OF _ v s cl'(1) _ cl'(3-5)]) (simp_all add: request_challange_def rpc_handshake_def send same pk(1)[symmetric] p cl')
qed

lemma submit_challange_answered:
  assumes sg: "signs (e_verify env) (am_signer (kd_auth (cl_kd cl)))" and reply: "\<forall>n. e_can_reply env n"
    and server: "\<forall>m. signer_sign (am_signer am) m \<noteq> None" "signs (e_verify env) (am_signer am)"
    and pk: "pk = signer_pub_key (am_signer (kd_auth (cl_kd cl)))" "pub_key (host_id (cl_kd cl)) = pk"
    and cert: "certified env am (kd_pgp_keys (cl_kd cl))"
    and link: "pl_salts (cl_net cl) = []" "kd_auth (pl_server (cl_net cl)) = am"
    and open_conn: "cl_conns cl (node_addr boot) = Some own" "\<not> conn_closed (pl_conn (cl_net cl))"
    and ch: "ch = am_challange (e_sha256 env) am pk (addr_ip src)"
    and v: "pow_validate (pow_calculate (e_sha256 env) pk ch k) DIFFICULTY = Some True"
    and s: "signer_sign (am_signer (kd_auth (cl_kd cl))) (pow_calculate (e_sha256 env) pk ch k) = Some s"
    and clock: "unat (e_now env) + 1800 < 2 ^ 64" "unat later \<le> unat (e_now env) + 1800"
  obtains t cl' where "submit_challange (server_transport env src) (env\<lparr>e_now := later\<rparr>) boot
       (found_proof (e_sha256 env) pk ch DIFFICULTY k s) cl =
       (Inr (from_socket (Key_new (e_sha256 env) (signer_pub_key (am_signer am))) (node_addr boot)), cl')"
    and "best_token later (kd_auth (cl_kd cl')) = Some t" and "verify_for (e_sha256 env) (e_verify env) later t pk"
    and "verify_pgp (e_pgp env) t (kd_pgp_keys (cl_kd cl'))"
    and "cl_conns cl' (node_addr boot) =
       Some (own\<lparr>conn_inbound := Some (Key_new (e_sha256 env) (signer_pub_key (am_signer am))), conn_outbound := True\<rparr>)"
    and "conn_inbound (pl_conn (cl_net cl')) = Some (Key_new (e_sha256 env) pk)"
proof -
  let ?secret = "found_proof (e_sha256 env) pk ch DIFFICULTY k s"
  let ?host = "host_id (cl_kd cl)"
  have pow: "pow_verify (e_sha256 env) (e_verify env) ?secret (pub_key (node_id (from_socket ?host src))) = Some True"
    using v s sg pk by (simp add: pow_verify_def from_socket_def Let_def signs_def)
  obtain t where t: "issue_token (e_sha256 env) (e_verify env) (e_ed_verify env) (e_pgp env) (e_manifest env) (e_now env) am
        (from_socket ?host src) ?secret BQTI_VERSION = Some (Inr t)"
    and tv: "verify_pgp (e_pgp env) t (kd_pgp_keys (cl_kd cl))" "tk_issuer t = signer_pub_key (am_signer am)" "tk_peer t = pk"
    using certified_token[OF pow _ server(1) cert, where now = "e_now env" and ver = BQTI_VERSION] pk
    by (auto simp: from_socket_def)
  obtain t0 where t0: "token_sign (e_sha256 env) (e_now env) (am_signer am) t0 = Inr t" using issue_token_signed(2)[OF t] by blast
  have valid: "token_verify (e_sha256 env) (e_verify env) later t"
    using signed_token_valid[OF t0 server(2) clock(1), of later] clock(2) by (simp add: word_le_nat_alt unat_expiry[OF clock(1)])
  define c where "c = set_inbound_auth (e_sha256 env) (pl_conn (cl_net cl)) t"
  obtain cl1 where send: "rpc_send (server_transport env src) boot
      (\<lambda>i. HandShake \<lparr>env_id = i, env_payload = SubmitChallange ?host (pow_value ?secret) k s None BQTI_VERSION\<rparr>) cl = (Inr (Welcome t), cl1)"
    and cl1: "cl_kd cl1 = cl_kd cl" "cl_conns cl1 = (cl_conns cl)(node_addr boot \<mapsto> own)" "pl_conn (cl_net cl1) = c"
    by (rule send_answered[where env = env and src = src and target = boot and make_packet = "\<lambda>i. HandShake \<lparr>env_id = i, env_payload = SubmitChallange ?host (pow_value ?secret) k s None BQTI_VERSION\<rparr>"
        and cl = cl and c = c and server = "pl_server (cl_net cl)" and x = "Welcome t"])
      (use t link open_conn reply pk in \<open>simp_all add: server_end_def client_end_def handle_submit_challange_def kd_reply_def
        then_connection_def from_socket_def Let_def ch c_def set_inbound_auth_def\<close>)
  have "best_token later (store_token a t) = Some t" for a :: "'b auth_manager"
    using valid by (simp add: best_token_def store_token_def token_verify_def split: if_splits)
  then show thesis
    using valid tv pk(2)
    by (intro that[where t = t], simp add: submit_challange_def Let_def rpc_handshake_def send[simplified] verify_for_def cl1)
      (simp_all add: verify_for_def with_connection_def set_inbound_peer_def set_outbound_authenticated_def cl1
        c_def set_inbound_auth_def token_sender_def)
qed

text \<open>Joining never returns the error that stands after its loop: the last attempt returns
  whatever error it met.\<close>

lemma rpc_send_error: "rpc_send transport target make_packet cl = (Inl e, cl') \<Longrightarrow> \<exists>r. e = KadRpc r"
  by (auto simp: rpc_send_def split: prod.splits) (metis map_sum.simps sum.exhaust sum.inject(1) sum.simps(4))

lemma attempts_not_bootstrap_failed:
  "request_challange transport env boot cl = Some (Inl e, cl') \<Longrightarrow> e \<noteq> BootstrapFailed"
  "submit_challange transport env boot secret cl = (Inl e, cl') \<Longrightarrow> e \<noteq> BootstrapFailed"
  by (auto simp: request_challange_def submit_challange_def rpc_handshake_def Let_def dest: rpc_send_error
      split: option.splits prod.splits sum.splits dht_response.splits if_splits)

lemma join_never_bootstrap_failed: "join_with_retry transport env boot cl \<noteq> Some (Inl BootstrapFailed, cl')"
proof -
  have "join_attempts (Suc left) transport env boot cl \<noteq> Some (Inl BootstrapFailed, cl')" for left cl
  proof (induction left arbitrary: cl)
    case 0
    then show ?case by (auto split: option.splits prod.splits sum.splits if_splits dest: attempts_not_bootstrap_failed)
  next
    case (Suc left)
    show ?case
      by (subst join_attempts.simps)
        (auto simp del: join_attempts.simps simp: Suc.IH split: option.splits prod.splits sum.splits dest: attempts_not_bootstrap_failed)
  qed
  then show ?thesis by (auto simp del: join_attempts.simps simp: join_with_retry_def MAX_RETRIES_def numeral_2_eq_2)
qed

subsection \<open>Authenticated requests\<close>

lemma acknowledge_host: "acknowledge fuel H ping rt n = Some rt' \<Longrightarrow> rt_host rt' = rt_host rt"
proof (induction fuel arbitrary: rt)
  case (Suc fuel)
  have "rt_host (snd (try_insert H rt n)) = rt_host rt" "rt_host (rt_replace H rt m) = rt_host rt" for rt m
    by (simp_all add: try_insert_def rt_replace_def Let_def split: prod.split option.split)
  then show ?case
    using Suc by (auto simp: acknowledge.simps(2) split: prod.splits insert_result.splits if_splits dest!: Suc.IH)
      (metis snd_conv)+
qed simp

lemma host_id_acknowledge [simp]: "host_id (kd_acknowledge env kd n) = host_id kd"
  by (auto simp: kd_acknowledge_def host_id_def dest: acknowledge_host split: option.split)

lemma authenticate_answered:
  assumes client: "honest env (cl_kd cl)" and tok: "best_token later (kd_auth (cl_kd cl)) = Some t" "tk_peer t = pub_key (host_id (cl_kd cl))"
    and valid: "token_verify (e_sha256 env) (e_verify env) (e_now env) t" "verify_pgp (e_pgp env) t (kd_pgp_keys (pl_server (cl_net cl)))"
    and target: "host_id (pl_server (cl_net cl)) = node_id target" and reply: "\<forall>n. e_can_reply env n"
    and salt: "pl_salts (cl_net cl) = []" and up: "\<not> conn_closed (server_end cl target)"
  obtains cl' where "authenticate (server_transport env src) (env\<lparr>e_now := later\<rparr>) target cl = (Inr (), cl')"
    and "cl_kd cl' = cl_kd cl" and "cl_conns cl' (node_addr target) = Some (set_outbound_authenticated (client_end cl target))"
    and "pl_server (cl_net cl') = pl_server (cl_net cl)" and "pl_salts (cl_net cl') = []"
    and "pl_conn (cl_net cl') = set_inbound_auth (e_sha256 env) (server_end cl target) t"
proof -
  define ch where "ch = am_challange (e_sha256 env) (kd_auth (pl_server (cl_net cl))) (tk_peer t) (addr_ip src)"
  define m where "m = token_hash (e_sha256 env) t @ to_be_bytes_u32 ch"
  obtain s where s: "signer_sign (am_signer (kd_auth (cl_kd cl))) m = Some s" using client by (auto simp: honest_def)
  then have v: "e_verify env (tk_peer t) m s" using client tok(2) by (simp add: honest_def signs_def Key_new_def)
  obtain cl1 where send1: "rpc_send (server_transport env src) target
      (\<lambda>i. HandShake \<lparr>env_id = i, env_payload = RequestHandshake (host_id (cl_kd cl))\<rparr>) cl = (Inr (HandshakeChallange ch), cl1)"
    and cl1: "cl_kd cl1 = cl_kd cl" "cl_conns cl1 = (cl_conns cl)(node_addr target \<mapsto> client_end cl target)"
      "pl_salts (cl_net cl1) = []" "pl_server (cl_net cl1) = pl_server (cl_net cl)" "pl_conn (cl_net cl1) = server_end cl target"
    by (rule send_answered[where env = env and src = src and target = target and make_packet = "\<lambda>i. HandShake \<lparr>env_id = i, env_payload = RequestHandshake (host_id (cl_kd cl))\<rparr>" and cl = cl
        and c = "server_end cl target" and server = "pl_server (cl_net cl)" and x = "HandshakeChallange ch"])
      (use up salt tok(2) in \<open>simp_all add: kd_reply_def reply from_socket_def ch_def\<close>)
  have ends: "server_end cl1 target = server_end cl target" "client_end cl1 target = client_end cl target"
    by (simp_all add: server_end_def client_end_def cl1)
  obtain cl2 where send2: "rpc_send (server_transport env src) target
      (\<lambda>i. HandShake \<lparr>env_id = i, env_payload = SubmitHandshake t s\<rparr>) cl1 = (Inr (Pong (node_id target)), cl2)"
    and cl2: "cl_kd cl2 = cl_kd cl" "cl_conns cl2 (node_addr target) = Some (client_end cl target)"
      "pl_salts (cl_net cl2) = []" "pl_server (cl_net cl2) = pl_server (cl_net cl)"
      "pl_conn (cl_net cl2) = set_inbound_auth (e_sha256 env) (server_end cl target) t"
    by (rule send_answered[where env = env and src = src and target = target and make_packet = "\<lambda>i. HandShake \<lparr>env_id = i, env_payload = SubmitHandshake t s\<rparr>" and cl = cl1
        and c = "set_inbound_auth (e_sha256 env) (server_end cl target) t" and server = "pl_server (cl_net cl)" and x = "Pong (node_id target)"])
      (use up valid v target in \<open>simp_all add: cl1 ends kd_reply_def reply handle_submit_handshake_def then_connection_def
        Let_def m_def ch_def set_inbound_auth_def\<close>)
  have "authenticate (server_transport env src) (env\<lparr>e_now := later\<rparr>) target cl =
      (Inr (), with_connection (node_addr target) set_outbound_authenticated cl2)"
    by (simp add: authenticate_def Let_def tok(1) rpc_handshake_def send1 cl1(1) m_def[symmetric] s send2)
  then show thesis by (rule that) (simp_all add: with_connection_def cl2)
qed

subsection \<open>A small network\<close>

definition sample_node :: "(bytes \<Rightarrow> bytes) \<Rightarrow> bytes \<Rightarrow> (nat, nat) kademlia" where
  "sample_node H pk = \<lparr>kd_auth = sample_manager\<lparr>am_signer := \<lparr>signer_pub_key = pk, signer_sign = Some\<rparr>, am_pgp_details := Some ([5], 3)\<rparr>,
     kd_pgp_keys = [[5] \<mapsto> 3], kd_store = DHTStore_new, kd_routes = RouteTable_new (from_socket (Key_new H pk) (SocketV4 9 9))\<rparr>"

definition sample_client :: "(bytes \<Rightarrow> bytes) \<Rightarrow> bytes list \<Rightarrow> (nat, nat, (nat, nat) peer_link) dht_client" where
  "sample_client H salts = \<lparr>cl_kd = sample_node H [1], cl_conns = Map.empty,
     cl_net = \<lparr>pl_rpc = RpcHandler_new, pl_server = sample_node H [7], pl_conn = Connection_new, pl_salts = salts\<rparr>\<rparr>"

lemma sample_client_simps [simp]:
  "cl_kd (sample_client H salts) = sample_node H [1]" "cl_conns (sample_client H salts) = Map.empty"
  "pl_server (cl_net (sample_client H salts)) = sample_node H [7]" "pl_salts (cl_net (sample_client H salts)) = salts"
  by (simp_all add: sample_client_def)

lemma sample_node_simps [simp]:
  "host_id (sample_node H pk) = Key_new H pk" "kd_pgp_keys (sample_node H pk) = [[5] \<mapsto> 3]"
  by (simp_all add: sample_node_def host_id_def RouteTable_new_def from_socket_def)

lemma sample_honest: "honest (sample_env\<lparr>e_sha256 := H\<rparr>) (sample_node H pk)"
  by (simp add: honest_def signs_def sample_env_def) (simp add: sample_node_def)

lemma sample_certified: "certified sample_env (kd_auth (sample_node H pk)) [[5] \<mapsto> 3]"
  by (simp add: certified_def sample_node_def sample_env_def sample_pgp_def verify_pgp_def bind_swarm_def)

subsection \<open>Properties\<close>

text \<open>C11: a node whose key can be found a nonce for joins at an honest bootstrap node whose swarm it
  knows, in its first attempt. Both nodes hold keys that sign what verifies, the bootstrap node can
  reply and does not change its salt between the challenge and the answer, the connection is a
  new one, and the joining node reads the token before it expires, thirty minutes after its issue on the
  bootstrap node's clock. The node then holds a token that is valid for its key and passes the swarm
  check, takes the connection for authenticated and the far end for the issuer of the token, and
  the bootstrap node takes the connection for the joining node.\<close>

theorem honest_join_succeeds:
  assumes sha: "\<forall>m. length (e_sha256 env m) = 32" and reply: "\<forall>n. e_can_reply env n"
    and client: "honest env (cl_kd cl)" and server: "honest env (pl_server (cl_net cl))"
    and cert: "certified env (kd_auth (pl_server (cl_net cl))) (kd_pgp_keys (cl_kd cl))"
    and salt: "pl_salts (cl_net cl) = []" and new: "cl_conns cl (node_addr boot) = None"
    and hit: "leading_zeros (pow_calculate (e_sha256 env) (pub_key (host_id (cl_kd cl)))
        (am_challange (e_sha256 env) (kd_auth (pl_server (cl_net cl))) (pub_key (host_id (cl_kd cl))) (addr_ip src)) nonce) 24"
    and clock: "unat (e_now env) + 1800 < 2 ^ 64" "unat later \<le> unat (e_now env) + 1800"
  shows "\<exists>t cl' c. join_with_retry (server_transport env src) (env\<lparr>e_now := later\<rparr>) boot cl =
       Some (Inr (from_socket (host_id (pl_server (cl_net cl))) (node_addr boot)), cl') \<and>
     join_attempts 1 (server_transport env src) (env\<lparr>e_now := later\<rparr>) boot cl =
       Some (Inr (from_socket (host_id (pl_server (cl_net cl))) (node_addr boot)), cl') \<and>
     best_token later (kd_auth (cl_kd cl')) = Some t \<and>
     verify_for (e_sha256 env) (e_verify env) later t (pub_key (host_id (cl_kd cl))) \<and>
     verify_pgp (e_pgp env) t (kd_pgp_keys (cl_kd cl')) \<and>
     cl_conns cl' (node_addr boot) = Some c \<and> conn_outbound c \<and> conn_inbound c = Some (host_id (pl_server (cl_net cl))) \<and>
     conn_inbound (pl_conn (cl_net cl')) = Some (host_id (cl_kd cl))"
proof -
  define pk where "pk = signer_pub_key (am_signer (kd_auth (cl_kd cl)))"
  define am where "am = kd_auth (pl_server (cl_net cl))"
  define ch where "ch = am_challange (e_sha256 env) am pk (addr_ip src)"
  have host: "host_id (cl_kd cl) = Key_new (e_sha256 env) pk" "pub_key (host_id (cl_kd cl)) = pk"
    "host_id (pl_server (cl_net cl)) = Key_new (e_sha256 env) (signer_pub_key (am_signer am))"
    using client server by (simp_all add: honest_def pk_def am_def Key_new_def)
  have up: "\<not> conn_closed (server_end cl boot)" using new by (simp add: server_end_def Connection_new_def)
  obtain k s cl1 where rc: "request_challange (server_transport env src) (env\<lparr>e_now := later\<rparr>) boot cl =
      Some (Inr (found_proof (e_sha256 env) pk ch DIFFICULTY k s), cl1)"
    and v: "pow_validate (pow_calculate (e_sha256 env) pk ch k) DIFFICULTY = Some True"
    and s: "signer_sign (am_signer (kd_auth (cl_kd cl))) (pow_calculate (e_sha256 env) pk ch k) = Some s"
    and cl1: "cl_kd cl1 = cl_kd cl" "cl_conns cl1 (node_addr boot) = Some (client_end cl boot)"
      "pl_salts (cl_net cl1) = []" "pl_server (cl_net cl1) = pl_server (cl_net cl)" "pl_conn (cl_net cl1) = server_end cl boot"
    using request_challange_answered[where env = env and cl = cl and cenv = "env\<lparr>e_now := later\<rparr>" and boot = boot and pk = pk
        and ch = ch and src = src and nonce = nonce]
      sha client reply up salt hit host by (auto simp: honest_def pk_def am_def ch_def DIFFICULTY_def)
  obtain t cl' where "submit_challange (server_transport env src) (env\<lparr>e_now := later\<rparr>) boot
       (found_proof (e_sha256 env) pk ch DIFFICULTY k s) cl1 =
       (Inr (from_socket (Key_new (e_sha256 env) (signer_pub_key (am_signer am))) (node_addr boot)), cl')"
    and "best_token later (kd_auth (cl_kd cl')) = Some t" "verify_for (e_sha256 env) (e_verify env) later t pk"
      "verify_pgp (e_pgp env) t (kd_pgp_keys (cl_kd cl'))"
      "cl_conns cl' (node_addr boot) = Some ((client_end cl boot)\<lparr>conn_inbound :=
         Some (Key_new (e_sha256 env) (signer_pub_key (am_signer am))), conn_outbound := True\<rparr>)"
      "conn_inbound (pl_conn (cl_net cl')) = Some (Key_new (e_sha256 env) pk)"
  proof (rule submit_challange_answered[where env = env and cl = cl1 and am = am and pk = pk and boot = boot and src = src and k = k
        and s = s and later = later and ch = ch and own = "client_end cl boot"])
  qed (use client server reply cert up v s clock host cl1 in \<open>simp_all add: honest_def am_def ch_def pk_def\<close>)
  then show ?thesis by (simp add: join_with_retry_def MAX_RETRIES_def numeral_2_eq_2 rc host)
qed

theorem honest_join_succeeds_witness:
  "\<exists>t cl'. join_with_retry (server_transport sample_env (SocketV4 5 5)) (sample_env\<lparr>e_now := 1700\<rparr>)
       (from_socket (Key_new id []) (SocketV4 9 9)) (sample_client (e_sha256 sample_env) []) =
       Some (Inr (from_socket (Key_new (e_sha256 sample_env) [7]) (SocketV4 9 9)), cl') \<and>
     best_token 1700 (kd_auth (cl_kd cl')) = Some t \<and> tk_peer t = [1] \<and>
     conn_inbound (pl_conn (cl_net cl')) = Some (Key_new (e_sha256 sample_env) [1])"
  using honest_join_succeeds[of sample_env "sample_client (e_sha256 sample_env) []" "from_socket (Key_new id []) (SocketV4 9 9)"
      "SocketV4 5 5" 0 1700] sample_honest[of "e_sha256 sample_env"] sample_certified[of "e_sha256 sample_env" "[7]"]
  by (auto simp: sample_env_def leading_zeros_def id_bit_def pow_calculate_def from_socket_def Key_new_def verify_for_def split: if_splits)


text \<open>C26: a token earned at one node opens a connection to another node that knows the swarm. The
  client's best token is its own, the target finds it valid on its clock and passes its swarm
  check, the target can reply, does not change its salt between the challenge and the answer and has
  requests of the client left in its rate limit; the client knows the target by its key. Then a ping
  over a new connection authenticates first and is answered, the client then takes the connection
  for authenticated, and the target serves it as the node that earned the token.\<close>

theorem token_opens_connection:
  assumes client: "honest env (cl_kd cl)" and tok: "best_token later (kd_auth (cl_kd cl)) = Some t" "tk_peer t = pub_key (host_id (cl_kd cl))"
    and valid: "token_verify (e_sha256 env) (e_verify env) (e_now env) t" "verify_pgp (e_pgp env) t (kd_pgp_keys (pl_server (cl_net cl)))"
    and target: "host_id (pl_server (cl_net cl)) = node_id target" and reply: "\<forall>n. e_can_reply env n"
    and salt: "pl_salts (cl_net cl) = []" and new: "cl_conns cl (node_addr target) = None"
    and rate: "fst (check_rate (e_now env) (kd_auth (pl_server (cl_net cl))) (host_id (cl_kd cl))) = Inr ()"
  shows "\<exists>cl' c. kd_ping (server_transport env src) (env\<lparr>e_now := later\<rparr>) target cl = (Inr (), cl') \<and>
     cl_conns cl' (node_addr target) = Some c \<and> conn_outbound c \<and>
     conn_inbound (pl_conn (cl_net cl')) = Some (host_id (cl_kd cl))"
proof -
  have sender: "token_sender (e_sha256 env) t = host_id (cl_kd cl)"
    using client tok(2) by (simp add: honest_def token_sender_def Key_new_def)
  have up: "\<not> conn_closed (server_end cl target)" using new by (simp add: server_end_def Connection_new_def)
  obtain cl1 where auth: "authenticate (server_transport env src) (env\<lparr>e_now := later\<rparr>) target cl = (Inr (), cl1)"
    and cl1: "cl_conns cl1 (node_addr target) = Some (set_outbound_authenticated (client_end cl target))"
      "pl_server (cl_net cl1) = pl_server (cl_net cl)" "pl_salts (cl_net cl1) = []"
      "pl_conn (cl_net cl1) = set_inbound_auth (e_sha256 env) (server_end cl target) t"
    by (rule authenticate_answered[OF client tok valid target reply salt up])
  obtain am where checked: "check_rate (e_now env) (kd_auth (pl_server (cl_net cl))) (host_id (cl_kd cl)) = (Inr (), am)"
    using rate by (cases "check_rate (e_now env) (kd_auth (pl_server (cl_net cl))) (host_id (cl_kd cl))") simp
  let ?c = "set_inbound_auth (e_sha256 env) (server_end cl target) t"
  obtain cl2 where send: "rpc_send (server_transport env src) target (\<lambda>i. RequestPacket \<lparr>env_id = i, env_payload = PingReq\<rparr>) cl1 =
      (Inr (Pong (node_id target)), cl2)"
    and cl2: "cl_conns cl2 = (cl_conns cl1)(node_addr target \<mapsto> client_end cl1 target)" "pl_conn (cl_net cl2) = ?c"
    by (rule send_answered[where env = env and src = src and target = target and cl = cl1 and c = ?c and x = "Pong (node_id target)"
        and make_packet = "\<lambda>i. RequestPacket \<lparr>env_id = i, env_payload = PingReq\<rparr>"
        and server = "kd_acknowledge env ((pl_server (cl_net cl))\<lparr>kd_auth := am\<rparr>) (from_socket (host_id (cl_kd cl)) src)"])
      (use up target sender in \<open>simp_all add: cl1 server_end_def set_inbound_auth_def checked handle_ping_def kd_reply_def reply Let_def,
        simp add: host_id_def\<close>)
  show ?thesis
    using auth send by (simp add: kd_ping_def auth_request_def rpc_request_def new cl2 cl1 client_end_def set_outbound_authenticated_def
        set_inbound_auth_def sender)
qed

definition sample_token :: token where
  "sample_token = \<lparr>tk_swarm_id = [5], tk_peer = [1], tk_pow = [], issued_at = 900, exp_at = 2700, tk_issuer = [8],
     issuer_ca_cert = [9], issuer_ca_cert_sig = [0, 0, 0], tk_trust_level = Unattested, tk_signature = Some (replicate 32 0)\<rparr>"

theorem token_opens_connection_witness:
  "\<exists>cl' c. kd_ping (server_transport sample_env (SocketV4 5 5)) (sample_env\<lparr>e_now := 1700\<rparr>)
       (from_socket (Key_new (e_sha256 sample_env) [7]) (SocketV4 9 9))
       ((sample_client (e_sha256 sample_env) [])\<lparr>cl_kd := (sample_node (e_sha256 sample_env) [1])
          \<lparr>kd_auth := store_token (kd_auth (sample_node (e_sha256 sample_env) [1])) sample_token\<rparr>\<rparr>) = (Inr (), cl') \<and>
     cl_conns cl' (SocketV4 9 9) = Some c \<and> conn_outbound c \<and>
     conn_inbound (pl_conn (cl_net cl')) = Some (Key_new (e_sha256 sample_env) [1])"
proof -
  let ?kd = "(sample_node (e_sha256 sample_env) [1])\<lparr>kd_auth := store_token (kd_auth (sample_node (e_sha256 sample_env) [1])) sample_token\<rparr>"
  have host: "host_id ?kd = Key_new (e_sha256 sample_env) [1]"
    using sample_node_simps(1)[of "e_sha256 sample_env" "[1]"] by (simp add: host_id_def del: sample_node_simps)
  have "honest sample_env ?kd"
    using sample_honest[of "e_sha256 sample_env" "[1]"] host by (simp add: honest_def store_token_def)
  moreover have "best_token 1700 (kd_auth ?kd) = Some sample_token" "token_verify (e_sha256 sample_env) (e_verify sample_env) (e_now sample_env) sample_token"
    by (simp_all add: best_token_def store_token_def sample_token_def token_is_expired_def token_verify_def sample_env_def calculate_hash_def)
  moreover have "verify_pgp (e_pgp sample_env) sample_token [[5] \<mapsto> 3]" "tk_peer sample_token = [1]"
    by (simp_all add: verify_pgp_def sample_token_def sample_env_def sample_pgp_def)
  moreover have "fst (check_rate (e_now sample_env) (kd_auth (sample_node (e_sha256 sample_env) [7])) k) = Inr ()" for k
    by (simp add: check_rate_def rate_check_def retain_windows_def sample_node_def sample_manager_def RateLimiter_new_def Let_def)
  moreover have "\<forall>n. e_can_reply sample_env n" by (simp add: sample_env_def)
  ultimately show ?thesis
    using token_opens_connection[of sample_env "(sample_client (e_sha256 sample_env) [])\<lparr>cl_kd := ?kd\<rparr>" 1700 sample_token
        "from_socket (Key_new (e_sha256 sample_env) [7]) (SocketV4 9 9)" "SocketV4 5 5"] host
    by (simp add: from_socket_def Key_new_def)
qed


text \<open>When the bootstrap node changes its salt between the challenge and the answer, joining
  fails after the first attempt although the code means to try again: the node refuses the stale
  proof without a reply, so the client sees a time-out and not the error it would retry on.\<close>

lemma salt_rotation_ends_join:
  assumes sha: "\<forall>m. length (e_sha256 env m) = 32" and reply: "\<forall>n. e_can_reply env n" and client: "honest env (cl_kd cl)"
    and salts: "pl_salts (cl_net cl) = old # new # rest" and fresh: "cl_conns cl (node_addr boot) = None"
    and hit: "leading_zeros (pow_calculate (e_sha256 env) (pub_key (host_id (cl_kd cl)))
        (calculate_challenge (e_sha256 env) (pub_key (host_id (cl_kd cl))) (addr_ip src) old) nonce) 24"
    and stale: "\<forall>k. pow_calculate (e_sha256 env) (pub_key (host_id (cl_kd cl)))
          (calculate_challenge (e_sha256 env) (pub_key (host_id (cl_kd cl))) (addr_ip src) old) k \<noteq>
        pow_calculate (e_sha256 env) (pub_key (host_id (cl_kd cl)))
          (calculate_challenge (e_sha256 env) (pub_key (host_id (cl_kd cl))) (addr_ip src) new) k"
  shows "\<exists>cl'. join_with_retry (server_transport env src) (env\<lparr>e_now := later\<rparr>) boot cl = Some (Inl (KadRpc RpcTimeout), cl') \<and>
     cl_kd cl' = cl_kd cl"
proof -
  define pk where "pk = signer_pub_key (am_signer (kd_auth (cl_kd cl)))"
  define ch where "ch = calculate_challenge (e_sha256 env) pk (addr_ip src) old"
  have host: "pub_key (host_id (cl_kd cl)) = pk" using client by (simp add: honest_def pk_def Key_new_def)
  have up: "\<not> conn_closed (server_end cl boot)" using fresh by (simp add: server_end_def Connection_new_def)
  have ch': "ch = am_challange (e_sha256 env) (kd_auth (pl_server (rotate_salt (cl_net cl)))) pk (addr_ip src)"
    by (simp add: ch_def am_challange_def rotate_salt_def salts refresh_salt_def)
  obtain k s cl1 where rc: "request_challange (server_transport env src) (env\<lparr>e_now := later\<rparr>) boot cl =
      Some (Inr (found_proof (e_sha256 env) pk ch DIFFICULTY k s), cl1)"
    and cl1: "cl_kd cl1 = cl_kd cl" "pl_salts (cl_net cl1) = new # rest" "pl_server (cl_net cl1) = pl_server (rotate_salt (cl_net cl))"
    by (rule request_challange_answered[where env = env and cl = cl and cenv = "env\<lparr>e_now := later\<rparr>" and boot = boot and pk = pk
        and ch = ch and src = src and nonce = nonce])
      (use sha client reply up hit host salts ch' in \<open>simp_all add: honest_def pk_def ch_def DIFFICULTY_def\<close>)
  let ?packet = "\<lambda>i. HandShake \<lparr>env_id = i,
     env_payload = SubmitChallange (host_id (cl_kd cl)) (pow_calculate (e_sha256 env) pk ch k) k s None BQTI_VERSION\<rparr>"
  have "am_challange (e_sha256 env) (kd_auth (pl_server (rotate_salt (cl_net cl1)))) pk (addr_ip src) =
      calculate_challenge (e_sha256 env) pk (addr_ip src) new"
    by (simp add: am_challange_def rotate_salt_def cl1 salts refresh_salt_def)
  then have "handle_packet env (pl_server (rotate_salt (cl_net cl1))) (server_end cl1 boot) (?packet (next_id (pl_rpc (cl_net cl1)))) src =
      Some (Inl (KadAuth RoguePeer), pl_server (rotate_salt (cl_net cl1)), server_end cl1 boot, [])"
    using stale[THEN spec, of k, THEN not_sym] host
    by (simp add: handle_submit_challange_def issue_token_def pow_verify_def from_socket_def Let_def ch_def)
  then obtain cl' where "rpc_send (server_transport env src) boot ?packet cl1 = (Inl (KadRpc RpcTimeout), cl')" "cl_kd cl' = cl_kd cl1"
    using send_refused[where cl = cl1 and target = boot and make_packet = ?packet and env = env and src = src] by blast
  then show ?thesis
    by (simp add: join_with_retry_def MAX_RETRIES_def numeral_2_eq_2 rc submit_challange_def rpc_handshake_def cl1)
qed

definition sample_sha :: "bytes \<Rightarrow> bytes" where
  "sample_sha m = (if length m = 9 then replicate 24 0 @ drop 1 m else take 32 (drop 5 m @ replicate 32 0))"

end
