(* ===== verification/Bencode.thy ===== *)
theory Bencode
  imports Bqti_Prelude
begin

text \<open>
  The serialised form of a torrent (\<open>bencode/codec.rs\<close>) and the address type it embeds
  (\<open>TorrentAddr\<close> of \<open>torrent/metainfo/mod.rs\<close>). A \<open>HashMap\<close> is the list of its entries in
  iteration order. Parsing a textual socket address is the parameter \<open>parse_socket\<close>, decoding
  UTF-8 the parameter \<open>from_utf8\<close>, printing a port the parameter \<open>show_port\<close>; the bencode
  library itself is a parameter of the theories that call it.
\<close>

unbundle bit_operations_syntax

text \<open>\<open>i64\<close> values are integers; these are the casts between them and \<open>u64\<close>.\<close>

definition as_u64 :: "int \<Rightarrow> u64" where
  "as_u64 i = word_of_int i"

definition as_i64 :: "u64 \<Rightarrow> int" where
  "as_i64 w = sint w"

datatype torrent_error =
    Hash20Error
  | Failed string
  | NotValid string
  | UnsupportedVersion u8
  | Unsupported string

subsection \<open>Addresses of bootstrap nodes\<close>

datatype torrent_addr = Ip sock_addr | I2P string

definition ends_with :: "string \<Rightarrow> string \<Rightarrow> bool" where
  "ends_with s suffix \<longleftrightarrow> length suffix \<le> length s \<and> drop (length s - length suffix) s = suffix"

definition is_i2p :: "string \<Rightarrow> bool" where
  "is_i2p s \<longleftrightarrow> ends_with s ''.i2p'' \<or> (100 < length s \<and> CHR '':'' \<notin> set s)"

definition addr_from_str :: "(string \<Rightarrow> sock_addr option) \<Rightarrow> string \<Rightarrow> torrent_error + torrent_addr" where
  "addr_from_str parse_socket s =
     (if is_i2p s then Inr (I2P s)
      else case parse_socket s of
             Some a \<Rightarrow> Inr (Ip a)
           | None \<Rightarrow> Inl (Failed (''failed to parse address: '' @ s)))"

definition from_raw_parts ::
  "(string \<Rightarrow> sock_addr option) \<Rightarrow> (u16 \<Rightarrow> string) \<Rightarrow> string \<Rightarrow> u16 \<Rightarrow> torrent_error + torrent_addr" where
  "from_raw_parts parse_socket show_port host port =
     (if is_i2p host then Inr (I2P host)
      else addr_from_str parse_socket (host @ '':'' @ show_port port))"

fun to_raw_parts :: "(ip_addr \<Rightarrow> string) \<Rightarrow> torrent_addr \<Rightarrow> string \<times> u16" where
  "to_raw_parts show_ip (Ip a) = (show_ip (addr_ip a), addr_port a)"
| "to_raw_parts show_ip (I2P dest) = (dest, 0)"

subsection \<open>The info dictionary\<close>

record file_info =
  fi_length :: int
  fi_path :: "string list"
  fi_md5sum :: "string option"

datatype bencode_mode = SingleFileMode int "string option" | MultiFileMode "file_info list"

record tree_entry =
  te_length :: int
  pieces_root :: "bytes option"

datatype tree_node = FileNode tree_entry | DirNode "(string \<times> tree_node) list"

record bencode_info =
  bi_name :: string
  bi_version :: "u8 option"
  bi_file_tree :: "(string \<times> tree_node) list option"
  bi_private :: "u8 option"
  bi_pieces :: bytes
  bi_piece_length :: int
  bi_length :: "int option"
  bi_md5sum :: "string option"
  bi_files :: "file_info list option"

definition BencodeInfo_v1 :: "string \<Rightarrow> u8 option \<Rightarrow> bytes \<Rightarrow> int \<Rightarrow> bencode_mode \<Rightarrow> bencode_info" where
  "BencodeInfo_v1 name priv pieces piece_length mode =
     (let (len, md5, files) =
            (case mode of
               SingleFileMode l m \<Rightarrow> (Some l, m, None)
             | MultiFileMode fs \<Rightarrow> (None, None, Some fs))
      in \<lparr>bi_name = name, bi_version = None, bi_file_tree = None, bi_private = priv,
          bi_pieces = pieces, bi_piece_length = piece_length, bi_length = len,
          bi_md5sum = md5, bi_files = files\<rparr>)"

definition info_is_private :: "bencode_info \<Rightarrow> bool" where
  "info_is_private i = (case bi_private i of Some v \<Rightarrow> v \<noteq> 0 | None \<Rightarrow> False)"

definition info_mode :: "bencode_info \<Rightarrow> bencode_mode option" where
  "info_mode i =
     (case (bi_length i, bi_md5sum i, bi_files i) of
        (Some l, Some m, None) \<Rightarrow> Some (SingleFileMode l (Some m))
      | (Some l, None, None) \<Rightarrow> Some (SingleFileMode l None)
      | (None, None, Some fs) \<Rightarrow> Some (MultiFileMode fs)
      | _ \<Rightarrow> None)"

subsection \<open>The torrent dictionary\<close>

datatype bvalue = BBytes bytes | BInt int | BList "bvalue list" | BDict "(bytes \<times> bvalue) list"

record bencode_torrent =
  bt_announce :: "string option"
  bt_info :: bencode_info
  bt_announce_list :: "string list list option"
  bt_creation_date :: "u64 option"
  bt_comment :: "string option"
  bt_created_by :: "string option"
  bt_url_list :: "string list option"
  bt_extra :: "(string \<times> bvalue) list"
  bt_piece_layers :: "(bytes \<times> bytes) list"
  bt_nodes :: "(string \<times> u16) list option"

definition bencode_dht_nodes ::
  "(string \<Rightarrow> sock_addr option) \<Rightarrow> (u16 \<Rightarrow> string) \<Rightarrow> bencode_torrent \<Rightarrow> torrent_addr list option" where
  "bencode_dht_nodes parse_socket show_port t =
     map_option (List.map_filter (\<lambda>(ip_str, port).
        case from_raw_parts parse_socket show_port ip_str port of Inr a \<Rightarrow> Some a | Inl _ \<Rightarrow> None))
       (bt_nodes t)"

definition bencode_web_seeds :: "(bytes \<Rightarrow> string option) \<Rightarrow> bencode_torrent \<Rightarrow> string list option" where
  "bencode_web_seeds from_utf8 t =
     (case bt_url_list t of
        None \<Rightarrow> None
      | Some seeds \<Rightarrow>
          if seeds = [] then None
          else case map_of (bt_extra t) ''httpseeds'' of
                 Some (BList httpseed) \<Rightarrow>
                   Some (seeds @ List.map_filter (\<lambda>seed. case seed of BBytes item \<Rightarrow> from_utf8 item | _ \<Rightarrow> None) httpseed)
               | _ \<Rightarrow> Some seeds)"

subsection \<open>Lemmas\<close>

lemma info_mode_v1 [simp]: "info_mode (BencodeInfo_v1 n p ps pl mode) = Some mode"
  by (cases mode) (auto simp: BencodeInfo_v1_def info_mode_def split: option.splits)

lemma BencodeInfo_v1_simps [simp]:
  "bi_name (BencodeInfo_v1 n p ps pl mode) = n" "bi_private (BencodeInfo_v1 n p ps pl mode) = p"
  "bi_pieces (BencodeInfo_v1 n p ps pl mode) = ps" "bi_piece_length (BencodeInfo_v1 n p ps pl mode) = pl"
  "bi_file_tree (BencodeInfo_v1 n p ps pl mode) = None" "bi_version (BencodeInfo_v1 n p ps pl mode) = None"
  by (auto simp: BencodeInfo_v1_def split: bencode_mode.splits)

lemma as_u64_as_i64 [simp]: "as_u64 (as_i64 w) = w"
  by (simp add: as_u64_def as_i64_def)

lemma addr_from_str_i2p: "is_i2p s \<Longrightarrow> addr_from_str p s = Inr (I2P s)"
  by (simp add: addr_from_str_def)

end
