(* ===== verification/Metainfo.thy ===== *)
theory Metainfo
  imports Bencode
begin

text \<open>
  Torrent metadata: \<open>torrent/metainfo/mod.rs\<close> and \<open>torrent/metainfo/v1.rs\<close>. Info hashes,
  piece lengths, version-one torrents with their validation and per-piece integrity check, and
  the two conversions from and to the serialised form. SHA-1 and SHA-256 and the hex codec are
  parameters. Sums of file sizes are \<open>u64\<close> and wrap, as in a release build.
\<close>

unbundle bit_operations_syntax

subsection \<open>Info hashes\<close>

datatype info_hash = InfoV1 bytes | InfoV2 bytes

fun info_hash_bytes :: "info_hash \<Rightarrow> bytes" where
  "info_hash_bytes (InfoV1 h) = h"
| "info_hash_bytes (InfoV2 h) = h"

definition info_hash_from_hex :: "(string \<Rightarrow> bytes option) \<Rightarrow> string \<Rightarrow> info_hash option" where
  "info_hash_from_hex hex_decode s =
     (if length s = 40
      then case hex_decode s of
             Some bs \<Rightarrow> if length bs = 20 then Some (InfoV1 bs) else None
           | None \<Rightarrow> None
      else if length s = 64
      then case hex_decode s of
             Some bs \<Rightarrow> if length bs = 32 then Some (InfoV2 bs) else None
           | None \<Rightarrow> None
      else None)"

definition info_hash_show :: "(bytes \<Rightarrow> string) \<Rightarrow> info_hash \<Rightarrow> string" where
  "info_hash_show hex_encode h = hex_encode (info_hash_bytes h)"

definition info_hash_try_from :: "bytes \<Rightarrow> string + info_hash" where
  "info_hash_try_from value =
     (if length value = 20 then Inr (InfoV1 value)
      else if length value = 32 then Inr (InfoV2 value)
      else Inl ''Invalid InfoHash length'')"

definition InfoHashV1_new :: "(bytes \<Rightarrow> bytes) \<Rightarrow> bytes \<Rightarrow> info_hash" where
  "InfoHashV1_new sha1 bs = InfoV1 (sha1 bs)"

definition InfoHashV2_new :: "(bytes \<Rightarrow> bytes) \<Rightarrow> bytes \<Rightarrow> info_hash" where
  "InfoHashV2_new sha256 bs = InfoV2 (sha256 bs)"

definition info_hash_wf :: "info_hash \<Rightarrow> bool" where
  "info_hash_wf h = (case h of InfoV1 b \<Rightarrow> length b = 20 | InfoV2 b \<Rightarrow> length b = 32)"

subsection \<open>Piece lengths\<close>

definition piece_length_validate :: "u64 \<Rightarrow> torrent_error + unit" where
  "piece_length_validate pl =
     (if pl < 16 * 1024 \<or> 128 * 1024 * 1024 < pl then Inl (NotValid ''invalid piece length'')
      else if pl AND (pl - 1) \<noteq> 0 then Inl (NotValid ''piece of length must be to the power of 2'')
      else Inr ())"

definition piece_length_from :: "int \<Rightarrow> u64" where
  "piece_length_from i = as_u64 i"

subsection \<open>Version one\<close>

record embeded_file =
  ef_length :: int
  ef_path :: "string list"
  ef_md5sum :: "string option"

definition embeded_from :: "file_info \<Rightarrow> embeded_file" where
  "embeded_from f = \<lparr>ef_length = fi_length f, ef_path = fi_path f, ef_md5sum = fi_md5sum f\<rparr>"

definition file_info_from :: "embeded_file \<Rightarrow> file_info" where
  "file_info_from f = \<lparr>fi_length = ef_length f, fi_path = ef_path f, fi_md5sum = ef_md5sum f\<rparr>"

datatype v1_mode = SingleFile embeded_file | MultiFile "embeded_file list"

fun from_bencode_mode :: "bencode_mode \<Rightarrow> string \<Rightarrow> v1_mode" where
  "from_bencode_mode (SingleFileMode l m) name = SingleFile \<lparr>ef_length = l, ef_path = [name], ef_md5sum = m\<rparr>"
| "from_bencode_mode (MultiFileMode fs) name = MultiFile (map embeded_from fs)"

fun bencode_mode_from :: "v1_mode \<Rightarrow> bencode_mode" where
  "bencode_mode_from (SingleFile f) = SingleFileMode (ef_length f) (ef_md5sum f)"
| "bencode_mode_from (MultiFile fs) = MultiFileMode (map file_info_from fs)"

record torrent_common =
  tc_info_hash :: info_hash
  tc_name :: string
  tc_announce :: "string option"
  tc_announce_list :: "string list list option"
  tc_piece_length :: u64
  tc_creation_date :: "u64 option"
  tc_comment :: "string option"
  tc_created_by :: "string option"
  tc_web_seeds :: "string list option"
  tc_dht_nodes :: "torrent_addr list option"

record torrent_v1 =
  v1_info :: torrent_common
  v1_private :: bool
  v1_pieces :: bytes
  v1_mode_of :: v1_mode

definition common_from ::
  "(string \<Rightarrow> sock_addr option) \<Rightarrow> (u16 \<Rightarrow> string) \<Rightarrow> (bytes \<Rightarrow> string option) \<Rightarrow> bencode_torrent \<Rightarrow> info_hash \<Rightarrow> torrent_common" where
  "common_from parse_socket show_port from_utf8 t ih =
     \<lparr>tc_info_hash = ih, tc_name = bi_name (bt_info t), tc_announce = bt_announce t,
      tc_announce_list = bt_announce_list t,
      tc_piece_length = piece_length_from (bi_piece_length (bt_info t)),
      tc_creation_date = bt_creation_date t, tc_comment = bt_comment t,
      tc_created_by = bt_created_by t, tc_web_seeds = bencode_web_seeds from_utf8 t,
      tc_dht_nodes = bencode_dht_nodes parse_socket show_port t\<rparr>"

definition v1_from_bencode ::
  "(string \<Rightarrow> sock_addr option) \<Rightarrow> (u16 \<Rightarrow> string) \<Rightarrow> (bytes \<Rightarrow> string option) \<Rightarrow> bencode_torrent \<Rightarrow> info_hash
     \<Rightarrow> torrent_error + torrent_v1" where
  "v1_from_bencode parse_socket show_port from_utf8 t ih =
     (case info_mode (bt_info t) of
        None \<Rightarrow> Inl (NotValid ''Unable to determine file mode'')
      | Some mode \<Rightarrow>
          Inr \<lparr>v1_info = common_from parse_socket show_port from_utf8 t ih,
               v1_private = (case bi_private (bt_info t) of Some v \<Rightarrow> v = 1 | None \<Rightarrow> False),
               v1_pieces = bi_pieces (bt_info t),
               v1_mode_of = from_bencode_mode mode (bi_name (bt_info t))\<rparr>)"

fun mode_files :: "v1_mode \<Rightarrow> embeded_file list" where
  "mode_files (SingleFile f) = [f]"
| "mode_files (MultiFile fs) = fs"

definition v1_total_size :: "torrent_v1 \<Rightarrow> u64" where
  "v1_total_size t =
     (case v1_mode_of t of
        SingleFile f \<Rightarrow> as_u64 (ef_length f)
      | MultiFile fs \<Rightarrow> foldl (\<lambda>acc f. acc + as_u64 (ef_length f)) 0 fs)"

definition v1_piece_hashes :: "torrent_v1 \<Rightarrow> bytes list" where
  "v1_piece_hashes t = chunks_exact 20 (v1_pieces t)"

definition v1_verify_hash :: "(bytes \<Rightarrow> bytes) \<Rightarrow> torrent_v1 \<Rightarrow> u32 \<Rightarrow> bytes \<Rightarrow> torrent_error + unit" where
  "v1_verify_hash sha1 t index data =
     (let hashes = v1_piece_hashes t
      in if unat index < length hashes
         then if sha1 data \<noteq> hashes ! unat index then Inl (NotValid ''hash mismatch'') else Inr ()
         else Inl (NotValid ''no hash for piece''))"

definition v1_validate :: "torrent_v1 \<Rightarrow> torrent_error + unit" where
  "v1_validate t =
     (let total_size = v1_total_size t; pl = tc_piece_length (v1_info t)
      in case piece_length_validate pl of
           Inl e \<Rightarrow> Inl e
         | Inr _ \<Rightarrow>
             let expected_pieces = (total_size + pl - 1) div pl
             in if length (v1_pieces t) mod 20 \<noteq> 0 then Inl (NotValid ''the pieces exceed 20 bytes'')
                else let actual_hashes = (word_of_nat (length (v1_pieces t) div 20) :: u64)
                     in if expected_pieces \<noteq> actual_hashes then Inl (NotValid ''mismatch'')
                        else if total_size = 0 then Inl (NotValid ''empty torrent'')
                        else Inr ())"

subsection \<open>Powers of two\<close>

lemma and_pred_eq_0_nat: "0 < n \<Longrightarrow> n AND (n - 1) = 0 \<longleftrightarrow> (\<exists>k. n = 2 ^ k)" for n :: nat
proof (induction n rule: less_induct)
  case (less n)
  show ?case
  proof (cases "even n")
    case True
    then obtain m where m: "n = 2 * m" by (elim evenE)
    then have pos: "0 < m" using less.prems by simp
    have "(2 * m - Suc 0) div 2 = m - Suc 0" by linarith
    then have "n AND (n - 1) = 2 * (m AND (m - 1))"
      using m pos by (subst and_rec) simp
    moreover have "(\<exists>k. n = 2 ^ k) \<longleftrightarrow> (\<exists>k. m = 2 ^ k)"
    proof
      assume "\<exists>k. n = 2 ^ k"
      then obtain k where "n = 2 ^ k" by blast
      then show "\<exists>k. m = 2 ^ k" using m True by (cases k) auto
    next
      assume "\<exists>k. m = 2 ^ k"
      then show "\<exists>k. n = 2 ^ k" using m by (metis power_Suc)
    qed
    ultimately show ?thesis using less.IH[of m] m pos by simp
  next
    case False
    then obtain m where m: "n = 2 * m + 1" by (elim oddE)
    then have "n AND (n - 1) = 2 * m" by (subst and_rec) simp
    moreover have "(\<exists>k. n = 2 ^ k) \<longleftrightarrow> m = 0"
    proof
      assume "\<exists>k. n = 2 ^ k"
      then obtain k where "n = 2 ^ k" by blast
      then show "m = 0" using m False by (cases k) auto
    next
      assume "m = 0"
      then show "\<exists>k. n = 2 ^ k" using m by (intro exI[of _ 0]) simp
    qed
    ultimately show ?thesis by simp
  qed
qed

lemma and_pred_eq_0_word:
  fixes w :: "'a::len word"
  assumes "w \<noteq> 0"
  shows "w AND (w - 1) = 0 \<longleftrightarrow> (\<exists>k. unat w = 2 ^ k)"
proof -
  have "unat (w AND (w - 1)) = unat w AND (unat w - 1)"
    using assms by (simp add: unsigned_and_eq unat_minus_one)
  moreover have "0 < unat w" using assms by (simp add: unat_gt_0)
  ultimately show ?thesis
    using and_pred_eq_0_nat[of "unat w"] by (simp add: word_unat_eq_iff)
qed

lemma piece_length_valid_nat:
  "piece_length_validate pl = Inr () \<longleftrightarrow> (\<exists>k. 14 \<le> k \<and> k \<le> 27 \<and> unat pl = 2 ^ k)"
proof -
  have range: "\<not> (pl < 16 * 1024 \<or> 128 * 1024 * 1024 < pl) \<longleftrightarrow> 2 ^ 14 \<le> unat pl \<and> unat pl \<le> 2 ^ 27"
    by (auto simp: word_less_nat_alt not_less)
  have pow: "(\<exists>k. unat pl = 2 ^ k) \<and> 2 ^ 14 \<le> unat pl \<and> unat pl \<le> 2 ^ 27 \<longleftrightarrow>
      (\<exists>k. 14 \<le> k \<and> k \<le> 27 \<and> unat pl = 2 ^ k)"
    by (metis power_increasing_iff one_less_numeral_iff semiring_norm(76))
  show ?thesis
  proof (cases "pl = 0")
    case True
    then show ?thesis by (auto simp: piece_length_validate_def)
  next
    case False
    then show ?thesis
      using range pow and_pred_eq_0_word[OF False] by (auto simp: piece_length_validate_def)
  qed
qed

subsection \<open>Sizes\<close>

definition sizes_sane :: "torrent_v1 \<Rightarrow> bool" where
  "sizes_sane t \<longleftrightarrow> (\<forall>f\<in>set (mode_files (v1_mode_of t)). 0 \<le> ef_length f)
     \<and> nat (sum_list (map ef_length (mode_files (v1_mode_of t)))) + 2 ^ 27 < 2 ^ 64
     \<and> length (v1_pieces t) < 2 ^ 64"

definition content_length :: "torrent_v1 \<Rightarrow> nat" where
  "content_length t = nat (sum_list (map ef_length (mode_files (v1_mode_of t))))"

lemma foldl_as_u64: "foldl (\<lambda>acc f. acc + as_u64 (ef_length f)) (as_u64 a) fs = as_u64 (a + sum_list (map ef_length fs))"
proof (induction fs arbitrary: a)
  case Nil
  then show ?case by simp
next
  case (Cons f fs)
  have "as_u64 a + as_u64 (ef_length f) = as_u64 (a + ef_length f)"
    by (simp add: as_u64_def)
  then show ?case using Cons[of "a + ef_length f"] by (simp add: add.assoc)
qed

lemma v1_total_size_int: "v1_total_size t = as_u64 (sum_list (map ef_length (mode_files (v1_mode_of t))))"
proof (cases "v1_mode_of t")
  case (MultiFile fs)
  then show ?thesis
    using foldl_as_u64[of 0 fs] by (simp add: v1_total_size_def as_u64_def)
qed (simp add: v1_total_size_def)

lemma unat_total_size:
  assumes "sizes_sane t"
  shows "unat (v1_total_size t) = content_length t"
proof -
  let ?s = "sum_list (map ef_length (mode_files (v1_mode_of t)))"
  have "0 \<le> ?s" using assms by (intro sum_list_nonneg) (auto simp: sizes_sane_def)
  moreover have "?s < 2 ^ 64" using assms calculation by (auto simp: sizes_sane_def)
  ultimately show ?thesis
    by (simp add: v1_total_size_int as_u64_def content_length_def unsigned_of_int take_bit_int_eq_self)
qed

lemma expected_pieces_nat:
  fixes total pl :: u64
  assumes "unat total + 2 ^ 27 < 2 ^ 64" and "0 < unat pl" and "unat pl \<le> 2 ^ 27"
  shows "unat ((total + pl - 1) div pl) = (unat total + unat pl - 1) div unat pl"
proof -
  have fit: "unat total + unat pl < 2 ^ 64" using assms by simp
  then have sum: "unat (total + pl) = unat total + unat pl"
    by (simp add: unat_add_lem[where 'a=64, simplified])
  then have "total + pl \<noteq> 0" using assms(2) by (metis add_is_0 unat_0 not_gr_zero)
  then have "unat (total + pl - 1) = unat total + unat pl - 1" using sum by (simp add: unat_minus_one)
  then show ?thesis by (simp add: unat_div_distrib)
qed

lemma piece_length_valid_bounds:
  assumes "piece_length_validate pl = Inr ()"
  shows "0 < unat pl" and "unat pl \<le> 2 ^ 27" and "2 ^ 14 \<le> unat pl"
proof -
  obtain k where k: "k \<le> 27" "unat pl = 2 ^ k" "14 \<le> k" using assms piece_length_valid_nat by blast
  show "0 < unat pl" using k(2) by simp
  show "unat pl \<le> 2 ^ 27" unfolding k(2) by (rule power_increasing[OF k(1)]) simp
  show "2 ^ 14 \<le> unat pl" unfolding k(2) by (rule power_increasing[OF k(3)]) simp
qed

lemma v1_validate_cases:
  assumes sane: "sizes_sane t"
  shows "v1_validate t = Inr () \<longleftrightarrow>
     piece_length_validate (tc_piece_length (v1_info t)) = Inr () \<and> 0 < content_length t \<and>
     length (v1_pieces t) = 20 * ((content_length t + unat (tc_piece_length (v1_info t)) - 1)
                                     div unat (tc_piece_length (v1_info t)))"
    (is "?lhs \<longleftrightarrow> ?valid \<and> ?pos \<and> ?len")
proof (cases "?valid")
  case False
  then show ?thesis by (auto simp: v1_validate_def Let_def split: sum.splits)
next
  case True
  let ?pl = "tc_piece_length (v1_info t)" and ?n = "length (v1_pieces t)"
  have tot: "unat (v1_total_size t) = content_length t" by (rule unat_total_size[OF sane])
  have ex: "unat ((v1_total_size t + ?pl - 1) div ?pl) = (content_length t + unat ?pl - 1) div unat ?pl"
    using expected_pieces_nat[of "v1_total_size t" ?pl] piece_length_valid_bounds[OF True] sane tot
    by (simp add: sizes_sane_def content_length_def)
  have "?n div 20 < 2 ^ 64" using sane by (auto simp: sizes_sane_def)
  then have hs: "unat (word_of_nat (?n div 20) :: u64) = ?n div 20" by (simp add: unat_of_nat)
  have zero: "v1_total_size t = 0 \<longleftrightarrow> content_length t = 0"
    using tot by (metis unat_0 unsigned_eq_0_iff)
  have cnt: "(v1_total_size t + ?pl - 1) div ?pl = word_of_nat (?n div 20) \<longleftrightarrow>
      (content_length t + unat ?pl - 1) div unat ?pl = ?n div 20"
    unfolding word_unat_eq_iff ex hs ..
  have "?lhs \<longleftrightarrow> ?n mod 20 = 0 \<and> (content_length t + unat ?pl - 1) div unat ?pl = ?n div 20 \<and> content_length t \<noteq> 0"
    using True by (simp add: v1_validate_def Let_def zero cnt)
  moreover have "n mod 20 = 0 \<and> q = n div 20 \<longleftrightarrow> n = 20 * q" for n q :: nat by auto
  ultimately show ?thesis using True by blast
qed

subsection \<open>Properties\<close>

text \<open>A piece length is accepted exactly when it is a power of two between 16 KiB and
  128 MiB, that is \<open>2 ^ k\<close> for some \<open>k\<close> from 14 to 27.\<close>

theorem piece_length_power_of_two:
  "piece_length_validate pl = Inr () \<longleftrightarrow> (\<exists>k. 14 \<le> k \<and> k \<le> 27 \<and> unat pl = 2 ^ k)"
  by (rule piece_length_valid_nat)

text \<open>When no file length is negative and the content does not come within 128 MiB of
  \<open>2 ^ 64\<close> bytes, \<open>validate\<close> accepts a version-one torrent exactly when its piece length is a
  power of two from 16 KiB to 128 MiB, it has content, and it carries exactly one 20-byte hash
  for each (possibly short) piece of the content.\<close>

lemma v1_validate_exact:
  assumes "sizes_sane t"
  shows "v1_validate t = Inr () \<longleftrightarrow>
     (\<exists>k. 14 \<le> k \<and> k \<le> 27 \<and> unat (tc_piece_length (v1_info t)) = 2 ^ k) \<and> 0 < content_length t \<and>
     length (v1_pieces t) = 20 * ((content_length t + unat (tc_piece_length (v1_info t)) - 1)
                                     div unat (tc_piece_length (v1_info t)))"
  unfolding v1_validate_cases[OF assms] piece_length_valid_nat ..

definition sample_v1 :: torrent_v1 where
  "sample_v1 =
     \<lparr>v1_info = \<lparr>tc_info_hash = InfoV1 (replicate 20 0), tc_name = ''t'', tc_announce = None,
        tc_announce_list = None, tc_piece_length = 16384, tc_creation_date = None, tc_comment = None,
        tc_created_by = None, tc_web_seeds = None, tc_dht_nodes = None\<rparr>,
      v1_private = False, v1_pieces = replicate 40 7,
      v1_mode_of = SingleFile \<lparr>ef_length = 16385, ef_path = [''t''], ef_md5sum = None\<rparr>\<rparr>"

text \<open>An info hash survives both of its external forms: the byte vector kept in the
  resume file and the hexadecimal string of magnet links. The hex library is only assumed to
  write two characters for a byte and to read back what it wrote.\<close>

lemma info_hash_round_trip:
  assumes "info_hash_wf h"
    and "\<forall>b. hex_decode (hex_encode b) = Some b" and "\<forall>b. length (hex_encode b) = 2 * length b"
  shows "info_hash_try_from (info_hash_bytes h) = Inr h \<and>
     info_hash_from_hex hex_decode (info_hash_show hex_encode h) = Some h"
  using assms
  by (cases h) (auto simp: info_hash_wf_def info_hash_try_from_def info_hash_from_hex_def info_hash_show_def)

definition hex_digits :: string where
  "hex_digits = ''0123456789abcdef''"

definition hex_encode_ref :: "bytes \<Rightarrow> string" where
  "hex_encode_ref bs = concat (map (\<lambda>b. [hex_digits ! (unat b div 16), hex_digits ! (unat b mod 16)]) bs)"

fun hex_value :: "char \<Rightarrow> nat option" where
  "hex_value c = List.find (\<lambda>i. hex_digits ! i = c) [0..<16]"

fun hex_decode_ref :: "string \<Rightarrow> bytes option" where
  "hex_decode_ref [] = Some []"
| "hex_decode_ref [c] = None"
| "hex_decode_ref (c # d # s) =
     (case (hex_value c, hex_value d, hex_decode_ref s) of
        (Some x, Some y, Some bs) \<Rightarrow> Some (word_of_nat (16 * x + y) # bs)
      | _ \<Rightarrow> None)"

lemma hex_value_digit: "i < 16 \<Longrightarrow> hex_value (hex_digits ! i) = Some i"
proof -
  have "\<forall>i\<in>set [0..<16]. hex_value (hex_digits ! i) = Some i" by code_simp
  then show "i < 16 \<Longrightarrow> hex_value (hex_digits ! i) = Some i" by simp
qed

lemma hex_decode_encode_ref: "hex_decode_ref (hex_encode_ref b) = Some b"
proof (induction b)
  case Nil
  then show ?case by (simp add: hex_encode_ref_def)
next
  case (Cons x xs)
  have "unat x < 256" by (rule order_less_le_trans[OF unsigned_less]) simp
  then have "unat x div 16 < 16" by simp
  then show ?case
    using Cons by (simp add: hex_encode_ref_def hex_value_digit del: hex_value.simps)
qed

lemma length_hex_encode_ref: "length (hex_encode_ref b) = 2 * length b"
  by (induction b) (auto simp: hex_encode_ref_def)

end
