(* ===== verification/MetainfoV2.thy ===== *)
theory MetainfoV2
  imports Metainfo
begin

text \<open>
  Version-two torrents and what both versions share: \<open>torrent/merkle.rs\<close>,
  \<open>torrent/metainfo/v2.rs\<close> and the trait methods of \<open>torrent/metainfo/mod.rs\<close> that dispatch on
  the version. The Merkle loop is shown equal to a top-down definition of the tree, the flattening
  walk equal to the list of the files below a node, validation equal to a statement about every
  file of the tree. A \<open>HashMap\<close> is the list of its entries in iteration order.
\<close>

unbundle bit_operations_syntax

subsection \<open>Merkle trees\<close>

definition zero_hash :: bytes where
  "zero_hash = replicate 32 0"

definition hash_pair :: "(bytes \<Rightarrow> bytes) \<Rightarrow> bytes list \<Rightarrow> bytes" where
  "hash_pair sha256 chunk = sha256 (chunk ! 0 @ (if length chunk = 2 then chunk ! 1 else zero_hash))"

definition next_level :: "(bytes \<Rightarrow> bytes) \<Rightarrow> bytes list \<Rightarrow> bytes list" where
  "next_level sha256 current_level = map (hash_pair sha256) (chunks 2 current_level)"

lemma length_next_level: "length (next_level H xs) = (length xs + 1) div 2"
  by (simp add: next_level_def length_chunks)

function merkle_loop :: "(bytes \<Rightarrow> bytes) \<Rightarrow> bytes list \<Rightarrow> bytes list" where
  "merkle_loop sha256 current_level =
     (if 1 < length current_level then merkle_loop sha256 (next_level sha256 current_level)
      else current_level)"
  by pat_completeness auto
termination
  by (relation "measure (\<lambda>(H, xs). length xs)") (auto simp: length_next_level)

declare merkle_loop.simps [simp del]

definition from_piece_hashes :: "(bytes \<Rightarrow> bytes) \<Rightarrow> bytes list \<Rightarrow> bytes" where
  "from_piece_hashes sha256 hashes =
     (if hashes = [] then zero_hash else merkle_loop sha256 hashes ! 0)"

definition from_piece_layers :: "(bytes \<Rightarrow> bytes) \<Rightarrow> bytes \<Rightarrow> torrent_error + bytes" where
  "from_piece_layers sha256 bs =
     (if bs = [] then Inl (NotValid ''Piece layer data is empty'')
      else if length bs mod 32 \<noteq> 0 then Inl (NotValid ''Piece layer length is not a multiple of 32'')
      else Inr (from_piece_hashes sha256 (chunks_exact 32 bs)))"

subsection \<open>Version two\<close>

record file_tree_entry =
  fe_length :: int
  fe_pieces_root :: "bytes option"

datatype file_tree_node = File file_tree_entry | Dir "(string \<times> file_tree_node) list"

fun file_tree_from :: "tree_node \<Rightarrow> file_tree_node"
  and file_tree_from_entries :: "(string \<times> tree_node) list \<Rightarrow> (string \<times> file_tree_node) list" where
  "file_tree_from (FileNode e) = File \<lparr>fe_length = te_length e, fe_pieces_root = pieces_root e\<rparr>"
| "file_tree_from (DirNode files) = Dir (file_tree_from_entries files)"
| "file_tree_from_entries [] = []"
| "file_tree_from_entries ((name, child) # rest) = (name, file_tree_from child) # file_tree_from_entries rest"

record torrent_v2 =
  v2_info :: torrent_common
  v2_version :: "u8 option"
  v2_piece_layers :: "(bytes \<times> bytes) list"
  v2_file_tree :: "(string \<times> file_tree_node) list option"
  v2_flat_files :: "embeded_file list option"
  v2_total_size :: u64

text \<open>The walk threads the path buffer and the output vector; it returns the size, the path
  buffer and the output.\<close>

fun walk_and_flatten ::
    "string \<Rightarrow> file_tree_node \<Rightarrow> string list \<Rightarrow> embeded_file list \<Rightarrow> u64 \<times> string list \<times> embeded_file list"
  and walk_children ::
    "(string \<times> file_tree_node) list \<Rightarrow> u64 \<Rightarrow> string list \<Rightarrow> embeded_file list \<Rightarrow> u64 \<times> string list \<times> embeded_file list" where
  "walk_and_flatten name (File entry) path out =
     (let path = path @ [name];
          out = out @ [\<lparr>ef_length = fe_length entry, ef_path = path, ef_md5sum = None\<rparr>]
      in (as_u64 (fe_length entry), butlast path, out))"
| "walk_and_flatten name (Dir children) path out =
     (let path = path @ [name];
          (dir_size, path, out) = walk_children children 0 path out
      in (dir_size, butlast path, out))"
| "walk_children [] acc path out = (acc, path, out)"
| "walk_children ((name, node) # rest) acc path out =
     (let (s, path, out) = walk_and_flatten name node path out
      in walk_children rest (acc + s) path out)"

definition v2_from_bencode ::
  "(string \<Rightarrow> sock_addr option) \<Rightarrow> (u16 \<Rightarrow> string) \<Rightarrow> (bytes \<Rightarrow> string option) \<Rightarrow> bencode_torrent \<Rightarrow> info_hash
     \<Rightarrow> torrent_error + torrent_v2" where
  "v2_from_bencode parse_socket show_port from_utf8 t ih =
     (let file_tree = map_option file_tree_from_entries (bi_file_tree (bt_info t));
          (total_size, flat_files) =
            (case file_tree of
               Some tree \<Rightarrow> (case walk_children tree 0 [] [] of (s, _, out) \<Rightarrow> (s, out))
             | None \<Rightarrow> (0, []))
      in Inr \<lparr>v2_info = common_from parse_socket show_port from_utf8 t ih,
              v2_version = bi_version (bt_info t), v2_piece_layers = bt_piece_layers t,
              v2_file_tree = file_tree, v2_flat_files = Some flat_files, v2_total_size = total_size\<rparr>)"

fun check_integrity :: "(bytes \<Rightarrow> bytes) \<Rightarrow> torrent_v2 \<Rightarrow> file_tree_node \<Rightarrow> torrent_error + unit"
  and check_entries :: "(bytes \<Rightarrow> bytes) \<Rightarrow> torrent_v2 \<Rightarrow> (string \<times> file_tree_node) list \<Rightarrow> torrent_error + unit" where
  "check_integrity sha256 t (File entry) =
     (if fe_length entry \<le> as_i64 (tc_piece_length (v2_info t)) then Inr ()
      else case fe_pieces_root entry of
             None \<Rightarrow> Inl (NotValid ''missing piece root'')
           | Some expected_root \<Rightarrow>
               (case map_of (v2_piece_layers t) expected_root of
                  None \<Rightarrow> Inl (NotValid ''missing layer root'')
                | Some layers \<Rightarrow>
                    (case from_piece_layers sha256 layers of
                       Inl e \<Rightarrow> Inl e
                     | Inr root \<Rightarrow> if root \<noteq> expected_root then Inl (NotValid ''mismatch roots'') else Inr ())))"
| "check_integrity sha256 t (Dir files) = check_entries sha256 t files"
| "check_entries sha256 t [] = Inr ()"
| "check_entries sha256 t ((name, node) # rest) =
     (case check_integrity sha256 t node of Inl e \<Rightarrow> Inl e | Inr _ \<Rightarrow> check_entries sha256 t rest)"

definition v2_validate :: "(bytes \<Rightarrow> bytes) \<Rightarrow> torrent_v2 \<Rightarrow> torrent_error + unit" where
  "v2_validate sha256 t =
     (case v2_file_tree t of
        None \<Rightarrow> Inl (NotValid ''file tree did not compose'')
      | Some file_tree \<Rightarrow> check_entries sha256 t file_tree)"

definition v2_piece_hashes :: "torrent_v2 \<Rightarrow> bytes list" where
  "v2_piece_hashes t = map snd (v2_piece_layers t)"

definition v2_verify_hash :: "(bytes \<Rightarrow> bytes) \<Rightarrow> torrent_v2 \<Rightarrow> u32 \<Rightarrow> bytes \<Rightarrow> torrent_error + unit" where
  "v2_verify_hash sha256 t index data =
     (let hashes = v2_piece_hashes t
      in if unat index < length hashes
         then if sha256 data \<noteq> hashes ! unat index then Inl (NotValid ''hash mismatch'') else Inr ()
         else Inl (NotValid ''no hash for piece''))"

subsection \<open>Both versions\<close>

datatype torrent_file = TorrentFileV1 torrent_v1 | TorrentFileV2 torrent_v2

fun torrent_common_of :: "torrent_file \<Rightarrow> torrent_common" where
  "torrent_common_of (TorrentFileV1 t) = v1_info t"
| "torrent_common_of (TorrentFileV2 t) = v2_info t"

fun torrent_version :: "torrent_file \<Rightarrow> u8" where
  "torrent_version (TorrentFileV1 t) = 1"
| "torrent_version (TorrentFileV2 t) = (case v2_version t of Some v \<Rightarrow> v | None \<Rightarrow> 2)"

fun total_size :: "torrent_file \<Rightarrow> u64" where
  "total_size (TorrentFileV1 t) = v1_total_size t"
| "total_size (TorrentFileV2 t) = v2_total_size t"

fun is_private :: "torrent_file \<Rightarrow> bool" where
  "is_private (TorrentFileV1 t) = v1_private t"
| "is_private (TorrentFileV2 t) = False"

fun torrent_files :: "torrent_file \<Rightarrow> embeded_file list" where
  "torrent_files (TorrentFileV1 t) = mode_files (v1_mode_of t)"
| "torrent_files (TorrentFileV2 t) = (case v2_flat_files t of Some fs \<Rightarrow> fs | None \<Rightarrow> [])"

fun raw_pieces :: "torrent_file \<Rightarrow> bytes" where
  "raw_pieces (TorrentFileV1 t) = v1_pieces t"
| "raw_pieces (TorrentFileV2 t) = []"

fun torrent_validate :: "(bytes \<Rightarrow> bytes) \<Rightarrow> torrent_file \<Rightarrow> torrent_error + unit" where
  "torrent_validate sha256 (TorrentFileV1 t) = v1_validate t"
| "torrent_validate sha256 (TorrentFileV2 t) = v2_validate sha256 t"

fun verify_hash :: "(bytes \<Rightarrow> bytes) \<Rightarrow> (bytes \<Rightarrow> bytes) \<Rightarrow> torrent_file \<Rightarrow> u32 \<Rightarrow> bytes \<Rightarrow> torrent_error + unit" where
  "verify_hash sha1 sha256 (TorrentFileV1 t) index data = v1_verify_hash sha1 t index data"
| "verify_hash sha1 sha256 (TorrentFileV2 t) index data = v2_verify_hash sha256 t index data"

definition num_pieces :: "torrent_file \<Rightarrow> nat" where
  "num_pieces t =
     (let pl = tc_piece_length (torrent_common_of t)
      in if pl = 0 then 0 else unat ((total_size t + pl - 1) div pl))"

subsection \<open>Back to the serialised form\<close>

definition bencode_info_from :: "torrent_file \<Rightarrow> bencode_info" where
  "bencode_info_from t =
     (let all_files = torrent_files t;
          (len, files) = (if length all_files = 1 then (Some (ef_length (all_files ! 0)), None)
                          else (None, Some (map file_info_from all_files)))
      in \<lparr>bi_name = tc_name (torrent_common_of t),
          bi_version = (if torrent_version t \<noteq> 1 then Some (torrent_version t) else None),
          bi_file_tree = None, bi_private = (if is_private t then Some 1 else None),
          bi_pieces = raw_pieces t, bi_piece_length = as_i64 (tc_piece_length (torrent_common_of t)),
          bi_length = len, bi_md5sum = None, bi_files = files\<rparr>)"

definition bencode_torrent_from :: "(ip_addr \<Rightarrow> string) \<Rightarrow> torrent_file \<Rightarrow> bencode_torrent" where
  "bencode_torrent_from show_ip t =
     (let c = torrent_common_of t
      in \<lparr>bt_announce = tc_announce c, bt_info = bencode_info_from t,
          bt_announce_list = tc_announce_list c, bt_creation_date = tc_creation_date c,
          bt_comment = tc_comment c, bt_created_by = tc_created_by c,
          bt_url_list = tc_web_seeds c, bt_extra = [], bt_piece_layers = [],
          bt_nodes = map_option (map (to_raw_parts show_ip)) (tc_dht_nodes c)\<rparr>)"

subsection \<open>The Merkle tree from the top\<close>

text \<open>A tree of height \<open>k\<close> over at most \<open>2 ^ k\<close> hashes: the left subtree takes the first half
  of the leaf positions, a right subtree without leaves is the zero hash.\<close>

fun merkle_top :: "(bytes \<Rightarrow> bytes) \<Rightarrow> nat \<Rightarrow> bytes list \<Rightarrow> bytes" where
  "merkle_top H 0 xs = hd xs"
| "merkle_top H (Suc k) xs =
     H (merkle_top H k (take (2 ^ k) xs)
        @ (if 2 ^ k < length xs then merkle_top H k (drop (2 ^ k) xs) else zero_hash))"

lemma next_level_simps [simp]:
  "next_level H [] = []" "next_level H [x] = [H (x @ zero_hash)]"
  "next_level H (x # y # xs) = H (x @ y) # next_level H xs"
  by (simp_all add: next_level_def chunks_step chunks_short hash_pair_def)

lemma next_level_take: "next_level H (take (2 * m) xs) = take m (next_level H xs)"
proof (induction m arbitrary: xs)
  case 0
  then show ?case by simp
next
  case (Suc m)
  then show ?case by (cases xs rule: list.exhaust; cases "tl xs") auto
qed

lemma next_level_drop: "next_level H (drop (2 * m) xs) = drop m (next_level H xs)"
proof (induction m arbitrary: xs)
  case 0
  then show ?case by simp
next
  case (Suc m)
  then show ?case by (cases xs rule: list.exhaust; cases "tl xs") auto
qed

lemma merkle_top_next_level:
  "xs \<noteq> [] \<Longrightarrow> length xs \<le> 2 ^ Suc k \<Longrightarrow> merkle_top H (Suc k) xs = merkle_top H k (next_level H xs)"
proof (induction k arbitrary: xs)
  case 0
  then consider (one) x where "xs = [x]" | (two) x y where "xs = [x, y]"
    by (cases xs; cases "tl xs"; cases "tl (tl xs)") auto
  then show ?case by cases auto
next
  case (Suc k)
  let ?m = "2 ^ Suc k :: nat"
  have left: "merkle_top H (Suc k) (take ?m xs) = merkle_top H k (take (2 ^ k) (next_level H xs))"
    using Suc.IH[of "take ?m xs"] Suc.prems next_level_take[of H "2 ^ k" xs] by simp
  have right: "merkle_top H (Suc k) (drop ?m xs) = merkle_top H k (drop (2 ^ k) (next_level H xs))"
    if "?m < length xs"
    using Suc.IH[of "drop ?m xs"] Suc.prems that next_level_drop[of H "2 ^ k" xs] by simp
  have cond: "?m < length xs \<longleftrightarrow> 2 ^ k < length (next_level H xs)"
    unfolding length_next_level by auto
  show ?case
    unfolding merkle_top.simps(2)[of H "Suc k"] merkle_top.simps(2)[of H k "next_level H xs"]
    using left right cond by simp
qed

lemma merkle_loop_top:
  "xs \<noteq> [] \<Longrightarrow> length xs \<le> 2 ^ k \<Longrightarrow> (\<And>j. k = Suc j \<Longrightarrow> 2 ^ j < length xs)
    \<Longrightarrow> merkle_loop H xs = [merkle_top H k xs]"
proof (induction k arbitrary: xs)
  case 0
  then have "length xs = 1" by (cases xs) auto
  then obtain x where "xs = [x]" by (cases xs) auto
  then show ?case by (simp add: merkle_loop.simps)
next
  case (Suc k)
  let ?ys = "next_level H xs"
  have big: "2 ^ k < length xs" using Suc.prems(3) by simp
  then have "1 < length xs" using one_le_power[of "2::nat" k] by linarith
  then have "merkle_loop H xs = merkle_loop H ?ys" by (simp add: merkle_loop.simps[of H xs])
  also have "\<dots> = [merkle_top H k ?ys]"
  proof (rule Suc.IH)
    have "length ?ys \<noteq> 0" unfolding length_next_level using \<open>1 < length xs\<close> by simp
    then show "?ys \<noteq> []" by auto
    show "length ?ys \<le> 2 ^ k" unfolding length_next_level using Suc.prems(2) by simp
    show "2 ^ j < length ?ys" if "k = Suc j" for j
      unfolding length_next_level using big that by simp
  qed
  finally show ?case using merkle_top_next_level[OF Suc.prems(1,2)] by simp
qed

lemma from_piece_hashes_top:
  assumes "xs \<noteq> []" and "length xs \<le> 2 ^ k" and "k = 0 \<or> 2 ^ (k - 1) < length xs"
  shows "from_piece_hashes H xs = merkle_top H k xs"
proof -
  have "merkle_loop H xs = [merkle_top H k xs]"
    using assms(3) by (intro merkle_loop_top[OF assms(1,2)]) auto
  then show ?thesis using assms(1) by (simp add: from_piece_hashes_def)
qed

subsection \<open>Files of a tree\<close>

fun tree_files :: "string list \<Rightarrow> string \<Rightarrow> file_tree_node \<Rightarrow> embeded_file list"
  and entries_files :: "string list \<Rightarrow> (string \<times> file_tree_node) list \<Rightarrow> embeded_file list" where
  "tree_files path name (File e) = [\<lparr>ef_length = fe_length e, ef_path = path @ [name], ef_md5sum = None\<rparr>]"
| "tree_files path name (Dir children) = entries_files (path @ [name]) children"
| "entries_files path [] = []"
| "entries_files path ((name, node) # rest) = tree_files path name node @ entries_files path rest"

lemma as_u64_add: "as_u64 (a + b) = as_u64 a + as_u64 b"
  by (simp add: as_u64_def)

lemma as_u64_0 [simp]: "as_u64 0 = 0"
  by (simp add: as_u64_def)

lemma walk_tree_files:
  "walk_and_flatten name node path out =
     (as_u64 (sum_list (map ef_length (tree_files path name node))), path, out @ tree_files path name node)"
  "walk_children children acc path out =
     (acc + as_u64 (sum_list (map ef_length (entries_files path children))), path,
      out @ entries_files path children)"
proof (induction name node path out and children acc path out rule: walk_and_flatten_walk_children.induct)
  case (4 name node rest acc path out)
  then show ?case by (simp add: as_u64_add add.assoc)
qed (simp_all add: Let_def)

subsection \<open>Integrity\<close>

fun tree_entries :: "file_tree_node \<Rightarrow> file_tree_entry list"
  and children_entries :: "(string \<times> file_tree_node) list \<Rightarrow> file_tree_entry list" where
  "tree_entries (File e) = [e]"
| "tree_entries (Dir children) = children_entries children"
| "children_entries [] = []"
| "children_entries ((name, node) # rest) = tree_entries node @ children_entries rest"

definition entry_intact :: "(bytes \<Rightarrow> bytes) \<Rightarrow> torrent_v2 \<Rightarrow> file_tree_entry \<Rightarrow> bool" where
  "entry_intact H t e \<longleftrightarrow> fe_length e \<le> as_i64 (tc_piece_length (v2_info t)) \<or>
     (\<exists>root layer. fe_pieces_root e = Some root \<and> map_of (v2_piece_layers t) root = Some layer
        \<and> layer \<noteq> [] \<and> length layer mod 32 = 0 \<and> from_piece_hashes H (chunks_exact 32 layer) = root)"

lemma check_integrity_entries:
  "check_integrity H t node = Inr () \<longleftrightarrow> (\<forall>e\<in>set (tree_entries node). entry_intact H t e)"
  "check_entries H t children = Inr () \<longleftrightarrow> (\<forall>e\<in>set (children_entries children). entry_intact H t e)"
proof (induction H t node and H t children rule: check_integrity_check_entries.induct)
  case (1 H t entry)
  then show ?case
    by (auto simp: entry_intact_def from_piece_layers_def split: option.splits sum.splits if_splits)
next
  case (4 H t name node rest)
  then show ?case by (auto split: sum.splits)
qed simp_all

subsection \<open>Properties\<close>

text \<open>C25: the level-by-level loop of \<open>from_piece_hashes\<close> ends for every number of hashes and
  computes the root of the tree of least height that has room for them, where a missing right
  subtree of any height is the zero hash.\<close>

theorem merkle_root_top_down:
  assumes "xs \<noteq> []" and "length xs \<le> 2 ^ k" and "k = 0 \<or> 2 ^ (k - 1) < length xs"
  shows "from_piece_hashes H xs = merkle_top H k xs"
  by (rule from_piece_hashes_top[OF assms])

theorem merkle_root_top_down_witness:
  "from_piece_hashes (take 32) [[1], [2], [3]] = merkle_top (take 32) 2 [[1], [2], [3]]"
  by (rule merkle_root_top_down) simp_all

text \<open>\<open>validate\<close> accepts a version-two torrent exactly when it has a file tree and every
  file in it either fits in one piece or names a root for which a piece layer is present, is a
  non-empty sequence of whole hashes, and has that root.\<close>

lemma v2_validate_exact:
  "v2_validate H t = Inr () \<longleftrightarrow>
     (\<exists>tree. v2_file_tree t = Some tree \<and> list_all (entry_intact H t) (children_entries tree))"
  by (auto simp: v2_validate_def check_integrity_entries list_all_iff split: option.splits)

text \<open>A version-two torrent read from its dictionary lists exactly the files of its tree,
  each with the path from the root of the tree, and its total size is the sum of their lengths.\<close>

lemma v2_flat_files_of_tree:
  "v2_from_bencode ps sp fu t ih = Inr v \<Longrightarrow> v2_file_tree v = Some tree \<Longrightarrow>
     torrent_files (TorrentFileV2 v) = entries_files [] tree \<and>
     total_size (TorrentFileV2 v) = as_u64 (sum_list (map ef_length (entries_files [] tree)))"
  by (auto simp: v2_from_bencode_def Let_def walk_tree_files split: option.splits)

definition sample_tree_torrent :: bencode_torrent where
  "sample_tree_torrent =
     \<lparr>bt_announce = None,
      bt_info = \<lparr>bi_name = ''t'', bi_version = Some 2,
        bi_file_tree = Some [(''d'', DirNode [(''a'', FileNode \<lparr>te_length = 5, pieces_root = None\<rparr>)]),
                             (''b'', FileNode \<lparr>te_length = 7, pieces_root = None\<rparr>)],
        bi_private = None, bi_pieces = [], bi_piece_length = 16384, bi_length = None,
        bi_md5sum = None, bi_files = None\<rparr>,
      bt_announce_list = None, bt_creation_date = None, bt_comment = None, bt_created_by = None,
      bt_url_list = None, bt_extra = [], bt_piece_layers = [], bt_nodes = None\<rparr>"

text \<open>\<open>verify_hash\<close> of a version-two torrent compares the digest of one piece with a whole
  piece layer, so no data is accepted for an entry whose layer holds more than one hash.\<close>

lemma v2_layer_never_verifies:
  assumes "\<forall>d. length (sha256 d) = 32"
    and "unat index < length (v2_piece_layers t)" and "length (snd (v2_piece_layers t ! unat index)) \<noteq> 32"
  shows "\<exists>e. verify_hash sha1 sha256 (TorrentFileV2 t) index data = Inl e"
  using assms(2,3) assms(1)[rule_format, of data]
  by (auto simp: v2_verify_hash_def v2_piece_hashes_def Let_def)

end
