(* ===== verification/PieceHash.thy ===== *)
theory PieceHash
  imports MetainfoV2
begin

text \<open>
  Cutting files into pieces: \<open>torrent/path.rs\<close> and \<open>torrent/piece_hash.rs\<close>. A path is the list
  of its components. The file system is a tree of entries for listing and a function
  \<open>open_file\<close> from paths to contents, which is \<open>None\<close> for a file that cannot be opened. How many
  bytes a call of \<open>read\<close> delivers is the parameter \<open>rd\<close>, given the free space of the buffer and
  what is left of the file; an answer of zero before the end is a failed read, which the source
  turns into zero. The channel between the reading and the hashing thread keeps the order.
\<close>

type_synonym path = "string list"

subsection \<open>Collecting paths\<close>

datatype fs_node = RegularFile | Directory "(string \<times> fs_node) list"

fun fs_lookup :: "fs_node \<Rightarrow> path \<Rightarrow> fs_node option" where
  "fs_lookup node [] = Some node"
| "fs_lookup RegularFile (c # cs) = None"
| "fs_lookup (Directory es) (c # cs) =
     (case map_of es c of None \<Rightarrow> None | Some child \<Rightarrow> fs_lookup child cs)"

record torrent_path =
  base_path :: path
  paths :: "path list"

definition TorrentPath_new :: "path \<Rightarrow> torrent_path" where
  "TorrentPath_new p = \<lparr>base_path = p, paths = []\<rparr>"

fun add_node :: "torrent_path \<Rightarrow> path \<Rightarrow> fs_node \<Rightarrow> torrent_path"
  and add_entries :: "torrent_path \<Rightarrow> path \<Rightarrow> (string \<times> fs_node) list \<Rightarrow> torrent_path" where
  "add_node tp current RegularFile = tp\<lparr>paths := paths tp @ [current]\<rparr>"
| "add_node tp current (Directory entries) = add_entries tp current entries"
| "add_entries tp current [] = tp"
| "add_entries tp current ((name, node) # rest) =
     add_entries (add_node tp (current @ [name]) node) current rest"

definition path_add :: "fs_node \<Rightarrow> torrent_path \<Rightarrow> path \<Rightarrow> torrent_path" where
  "path_add root tp current =
     (case fs_lookup root current of None \<Rightarrow> tp | Some node \<Rightarrow> add_node tp current node)"

definition path_is_empty :: "torrent_path \<Rightarrow> bool" where
  "path_is_empty tp \<longleftrightarrow> paths tp = []"

definition strip_path :: "path \<Rightarrow> path \<Rightarrow> path option" where
  "strip_path base p = (if take (length base) p = base then Some (drop (length base) p) else None)"

definition path_build :: "torrent_path \<Rightarrow> (path \<times> path) list" where
  "path_build tp =
     map (\<lambda>abs. (abs, case strip_path (base_path tp) abs of Some rel \<Rightarrow> rel | None \<Rightarrow> abs)) (paths tp)"

subsection \<open>Reading pieces\<close>

record reader_state =
  piece_index :: nat
  buffer :: bytes
  bytes_buffered :: nat
  pieces_sent :: "(nat \<times> bytes) list"

definition read_position :: "(nat \<Rightarrow> bytes \<Rightarrow> nat) \<Rightarrow> reader_state \<Rightarrow> bytes \<Rightarrow> nat" where
  "read_position rd st remaining =
     (let space = length (buffer st) - bytes_buffered st
      in min (rd space remaining) (min space (length remaining)))"

definition buffer_step :: "nat \<Rightarrow> reader_state \<Rightarrow> bytes \<Rightarrow> reader_state" where
  "buffer_step piece_length st chunk =
     (let bb = bytes_buffered st;
          buf = take bb (buffer st) @ chunk @ drop (bb + length chunk) (buffer st);
          bb = bb + length chunk
      in if bb = piece_length
         then \<lparr>piece_index = piece_index st + 1, buffer = replicate piece_length 0, bytes_buffered = 0,
               pieces_sent = pieces_sent st @ [(piece_index st, buf)]\<rparr>
         else st\<lparr>buffer := buf, bytes_buffered := bb\<rparr>)"

function read_loop :: "(nat \<Rightarrow> bytes \<Rightarrow> nat) \<Rightarrow> nat \<Rightarrow> reader_state \<Rightarrow> bytes \<Rightarrow> reader_state" where
  "read_loop rd piece_length st remaining =
     (let position = read_position rd st remaining
      in if position = 0 then st
         else read_loop rd piece_length (buffer_step piece_length st (take position remaining))
                (drop position remaining))"
  by pat_completeness auto
termination
  by (relation "measure (\<lambda>(rd, pl, st, remaining). length remaining)")
     (auto simp: read_position_def Let_def)

declare read_loop.simps [simp del]

record file_entry =
  absolute :: path
  relative :: path

fun dispatch_file_metadata :: "(path \<Rightarrow> bytes option) \<Rightarrow> file_entry \<Rightarrow> torrent_error + (embeded_file \<times> bytes)" where
  "dispatch_file_metadata open_file entry =
     (case open_file (absolute entry) of
        None \<Rightarrow> Inl (Failed ''failed to open file'')
      | Some content \<Rightarrow>
          Inr (\<lparr>ef_length = int (length content), ef_path = relative entry, ef_md5sum = None\<rparr>, content))"

text \<open>The loop over the files: the metadata sent, the state of the buffer, and whether the
  loop was left by the \<open>?\<close> operator.\<close>

fun handle_files ::
  "(path \<Rightarrow> bytes option) \<Rightarrow> (nat \<Rightarrow> bytes \<Rightarrow> nat) \<Rightarrow> nat \<Rightarrow> file_entry list \<Rightarrow> embeded_file list \<Rightarrow> reader_state
     \<Rightarrow> embeded_file list \<times> reader_state \<times> (torrent_error + unit)" where
  "handle_files open_file rd piece_length [] metas st = (metas, st, Inr ())"
| "handle_files open_file rd piece_length (entry # entries) metas st =
     (case dispatch_file_metadata open_file entry of
        Inl e \<Rightarrow> (metas, st, Inl e)
      | Inr (meta, content) \<Rightarrow>
          handle_files open_file rd piece_length entries (metas @ [meta]) (read_loop rd piece_length st content))"

definition file_handle ::
  "(path \<Rightarrow> bytes option) \<Rightarrow> (nat \<Rightarrow> bytes \<Rightarrow> nat) \<Rightarrow> nat \<Rightarrow> file_entry list
     \<Rightarrow> embeded_file list \<times> (nat \<times> bytes) list \<times> (torrent_error + unit)" where
  "file_handle open_file rd piece_length files =
     (case handle_files open_file rd piece_length files []
             \<lparr>piece_index = 0, buffer = replicate piece_length 0, bytes_buffered = 0, pieces_sent = []\<rparr> of
        (metas, st, Inl e) \<Rightarrow> (metas, pieces_sent st, Inl e)
      | (metas, st, Inr _) \<Rightarrow>
          (metas, pieces_sent st @ (if 0 < bytes_buffered st
                                    then [(piece_index st, take (bytes_buffered st) (buffer st))] else []), Inr ()))"

record piece_hasher =
  ph_piece_length :: nat
  ph_files :: "file_entry list"

definition PieceHasherV1_new :: "nat \<Rightarrow> piece_hasher" where
  "PieceHasherV1_new pl = \<lparr>ph_piece_length = pl, ph_files = []\<rparr>"

definition hasher_file :: "piece_hasher \<Rightarrow> path \<times> path \<Rightarrow> piece_hasher" where
  "hasher_file h p = h\<lparr>ph_files := ph_files h @ [\<lparr>absolute = fst p, relative = snd p\<rparr>]\<rparr>"

text \<open>\<open>finalize\<close> drops the result of the reading thread.\<close>

definition hasher_finalize ::
  "(bytes \<Rightarrow> bytes) \<Rightarrow> (path \<Rightarrow> bytes option) \<Rightarrow> (nat \<Rightarrow> bytes \<Rightarrow> nat) \<Rightarrow> piece_hasher
     \<Rightarrow> torrent_error + (bytes \<times> v1_mode)" where
  "hasher_finalize sha1 open_file rd h =
     (case file_handle open_file rd (ph_piece_length h) (ph_files h) of
        (files, sent, _) \<Rightarrow>
          let results = sort_key fst (map (\<lambda>(idx, data). (idx, sha1 data)) sent);
              hashes = concat (map snd results);
              mode = (if length files = 1 then SingleFile (last files) else MultiFile files)
          in Inr (hashes, mode))"

subsection \<open>What the buffer holds\<close>

definition reader_inv :: "nat \<Rightarrow> bytes \<Rightarrow> reader_state \<Rightarrow> bool" where
  "reader_inv pl xs st \<longleftrightarrow> (\<exists>full tail. xs = concat full @ tail \<and> (\<forall>c\<in>set full. length c = pl)
     \<and> length tail < pl \<and> pieces_sent st = enumerate 0 full \<and> piece_index st = length full
     \<and> bytes_buffered st = length tail \<and> take (length tail) (buffer st) = tail \<and> length (buffer st) = pl)"

definition reads_all :: "(nat \<Rightarrow> bytes \<Rightarrow> nat) \<Rightarrow> bool" where
  "reads_all rd \<longleftrightarrow> (\<forall>space remaining. 0 < space \<and> remaining \<noteq> [] \<longrightarrow> 0 < rd space remaining)"

lemma reader_inv_start:
  "0 < pl \<Longrightarrow> reader_inv pl [] \<lparr>piece_index = 0, buffer = replicate pl 0, bytes_buffered = 0, pieces_sent = []\<rparr>"
  unfolding reader_inv_def by (intro exI[of _ "[]"]) simp

lemma buffer_step_inv:
  assumes inv: "reader_inv pl xs st" and fit: "length c \<le> pl - bytes_buffered st"
  shows "reader_inv pl (xs @ c) (buffer_step pl st c)"
proof -
  obtain full tail where xs: "xs = concat full @ tail" and full: "\<forall>c\<in>set full. length c = pl"
    and tail: "length tail < pl" and sent: "pieces_sent st = enumerate 0 full"
    and idx: "piece_index st = length full" and bb: "bytes_buffered st = length tail"
    and pre: "take (length tail) (buffer st) = tail" and len: "length (buffer st) = pl"
    using inv unfolding reader_inv_def by blast
  let ?buf = "tail @ c @ drop (length tail + length c) (buffer st)"
  have room: "length tail + length c \<le> pl" using fit tail by (simp add: bb)
  show ?thesis
  proof (cases "length tail + length c = pl")
    case True
    have "buffer_step pl st c = \<lparr>piece_index = Suc (length full), buffer = replicate pl 0,
        bytes_buffered = 0, pieces_sent = enumerate 0 (full @ [tail @ c])\<rparr>"
      using True by (simp add: buffer_step_def Let_def bb pre idx sent len enumerate_append_eq)
    then show ?thesis
      unfolding reader_inv_def using True full tail xs
      by (intro exI[of _ "full @ [tail @ c]"] exI[of _ "[]"]) auto
  next
    case False
    have "buffer_step pl st c = st\<lparr>buffer := ?buf, bytes_buffered := length tail + length c\<rparr>"
      using False by (simp add: buffer_step_def Let_def bb pre)
    then show ?thesis
      unfolding reader_inv_def using False full room xs sent idx len
      by (intro exI[of _ full] exI[of _ "tail @ c"]) auto
  qed
qed

lemma read_loop_inv:
  assumes "0 < pl" and rd: "reads_all rd"
  shows "reader_inv pl xs st \<Longrightarrow> reader_inv pl (xs @ remaining) (read_loop rd pl st remaining)"
proof (induction "length remaining" arbitrary: xs st remaining rule: less_induct)
  case less
  let ?pos = "read_position rd st remaining"
  have space: "length (buffer st) = pl" "bytes_buffered st < pl"
    using less.prems unfolding reader_inv_def by auto
  show ?case
  proof (cases "remaining = []")
    case True
    then show ?thesis using less.prems by (simp add: read_loop.simps[of rd pl st] read_position_def)
  next
    case False
    then have pos: "0 < ?pos" and le: "?pos \<le> pl - bytes_buffered st" "?pos \<le> length remaining"
      using rd space by (auto simp: read_position_def Let_def reads_all_def)
    have "reader_inv pl (xs @ take ?pos remaining) (buffer_step pl st (take ?pos remaining))"
      using less.prems le by (intro buffer_step_inv) auto
    then have "reader_inv pl ((xs @ take ?pos remaining) @ drop ?pos remaining)
       (read_loop rd pl (buffer_step pl st (take ?pos remaining)) (drop ?pos remaining))"
      using pos False by (intro less.hyps) auto
    then show ?thesis using pos by (simp add: read_loop.simps[of rd pl st remaining] Let_def)
  qed
qed

lemma handle_files_inv:
  assumes "0 < pl" and "reads_all rd" and "\<forall>f\<in>set fs. open_file (absolute f) \<noteq> None"
    and "reader_inv pl xs st"
  shows "\<exists>st'. handle_files open_file rd pl fs metas st =
      (metas @ map (\<lambda>f. \<lparr>ef_length = int (length (the (open_file (absolute f)))), ef_path = relative f, ef_md5sum = None\<rparr>) fs,
       st', Inr ())
    \<and> reader_inv pl (xs @ concat (map (\<lambda>f. the (open_file (absolute f))) fs)) st'"
  using assms(3,4)
proof (induction fs arbitrary: metas xs st)
  case Nil
  then show ?case by simp
next
  case (Cons f fs)
  then obtain content where c: "open_file (absolute f) = Some content" by auto
  have "reader_inv pl (xs @ content) (read_loop rd pl st content)"
    by (rule read_loop_inv[OF assms(1,2) Cons.prems(2)])
  from Cons.IH[OF _ this, of "metas @ [\<lparr>ef_length = int (length content), ef_path = relative f, ef_md5sum = None\<rparr>]"]
  show ?case using Cons.prems(1) c by auto
qed

lemma reader_inv_chunks:
  assumes "0 < pl" and "reader_inv pl xs st"
  shows "pieces_sent st @ (if 0 < bytes_buffered st then [(piece_index st, take (bytes_buffered st) (buffer st))] else [])
     = enumerate 0 (chunks pl xs)"
proof -
  obtain full tail where xs: "xs = concat full @ tail" and full: "\<forall>c\<in>set full. length c = pl"
    and tail: "length tail < pl" and st: "pieces_sent st = enumerate 0 full" "piece_index st = length full"
      "bytes_buffered st = length tail" "take (length tail) (buffer st) = tail"
    using assms(2) unfolding reader_inv_def by blast
  have "chunks pl (concat full @ tail) = full @ chunks pl tail" using full
    by (induction full) (auto simp: chunks_append_full[OF assms(1)])
  moreover have "chunks pl tail = (if tail = [] then [] else [tail])"
    using tail chunks_short[OF assms(1), of tail] by simp
  ultimately show ?thesis using st by (simp add: xs enumerate_append_eq)
qed

lemma file_handle_chunks:
  assumes "0 < pl" and "reads_all rd" and "\<forall>f\<in>set fs. open_file (absolute f) \<noteq> None"
  shows "file_handle open_file rd pl fs =
     (map (\<lambda>f. \<lparr>ef_length = int (length (the (open_file (absolute f)))), ef_path = relative f, ef_md5sum = None\<rparr>) fs,
      enumerate 0 (chunks pl (concat (map (\<lambda>f. the (open_file (absolute f))) fs))), Inr ())"
  using handle_files_inv[OF assms reader_inv_start[OF assms(1)], of "[]"] reader_inv_chunks[OF assms(1)]
  by (auto simp: file_handle_def)

lemma sort_enumerate: "sort_key fst (map (\<lambda>(i, d). (i, g d)) (enumerate n xs)) = map (\<lambda>(i, d). (i, g d)) (enumerate n xs)"
proof (rule sort_key_id_if_sorted)
  have "map fst (map (\<lambda>(i, d). (i, g d)) (enumerate n xs)) = map fst (enumerate n xs)"
    by (simp add: case_prod_unfold comp_def)
  then show "sorted (map fst (map (\<lambda>(i, d). (i, g d)) (enumerate n xs)))" by simp
qed

lemma snd_enumerate_map: "map snd (map (\<lambda>(i, d). (i, g d)) (enumerate n xs)) = map g xs"
  by (induction xs arbitrary: n) auto

lemma hasher_finalize_total: "\<exists>pieces mode. hasher_finalize sha1 open_file rd h = Inr (pieces, mode)"
  by (cases "file_handle open_file rd (ph_piece_length h) (ph_files h)") (simp add: hasher_finalize_def Let_def)

lemma hasher_finalize_chunks:
  assumes "0 < ph_piece_length h" and "reads_all rd" and "\<forall>f\<in>set (ph_files h). open_file (absolute f) \<noteq> None"
  shows "hasher_finalize sha1 open_file rd h =
     (let files = map (\<lambda>f. \<lparr>ef_length = int (length (the (open_file (absolute f)))), ef_path = relative f, ef_md5sum = None\<rparr>) (ph_files h)
      in Inr (concat (map sha1 (chunks (ph_piece_length h) (concat (map (\<lambda>f. the (open_file (absolute f))) (ph_files h))))),
              if length files = 1 then SingleFile (last files) else MultiFile files))"
  by (simp only: hasher_finalize_def file_handle_chunks[OF assms] prod.case sort_enumerate snd_enumerate_map Let_def)

subsection \<open>Properties\<close>

text \<open>C24: whatever portions the operating system hands out, as long as reads make progress and
  every file opens, \<open>finalize\<close> returns one hash for each piece of the concatenated files, in
  order and with the last piece short if need be, and one entry with the true length for every
  file, in order.\<close>

theorem piece_hasher_cuts_concatenation:
  assumes "0 < ph_piece_length h" and "reads_all rd"
    and "\<forall>f\<in>set (ph_files h). \<exists>content. open_file (absolute f) = Some content"
  shows "\<exists>mode. hasher_finalize sha1 open_file rd h =
       Inr (concat (map sha1 (chunks (ph_piece_length h) (concat (map (\<lambda>f. the (open_file (absolute f))) (ph_files h))))), mode)
     \<and> map ef_length (mode_files mode) = map (\<lambda>f. int (length (the (open_file (absolute f))))) (ph_files h)
     \<and> map ef_path (mode_files mode) = map relative (ph_files h)"
proof -
  let ?files = "map (\<lambda>f. \<lparr>ef_length = int (length (the (open_file (absolute f)))), ef_path = relative f, ef_md5sum = None\<rparr>) (ph_files h)"
  let ?mode = "if length ?files = 1 then SingleFile (last ?files) else MultiFile ?files"
  have "mode_files ?mode = ?files" by (cases "ph_files h") auto
  moreover have "\<forall>f\<in>set (ph_files h). open_file (absolute f) \<noteq> None" using assms(3) by auto
  then have "hasher_finalize sha1 open_file rd h =
      Inr (concat (map sha1 (chunks (ph_piece_length h) (concat (map (\<lambda>f. the (open_file (absolute f))) (ph_files h))))), ?mode)"
    using hasher_finalize_chunks[OF assms(1,2)] by (simp add: Let_def)
  ultimately show ?thesis by (intro exI[of _ ?mode]) (simp add: comp_def)
qed

theorem piece_hasher_cuts_concatenation_witness:
  "\<exists>mode. hasher_finalize id (\<lambda>p. if p = [''a''] then Some [1, 2, 3] else Some [4]) (\<lambda>s r. 1)
       \<lparr>ph_piece_length = 2, ph_files = [\<lparr>absolute = [''a''], relative = [''a'']\<rparr>, \<lparr>absolute = [''b''], relative = [''b'']\<rparr>]\<rparr>
     = Inr ([1, 2, 3, 4], mode) \<and> map ef_length (mode_files mode) = [3, 1]"
  using piece_hasher_cuts_concatenation
    [of "\<lparr>ph_piece_length = 2, ph_files = [\<lparr>absolute = [''a''], relative = [''a'']\<rparr>, \<lparr>absolute = [''b''], relative = [''b'']\<rparr>]\<rparr>"
        "\<lambda>s r. 1" "\<lambda>p. if p = [''a''] then Some [1, 2, 3] else Some [4]" id]
  by (auto simp: reads_all_def chunks_step)

text \<open>The result of the reading thread is dropped: when a file cannot be opened,
  \<open>finalize\<close> still reports success, with the files after it missing and the bytes that were
  still in the buffer left without a hash.\<close>

theorem unopenable_file_is_silent:
  "hasher_finalize id (\<lambda>p. if p = [''a''] then Some [1, 2, 3] else None) (\<lambda>s r. s)
     \<lparr>ph_piece_length = 2, ph_files = [\<lparr>absolute = [''a''], relative = [''a'']\<rparr>, \<lparr>absolute = [''b''], relative = [''b'']\<rparr>]\<rparr>
   = Inr ([1, 2], SingleFile \<lparr>ef_length = 3, ef_path = [''a''], ef_md5sum = None\<rparr>)"
  by (simp add: hasher_finalize_def file_handle_def read_loop.simps read_position_def buffer_step_def Let_def)

end
