(* ===== verification/Builder.thy ===== *)
theory Builder
  imports PieceHash
begin

text \<open>
  Building, saving and loading torrents: \<open>torrent/builder/*.rs\<close> and the \<open>load\<close> and \<open>save\<close> of
  \<open>bit_torrent/mod.rs\<close>. The bencode library is a pair of parameters: \<open>enc_info\<close> encodes an info
  dictionary for hashing, \<open>encode\<close> and \<open>decode\<close> convert the whole dictionary. The two builders
  have the same setters; the setters are defined once over the fields they share.
\<close>

record builder =
  b_name :: string
  b_piece_length :: u64
  b_files :: torrent_path
  b_announce :: "string option"
  b_announce_list :: "string list list option"
  b_web_seeds :: "string list option"
  b_creation_date :: "u64 option"
  b_comment :: "string option"
  b_created_by :: "string option"
  b_dht_nodes :: "torrent_addr list option"

record v1_builder = builder +
  b_private :: bool

definition V1Builder_new :: "string \<Rightarrow> path \<Rightarrow> int \<Rightarrow> v1_builder" where
  "V1Builder_new name p piece_length =
     \<lparr>b_name = name, b_piece_length = piece_length_from piece_length, b_files = TorrentPath_new p,
      b_announce = None, b_announce_list = None, b_web_seeds = None, b_creation_date = None,
      b_comment = None, b_created_by = None, b_dht_nodes = None, b_private = False\<rparr>"

definition V2Builder_new :: "string \<Rightarrow> path \<Rightarrow> int \<Rightarrow> builder" where
  "V2Builder_new name p piece_length =
     \<lparr>b_name = name, b_piece_length = piece_length_from piece_length, b_files = TorrentPath_new p,
      b_announce = None, b_announce_list = None, b_web_seeds = None, b_creation_date = None,
      b_comment = None, b_created_by = None, b_dht_nodes = None\<rparr>"

definition builder_file :: "fs_node \<Rightarrow> 'a builder_scheme \<Rightarrow> path \<Rightarrow> 'a builder_scheme" where
  "builder_file root b input = b\<lparr>b_files := path_add root (b_files b) input\<rparr>"

definition builder_files :: "fs_node \<Rightarrow> 'a builder_scheme \<Rightarrow> path list \<Rightarrow> 'a builder_scheme" where
  "builder_files root b file_paths = foldl (builder_file root) b file_paths"

definition builder_announce :: "'a builder_scheme \<Rightarrow> string \<Rightarrow> 'a builder_scheme" where
  "builder_announce b url =
     (let tiers = (case b_announce_list b of None \<Rightarrow> [[]] | Some ts \<Rightarrow> ts);
          tiers = (if tiers = [] then [[]] else tiers);
          tiers = tiers[0 := tiers ! 0 @ [url]];
          b = b\<lparr>b_announce_list := Some tiers\<rparr>
      in if b_announce b = None then b\<lparr>b_announce := Some url\<rparr> else b)"

definition builder_announce_list :: "'a builder_scheme \<Rightarrow> string list list \<Rightarrow> 'a builder_scheme" where
  "builder_announce_list b tiers =
     b\<lparr>b_announce_list := Some tiers,
       b_announce := (case tiers of [] \<Rightarrow> None | t # _ \<Rightarrow> (case t of [] \<Rightarrow> None | u # _ \<Rightarrow> Some u))\<rparr>"

definition builder_web_seeds :: "'a builder_scheme \<Rightarrow> string list option \<Rightarrow> 'a builder_scheme" where
  "builder_web_seeds b urls = b\<lparr>b_web_seeds := urls\<rparr>"

definition builder_dht_nodes ::
  "(string \<Rightarrow> sock_addr option) \<Rightarrow> 'a builder_scheme \<Rightarrow> string list option \<Rightarrow> 'a builder_scheme" where
  "builder_dht_nodes parse_socket b nodes =
     b\<lparr>b_dht_nodes := map_option (List.map_filter (\<lambda>s.
          case addr_from_str parse_socket s of Inr a \<Rightarrow> Some a | Inl _ \<Rightarrow> None)) nodes\<rparr>"

definition builder_comment :: "'a builder_scheme \<Rightarrow> string option \<Rightarrow> 'a builder_scheme" where
  "builder_comment b c = b\<lparr>b_comment := c\<rparr>"

definition builder_created_by :: "'a builder_scheme \<Rightarrow> string option \<Rightarrow> 'a builder_scheme" where
  "builder_created_by b c = b\<lparr>b_created_by := c\<rparr>"

definition builder_creation_date :: "'a builder_scheme \<Rightarrow> u64 option \<Rightarrow> 'a builder_scheme" where
  "builder_creation_date b d = b\<lparr>b_creation_date := d\<rparr>"

definition builder_private :: "v1_builder \<Rightarrow> bool \<Rightarrow> v1_builder" where
  "builder_private b v = b\<lparr>b_private := v\<rparr>"

definition v1_builder_info :: "v1_builder \<Rightarrow> bytes \<Rightarrow> bencode_mode \<Rightarrow> bencode_info" where
  "v1_builder_info b pieces mode =
     BencodeInfo_v1 (b_name b) (if b_private b then Some 1 else None) pieces (as_i64 (b_piece_length b)) mode"

definition v1_builder_info_hash ::
  "(bytes \<Rightarrow> bytes) \<Rightarrow> (bencode_info \<Rightarrow> bytes option) \<Rightarrow> v1_builder \<Rightarrow> bytes \<Rightarrow> bencode_mode \<Rightarrow> torrent_error + info_hash" where
  "v1_builder_info_hash sha1 enc_info b pieces mode =
     (case enc_info (v1_builder_info b pieces mode) of
        Some info_hash \<Rightarrow> Inr (InfoHashV1_new sha1 info_hash)
      | None \<Rightarrow> Inl (Failed ''encode''))"

definition builder_common ::
  "u64 \<Rightarrow> string \<Rightarrow> info_hash \<Rightarrow> 'a builder_scheme \<Rightarrow> torrent_common" where
  "builder_common now version ih b =
     \<lparr>tc_info_hash = ih, tc_name = b_name b, tc_announce = b_announce b,
      tc_announce_list = b_announce_list b, tc_piece_length = b_piece_length b,
      tc_creation_date = (case b_creation_date b of Some d \<Rightarrow> Some d | None \<Rightarrow> Some now),
      tc_comment = b_comment b,
      tc_created_by = (case b_created_by b of Some c \<Rightarrow> Some c | None \<Rightarrow> Some version),
      tc_web_seeds = b_web_seeds b, tc_dht_nodes = b_dht_nodes b\<rparr>"

definition builder_hasher :: "'a builder_scheme \<Rightarrow> piece_hasher" where
  "builder_hasher b =
     foldl hasher_file (PieceHasherV1_new (unat (b_piece_length b))) (path_build (b_files b))"

definition v1_build ::
  "(bytes \<Rightarrow> bytes) \<Rightarrow> (bencode_info \<Rightarrow> bytes option) \<Rightarrow> (path \<Rightarrow> bytes option) \<Rightarrow> (nat \<Rightarrow> bytes \<Rightarrow> nat)
     \<Rightarrow> u64 \<Rightarrow> string \<Rightarrow> v1_builder \<Rightarrow> torrent_error + torrent_file" where
  "v1_build sha1 enc_info open_file rd now version b =
     (case piece_length_validate (b_piece_length b) of
        Inl e \<Rightarrow> Inl e
      | Inr _ \<Rightarrow>
          if path_is_empty (b_files b) then Inl (NotValid ''the provided path contains no files'')
          else case hasher_finalize sha1 open_file rd (builder_hasher b) of
                 Inl e \<Rightarrow> Inl e
               | Inr (pieces, mode) \<Rightarrow>
                   (case v1_builder_info_hash sha1 enc_info b pieces (bencode_mode_from mode) of
                      Inl e \<Rightarrow> Inl e
                    | Inr ih \<Rightarrow>
                        Inr (TorrentFileV1 \<lparr>v1_info = builder_common now version ih b,
                               v1_private = b_private b, v1_pieces = pieces, v1_mode_of = mode\<rparr>)))"

definition v2_builder_info_hash ::
  "(bytes \<Rightarrow> bytes) \<Rightarrow> (bencode_info \<Rightarrow> bytes option) \<Rightarrow> builder \<Rightarrow> bytes \<Rightarrow> bencode_mode \<Rightarrow> torrent_error + info_hash" where
  "v2_builder_info_hash sha256 enc_info b pieces mode =
     (case enc_info (BencodeInfo_v1 (b_name b) None pieces (as_i64 (b_piece_length b)) mode) of
        Some info_hash \<Rightarrow> Inr (InfoHashV2_new sha256 info_hash)
      | None \<Rightarrow> Inl (Failed ''encode''))"

definition v2_build ::
  "(bytes \<Rightarrow> bytes) \<Rightarrow> (bytes \<Rightarrow> bytes) \<Rightarrow> (bencode_info \<Rightarrow> bytes option) \<Rightarrow> (path \<Rightarrow> bytes option) \<Rightarrow> (nat \<Rightarrow> bytes \<Rightarrow> nat)
     \<Rightarrow> u64 \<Rightarrow> string \<Rightarrow> builder \<Rightarrow> torrent_error + torrent_file" where
  "v2_build sha1 sha256 enc_info open_file rd now version b =
     (case piece_length_validate (b_piece_length b) of
        Inl e \<Rightarrow> Inl e
      | Inr _ \<Rightarrow>
          if path_is_empty (b_files b) then Inl (NotValid ''the provided path contains no files'')
          else case hasher_finalize sha1 open_file rd (builder_hasher b) of
                 Inl e \<Rightarrow> Inl e
               | Inr (pieces, mode) \<Rightarrow>
                   (case v2_builder_info_hash sha256 enc_info b pieces (bencode_mode_from mode) of
                      Inl e \<Rightarrow> Inl e
                    | Inr ih \<Rightarrow>
                        Inr (TorrentFileV2 \<lparr>v2_info = builder_common now version ih b, v2_version = Some 2,
                               v2_piece_layers = [], v2_file_tree = None, v2_flat_files = None,
                               v2_total_size = 0\<rparr>)))"

subsection \<open>Loading and saving\<close>

record net_codec =
  nc_parse_socket :: "string \<Rightarrow> sock_addr option"
  nc_show_port :: "u16 \<Rightarrow> string"
  nc_show_ip :: "ip_addr \<Rightarrow> string"
  nc_from_utf8 :: "bytes \<Rightarrow> string option"

definition apply_from_metadata ::
  "(bytes \<Rightarrow> bytes) \<Rightarrow> (bytes \<Rightarrow> bytes) \<Rightarrow> (bencode_info \<Rightarrow> bytes option) \<Rightarrow> net_codec \<Rightarrow> bencode_torrent
     \<Rightarrow> torrent_error + torrent_file" where
  "apply_from_metadata sha1 sha256 enc_info nc metadata =
     (let has_pieces = (bi_pieces (bt_info metadata) \<noteq> []);
          has_file_tree = (bi_file_tree (bt_info metadata) \<noteq> None)
      in case enc_info (bt_info metadata) of
           None \<Rightarrow> Inl (Failed ''encode'')
         | Some raw_hash \<Rightarrow>
             if has_pieces \<and> \<not> has_file_tree then
               (case v1_from_bencode (nc_parse_socket nc) (nc_show_port nc) (nc_from_utf8 nc) metadata
                       (InfoHashV1_new sha1 raw_hash) of
                  Inl e \<Rightarrow> Inl e | Inr t \<Rightarrow> Inr (TorrentFileV1 t))
             else if \<not> has_pieces \<and> has_file_tree then
               (case v2_from_bencode (nc_parse_socket nc) (nc_show_port nc) (nc_from_utf8 nc) metadata
                       (InfoHashV2_new sha256 raw_hash) of
                  Inl e \<Rightarrow> Inl e | Inr t \<Rightarrow> Inr (TorrentFileV2 t))
             else if has_pieces \<and> has_file_tree then Inl (Unsupported ''Hybrid v1+v2 not yet implemented'')
             else Inl (Unsupported ''no matching version''))"

datatype bit_torrent_error = IoError | CodecError | InvalidPath | TorrentErr torrent_error

definition torrent_load ::
  "(bytes \<Rightarrow> bytes) \<Rightarrow> (bytes \<Rightarrow> bytes) \<Rightarrow> (bencode_info \<Rightarrow> bytes option) \<Rightarrow> net_codec
     \<Rightarrow> (bytes \<Rightarrow> bencode_torrent option) \<Rightarrow> (path \<Rightarrow> bytes option) \<Rightarrow> path \<Rightarrow> bit_torrent_error + torrent_file" where
  "torrent_load sha1 sha256 enc_info nc decode disk p =
     (case disk p of
        None \<Rightarrow> Inl IoError
      | Some bs \<Rightarrow>
          (case decode bs of
             None \<Rightarrow> Inl CodecError
           | Some info \<Rightarrow>
               (case apply_from_metadata sha1 sha256 enc_info nc info of
                  Inl e \<Rightarrow> Inl (TorrentErr e) | Inr t \<Rightarrow> Inr t)))"

definition torrent_save ::
  "net_codec \<Rightarrow> (bencode_torrent \<Rightarrow> bytes option) \<Rightarrow> (path \<Rightarrow> bool) \<Rightarrow> (path \<Rightarrow> bytes option) \<Rightarrow> path \<Rightarrow> torrent_file
     \<Rightarrow> bit_torrent_error + (path \<Rightarrow> bytes option)" where
  "torrent_save nc encode writable disk p t =
     (case encode (bencode_torrent_from (nc_show_ip nc) t) of
        None \<Rightarrow> Inl CodecError
      | Some bs \<Rightarrow> if writable p then Inr (disk(p := Some bs)) else Inl IoError)"

subsection \<open>What a builder hashes\<close>

lemma foldl_hasher_file:
  "foldl hasher_file h ps = h\<lparr>ph_files := ph_files h @ map (\<lambda>(a, r). \<lparr>absolute = a, relative = r\<rparr>) ps\<rparr>"
  by (induction ps arbitrary: h) (auto simp: hasher_file_def)

lemma builder_hasher_fields [simp]:
  "ph_piece_length (builder_hasher b) = unat (b_piece_length b)"
  "ph_files (builder_hasher b) = map (\<lambda>(a, r). \<lparr>absolute = a, relative = r\<rparr>) (path_build (b_files b))"
  by (simp_all add: builder_hasher_def foldl_hasher_file PieceHasherV1_new_def)

lemma absolute_builder_files: "map absolute (ph_files (builder_hasher b)) = paths (b_files b)"
  by (simp add: path_build_def comp_def)

lemma handle_files_md5:
  "handle_files open_file rd pl fs metas st = (metas', st', r) \<Longrightarrow> (\<forall>f\<in>set metas. ef_md5sum f = None)
    \<Longrightarrow> \<forall>f\<in>set metas'. ef_md5sum f = None"
proof (induction fs arbitrary: metas st)
  case Nil
  then show ?case by simp
next
  case (Cons f fs)
  show ?case
  proof (cases "open_file (absolute f)")
    case None
    then show ?thesis using Cons.prems by simp
  next
    case (Some content)
    let ?m = "metas @ [\<lparr>ef_length = int (length content), ef_path = relative f, ef_md5sum = None\<rparr>]"
    have "handle_files open_file rd pl fs ?m (read_loop rd pl st content) = (metas', st', r)"
      using Cons.prems(1) Some by simp
    moreover have "\<forall>f\<in>set ?m. ef_md5sum f = None" using Cons.prems(2) by simp
    ultimately show ?thesis by (rule Cons.IH)
  qed
qed

definition plain_mode :: "v1_mode \<Rightarrow> bool" where
  "plain_mode mode \<longleftrightarrow> (\<forall>f\<in>set (mode_files mode). ef_md5sum f = None) \<and> (\<forall>fs. mode = MultiFile fs \<longrightarrow> length fs \<noteq> 1)"

lemma hasher_finalize_plain:
  assumes "hasher_finalize sha1 open_file rd h = Inr (pieces, mode)"
  shows "plain_mode mode"
proof -
  obtain files sent res where fh: "file_handle open_file rd (ph_piece_length h) (ph_files h) = (files, sent, res)"
    by (cases "file_handle open_file rd (ph_piece_length h) (ph_files h)")
  have mode: "mode = (if length files = 1 then SingleFile (last files) else MultiFile files)"
    using assms fh by (simp add: hasher_finalize_def Let_def)
  have "\<forall>f\<in>set files. ef_md5sum f = None"
    using fh handle_files_md5[of open_file rd "ph_piece_length h" "ph_files h" "[]"]
    by (auto simp: file_handle_def split: prod.splits sum.splits)
  then show ?thesis unfolding mode plain_mode_def by (cases files) auto
qed

lemma saved_info_is_hashed_info:
  assumes "plain_mode mode"
  shows "bencode_info_from (TorrentFileV1 \<lparr>v1_info = builder_common now version ih b, v1_private = b_private b,
            v1_pieces = pieces, v1_mode_of = mode\<rparr>) = v1_builder_info b pieces (bencode_mode_from mode)"
  using assms
  by (cases mode) (auto simp: bencode_info_from_def v1_builder_info_def BencodeInfo_v1_def builder_common_def plain_mode_def)

lemma v1_build_elim:
  assumes "v1_build sha1 enc_info open_file rd now version b = Inr t"
  obtains pieces mode raw where
    "hasher_finalize sha1 open_file rd (builder_hasher b) = Inr (pieces, mode)"
    "enc_info (v1_builder_info b pieces (bencode_mode_from mode)) = Some raw"
    "t = TorrentFileV1 \<lparr>v1_info = builder_common now version (InfoHashV1_new sha1 raw) b, v1_private = b_private b,
            v1_pieces = pieces, v1_mode_of = mode\<rparr>"
    "piece_length_validate (b_piece_length b) = Inr ()"
  using assms
  by (auto simp: v1_build_def v1_builder_info_hash_def split: sum.splits if_splits prod.splits option.splits)

subsection \<open>Builder contents\<close>

definition builder_content :: "(path \<Rightarrow> bytes option) \<Rightarrow> 'a builder_scheme \<Rightarrow> bytes" where
  "builder_content open_file b = concat (map (\<lambda>p. the (open_file p)) (paths (b_files b)))"

lemma builder_hashes:
  assumes "piece_length_validate (b_piece_length b) = Inr ()" and "reads_all rd"
    and "\<forall>p\<in>set (paths (b_files b)). open_file p \<noteq> None"
    and "hasher_finalize sha1 open_file rd (builder_hasher b) = Inr (pieces, mode)"
  shows "pieces = concat (map sha1 (chunks (unat (b_piece_length b)) (builder_content open_file b)))"
    and "map ef_length (mode_files mode) = map (\<lambda>p. int (length (the (open_file p)))) (paths (b_files b))"
proof -
  let ?fs = "ph_files (builder_hasher b)"
  let ?files = "map (\<lambda>f. \<lparr>ef_length = int (length (the (open_file (absolute f)))), ef_path = relative f, ef_md5sum = None\<rparr>) ?fs"
  let ?mode = "if length ?files = 1 then SingleFile (last ?files) else MultiFile ?files"
  have pos: "0 < ph_piece_length (builder_hasher b)"
    using piece_length_valid_bounds[OF assms(1)] by simp
  have "set (map absolute ?fs) = set (paths (b_files b))"
    by (simp only: absolute_builder_files)
  then have op: "\<forall>f\<in>set ?fs. open_file (absolute f) \<noteq> None"
    using assms(3) by (auto simp del: builder_hasher_fields)
  have abs: "map (\<lambda>f. g (absolute f)) ?fs = map g (paths (b_files b))" for g :: "path \<Rightarrow> 'x"
    by (simp only: absolute_builder_files[symmetric] map_map comp_def)
  have res: "pieces = concat (map sha1 (chunks (unat (b_piece_length b)) (concat (map (\<lambda>f. the (open_file (absolute f))) ?fs))))"
    "mode = ?mode"
    using hasher_finalize_chunks[OF pos assms(2) op, of sha1] assms(4)
    by (simp_all add: Let_def del: builder_hasher_fields(2))
  show "pieces = concat (map sha1 (chunks (unat (b_piece_length b)) (builder_content open_file b)))"
    unfolding res(1) abs[of "\<lambda>p. the (open_file p)"] builder_content_def ..
  have "mode_files ?mode = ?files" by (cases ?fs) auto
  then show "map ef_length (mode_files mode) = map (\<lambda>p. int (length (the (open_file p)))) (paths (b_files b))"
    unfolding res(2) using abs[of "\<lambda>p. int (length (the (open_file p)))"] by (simp only: map_map comp_def embeded_file.simps)
qed

lemma sum_list_int_lengths: "sum_list (map (\<lambda>p. int (length (g p))) ps) = int (length (concat (map g ps)))"
  by (induction ps) auto

lemma chunk_hash_count:
  assumes "\<forall>d. length (sha1 d) = 20" and "0 < n"
  shows "length (concat (map sha1 (chunks n xs))) = 20 * ((length xs + n - 1) div n)"
    and "chunks_exact 20 (concat (map sha1 (chunks n xs))) = map sha1 (chunks n xs)"
proof -
  have len: "length c = 20" if "c \<in> set (map sha1 (chunks n xs))" for c
    using that assms(1) by auto
  show "length (concat (map sha1 (chunks n xs))) = 20 * ((length xs + n - 1) div n)"
    using length_concat_const[of "map sha1 (chunks n xs)" 20] len assms(2) by (simp add: length_chunks)
  show "chunks_exact 20 (concat (map sha1 (chunks n xs))) = map sha1 (chunks n xs)"
    using chunks_exact_concat_const[of 20 "map sha1 (chunks n xs)"] len by simp
qed

lemma piece_count_small:
  fixes n pl :: nat
  assumes "n + 2 ^ 27 < 2 ^ 64" and "2 ^ 14 \<le> pl" and "pl \<le> 2 ^ 27"
  shows "20 * ((n + pl - 1) div pl) < 2 ^ 64"
proof -
  have "(n + pl - 1) div pl \<le> (n + pl - 1) div 2 ^ 14"
    using assms(2) by (intro div_le_mono2) simp_all
  also have "\<dots> \<le> 2 ^ 64 div 2 ^ 14" using assms by (intro div_le_mono) linarith
  finally show ?thesis by simp
qed

lemma built_v1:
  assumes build: "v1_build sha1 enc_info open_file rd now version b = Inr t"
    and rd: "reads_all rd" and op: "\<forall>p\<in>set (paths (b_files b)). open_file p \<noteq> None"
  obtains v where "t = TorrentFileV1 v" "tc_piece_length (v1_info v) = b_piece_length b"
    "piece_length_validate (b_piece_length b) = Inr ()"
    "v1_pieces v = concat (map sha1 (chunks (unat (b_piece_length b)) (builder_content open_file b)))"
    "map ef_length (mode_files (v1_mode_of v)) = map (\<lambda>p. int (length (the (open_file p)))) (paths (b_files b))"
proof -
  obtain pieces mode raw where hf: "hasher_finalize sha1 open_file rd (builder_hasher b) = Inr (pieces, mode)"
    and t: "t = TorrentFileV1 \<lparr>v1_info = builder_common now version (InfoHashV1_new sha1 raw) b,
        v1_private = b_private b, v1_pieces = pieces, v1_mode_of = mode\<rparr>"
    and pl: "piece_length_validate (b_piece_length b) = Inr ()"
    using v1_build_elim[OF build] by metis
  show thesis
    using that[OF t] pl builder_hashes[OF pl rd op hf] by (simp add: builder_common_def)
qed

lemma built_content_length:
  "map ef_length (mode_files (v1_mode_of v)) = map (\<lambda>p. int (length (the (open_file p)))) (paths (b_files b))
    \<Longrightarrow> content_length v = length (builder_content open_file b)"
  using sum_list_int_lengths[of "\<lambda>p. the (open_file p)"]
  by (simp add: content_length_def builder_content_def)

lemma built_sizes_sane:
  assumes lens: "map ef_length (mode_files (v1_mode_of v)) = map (\<lambda>p. int (length (the (open_file p)))) (paths (b_files b))"
    and small: "length (builder_content open_file b) + 2 ^ 27 < 2 ^ 64" and p: "length (v1_pieces v) < 2 ^ 64"
  shows "sizes_sane v"
proof -
  have "0 \<le> ef_length f" if "f \<in> set (mode_files (v1_mode_of v))" for f
  proof -
    have "ef_length f \<in> set (map ef_length (mode_files (v1_mode_of v)))" using that by simp
    then show ?thesis unfolding lens by auto
  qed
  then show ?thesis
    using small p built_content_length[OF lens] by (simp add: sizes_sane_def content_length_def)
qed

text \<open>A torrent with the hashes of the content, however it was obtained, accepts that content.\<close>

lemma v1_accepts_content:
  assumes ok: "piece_length_validate (tc_piece_length (v1_info v)) = Inr ()"
    and pieces: "v1_pieces v = concat (map sha1 (chunks (unat (tc_piece_length (v1_info v))) (builder_content open_file b)))"
    and lens: "map ef_length (mode_files (v1_mode_of v)) = map (\<lambda>p. int (length (the (open_file p)))) (paths (b_files b))"
    and sha: "\<forall>d. length (sha1 d) = 20" and some: "builder_content open_file b \<noteq> []"
    and small: "length (builder_content open_file b) + 2 ^ 27 < 2 ^ 64"
  shows "torrent_validate sha256 (TorrentFileV1 v) = Inr () \<and>
     (\<forall>index. unat index < length (chunks (unat (tc_piece_length (v1_info v))) (builder_content open_file b)) \<longrightarrow>
        verify_hash sha1 sha256 (TorrentFileV1 v) index (chunks (unat (tc_piece_length (v1_info v))) (builder_content open_file b) ! unat index) = Inr ())"
proof -
  let ?pl = "unat (tc_piece_length (v1_info v))" and ?xs = "builder_content open_file b"
  note b = piece_length_valid_bounds(3,2,1)[OF ok]
  have hashes: "length (v1_pieces v) = 20 * ((length ?xs + ?pl - 1) div ?pl)"
      "chunks_exact 20 (v1_pieces v) = map sha1 (chunks ?pl ?xs)"
    unfolding pieces using chunk_hash_count[OF sha b(3)] by auto
  have "length (v1_pieces v) < 2 ^ 64"
    unfolding hashes(1) by (rule piece_count_small[OF small b(1,2)])
  then have sane: "sizes_sane v" by (rule built_sizes_sane[OF lens small])
  have "v1_validate v = Inr ()"
    unfolding v1_validate_cases[OF sane] built_content_length[OF lens] using ok hashes(1) some by simp
  then show ?thesis by (simp add: v1_verify_hash_def v1_piece_hashes_def hashes(2) Let_def)
qed

subsection \<open>Properties\<close>

text \<open>A version-one torrent built from readable files with some content is accepted by its own
  validation, and each piece of the content, in order, passes \<open>verify_hash\<close> under its index.\<close>

lemma built_torrent_accepts_its_content:
  assumes build: "v1_build sha1 enc_info open_file rd now version b = Inr t"
    and rd: "reads_all rd" and op: "\<forall>p\<in>set (paths (b_files b)). open_file p \<noteq> None"
    and sha: "\<forall>d. length (sha1 d) = 20"
    and some: "builder_content open_file b \<noteq> []"
    and small: "length (builder_content open_file b) + 2 ^ 27 < 2 ^ 64"
  shows "torrent_validate sha256 t = Inr () \<and>
     (\<forall>index. unat index < length (chunks (unat (b_piece_length b)) (builder_content open_file b)) \<longrightarrow>
        verify_hash sha1 sha256 t index (chunks (unat (b_piece_length b)) (builder_content open_file b) ! unat index) = Inr ())"
proof -
  obtain v where t: "t = TorrentFileV1 v" and pl: "tc_piece_length (v1_info v) = b_piece_length b"
    and ok: "piece_length_validate (b_piece_length b) = Inr ()"
    and pieces: "v1_pieces v = concat (map sha1 (chunks (unat (b_piece_length b)) (builder_content open_file b)))"
    and lens: "map ef_length (mode_files (v1_mode_of v)) = map (\<lambda>p. int (length (the (open_file p)))) (paths (b_files b))"
    by (rule built_v1[OF build rd op])
  show ?thesis
    using v1_accepts_content[OF _ _ lens sha some small] pl ok pieces by (simp add: t)
qed

definition sample_builder :: v1_builder where
  "sample_builder =
     builder_files (Directory [(''d'', Directory [(''a'', RegularFile), (''b'', RegularFile)])])
       (V1Builder_new ''t'' [''d''] 16384) [[''d'']]"

definition sample_open :: "path \<Rightarrow> bytes option" where
  "sample_open p = (if p = [''d'', ''a''] then Some [1, 2] else if p = [''d'', ''b''] then Some [3] else None)"

lemma sample_builder_simps [simp]:
  "paths (b_files sample_builder) = [[''d'', ''a''], [''d'', ''b'']]" "b_piece_length sample_builder = 16384"
  "b_private sample_builder = False" "builder_content sample_open sample_builder = [1, 2, 3]"
  by (simp_all add: sample_builder_def builder_files_def builder_file_def V1Builder_new_def TorrentPath_new_def
      path_add_def piece_length_from_def as_u64_def builder_content_def sample_open_def)

lemma sample_builds:
  "\<exists>t. v1_build (\<lambda>d. replicate 20 (hd (d @ [0]))) (\<lambda>i. Some []) sample_open (\<lambda>s r. s) 0 ''v'' sample_builder = Inr t"
proof -
  have pl: "piece_length_validate (b_piece_length sample_builder) = Inr ()"
    by (simp add: piece_length_valid_nat) (intro exI[of _ 14], simp)
  obtain pieces mode where
    "hasher_finalize (\<lambda>d. replicate 20 (hd (d @ [0]))) sample_open (\<lambda>s r. s) (builder_hasher sample_builder) = Inr (pieces, mode)"
    using hasher_finalize_total by blast
  then show ?thesis
    using pl by (simp add: v1_build_def path_is_empty_def v1_builder_info_hash_def)
qed

lemma as_u64_piece_length [simp]: "piece_length_from (as_i64 w) = w"
  by (simp add: piece_length_from_def)

lemma load_saved:
  assumes "torrent_save nc encode writable disk p t = Inr disk'"
    and "\<forall>m bs. encode m = Some bs \<longrightarrow> decode bs = Some m"
  shows "torrent_load sha1 sha256 enc_info nc decode disk' p =
     (case apply_from_metadata sha1 sha256 enc_info nc (bencode_torrent_from (nc_show_ip nc) t) of
        Inl e \<Rightarrow> Inl (TorrentErr e) | Inr t' \<Rightarrow> Inr t')"
  using assms by (auto simp: torrent_save_def torrent_load_def split: option.splits if_splits)

lemma bt_info_from [simp]: "bt_info (bencode_torrent_from sip t) = bencode_info_from t"
  by (simp add: bencode_torrent_from_def Let_def)

lemma apply_built:
  assumes build: "v1_build sha1 enc_info open_file rd now version b = Inr t" and "raw_pieces t \<noteq> []"
  shows "\<exists>t'. apply_from_metadata sha1 sha256 enc_info nc (bencode_torrent_from sip t) = Inr t'
     \<and> tc_info_hash (torrent_common_of t') = tc_info_hash (torrent_common_of t)
     \<and> raw_pieces t' = raw_pieces t \<and> is_private t' = is_private t
     \<and> tc_piece_length (torrent_common_of t') = tc_piece_length (torrent_common_of t)
     \<and> tc_name (torrent_common_of t') = tc_name (torrent_common_of t)
     \<and> map ef_length (torrent_files t') = map ef_length (torrent_files t)"
proof -
  obtain pieces mode raw where fin: "hasher_finalize sha1 open_file rd (builder_hasher b) = Inr (pieces, mode)"
    and enc: "enc_info (v1_builder_info b pieces (bencode_mode_from mode)) = Some raw"
    and t: "t = TorrentFileV1 \<lparr>v1_info = builder_common now version (InfoHashV1_new sha1 raw) b,
        v1_private = b_private b, v1_pieces = pieces, v1_mode_of = mode\<rparr>"
    by (rule v1_build_elim[OF build])
  have info: "bencode_info_from t = v1_builder_info b pieces (bencode_mode_from mode)"
    unfolding t by (rule saved_info_is_hashed_info[OF hasher_finalize_plain[OF fin]])
  have lens: "map ef_length (mode_files (from_bencode_mode (bencode_mode_from mode) n)) = map ef_length (mode_files mode)" for n
    by (cases mode) (auto simp: embeded_from_def file_info_from_def)
  have "pieces \<noteq> []" using assms(2) by (simp add: t)
  then show ?thesis
    using enc unfolding apply_from_metadata_def v1_from_bencode_def common_from_def bt_info_from info Let_def
    by (simp add: v1_builder_info_def t builder_common_def lens)
qed

text \<open>A torrent that was built and saved loads again as a torrent with the same info hash,
  name, piece length, piece hashes, privacy flag and file lengths; the bencode library is only
  assumed to decode what it encoded.\<close>

lemma save_load_keeps_info_hash:
  assumes "v1_build sha1 enc_info open_file rd now version b = Inr t" and "raw_pieces t \<noteq> []"
    and "torrent_save nc encode writable disk p t = Inr disk'"
    and "\<forall>m bs. encode m = Some bs \<longrightarrow> decode bs = Some m"
  shows "\<exists>t'. torrent_load sha1 sha256 enc_info nc decode disk' p = Inr t'
     \<and> tc_info_hash (torrent_common_of t') = tc_info_hash (torrent_common_of t)
     \<and> raw_pieces t' = raw_pieces t \<and> is_private t' = is_private t
     \<and> tc_piece_length (torrent_common_of t') = tc_piece_length (torrent_common_of t)
     \<and> tc_name (torrent_common_of t') = tc_name (torrent_common_of t)
     \<and> map ef_length (torrent_files t') = map ef_length (torrent_files t)"
  using apply_built[OF assms(1,2), of sha256 nc "nc_show_ip nc"] unfolding load_saved[OF assms(3,4)] by auto

definition sample_codec :: net_codec where
  "sample_codec = \<lparr>nc_parse_socket = (\<lambda>_. None), nc_show_port = (\<lambda>_. ''0''), nc_show_ip = (\<lambda>_. ''ip''), nc_from_utf8 = (\<lambda>_. None)\<rparr>"

text \<open>The version-two builder returns a torrent that its own validation refuses and that,
  once saved, cannot be loaded, for the dictionary it writes has neither pieces nor a tree.\<close>

lemma built_v2_is_unusable:
  assumes "v2_build sha1 sha256 enc_info open_file rd now version b = Inr t"
    and "torrent_save nc encode writable disk p t = Inr disk'"
    and "\<forall>m bs. encode m = Some bs \<longrightarrow> decode bs = Some m" and "\<forall>i. enc_info i \<noteq> None"
  shows "torrent_validate sha256 t = Inl (NotValid ''file tree did not compose'') \<and>
     torrent_load sha1 sha256 enc_info nc decode disk' p = Inl (TorrentErr (Unsupported ''no matching version''))"
proof -
  obtain v where t: "t = TorrentFileV2 v" "v2_file_tree v = None"
    using assms(1) by (auto simp: v2_build_def split: sum.splits if_splits prod.splits)
  have "bi_pieces (bencode_info_from t) = []" "bi_file_tree (bencode_info_from t) = None"
    by (simp_all add: t bencode_info_from_def Let_def)
  then have "apply_from_metadata sha1 sha256 enc_info nc (bencode_torrent_from (nc_show_ip nc) t)
      = Inl (Unsupported ''no matching version'')"
    using assms(4) by (simp add: apply_from_metadata_def Let_def split: option.split)
  then show ?thesis
    unfolding load_saved[OF assms(2,3)] by (simp add: t v2_validate_def)
qed

definition sample_builder_v2 :: builder where
  "sample_builder_v2 = builder_file (Directory [(''a'', RegularFile)]) (V2Builder_new ''t'' [] 16384) [''a'']"

text \<open>Saving a torrent that was loaded with a checksum of its single file drops the checksum, so
  the saved info dictionary, and with it the info hash, is another one.\<close>

lemma resaving_drops_md5sum:
  assumes "bi_md5sum (bt_info m) = Some c" and "apply_from_metadata sha1 sha256 enc_info nc m = Inr t"
  shows "bencode_info_from t \<noteq> bt_info m"
proof
  assume "bencode_info_from t = bt_info m"
  moreover have "bi_md5sum (bencode_info_from t) = None" by (simp add: bencode_info_from_def Let_def)
  ultimately show False using assms(1) by simp
qed

end
