(* ===== verification/Paths.thy ===== *)
theory Paths
  imports PieceHash "HOL-Library.Sublist"
begin

text \<open>
  Paths as the standard library builds them: \<open>PathBuf::push\<close>, \<open>join\<close>, \<open>parent\<close> and \<open>file_name\<close> on lists of
  components (an absolute path starts with \<open>''/''\<close>), \<open>EmbededFile::to_path\<close> of
  \<open>torrent/metainfo/v1.rs\<close>, and the place a path names when the parent directories in it are
  followed. Names made of plain components stay below the directory they are joined to; a
  component that is absolute, or that names the parent, leaves it.
\<close>

text \<open>\<open>str::split\<close> with a character.\<close>

fun split_on :: "char \<Rightarrow> string \<Rightarrow> string list" where
  "split_on c [] = [[]]"
| "split_on c (x # xs) =
     (if x = c then [] # split_on c xs
      else case split_on c xs of [] \<Rightarrow> [[x]] | w # ws \<Rightarrow> (x # w) # ws)"

definition starts_at_root :: "string \<Rightarrow> bool" where
  "starts_at_root s \<longleftrightarrow> s \<noteq> [] \<and> hd s = CHR ''/''"

definition push_path :: "path \<Rightarrow> string \<Rightarrow> path" where
  "push_path p s =
     (let parts = filter (\<lambda>c. c \<noteq> []) (split_on (CHR ''/'') s)
      in if starts_at_root s then [''/''] @ parts else p @ parts)"

definition join_path :: "path \<Rightarrow> path \<Rightarrow> path" where
  "join_path base p = (if p \<noteq> [] \<and> hd p = ''/'' then p else base @ p)"

definition path_parent :: "path \<Rightarrow> path option" where
  "path_parent p = (if p = [] \<or> p = [''/''] then None else Some (butlast p))"

definition path_file_name :: "path \<Rightarrow> string option" where
  "path_file_name p = (if p = [] \<or> last p \<in> {''/'', ''..''} then None else Some (last p))"

definition to_path :: "embeded_file \<Rightarrow> path" where
  "to_path f = foldl push_path [] (ef_path f)"

text \<open>Following \<open>.\<close> and \<open>..\<close>; at the root the parent is the root itself.\<close>

definition resolve_step :: "path \<Rightarrow> string \<Rightarrow> path" where
  "resolve_step p c =
     (if c = ''/'' then [''/''] else if c = ''.'' then p
      else if c = ''..'' then (if p = [] \<or> last p = ''..'' then p @ [''..''] else if p = [''/''] then p else butlast p)
      else p @ [c])"

definition resolve_path :: "path \<Rightarrow> path" where
  "resolve_path p = foldl resolve_step [] p"

subsection \<open>Plain components\<close>

definition plain :: "string \<Rightarrow> bool" where
  "plain s \<longleftrightarrow> s \<noteq> [] \<and> s \<noteq> ''.'' \<and> s \<noteq> ''..'' \<and> CHR ''/'' \<notin> set s"

lemma split_on_none: "c \<notin> set s \<Longrightarrow> split_on c s = [s]"
  by (induction s) auto

lemma split_on_not_Nil [simp]: "split_on c s \<noteq> []"
  by (induction c s rule: split_on.induct) (auto split: list.split)

lemma split_on_append: "c \<notin> set w \<Longrightarrow> split_on c (w @ c # s) = w # split_on c s"
  by (induction w) auto

lemma push_simple: "s \<noteq> [] \<Longrightarrow> CHR ''/'' \<notin> set s \<Longrightarrow> push_path p s = p @ [s]"
  by (cases s) (auto simp: push_path_def starts_at_root_def split_on_none)

lemma push_simples: "\<forall>s\<in>set ss. s \<noteq> [] \<and> CHR ''/'' \<notin> set s \<Longrightarrow> foldl push_path p ss = p @ ss"
  by (induction ss arbitrary: p) (auto simp: push_simple)

lemma to_path_simple: "\<forall>s\<in>set (ef_path f). s \<noteq> [] \<and> CHR ''/'' \<notin> set s \<Longrightarrow> to_path f = ef_path f"
  by (simp add: to_path_def push_simples)

lemma to_path_plain: "list_all plain (ef_path f) \<Longrightarrow> to_path f = ef_path f"
  by (auto simp: list_all_iff plain_def intro: to_path_simple)

lemma join_plain: "list_all plain p \<Longrightarrow> join_path base p = base @ p"
  by (cases p) (auto simp: join_path_def plain_def)

lemma resolve_plain: "list_all plain p \<Longrightarrow> foldl resolve_step q p = q @ p"
  by (induction p arbitrary: q) (auto simp: resolve_step_def plain_def)

lemma resolve_append: "resolve_path (p @ q) = foldl resolve_step (resolve_path p) q"
  by (simp add: resolve_path_def)

text \<open>A path that names its place without detours.\<close>

definition rooted :: "path \<Rightarrow> bool" where
  "rooted p \<longleftrightarrow> (\<exists>cs. p = ''/'' # cs \<and> list_all plain cs)"

lemma resolve_rooted [simp]: "rooted p \<Longrightarrow> resolve_path p = p"
  by (auto simp: rooted_def resolve_path_def resolve_step_def resolve_plain)

lemma rooted_append: "rooted p \<Longrightarrow> list_all plain q \<Longrightarrow> rooted (p @ q)"
  by (auto simp: rooted_def)

lemma resolve_parents: "rooted p \<Longrightarrow> length p \<le> Suc n \<Longrightarrow> foldl resolve_step p (replicate n ''..'') = [''/'']"
proof (induction n arbitrary: p)
  case 0
  then show ?case by (auto simp: rooted_def)
next
  case (Suc n)
  obtain cs where cs: "p = ''/'' # cs" "list_all plain cs" using Suc.prems(1) by (auto simp: rooted_def)
  have dots: "last p \<noteq> ''..''" using cs by (auto simp: list_all_iff plain_def split: if_splits)
  show ?case
  proof (cases "cs = []")
    case True
    then show ?thesis using Suc.IH[of p] Suc.prems(1) cs by (simp add: resolve_step_def)
  next
    case False
    then have "rooted (butlast p)" using cs by (auto simp: rooted_def list_all_iff dest: in_set_butlastD)
    then show ?thesis using Suc.IH[of "butlast p"] Suc.prems(2) cs dots False by (simp add: resolve_step_def)
  qed
qed

text \<open>Where the files of a torrent are opened.\<close>

lemma plain_path_stays:
  assumes "list_all plain (ef_path f)"
  shows "resolve_path (join_path base (to_path f)) = resolve_path base @ ef_path f"
  using assms by (simp add: to_path_plain join_plain resolve_append resolve_plain)

lemma parent_path_escapes:
  assumes "rooted base" and "list_all plain cs" and "ef_path f = replicate (length base) ''..'' @ cs"
  shows "resolve_path (join_path base (to_path f)) = ''/'' # cs"
proof -
  have "s \<noteq> [] \<and> CHR ''/'' \<notin> set s" if "s \<in> set (ef_path f)" for s
  proof (cases "s \<in> set cs")
    case True
    then show ?thesis using assms(2) by (simp add: list_all_iff plain_def)
  next
    case False
    then have "s = ''..''" using that by (simp add: assms(3))
    then show ?thesis by simp
  qed
  then have "to_path f = ef_path f" by (blast intro: to_path_simple)
  moreover have "join_path base (ef_path f) = base @ ef_path f"
    using assms(1) unfolding assms(3) by (auto simp: join_path_def rooted_def)
  ultimately show ?thesis using assms resolve_parents[of base "length base"]
    by (simp add: resolve_append resolve_plain)
qed

lemma absolute_path_escapes:
  assumes "ef_path f = pre @ [s]" and "starts_at_root s"
  shows "join_path base (to_path f) = ''/'' # filter (\<lambda>c. c \<noteq> []) (split_on (CHR ''/'') s)"
  using assms by (simp add: to_path_def push_path_def join_path_def)

end
