(* ===== verification/Chunks.thy ===== *)
theory Chunks
  imports Paths
begin

text \<open>
  Reading and writing pieces that span files: \<open>chunks/file_handler.rs\<close>, \<open>chunks/mod.rs\<close> and
  \<open>preallocate\<close> of \<open>utils/bqti.rs\<close>. A file handle is the number of an inode; the disk maps inodes
  to contents, \<open>None\<close> for one whose operations fail. Offsets and sizes are natural numbers whose
  sums, products and differences wrap at 64 bits, as they do in a release build (in a checked build
  a wrap is a panic); the lemmas state the bounds under which nothing wraps. A handler carries the
  mode it was opened in, as the type parameter of the source does: only a seeding handler reads and
  only a downloading one writes. The operating system's \<open>fallocate\<close> is a parameter, and so is the
  number of bytes that a read or a write of the system transfers, which the source does not look at.
  Under whole transfers the handler is shown to implement an array of pieces.
\<close>

subsection \<open>Arithmetic of 64 bits\<close>

definition add64 :: "nat \<Rightarrow> nat \<Rightarrow> nat" where
  "add64 a b = (a + b) mod 2 ^ 64"

definition sub64 :: "nat \<Rightarrow> nat \<Rightarrow> nat" where
  "sub64 a b = (a + (2 ^ 64 - b)) mod 2 ^ 64"

definition mul64 :: "nat \<Rightarrow> nat \<Rightarrow> nat" where
  "mul64 a b = a * b mod 2 ^ 64"

lemma add64_exact: "a + b < 2 ^ 64 \<Longrightarrow> add64 a b = a + b"
  by (simp add: add64_def)

lemma mul64_exact: "a * b < 2 ^ 64 \<Longrightarrow> mul64 a b = a * b"
  by (simp add: mul64_def)

lemma sub64_exact: "b \<le> a \<Longrightarrow> a < 2 ^ 64 \<Longrightarrow> sub64 a b = a - b"
  by (simp add: sub64_def mod_if)

subsection \<open>Handlers\<close>

datatype chunk_handler_error = ChunkIo | ThreadFailed | OutOfBounds u32

type_synonym disk = "nat \<Rightarrow> bytes option"

record file_chunk =
  handle :: nat
  start_byte :: nat
  chunk_length :: nat

definition FileChunk_new :: "nat \<Rightarrow> nat \<Rightarrow> nat \<Rightarrow> file_chunk" where
  "FileChunk_new h s l = \<lparr>handle = h, start_byte = s, chunk_length = l\<rparr>"

datatype downloading = DownloadingMode

datatype seeding = SeedingMode

record 's multi_file_handler =
  targets :: "file_chunk list"
  mf_piece_length :: nat
  total_length :: nat
  mf_state :: 's

subsection \<open>Opening\<close>

record fs_names =
  fs_is_file :: "path \<Rightarrow> bool"
  fs_inode :: "path \<Rightarrow> nat option"

definition full_path :: "fs_names \<Rightarrow> path \<Rightarrow> embeded_file \<Rightarrow> path" where
  "full_path fs base embedded = (if fs_is_file fs base then base else join_path base (to_path embedded))"

lemmas full_path_eval = full_path_def join_path_def to_path_def push_path_def starts_at_root_def

fun seed_loop :: "fs_names \<Rightarrow> disk \<Rightarrow> path \<Rightarrow> embeded_file list \<Rightarrow> file_chunk list \<Rightarrow> nat
     \<Rightarrow> chunk_handler_error + (file_chunk list \<times> nat)" where
  "seed_loop fs d base [] ts current_offset = Inr (ts, current_offset)"
| "seed_loop fs d base (embedded # rest) ts current_offset =
     (case fs_inode fs (full_path fs base embedded) of
        None \<Rightarrow> Inl ChunkIo
      | Some inode \<Rightarrow>
          (case d inode of
             None \<Rightarrow> Inl ChunkIo
           | Some content \<Rightarrow>
               seed_loop fs d base rest (ts @ [FileChunk_new inode current_offset (length content)])
                 (add64 current_offset (length content))))"

definition handler_seed :: "fs_names \<Rightarrow> disk \<Rightarrow> path \<Rightarrow> u64 \<Rightarrow> embeded_file list \<Rightarrow> chunk_handler_error + seeding multi_file_handler" where
  "handler_seed fs d base piece_length files =
     (case seed_loop fs d base files [] 0 of
        Inl e \<Rightarrow> Inl e
      | Inr (ts, off) \<Rightarrow> Inr \<lparr>targets = ts, mf_piece_length = unat piece_length, total_length = off, mf_state = SeedingMode\<rparr>)"

datatype fallocate_result = FallocateOk | EOPNOTSUPP | OtherErrno

definition set_min_length :: "nat \<Rightarrow> bytes \<Rightarrow> bytes" where
  "set_min_length n c = c @ replicate (n - length c) 0"

definition set_len :: "nat \<Rightarrow> bytes \<Rightarrow> bytes" where
  "set_len n c = take n c @ replicate (n - length c) 0"

definition preallocate :: "(int \<Rightarrow> fallocate_result) \<Rightarrow> bytes \<Rightarrow> u64 \<Rightarrow> chunk_handler_error + bytes" where
  "preallocate fallocate content len =
     (case fallocate (as_i64 len) of
        FallocateOk \<Rightarrow> Inr (set_min_length (unat len) content)
      | EOPNOTSUPP \<Rightarrow> Inr (set_len (unat len) content)
      | OtherErrno \<Rightarrow> Inl ChunkIo)"

text \<open>\<open>download\<close>: \<open>create\<close> names the inode that opening the path with the create flag yields, or
  fails (a missing parent directory that cannot be made is such a failure).\<close>

fun download_loop :: "(int \<Rightarrow> fallocate_result) \<Rightarrow> fs_names \<Rightarrow> disk \<Rightarrow> path \<Rightarrow> embeded_file list \<Rightarrow> file_chunk list \<Rightarrow> nat
     \<Rightarrow> (chunk_handler_error + (file_chunk list \<times> nat)) \<times> disk" where
  "download_loop fallocate fs d base [] ts current_offset = (Inr (ts, current_offset), d)"
| "download_loop fallocate fs d base (embedded # rest) ts current_offset =
     (case fs_inode fs (full_path fs base embedded) of
        None \<Rightarrow> (Inl ChunkIo, d)
      | Some inode \<Rightarrow>
          let content = (case d inode of None \<Rightarrow> [] | Some c \<Rightarrow> c);
              len = as_u64 (ef_length embedded)
          in case preallocate fallocate content len of
               Inl e \<Rightarrow> (Inl e, d(inode := Some content))
             | Inr content \<Rightarrow>
                 download_loop fallocate fs (d(inode := Some content)) base rest
                   (ts @ [FileChunk_new inode current_offset (unat len)]) (add64 current_offset (unat len)))"

definition handler_download :: "(int \<Rightarrow> fallocate_result) \<Rightarrow> fs_names \<Rightarrow> disk \<Rightarrow> path \<Rightarrow> u64 \<Rightarrow> embeded_file list
     \<Rightarrow> (chunk_handler_error + downloading multi_file_handler) \<times> disk" where
  "handler_download fallocate fs d base piece_length files =
     (case download_loop fallocate fs d base files [] 0 of
        (Inl e, d) \<Rightarrow> (Inl e, d)
      | (Inr (ts, off), d) \<Rightarrow>
          (Inr \<lparr>targets = ts, mf_piece_length = unat piece_length, total_length = off, mf_state = DownloadingMode\<rparr>, d))"

subsection \<open>Overlaps\<close>

record overlap =
  file_offset :: nat
  buffer_offset :: nat
  overlap_size :: nat

definition piece_overlap :: "nat \<Rightarrow> nat \<Rightarrow> nat \<Rightarrow> nat \<Rightarrow> overlap option" where
  "piece_overlap target_start target_length piece_start piece_end =
     (let file_end = add64 target_start target_length
      in if piece_end \<le> target_start \<or> file_end \<le> piece_start then None
         else let overlap_start = max target_start piece_start;
                  overlap_end = min piece_end file_end
              in Some \<lparr>file_offset = sub64 overlap_start target_start,
                       buffer_offset = sub64 overlap_start piece_start,
                       overlap_size = sub64 overlap_end overlap_start\<rparr>)"

text \<open>How many bytes the system transfers when it is asked for a number of bytes of an inode at an
  offset. The count that \<open>read_at\<close> and \<open>write_at\<close> return is dropped in the source: what was not read
  stays zero in the buffer, and what was not written is not written.\<close>

type_synonym transfer = "nat \<Rightarrow> nat \<Rightarrow> nat \<Rightarrow> nat"

definition whole :: transfer where
  "whole inode off n = n"

definition read_at :: "transfer \<Rightarrow> disk \<Rightarrow> nat \<Rightarrow> nat \<Rightarrow> nat \<Rightarrow> chunk_handler_error + bytes" where
  "read_at transferred d inode n off =
     (case d inode of
        None \<Rightarrow> Inl ChunkIo
      | Some content \<Rightarrow>
          let got = take (transferred inode off n) (take n (drop off content)) in Inr (got @ replicate (n - length got) 0))"

definition copy_slice :: "bytes \<Rightarrow> nat \<Rightarrow> bytes \<Rightarrow> bytes" where
  "copy_slice buf off chunk = take off buf @ chunk @ drop (off + length chunk) buf"

definition write_at :: "transfer \<Rightarrow> disk \<Rightarrow> nat \<Rightarrow> bytes \<Rightarrow> nat \<Rightarrow> (chunk_handler_error + unit) \<times> disk" where
  "write_at transferred d inode data off =
     (case d inode of
        None \<Rightarrow> (Inl ChunkIo, d)
      | Some content \<Rightarrow>
          let sent = take (transferred inode off (length data)) data
          in (Inr (), if sent = [] then d else d(inode := Some (copy_slice (content @ replicate (off - length content) 0) off sent))))"

subsection \<open>Reading and writing a piece\<close>

fun read_targets :: "transfer \<Rightarrow> disk \<Rightarrow> nat \<Rightarrow> nat \<Rightarrow> file_chunk list \<Rightarrow> bytes \<Rightarrow> chunk_handler_error + bytes" where
  "read_targets transferred d piece_start piece_end [] buf = Inr buf"
| "read_targets transferred d piece_start piece_end (target # ts) buf =
     (case piece_overlap (start_byte target) (chunk_length target) piece_start piece_end of
        None \<Rightarrow> read_targets transferred d piece_start piece_end ts buf
      | Some ov \<Rightarrow>
          (case read_at transferred d (handle target) (overlap_size ov) (file_offset ov) of
             Inl e \<Rightarrow> Inl e
           | Inr chunk \<Rightarrow> read_targets transferred d piece_start piece_end ts (copy_slice buf (buffer_offset ov) chunk)))"

definition read_piece_io :: "transfer \<Rightarrow> seeding multi_file_handler \<Rightarrow> disk \<Rightarrow> u32 \<Rightarrow> chunk_handler_error + bytes" where
  "read_piece_io transferred h d index =
     (let piece_start = mul64 (unat index) (mf_piece_length h);
          piece_end = min (add64 piece_start (mf_piece_length h)) (total_length h)
      in if total_length h \<le> piece_start then Inl (OutOfBounds index)
         else read_targets transferred d piece_start piece_end (targets h) (replicate (sub64 piece_end piece_start) 0))"

text \<open>The writes of one piece are tasks that all run; the first failure in target order is
  reported. A slice out of range panics its task.\<close>

fun write_targets :: "transfer \<Rightarrow> nat \<Rightarrow> nat \<Rightarrow> bytes \<Rightarrow> file_chunk list \<Rightarrow> disk \<Rightarrow> (chunk_handler_error + unit) \<times> disk" where
  "write_targets transferred piece_start piece_end data [] d = (Inr (), d)"
| "write_targets transferred piece_start piece_end data (target # ts) d =
     (case piece_overlap (start_byte target) (chunk_length target) piece_start piece_end of
        None \<Rightarrow> write_targets transferred piece_start piece_end data ts d
      | Some ov \<Rightarrow>
          (case (if length data < buffer_offset ov + overlap_size ov then (Inl ThreadFailed, d)
                 else write_at transferred d (handle target) (take (overlap_size ov) (drop (buffer_offset ov) data)) (file_offset ov)) of
             (r, d) \<Rightarrow>
               (case write_targets transferred piece_start piece_end data ts d of
                  (r', d) \<Rightarrow> (case r of Inl e \<Rightarrow> (Inl e, d) | Inr _ \<Rightarrow> (r', d)))))"

definition write_piece_io :: "transfer \<Rightarrow> downloading multi_file_handler \<Rightarrow> disk \<Rightarrow> u32 \<Rightarrow> bytes \<Rightarrow> (chunk_handler_error + unit) \<times> disk" where
  "write_piece_io transferred h d index data =
     (let piece_start = mul64 (unat index) (mf_piece_length h);
          piece_end = add64 piece_start (length data)
      in if total_length h \<le> piece_start then (Inl (OutOfBounds index), d)
         else write_targets transferred piece_start piece_end data (targets h) d)"

text \<open>The rest of the development assumes a system that transfers every request whole (short only at
  the end of a file), as the source does.\<close>

definition read_piece :: "seeding multi_file_handler \<Rightarrow> disk \<Rightarrow> u32 \<Rightarrow> chunk_handler_error + bytes" where
  "read_piece = read_piece_io whole"

definition write_piece :: "downloading multi_file_handler \<Rightarrow> disk \<Rightarrow> u32 \<Rightarrow> bytes \<Rightarrow> (chunk_handler_error + unit) \<times> disk" where
  "write_piece = write_piece_io whole"

lemmas read_piece_eval = read_piece_def read_piece_io_def read_at_def whole_def piece_overlap_def copy_slice_def add64_def sub64_def mul64_def Let_def
lemmas write_piece_eval = write_piece_def write_piece_io_def write_at_def whole_def piece_overlap_def copy_slice_def add64_def sub64_def mul64_def Let_def

text \<open>The system may transfer less than it was asked to, and \<open>write_piece\<close> still reports success: in
  the extreme nothing reaches the disk.\<close>

lemma short_write_is_success:
  assumes "\<forall>t\<in>set ts. \<exists>c. d (handle t) = Some c"
    and "\<forall>t\<in>set ts. \<forall>ov. piece_overlap (start_byte t) (chunk_length t) ps pe = Some ov \<longrightarrow> buffer_offset ov + overlap_size ov \<le> length data"
  shows "write_targets (\<lambda>_ _ _. 0) ps pe data ts d = (Inr (), d)"
  using assms by (induction ts) (auto simp: write_at_def not_less split: option.split)

subsection \<open>The flat view\<close>

fun contiguous :: "nat \<Rightarrow> file_chunk list \<Rightarrow> bool" where
  "contiguous s [] \<longleftrightarrow> True"
| "contiguous s (t # ts) \<longleftrightarrow> start_byte t = s \<and> contiguous (s + chunk_length t) ts"

definition backed :: "disk \<Rightarrow> file_chunk \<Rightarrow> bool" where
  "backed d t \<longleftrightarrow> (\<exists>c. d (handle t) = Some c \<and> chunk_length t \<le> length c)"

definition file_bytes :: "disk \<Rightarrow> file_chunk \<Rightarrow> bytes" where
  "file_bytes d t = take (chunk_length t) (the (d (handle t)))"

definition flat :: "disk \<Rightarrow> file_chunk list \<Rightarrow> bytes" where
  "flat d ts = concat (map (file_bytes d) ts)"

text \<open>A handler whose files lie one after the other and exist; and one whose piece length keeps the
  offsets of all its pieces within 64 bits.\<close>

definition handler_ok :: "'s multi_file_handler \<Rightarrow> disk \<Rightarrow> bool" where
  "handler_ok h d \<longleftrightarrow> contiguous 0 (targets h) \<and> total_length h = sum_list (map chunk_length (targets h))
     \<and> 0 < mf_piece_length h \<and> distinct (map handle (targets h)) \<and> (\<forall>t\<in>set (targets h). backed d t)
     \<and> total_length h < 2 ^ 64"

definition handler_wf :: "'s multi_file_handler \<Rightarrow> disk \<Rightarrow> bool" where
  "handler_wf h d \<longleftrightarrow> handler_ok h d \<and> mf_piece_length h \<le> 2 ^ 32 \<and> total_length h + mf_piece_length h \<le> 2 ^ 64"

lemmas handler_wf_unfold = handler_wf_def handler_ok_def

text \<open>The handler that opening the same files for seeding gives (\<open>handler_reopens\<close>).\<close>

definition as_seeding :: "'s multi_file_handler \<Rightarrow> seeding multi_file_handler" where
  "as_seeding h = \<lparr>targets = targets h, mf_piece_length = mf_piece_length h, total_length = total_length h, mf_state = SeedingMode\<rparr>"

lemma as_seeding_fields [simp]:
  "targets (as_seeding h) = targets h" "mf_piece_length (as_seeding h) = mf_piece_length h" "total_length (as_seeding h) = total_length h"
  "handler_wf (as_seeding h) d = handler_wf h d"
  by (simp_all add: as_seeding_def handler_wf_unfold)

lemma overlap_exact:
  assumes "st + n < 2 ^ 64" and "ps \<le> pe"
  shows "piece_overlap st n ps pe =
     (if pe \<le> st \<or> st + n \<le> ps then None
      else Some \<lparr>file_offset = max st ps - st, buffer_offset = max st ps - ps, overlap_size = min pe (st + n) - max st ps\<rparr>)"
proof (cases "pe \<le> st \<or> st + n \<le> ps")
  case True
  then show ?thesis using add64_exact[OF assms(1)] by (auto simp: piece_overlap_def)
next
  case False
  then have "max st ps < 2 ^ 64" "max st ps \<le> min pe (st + n)" "min pe (st + n) < 2 ^ 64" using assms by auto
  then show ?thesis using False add64_exact[OF assms(1)] by (simp add: piece_overlap_def sub64_exact Let_def)
qed

lemma flat_simps [simp]: "flat d [] = []" "flat d (t # ts) = file_bytes d t @ flat d ts"
  by (simp_all add: flat_def)

lemma length_file_bytes [simp]: "backed d t \<Longrightarrow> length (file_bytes d t) = chunk_length t"
  by (auto simp: backed_def file_bytes_def)

lemma length_flat: "\<forall>t\<in>set ts. backed d t \<Longrightarrow> length (flat d ts) = sum_list (map chunk_length ts)"
  by (induction ts) auto

lemma nth_copy_slice:
  assumes "off + length chunk \<le> length buf" and "j < length buf"
  shows "copy_slice buf off chunk ! j = (if off \<le> j \<and> j < off + length chunk then chunk ! (j - off) else buf ! j)"
  using assms by (auto simp: copy_slice_def nth_append min_def)

lemma length_copy_slice: "off + length chunk \<le> length buf \<Longrightarrow> length (copy_slice buf off chunk) = length buf"
  by (simp add: copy_slice_def)

lemma read_overlap:
  assumes ov: "piece_overlap (start_byte t) (chunk_length t) ps pe = Some ov" and b: "backed d t" and pe: "ps < pe"
    and len: "length buf = pe - ps" and wide: "start_byte t + chunk_length t < 2 ^ 64"
  obtains chunk where "read_at whole d (handle t) (overlap_size ov) (file_offset ov) = Inr chunk"
    "length (copy_slice buf (buffer_offset ov) chunk) = pe - ps"
    "\<And>j. j < pe - ps \<Longrightarrow> copy_slice buf (buffer_offset ov) chunk ! j =
       (if start_byte t \<le> ps + j \<and> ps + j < start_byte t + chunk_length t
        then file_bytes d t ! (ps + j - start_byte t) else buf ! j)"
proof -
  let ?s = "start_byte t" and ?n = "chunk_length t"
  obtain c where c: "d (handle t) = Some c" "?n \<le> length c" using b by (auto simp: backed_def)
  define os oe where "os = max ?s ps" and "oe = min pe (?s + ?n)"
  have o: "ov = \<lparr>file_offset = os - ?s, buffer_offset = os - ps, overlap_size = oe - os\<rparr>"
    and r: "?s < pe" "ps < ?s + ?n"
    using ov pe by (auto simp: overlap_exact[OF wide] os_def oe_def split: if_splits)
  have fit: "os - ?s + (oe - os) \<le> ?n" "os - ps + (oe - os) \<le> pe - ps" "os \<le> oe" "?s \<le> os" "ps \<le> os"
    using r pe by (auto simp: os_def oe_def)
  let ?chunk = "take (oe - os) (drop (os - ?s) c)"
  have "oe - os \<le> length c - (os - ?s)" using fit c(2) by linarith
  then have clen: "length ?chunk = oe - os" by simp
  have ra: "read_at whole d (handle t) (overlap_size ov) (file_offset ov) = Inr ?chunk"
    using clen c(1) by (simp add: read_at_def whole_def o Let_def)
  have bo: "buffer_offset ov + length ?chunk \<le> length buf" using clen fit(2) len by (simp add: o)
  have "copy_slice buf (buffer_offset ov) ?chunk ! j =
       (if ?s \<le> ps + j \<and> ps + j < ?s + ?n then file_bytes d t ! (ps + j - ?s) else buf ! j)" if j: "j < pe - ps" for j
  proof -
    have cond: "?s \<le> ps + j \<and> ps + j < ?s + ?n \<longleftrightarrow> os - ps \<le> j \<and> j < os - ps + (oe - os)"
      using j r by (auto simp: os_def oe_def)
    have "?chunk ! (j - (os - ps)) = file_bytes d t ! (ps + j - ?s)"
      if "os - ps \<le> j" "j < os - ps + (oe - os)"
    proof -
      have eq: "os - ?s + (j - (os - ps)) = ps + j - ?s" and "ps + j - ?s < ?n" and "os - ?s \<le> length c"
        using that cond fit c(2) by linarith+
      moreover have "j - (os - ps) < oe - os" using that by auto
      ultimately show ?thesis
        by (simp only: file_bytes_def c(1) option.sel nth_take nth_drop eq)
    qed
    then show ?thesis
      using nth_copy_slice[OF bo, of j] j len cond clen by (simp add: o)
  qed
  then show thesis using that[OF ra] length_copy_slice[OF bo] len by simp
qed

lemma read_targets_flat:
  assumes "contiguous s ts" and "\<forall>t\<in>set ts. backed d t" and "ps < pe" and "length buf = pe - ps"
    and "s + sum_list (map chunk_length ts) < 2 ^ 64"
  shows "\<exists>buf'. read_targets whole d ps pe ts buf = Inr buf' \<and> length buf' = pe - ps \<and>
    (\<forall>j<pe - ps. buf' ! j = (if s \<le> ps + j \<and> ps + j < s + length (flat d ts) then flat d ts ! (ps + j - s) else buf ! j))"
  using assms
proof (induction ts arbitrary: s buf)
  case Nil
  then show ?case by auto
next
  case (Cons t ts)
  let ?n = "chunk_length t"
  have st: "start_byte t = s" and cont: "contiguous (s + ?n) ts" and b: "backed d t" "\<forall>t\<in>set ts. backed d t"
    using Cons.prems by auto
  have wide: "start_byte t + ?n < 2 ^ 64" and rest: "s + ?n + sum_list (map chunk_length ts) < 2 ^ 64" using Cons.prems(5) st by auto
  obtain buf1 where step: "read_targets whole d ps pe (t # ts) buf = read_targets whole d ps pe ts buf1"
    and len: "length buf1 = pe - ps"
    and at: "\<And>j. j < pe - ps \<Longrightarrow> buf1 ! j = (if s \<le> ps + j \<and> ps + j < s + ?n then file_bytes d t ! (ps + j - s) else buf ! j)"
  proof (cases "piece_overlap (start_byte t) ?n ps pe")
    case None
    then have "pe \<le> s \<or> s + ?n \<le> ps" using Cons.prems(3) overlap_exact[OF wide, of ps pe] by (auto simp: st split: if_splits)
    then have out: "(s \<le> ps + j \<and> ps + j < s + ?n) = False" if "j < pe - ps" for j using that by auto
    show thesis
      by (rule that[of buf]) (simp_all only: None Cons.prems(4) read_targets.simps option.case out if_False)
  next
    case (Some ov)
    obtain chunk where "read_at whole d (handle t) (overlap_size ov) (file_offset ov) = Inr chunk"
      "length (copy_slice buf (buffer_offset ov) chunk) = pe - ps"
      "\<And>j. j < pe - ps \<Longrightarrow> copy_slice buf (buffer_offset ov) chunk ! j =
         (if start_byte t \<le> ps + j \<and> ps + j < start_byte t + chunk_length t
          then file_bytes d t ! (ps + j - start_byte t) else buf ! j)"
      by (rule read_overlap[OF Some b(1) Cons.prems(3,4) wide]) blast
    then show thesis
      using Some unfolding st by (intro that[of "copy_slice buf (buffer_offset ov) chunk"]) (simp_all add: st)
  qed
  obtain buf' where buf': "read_targets whole d ps pe ts buf1 = Inr buf'" "length buf' = pe - ps"
    and at': "\<And>j. j < pe - ps \<Longrightarrow> buf' ! j =
      (if s + ?n \<le> ps + j \<and> ps + j < s + ?n + length (flat d ts) then flat d ts ! (ps + j - (s + ?n)) else buf1 ! j)"
    using Cons.IH[OF cont b(2) Cons.prems(3) len rest] by auto
  have "buf' ! j = (if s \<le> ps + j \<and> ps + j < s + length (flat d (t # ts)) then flat d (t # ts) ! (ps + j - s) else buf ! j)"
    if j: "j < pe - ps" for j
  proof (cases "s + ?n \<le> ps + j")
    case True
    then have "ps + j - (s + ?n) = ps + j - s - ?n" by simp
    then show ?thesis using at'[OF j] at[OF j] True b(1) by (auto simp: nth_append)
  next
    case False
    then show ?thesis using at'[OF j] at[OF j] b(1) by (auto simp: nth_append)
  qed
  then show ?case using step buf' by auto
qed

lemma read_piece_flat:
  assumes wf: "handler_wf h d" and inside: "unat index * mf_piece_length h < total_length h"
  shows "read_piece h d index =
     Inr (take (mf_piece_length h) (drop (unat index * mf_piece_length h) (flat d (targets h))))"
proof -
  let ?ps = "unat index * mf_piece_length h"
  let ?pe = "min (?ps + mf_piece_length h) (total_length h)" and ?f = "flat d (targets h)"
  have cont: "contiguous 0 (targets h)" and b: "\<forall>t\<in>set (targets h). backed d t"
    and pos: "0 < mf_piece_length h" and tot: "length ?f = total_length h"
    and sum: "0 + sum_list (map chunk_length (targets h)) < 2 ^ 64" and end64: "?ps + mf_piece_length h < 2 ^ 64" and tot64: "total_length h < 2 ^ 64"
    using wf inside length_flat[of "targets h" d] by (auto simp: handler_wf_unfold)
  have exact: "mul64 (unat index) (mf_piece_length h) = ?ps" "add64 ?ps (mf_piece_length h) = ?ps + mf_piece_length h"
    using inside tot64 end64 by (simp_all add: mul64_exact add64_exact)
  have lt: "?ps < ?pe" using inside pos by simp
  have sz: "sub64 ?pe ?ps = ?pe - ?ps" using lt tot64 by (intro sub64_exact) auto
  obtain buf' where buf': "read_targets whole d ?ps ?pe (targets h) (replicate (?pe - ?ps) 0) = Inr buf'"
    "length buf' = ?pe - ?ps" and at: "\<And>j. j < ?pe - ?ps \<Longrightarrow> ?ps + j < length ?f \<Longrightarrow> buf' ! j = ?f ! (?ps + j)"
    using read_targets_flat[OF cont b lt _ sum, of "replicate (?pe - ?ps) 0"] by auto
  have "buf' = take (mf_piece_length h) (drop ?ps ?f)"
  proof (rule nth_equalityI)
    show "length buf' = length (take (mf_piece_length h) (drop ?ps ?f))"
      using buf'(2) tot inside by auto
    show "buf' ! j = take (mf_piece_length h) (drop ?ps ?f) ! j" if "j < length buf'" for j
      using that at[of j] buf'(2) tot by auto
  qed
  then show ?thesis using buf' inside by (simp only: read_piece_def read_piece_io_def Let_def exact sz) simp
qed

subsection \<open>Writing overlays the flat view\<close>

definition overlay :: "nat \<Rightarrow> bytes \<Rightarrow> nat \<Rightarrow> bytes \<Rightarrow> bytes" where
  "overlay ps data s xs =
     map (\<lambda>i. if ps \<le> s + i \<and> s + i < ps + length data then data ! (s + i - ps) else xs ! i) [0..<length xs]"

lemma length_overlay [simp]: "length (overlay ps data s xs) = length xs"
  by (simp add: overlay_def)

lemma nth_overlay:
  "i < length xs \<Longrightarrow> overlay ps data s xs ! i = (if ps \<le> s + i \<and> s + i < ps + length data then data ! (s + i - ps) else xs ! i)"
  by (simp add: overlay_def)

lemma overlay_append: "overlay ps data s (xs @ ys) = overlay ps data s xs @ overlay ps data (s + length xs) ys"
  by (rule nth_equalityI) (auto simp: nth_overlay nth_append add.assoc)

lemma write_overlap:
  assumes ov: "piece_overlap (start_byte t) (chunk_length t) ps pe = Some ov" and b: "backed d t"
    and pe: "pe = ps + length data" and wide: "start_byte t + chunk_length t < 2 ^ 64"
  obtains d' where "\<not> length data < buffer_offset ov + overlap_size ov"
    "write_at whole d (handle t) (take (overlap_size ov) (drop (buffer_offset ov) data)) (file_offset ov) = (Inr (), d')"
    "backed d' t" "file_bytes d' t = overlay ps data (start_byte t) (file_bytes d t)"
    "\<And>i. i \<noteq> handle t \<Longrightarrow> d' i = d i" "\<And>i. map_option length (d' i) = map_option length (d i)"
proof -
  let ?s = "start_byte t" and ?n = "chunk_length t"
  obtain c where c: "d (handle t) = Some c" "?n \<le> length c" using b by (auto simp: backed_def)
  define os oe where "os = max ?s ps" and "oe = min pe (?s + ?n)"
  have o: "ov = \<lparr>file_offset = os - ?s, buffer_offset = os - ps, overlap_size = oe - os\<rparr>"
    and r: "?s < pe" "ps < ?s + ?n"
    using ov pe by (auto simp: overlap_exact[OF wide] os_def oe_def split: if_splits)
  have fit: "os - ?s + (oe - os) \<le> ?n" "os - ps + (oe - os) \<le> length data" "?s \<le> os" "ps \<le> os" "os \<le> oe"
    using r pe by (auto simp: os_def oe_def)
  define chunk where "chunk = take (oe - os) (drop (os - ps) data)"
  have clen: "length chunk = oe - os" using fit(2) by (simp add: chunk_def)
  let ?c' = "copy_slice c (os - ?s) chunk"
  have room: "os - ?s + length chunk \<le> length c" using fit(1) c(2) clen by linarith
  have same: "copy_slice c k [] = c" for k by (simp add: copy_slice_def)
  have wr: "write_at whole d (handle t) (take (overlap_size ov) (drop (buffer_offset ov) data)) (file_offset ov)
      = (Inr (), d(handle t := Some ?c'))"
    using c(1) room by (auto simp: write_at_def whole_def o chunk_def[symmetric] Let_def same fun_upd_idem)
  have slice: "\<not> length data < buffer_offset ov + overlap_size ov" using fit(2) by (simp add: o)
  have bk: "backed (d(handle t := Some ?c')) t"
    using c(2) length_copy_slice[OF room] by (simp add: backed_def)
  have fb: "length (file_bytes d t) = ?n" by (rule length_file_bytes[OF b])
  have "file_bytes (d(handle t := Some ?c')) t = overlay ps data ?s (file_bytes d t)"
  proof (rule nth_equalityI)
    show "length (file_bytes (d(handle t := Some ?c')) t) = length (overlay ps data ?s (file_bytes d t))"
      using length_file_bytes[OF bk] fb by simp
    fix k assume "k < length (file_bytes (d(handle t := Some ?c')) t)"
    then have k: "k < ?n" using length_file_bytes[OF bk] by simp
    then have kc: "k < length c" using c(2) by simp
    have cond: "ps \<le> ?s + k \<and> ?s + k < ps + length data \<longleftrightarrow> os - ?s \<le> k \<and> k < os - ?s + length chunk"
      unfolding clen using k r by (auto simp: os_def oe_def pe)
    have "chunk ! (k - (os - ?s)) = data ! (?s + k - ps)" if "os - ?s \<le> k" "k < os - ?s + length chunk"
    proof -
      have eq: "os - ps + (k - (os - ?s)) = ?s + k - ps" and "k - (os - ?s) < oe - os" and "os - ps \<le> length data"
        using that fit clen by linarith+
      then show ?thesis by (simp only: chunk_def nth_take nth_drop eq)
    qed
    then show "file_bytes (d(handle t := Some ?c')) t ! k = overlay ps data ?s (file_bytes d t) ! k"
      using nth_overlay[of k "file_bytes d t" ps data ?s] nth_copy_slice[OF room kc] k fb cond c(1)
      by (simp add: file_bytes_def)
  qed
  then show thesis using that[OF slice wr bk] c(1) length_copy_slice[OF room] by simp
qed

lemma write_skip:
  assumes "piece_overlap (start_byte t) (chunk_length t) ps (ps + length data) = None" and "backed d t"
    and "start_byte t + chunk_length t < 2 ^ 64"
  shows "overlay ps data (start_byte t) (file_bytes d t) = file_bytes d t"
proof (rule nth_equalityI)
  fix k assume "k < length (overlay ps data (start_byte t) (file_bytes d t))"
  then have "k < chunk_length t" "k < length (file_bytes d t)" using length_file_bytes[OF assms(2)] by simp_all
  then show "overlay ps data (start_byte t) (file_bytes d t) ! k = file_bytes d t ! k"
    using assms(1) by (auto simp: nth_overlay overlap_exact[OF assms(3)] split: if_splits)
qed simp

lemma flat_frame:
  "\<forall>t\<in>set ts. d' (handle t) = d (handle t) \<Longrightarrow> flat d' ts = flat d ts \<and> ((\<forall>t\<in>set ts. backed d' t) \<longleftrightarrow> (\<forall>t\<in>set ts. backed d t))"
  by (induction ts) (auto simp: file_bytes_def backed_def)

lemma write_targets_flat:
  assumes "contiguous s ts" and "\<forall>t\<in>set ts. backed d t" and "distinct (map handle ts)"
    and "s + sum_list (map chunk_length ts) < 2 ^ 64"
  shows "\<exists>d'. write_targets whole ps (ps + length data) data ts d = (Inr (), d') \<and> flat d' ts = overlay ps data s (flat d ts)
     \<and> (\<forall>t\<in>set ts. backed d' t) \<and> (\<forall>i. i \<notin> handle ` set ts \<longrightarrow> d' i = d i) \<and> (\<forall>i. map_option length (d' i) = map_option length (d i))"
  using assms
proof (induction ts arbitrary: s d)
  case Nil
  then show ?case by (simp add: overlay_def)
next
  case (Cons t ts)
  have st: "start_byte t = s" and cont: "contiguous (s + chunk_length t) ts" and b: "backed d t"
    and bs: "\<forall>t\<in>set ts. backed d t" and fresh: "handle t \<notin> handle ` set ts" and dist: "distinct (map handle ts)"
    using Cons.prems by auto
  have wide: "start_byte t + chunk_length t < 2 ^ 64" and rest: "s + chunk_length t + sum_list (map chunk_length ts) < 2 ^ 64"
    using Cons.prems(4) st by auto
  obtain d1 where step: "\<And>d2. write_targets whole ps (ps + length data) data ts d1 = (Inr (), d2) \<Longrightarrow>
        write_targets whole ps (ps + length data) data (t # ts) d = (Inr (), d2)"
    and b1: "backed d1 t" and f1: "file_bytes d1 t = overlay ps data s (file_bytes d t)"
    and other: "\<And>i. i \<noteq> handle t \<Longrightarrow> d1 i = d i" and len1: "\<And>i. map_option length (d1 i) = map_option length (d i)"
  proof (cases "piece_overlap (start_byte t) (chunk_length t) ps (ps + length data)")
    case None
    then show thesis using that[of d] b write_skip[OF None b wide] st by simp
  next
    case (Some ov)
    obtain d' where "\<not> length data < buffer_offset ov + overlap_size ov"
      "write_at whole d (handle t) (take (overlap_size ov) (drop (buffer_offset ov) data)) (file_offset ov) = (Inr (), d')"
      "backed d' t" "file_bytes d' t = overlay ps data (start_byte t) (file_bytes d t)"
      "\<And>i. i \<noteq> handle t \<Longrightarrow> d' i = d i" "\<And>i. map_option length (d' i) = map_option length (d i)"
      by (rule write_overlap[OF Some b refl wide]) blast
    then show thesis
      using Some unfolding st by (intro that[of d']) (simp_all add: st)
  qed
  have "\<forall>t'\<in>set ts. d1 (handle t') = d (handle t')" using other fresh by (metis image_eqI)
  then have fr: "flat d1 ts = flat d ts" "\<forall>t\<in>set ts. backed d1 t" using flat_frame[of ts d1 d] bs by auto
  obtain d2 where d2: "write_targets whole ps (ps + length data) data ts d1 = (Inr (), d2)"
    "flat d2 ts = overlay ps data (s + chunk_length t) (flat d1 ts)" "\<forall>t\<in>set ts. backed d2 t"
    "\<forall>i. i \<notin> handle ` set ts \<longrightarrow> d2 i = d1 i" "\<forall>i. map_option length (d2 i) = map_option length (d1 i)"
    using Cons.IH[OF cont fr(2) dist rest] by blast
  have "d2 (handle t) = d1 (handle t)" using d2(4) fresh by simp
  then have "file_bytes d2 t = file_bytes d1 t" "backed d2 t" using b1 by (simp_all add: file_bytes_def backed_def)
  then show ?case
    using step[OF d2(1)] d2 f1 fr b other len1 by (auto simp: overlay_append)
qed

lemma write_piece_overlay:
  assumes ok: "handler_ok h d" and inside: "unat index * mf_piece_length h < total_length h"
    and wide: "unat index * mf_piece_length h + length data < 2 ^ 64"
  shows "\<exists>d'. write_piece h d index data = (Inr (), d') \<and> handler_ok h d' \<and>
     flat d' (targets h) = overlay (unat index * mf_piece_length h) data 0 (flat d (targets h))
     \<and> (\<forall>i. map_option length (d' i) = map_option length (d i))"
proof -
  have "mul64 (unat index) (mf_piece_length h) = unat index * mf_piece_length h"
    "add64 (unat index * mf_piece_length h) (length data) = unat index * mf_piece_length h + length data"
    using wide by (simp_all add: mul64_exact add64_exact)
  then show ?thesis
    using write_targets_flat[of 0 "targets h" d "unat index * mf_piece_length h" data] ok inside
    by (auto simp: handler_ok_def write_piece_def write_piece_io_def Let_def)
qed

definition piece_fits :: "'s multi_file_handler \<Rightarrow> u32 \<Rightarrow> bytes \<Rightarrow> bool" where
  "piece_fits h index data \<longleftrightarrow> unat index * mf_piece_length h < total_length h \<and>
     length data = min (mf_piece_length h) (total_length h - unat index * mf_piece_length h)"

lemma write_piece_flat:
  assumes wf: "handler_wf h d" and fits: "piece_fits h index data"
  shows "\<exists>d'. write_piece h d index data = (Inr (), d') \<and> handler_wf h d' \<and>
     flat d' (targets h) = overlay (unat index * mf_piece_length h) data 0 (flat d (targets h))
     \<and> (\<forall>i. map_option length (d' i) = map_option length (d i))"
  using write_piece_overlay[of h d index data] wf fits by (auto simp: handler_wf_unfold piece_fits_def)

subsection \<open>Interface: an array of pieces\<close>

locale piece_store =
  fixes rd :: "'d \<Rightarrow> u32 \<Rightarrow> 'e + bytes"
    and wr :: "'d \<Rightarrow> u32 \<Rightarrow> bytes \<Rightarrow> 'd"
    and inv :: "'d \<Rightarrow> bool"
    and admits :: "u32 \<Rightarrow> bytes \<Rightarrow> bool"
  assumes write_inv: "inv d \<Longrightarrow> admits i x \<Longrightarrow> inv (wr d i x)"
    and read_same: "inv d \<Longrightarrow> admits i x \<Longrightarrow> rd (wr d i x) i = Inr x"
    and read_other: "inv d \<Longrightarrow> admits i x \<Longrightarrow> j \<noteq> i \<Longrightarrow> rd (wr d i x) j = rd d j"
begin

lemma writes_inv:
  "inv d \<Longrightarrow> \<forall>(i, x)\<in>set ws. admits i x \<Longrightarrow> inv (foldl (\<lambda>d (i, x). wr d i x) d ws)"
  by (induction ws arbitrary: d) (auto intro: write_inv)

lemma writes_frame:
  "inv d \<Longrightarrow> \<forall>(i, x)\<in>set ws. admits i x \<Longrightarrow> j \<notin> fst ` set ws
    \<Longrightarrow> rd (foldl (\<lambda>d (i, x). wr d i x) d ws) j = rd d j"
  by (induction ws arbitrary: d) (auto simp: write_inv read_other)

lemma writes_read:
  "inv d \<Longrightarrow> \<forall>(i, x)\<in>set ws. admits i x \<Longrightarrow> distinct (map fst ws) \<Longrightarrow> (i, x) \<in> set ws
    \<Longrightarrow> rd (foldl (\<lambda>d (i, x). wr d i x) d ws) i = Inr x"
proof (induction ws arbitrary: d)
  case Nil
  then show ?case by simp
next
  case (Cons w ws)
  obtain j y where w: "w = (j, y)" by (cases w)
  have inv1: "inv (wr d j y)" and adm: "\<forall>(i, x)\<in>set ws. admits i x" "admits j y"
    using Cons.prems w by (auto intro: write_inv)
  show ?case
  proof (cases "(i, x) \<in> set ws")
    case True
    then show ?thesis using Cons.IH[OF inv1 adm(1)] Cons.prems(3) w by simp
  next
    case False
    then have "i = j" "x = y" using Cons.prems(4) w by auto
    then show ?thesis
      using writes_frame[OF inv1 adm(1), of i] read_same[OF Cons.prems(1) adm(2)] Cons.prems(3) w by auto
  qed
qed

end

lemma take_drop_overlay_same:
  assumes "ps < length xs" and "length data = min n (length xs - ps)"
  shows "take n (drop ps (overlay ps data 0 xs)) = data"
  using assms by (intro nth_equalityI) (auto simp: nth_overlay)

lemma take_drop_overlay_other:
  assumes "ps + length data \<le> k \<or> k + n \<le> ps"
  shows "take n (drop k (overlay ps data 0 xs)) = take n (drop k xs)"
proof (rule nth_equalityI)
  show "take n (drop k (overlay ps data 0 xs)) ! i = take n (drop k xs) ! i"
    if "i < length (take n (drop k (overlay ps data 0 xs)))" for i
    using that assms by (auto simp: nth_overlay)
qed simp

lemma other_piece_apart:
  fixes i j pl :: nat
  assumes "j \<noteq> i" and "n \<le> pl"
  shows "i * pl + n \<le> j * pl \<or> j * pl + pl \<le> i * pl"
proof (cases "i < j")
  case True
  then have "Suc i * pl \<le> j * pl" by (intro mult_le_mono1) simp
  then show ?thesis using assms(2) by simp
next
  case False
  then have "Suc j * pl \<le> i * pl" using assms(1) by (intro mult_le_mono1) simp
  then show ?thesis by simp
qed

lemma read_piece_outside:
  assumes "total_length h \<le> unat j * mf_piece_length h" and "mf_piece_length h \<le> 2 ^ 32"
  shows "read_piece h d j = Inl (OutOfBounds j)"
proof -
  have "unat j \<le> 2 ^ 32 - 1" using unsigned_less[of j, where ?'a = nat] by simp
  then have "unat j * mf_piece_length h \<le> (2 ^ 32 - 1) * 2 ^ 32" using assms(2) by (rule mult_le_mono)
  then have "mul64 (unat j) (mf_piece_length h) = unat j * mf_piece_length h" by (intro mul64_exact) simp
  then show ?thesis using assms(1) by (simp add: read_piece_def read_piece_io_def Let_def)
qed

interpretation mfh: piece_store "read_piece (as_seeding h)" "\<lambda>d i x. snd (write_piece h d i x)" "handler_wf h" "piece_fits h" for h
proof
  fix d i x
  assume wf: "handler_wf h d" and fits: "piece_fits h i x"
  let ?pl = "mf_piece_length h" and ?f = "flat d (targets h)"
  obtain d' where w: "write_piece h d i x = (Inr (), d')" and wf': "handler_wf h d'"
    and fl: "flat d' (targets h) = overlay (unat i * ?pl) x 0 ?f"
    using write_piece_flat[OF wf fits] by blast
  have len: "length ?f = total_length h" using wf length_flat[of "targets h" d] by (auto simp: handler_wf_unfold)
  have small: "?pl \<le> 2 ^ 32" using wf by (simp add: handler_wf_def)
  show "handler_wf h (snd (write_piece h d i x))" using w wf' by simp
  show "read_piece (as_seeding h) (snd (write_piece h d i x)) i = Inr x"
    using fits read_piece_flat[of "as_seeding h" d' i] wf' take_drop_overlay_same[of "unat i * ?pl" ?f x ?pl]
    by (simp add: w fl len piece_fits_def)
  show "read_piece (as_seeding h) (snd (write_piece h d i x)) j = read_piece (as_seeding h) d j" if "j \<noteq> i" for j
  proof (cases "unat j * ?pl < total_length h")
    case True
    have "unat j \<noteq> unat i" using that by (simp add: word_unat_eq_iff)
    then have "take ?pl (drop (unat j * ?pl) (overlay (unat i * ?pl) x 0 ?f)) = take ?pl (drop (unat j * ?pl) ?f)"
      using fits by (intro take_drop_overlay_other other_piece_apart) (simp_all add: piece_fits_def)
    then show ?thesis
      using read_piece_flat[of "as_seeding h" d' j] read_piece_flat[of "as_seeding h" d j] True wf wf' by (simp add: w fl)
  next
    case False
    then show ?thesis using small by (simp add: read_piece_outside)
  qed
qed

subsection \<open>Opening yields well-formed handlers\<close>

definition seed_content :: "fs_names \<Rightarrow> disk \<Rightarrow> path \<Rightarrow> embeded_file list \<Rightarrow> bytes" where
  "seed_content fs d base files = concat (map (\<lambda>f. the (d (the (fs_inode fs (full_path fs base f))))) files)"

lemma contiguous_snoc:
  "contiguous s (ts @ [t]) \<longleftrightarrow> contiguous s ts \<and> start_byte t = s + sum_list (map chunk_length ts)"
  by (induction ts arbitrary: s) (auto simp: add.assoc)

lemma seed_loop_layout:
  "seed_loop fs d base files ts off = Inr (ts', off') \<Longrightarrow> contiguous 0 ts \<Longrightarrow> off = sum_list (map chunk_length ts)
    \<Longrightarrow> \<forall>t\<in>set ts. backed d t \<Longrightarrow> off + length (seed_content fs d base files) < 2 ^ 64
    \<Longrightarrow> contiguous 0 ts' \<and> off' = sum_list (map chunk_length ts') \<and> (\<forall>t\<in>set ts'. backed d t)
      \<and> flat d ts' = flat d ts @ seed_content fs d base files
      \<and> map handle ts' = map handle ts @ map (\<lambda>f. the (fs_inode fs (full_path fs base f))) files"
proof (induction files arbitrary: ts off)
  case Nil
  then show ?case by (auto simp: seed_content_def)
next
  case (Cons f files)
  obtain inode content where i: "fs_inode fs (full_path fs base f) = Some inode" "d inode = Some content"
    using Cons.prems(1) by (auto split: option.splits)
  let ?t = "FileChunk_new inode off (length content)"
  have "contiguous 0 (ts @ [?t])" "off + length content = sum_list (map chunk_length (ts @ [?t]))"
    "\<forall>t\<in>set (ts @ [?t]). backed d t"
    using Cons.prems i by (auto simp: contiguous_snoc FileChunk_new_def backed_def)
  moreover have "flat d (ts @ [?t]) = flat d ts @ content"
    using i(2) by (simp add: flat_def file_bytes_def FileChunk_new_def)
  moreover have wide: "off + length content + length (seed_content fs d base files) < 2 ^ 64"
    using Cons.prems(5) i by (simp add: seed_content_def)
  moreover have "seed_loop fs d base files (ts @ [?t]) (off + length content) = Inr (ts', off')"
    using Cons.prems(1) i wide by (simp add: add64_exact)
  ultimately show ?case
    using Cons.IH[of "ts @ [?t]" "off + length content"] i by (simp add: seed_content_def FileChunk_new_def)
qed

lemma handler_seed_wf:
  assumes "handler_seed fs d base pl files = Inr h" and "0 < unat pl" "unat pl \<le> 2 ^ 32"
    and "distinct (map (\<lambda>f. the (fs_inode fs (full_path fs base f))) files)"
    and "length (seed_content fs d base files) + unat pl \<le> 2 ^ 64"
  shows "handler_wf h d" and "flat d (targets h) = seed_content fs d base files"
    and "mf_piece_length h = unat pl" and "total_length h = length (seed_content fs d base files)"
proof -
  obtain ts off where l: "seed_loop fs d base files [] 0 = Inr (ts, off)"
    and h: "h = \<lparr>targets = ts, mf_piece_length = unat pl, total_length = off, mf_state = SeedingMode\<rparr>"
    using assms(1) by (auto simp: handler_seed_def split: sum.splits)
  have "length (seed_content fs d base files) < 2 ^ 64" using assms(2,5) by simp
  note lay = seed_loop_layout[OF l, simplified, OF this[simplified]]
  show fl: "flat d (targets h) = seed_content fs d base files" using lay by (simp add: h)
  show "mf_piece_length h = unat pl" by (simp add: h)
  show tot: "total_length h = length (seed_content fs d base files)"
    using lay length_flat[of ts d] by (simp add: h)
  show "handler_wf h d" using lay assms(2-5) tot by (simp add: h handler_wf_unfold)
qed

lemma download_loop_layout:
  "download_loop fa fs d base files ts off = (Inr (ts', off'), d') \<Longrightarrow> contiguous 0 ts \<Longrightarrow> off = sum_list (map chunk_length ts)
    \<Longrightarrow> \<forall>t\<in>set ts. backed d t
    \<Longrightarrow> distinct (map handle ts @ map (\<lambda>f. the (fs_inode fs (full_path fs base f))) files)
    \<Longrightarrow> off + sum_list (map (\<lambda>f. unat (as_u64 (ef_length f))) files) < 2 ^ 64
    \<Longrightarrow> contiguous 0 ts' \<and> off' = sum_list (map chunk_length ts') \<and> (\<forall>t\<in>set ts'. backed d' t)
      \<and> map handle ts' = map handle ts @ map (\<lambda>f. the (fs_inode fs (full_path fs base f))) files
      \<and> map chunk_length ts' = map chunk_length ts @ map (\<lambda>f. unat (as_u64 (ef_length f))) files"
proof (induction files arbitrary: ts off d)
  case Nil
  then show ?case by auto
next
  case (Cons f files)
  let ?len = "as_u64 (ef_length f)"
  obtain inode where i: "fs_inode fs (full_path fs base f) = Some inode"
    using Cons.prems(1) by (auto split: option.splits)
  define content where "content = (case d inode of None \<Rightarrow> [] | Some c \<Rightarrow> c)"
  obtain c' where p: "preallocate fa content ?len = Inr c'"
    using Cons.prems(1) i by (auto simp: content_def Let_def split: sum.splits)
  let ?t = "FileChunk_new inode off (unat ?len)" and ?d = "d(inode := Some c')"
  have big: "unat ?len \<le> length c'"
    using p by (auto simp: preallocate_def set_min_length_def set_len_def split: fallocate_result.splits)
  have fresh: "inode \<notin> handle ` set ts" using Cons.prems(5) i by auto
  have bk: "\<forall>t\<in>set (ts @ [?t]). backed ?d t"
    using Cons.prems(4) fresh big by (auto simp: backed_def FileChunk_new_def)
  have lay: "contiguous 0 (ts @ [?t])" "off + unat ?len = sum_list (map chunk_length (ts @ [?t]))"
    and dist: "distinct (map handle (ts @ [?t]) @ map (\<lambda>f. the (fs_inode fs (full_path fs base f))) files)"
    using Cons.prems i by (auto simp: contiguous_snoc FileChunk_new_def)
  have wide: "off + unat ?len + sum_list (map (\<lambda>f. unat (as_u64 (ef_length f))) files) < 2 ^ 64" using Cons.prems(6) by simp
  have loop: "download_loop fa fs ?d base files (ts @ [?t]) (off + unat ?len) = (Inr (ts', off'), d')"
    using Cons.prems(1) i p wide by (simp add: content_def Let_def add64_exact)
  show ?case
    using Cons.IH[OF loop lay bk dist wide] i by (simp add: FileChunk_new_def)
qed

lemma handler_download_ok:
  assumes "handler_download fa fs d base pl files = (Inr h, d')" and "0 < unat pl"
    and "distinct (map (\<lambda>f. the (fs_inode fs (full_path fs base f))) files)"
    and "sum_list (map (\<lambda>f. unat (as_u64 (ef_length f))) files) < 2 ^ 64"
  shows "handler_ok h d'" and "mf_piece_length h = unat pl"
    and "total_length h = sum_list (map (\<lambda>f. unat (as_u64 (ef_length f))) files)"
proof -
  obtain ts off where l: "download_loop fa fs d base files [] 0 = (Inr (ts, off), d')"
    and h: "h = \<lparr>targets = ts, mf_piece_length = unat pl, total_length = off, mf_state = DownloadingMode\<rparr>"
    using assms(1) by (auto simp: handler_download_def split: sum.splits prod.splits)
  note lay = download_loop_layout[OF l, simplified, OF assms(3) assms(4)[simplified]]
  show tot: "total_length h = sum_list (map (\<lambda>f. unat (as_u64 (ef_length f))) files)" using lay by (simp add: h)
  show "handler_ok h d'" using lay assms(2-4) tot by (simp add: h handler_ok_def)
  show "mf_piece_length h = unat pl" by (simp add: h)
qed

lemma handler_download_wf:
  assumes "handler_download fa fs d base pl files = (Inr h, d')" and "0 < unat pl" "unat pl \<le> 2 ^ 32"
    and "distinct (map (\<lambda>f. the (fs_inode fs (full_path fs base f))) files)"
    and "sum_list (map (\<lambda>f. unat (as_u64 (ef_length f))) files) + unat pl \<le> 2 ^ 64"
  shows "handler_wf h d'" and "mf_piece_length h = unat pl"
    and "total_length h = sum_list (map (\<lambda>f. unat (as_u64 (ef_length f))) files)"
proof -
  have "sum_list (map (\<lambda>f. unat (as_u64 (ef_length f))) files) < 2 ^ 64" using assms(2,5) by simp
  note ok = handler_download_ok[OF assms(1,2,4) this]
  show "mf_piece_length h = unat pl" "total_length h = sum_list (map (\<lambda>f. unat (as_u64 (ef_length f))) files)" by (rule ok(2,3))+
  show "handler_wf h d'" using ok assms(3,5) by (simp add: handler_wf_def)
qed

subsection \<open>Opening the downloaded files again\<close>

text \<open>A file is no longer than the torrent says: then allocation leaves it at exactly that length.\<close>

definition not_longer :: "fs_names \<Rightarrow> disk \<Rightarrow> path \<Rightarrow> embeded_file \<Rightarrow> bool" where
  "not_longer fs d base f \<longleftrightarrow> (\<forall>c. d (the (fs_inode fs (full_path fs base f))) = Some c \<longrightarrow> length c \<le> unat (as_u64 (ef_length f)))"

lemma download_loop_lengths:
  "download_loop fa fs d base files ts off = (Inr (ts', off'), d')
    \<Longrightarrow> distinct (map (\<lambda>f. the (fs_inode fs (full_path fs base f))) files)
    \<Longrightarrow> \<forall>f\<in>set files. not_longer fs d base f
    \<Longrightarrow> (\<forall>f\<in>set files. \<exists>c. d' (the (fs_inode fs (full_path fs base f))) = Some c \<and> length c = unat (as_u64 (ef_length f)))
      \<and> (\<forall>i. i \<notin> (\<lambda>f. the (fs_inode fs (full_path fs base f))) ` set files \<longrightarrow> d' i = d i)"
proof (induction files arbitrary: ts off d)
  case (Cons f files)
  let ?len = "as_u64 (ef_length f)"
  obtain inode where i: "fs_inode fs (full_path fs base f) = Some inode"
    using Cons.prems(1) by (auto split: option.splits)
  define content where "content = (case d inode of None \<Rightarrow> [] | Some c \<Rightarrow> c)"
  obtain c' where p: "preallocate fa content ?len = Inr c'"
    using Cons.prems(1) i by (auto simp: content_def Let_def split: sum.splits)
  have "length content \<le> unat ?len" using Cons.prems(3) i by (simp add: content_def not_longer_def split: option.split)
  then have len: "length c' = unat ?len"
    using p by (auto simp: preallocate_def set_min_length_def set_len_def split: fallocate_result.splits)
  let ?d = "d(inode := Some c')"
  have fresh: "inode \<notin> (\<lambda>f. the (fs_inode fs (full_path fs base f))) ` set files" using Cons.prems(2) i by simp
  then have rest: "\<forall>f\<in>set files. not_longer fs ?d base f"
    using Cons.prems(3) by (auto simp: not_longer_def image_iff)
  have "download_loop fa fs ?d base files (ts @ [FileChunk_new inode off (unat ?len)]) (add64 off (unat ?len)) = (Inr (ts', off'), d')"
    using Cons.prems(1) i p by (simp add: content_def Let_def)
  from Cons.IH[OF this _ rest] show ?case using Cons.prems(2) fresh i len by auto
qed simp

lemma seed_loop_reopens:
  "download_loop fa names d base files ts off = (Inr (ts', off'), d')
    \<Longrightarrow> \<forall>f\<in>set files. fs_inode sn (full_path sn up f) = fs_inode names (full_path names base f)
    \<Longrightarrow> \<forall>f\<in>set files. \<exists>c. e (the (fs_inode names (full_path names base f))) = Some c \<and> length c = unat (as_u64 (ef_length f))
    \<Longrightarrow> seed_loop sn e up files ts off = Inr (ts', off')"
  by (induction files arbitrary: d ts off) (auto simp: Let_def split: option.splits sum.splits)

lemma handler_reopens:
  assumes "handler_download fa names d base pl files = (Inr h, d')"
    and "\<forall>f\<in>set files. fs_inode sn (full_path sn up f) = fs_inode names (full_path names base f)"
    and "\<forall>f\<in>set files. \<exists>c. e (the (fs_inode names (full_path names base f))) = Some c \<and> length c = unat (as_u64 (ef_length f))"
  shows "handler_seed sn e up pl files = Inr (as_seeding h)"
  using assms(1) seed_loop_reopens[OF _ assms(2,3)]
  by (auto simp: handler_download_def handler_seed_def as_seeding_def split: sum.splits prod.splits)

lemma writes_keep_lengths:
  "handler_wf h d \<Longrightarrow> \<forall>(i, x)\<in>set ws. piece_fits h i x
    \<Longrightarrow> map_option length (foldl (\<lambda>d (i, x). snd (write_piece h d i x)) d ws k) = map_option length (d k)"
proof (induction ws arbitrary: d)
  case (Cons w ws)
  obtain i x where w: "w = (i, x)" by (cases w)
  obtain d' where d': "write_piece h d i x = (Inr (), d')" "handler_wf h d'" "map_option length (d' k) = map_option length (d k)"
    using write_piece_flat[of h d i x] Cons.prems w by auto
  then show ?case using Cons.IH[OF d'(2)] Cons.prems(2) w by simp
qed simp

subsection \<open>Properties\<close>

text \<open>C12: what is downloaded reads back when it is seeded. A torrent is opened for downloading into files
  that are different inodes, none of them longer than the torrent says before; the piece length is
  accepted by the validation of the metadata and the lengths add up below 64 bits. Pieces, each of
  its proper size and each once, are written in any order through the download handler, by a system
  that transfers every write whole. Then opening the same files for seeding, by whatever names,
  succeeds, and the seeding handler reads every piece that was written as it was written.\<close>

theorem downloaded_pieces_read_back:
  assumes open_files: "handler_download fallocate fs d base pl files = (Inr h, d')"
      "distinct (map (\<lambda>f. the (fs_inode fs (full_path fs base f))) files)" "\<forall>f\<in>set files. not_longer fs d base f"
    and sizes: "piece_length_validate pl = Inr ()" "sum_list (map (\<lambda>f. unat (as_u64 (ef_length f))) files) + 2 ^ 27 \<le> 2 ^ 64"
    and writes: "\<forall>(i, x)\<in>set ws. piece_fits h i x" "distinct (map fst ws)"
    and names: "\<forall>f\<in>set files. fs_inode sn (full_path sn up f) = fs_inode fs (full_path fs base f)"
    and disk: "e = foldl (\<lambda>d (i, x). snd (write_piece h d i x)) d' ws"
  shows "\<exists>g. handler_seed sn e up pl files = Inr g \<and> (\<forall>(index, data)\<in>set ws. read_piece g e index = Inr data)"
proof -
  have pl: "0 < unat pl" "unat pl \<le> 2 ^ 32" "sum_list (map (\<lambda>f. unat (as_u64 (ef_length f))) files) + unat pl \<le> 2 ^ 64"
    using piece_length_valid_bounds[OF sizes(1)] sizes(2) by simp_all
  have wf: "handler_wf h d'" by (rule handler_download_wf(1)[OF open_files(1) pl(1,2) open_files(2) pl(3)])
  have len: "\<forall>f\<in>set files. \<exists>c. d' (the (fs_inode fs (full_path fs base f))) = Some c \<and> length c = unat (as_u64 (ef_length f))"
    using open_files download_loop_lengths[of fallocate fs d base files "[]" 0]
    by (auto simp: handler_download_def split: sum.splits prod.splits)
  have "\<exists>c. e k = Some c \<and> length c = n" if "d' k = Some c" "length c = n" for k c n
    using that writes_keep_lengths[OF wf writes(1), of k] by (auto simp: disk)
  then have "\<forall>f\<in>set files. \<exists>c. e (the (fs_inode fs (full_path fs base f))) = Some c \<and> length c = unat (as_u64 (ef_length f))"
    using len by blast
  from handler_reopens[OF open_files(1) names this] mfh.writes_read[OF wf writes] show ?thesis
    by (auto simp: disk)
qed

definition two_files :: fs_names where
  "two_files = \<lparr>fs_is_file = (\<lambda>_. False), fs_inode = (\<lambda>p. if p = [''a''] then Some 1 else Some 2)\<rparr>"

definition two_embedded :: "embeded_file list" where
  "two_embedded = [\<lparr>ef_length = 16383, ef_path = [''a''], ef_md5sum = None\<rparr>, \<lparr>ef_length = 2, ef_path = [''b''], ef_md5sum = None\<rparr>]"

theorem downloaded_pieces_read_back_witness:
  "\<exists>h d' g. handler_download (\<lambda>_. FallocateOk) two_files Map.empty [] 16384 two_embedded = (Inr h, d')
     \<and> handler_seed two_files (foldl (\<lambda>d (i, x). snd (write_piece h d i x)) d' [(1, [9]), (0, replicate 16384 7)]) [] 16384 two_embedded = Inr g
     \<and> read_piece g (foldl (\<lambda>d (i, x). snd (write_piece h d i x)) d' [(1, [9]), (0, replicate 16384 7)]) 1 = Inr [9]
     \<and> read_piece g (foldl (\<lambda>d (i, x). snd (write_piece h d i x)) d' [(1, [9]), (0, replicate 16384 7)]) 0 = Inr (replicate 16384 7)"
proof -
  obtain h d' where h: "handler_download (\<lambda>_. FallocateOk) two_files Map.empty [] 16384 two_embedded = (Inr h, d')"
    by (simp add: handler_download_def two_embedded_def two_files_def full_path_eval preallocate_def Let_def)
  have inodes: "distinct (map (\<lambda>f. the (fs_inode two_files (full_path two_files [] f))) two_embedded)"
    by (simp add: two_embedded_def two_files_def full_path_eval)
  have short: "\<forall>f\<in>set two_embedded. not_longer two_files Map.empty [] f" by (simp add: not_longer_def)
  have pl: "piece_length_validate 16384 = Inr ()" by (simp add: piece_length_validate_def)
  have sum: "sum_list (map (\<lambda>f. unat (as_u64 (ef_length f))) two_embedded) + 2 ^ 27 \<le> 2 ^ 64" by (simp add: two_embedded_def as_u64_def)
  have len: "mf_piece_length h = 16384" "total_length h = 16385"
    using handler_download_ok(2,3)[OF h _ inodes] by (simp_all add: two_embedded_def as_u64_def)
  have fits: "\<forall>(i, x)\<in>set [(1, [9]), (0, replicate 16384 7)]. piece_fits h i x" "distinct (map fst [(1 :: u32, [9 :: u8]), (0, replicate 16384 7)])"
    by (simp_all add: piece_fits_def len)
  from downloaded_pieces_read_back[OF h inodes short pl sum fits, of two_files "[]"] obtain g where
    "handler_seed two_files (foldl (\<lambda>d (i, x). snd (write_piece h d i x)) d' [(1, [9]), (0, replicate 16384 7)]) [] 16384 two_embedded = Inr g"
    "\<forall>(index, data)\<in>set [(1, [9]), (0, replicate 16384 7)].
       read_piece g (foldl (\<lambda>d (i, x). snd (write_piece h d i x)) d' [(1, [9]), (0, replicate 16384 7)]) index = Inr data"
    by blast
  then show ?thesis using h by (intro exI[of _ h] exI[of _ d'] exI[of _ g]) simp
qed

text \<open>Reading a piece of a handler opened for seeding returns the slice of the concatenated
  files at that index, across file boundaries and short at the end, and an index past the end is
  reported as out of bounds.\<close>

lemma seeded_piece_is_slice:
  assumes "handler_seed fs d base pl files = Inr h" and "0 < unat pl" "unat pl \<le> 2 ^ 32"
    and "distinct (map (\<lambda>f. the (fs_inode fs (full_path fs base f))) files)"
    and "length (seed_content fs d base files) + unat pl \<le> 2 ^ 64"
  shows "read_piece h d index =
     (if unat index * unat pl < length (seed_content fs d base files)
      then Inr (chunks (unat pl) (seed_content fs d base files) ! unat index) else Inl (OutOfBounds index))"
  using read_piece_flat[OF handler_seed_wf(1)[OF assms], of index] read_piece_outside[of h index d]
    nth_chunks[OF assms(2), of "unat index" "seed_content fs d base files"]
  using assms(3) by (simp add: handler_seed_wf(2-4)[OF assms])

text \<open>A handler that received every piece of some content, in any order, holds the content.\<close>

lemma all_pieces_written:
  assumes wf: "handler_wf h d" and len: "total_length h = length xs" and few: "length (chunks (mf_piece_length h) xs) \<le> 2 ^ 32"
    and order: "distinct order" "set order = {i :: u32. unat i < length (chunks (mf_piece_length h) xs)}"
  shows "flat (foldl (\<lambda>d i. snd (write_piece h d i (chunks (mf_piece_length h) xs ! unat i))) d order) (targets h) = xs"
proof -
  let ?pl = "mf_piece_length h" and ?cs = "chunks (mf_piece_length h) xs"
  let ?ws = "map (\<lambda>i. (i, ?cs ! unat i)) order"
  let ?d = "foldl (\<lambda>d (i, x). snd (write_piece h d i x)) d ?ws"
  have pl: "0 < ?pl" using wf by (simp add: handler_wf_unfold)
  note inside = chunk_inside[OF pl, of _ xs]
  have piece: "piece_fits h i (?cs ! unat i)" if "i \<in> set order" for i
    using that inside[of "unat i"] nth_chunks[OF pl, of "unat i" xs] by (simp add: order(2) piece_fits_def len)
  have fits: "\<forall>(i, x)\<in>set ?ws. piece_fits h i x" using piece by auto
  have dist: "distinct (map fst ?ws)" using order(1) by (simp add: comp_def)
  have wf': "handler_wf h ?d" by (rule mfh.writes_inv[OF wf fits])
  have flen: "length (flat ?d (targets h)) = length xs"
    using wf' length_flat[of "targets h" ?d] len by (auto simp: handler_wf_unfold)
  have "chunks ?pl (flat ?d (targets h)) ! k = ?cs ! k" if k: "k < length ?cs" for k
  proof -
    define i where "i = (word_of_nat k :: u32)"
    have i: "unat i = k" using k few by (simp add: i_def unsigned_of_nat take_bit_nat_eq_self)
    then have "(i, ?cs ! unat i) \<in> set ?ws" using k order(2) by auto
    from mfh.writes_read[OF wf fits dist this] have "read_piece (as_seeding h) ?d i = Inr (?cs ! k)" by (simp add: i)
    then show ?thesis using read_piece_flat[of "as_seeding h" ?d i] wf' inside[OF k] nth_chunks[OF pl, of k "flat ?d (targets h)"] i len flen by simp
  qed
  then have "chunks ?pl (flat ?d (targets h)) = ?cs"
    by (intro nth_equalityI) (simp_all add: length_chunks[OF pl] flen)
  then have "flat ?d (targets h) = xs" using concat_chunks[OF pl, of "flat ?d (targets h)"] concat_chunks[OF pl, of xs] by simp
  then show ?thesis by (simp only: foldl_map prod.case)
qed

text \<open>A file of length zero cannot be allocated on a system whose \<open>fallocate\<close> refuses an empty
  range, so \<open>download\<close> fails for a torrent that starts with an empty file.\<close>

lemma empty_file_stops_download:
  assumes "fallocate 0 = OtherErrno" and "ef_length f = 0"
  shows "fst (handler_download fallocate fs d base pl (f # files)) = Inl ChunkIo"
  using assms
  by (auto simp: handler_download_def preallocate_def as_u64_def as_i64_def Let_def split: option.splits)

subsection \<open>Names that leave the directory\<close>

text \<open>Files with plain names are opened below the directory of the torrent.\<close>

lemma plain_files_stay_below:
  assumes "list_all plain (ef_path f)"
  shows "prefix (resolve_path base) (resolve_path (full_path fs base f))"
  using plain_path_stays[OF assms, of base] by (simp add: full_path_def)

definition renamed :: "path \<Rightarrow> embeded_file \<Rightarrow> torrent_v1 \<Rightarrow> torrent_v1" where
  "renamed p f t = t\<lparr>v1_mode_of := MultiFile [f\<lparr>ef_path := p\<rparr>]\<rparr>"

lemma renaming_is_valid: "v1_mode_of t = MultiFile [f] \<Longrightarrow> v1_validate (renamed p f t) = v1_validate t"
  by (simp add: v1_validate_def v1_total_size_def renamed_def Let_def split: sum.split)

text \<open>C38: the names in a torrent are not confined. Take any valid torrent of one file, and any file of
  the node at an absolute path. The torrent that names its file by enough parent steps and that
  path is just as valid; downloading it, into whatever directory, opens the other file, and the
  first piece that is written replaces its beginning by the content of the torrent.\<close>

theorem torrent_names_escape:
  assumes valid: "v1_validate t = Inr ()" and one: "v1_mode_of t = MultiFile [f]"
    and place: "rooted base" "list_all plain cs"
    and names: "\<And>p q. resolve_path p = resolve_path q \<Longrightarrow> fs_inode fs p = fs_inode fs q" "\<not> fs_is_file fs base" "fs_inode fs (''/'' # cs) = Some i"
    and space: "\<And>n. fallocate n = FallocateOk" and data: "length data = unat (as_u64 (ef_length f))" "data \<noteq> []" "0 < unat pl"
  shows "v1_validate (renamed (replicate (length base) ''..'' @ cs) f t) = Inr ()
     \<and> (\<exists>h d1 d2. handler_download fallocate fs d base pl (mode_files (v1_mode_of (renamed (replicate (length base) ''..'' @ cs) f t))) = (Inr h, d1)
          \<and> write_piece h d1 0 data = (Inr (), d2) \<and> take (length data) (the (d2 i)) = data)"
proof -
  let ?f = "f\<lparr>ef_path := replicate (length base) ''..'' @ cs\<rparr>"
  have files: "mode_files (v1_mode_of (renamed (replicate (length base) ''..'' @ cs) f t)) = [?f]" by (simp add: renamed_def)
  have "resolve_path (full_path fs base ?f) = ''/'' # cs"
    using parent_path_escapes[OF place, of ?f] names(2) by (simp add: full_path_def)
  then have "resolve_path (full_path fs base ?f) = resolve_path (''/'' # cs)" using place(2) by (simp add: rooted_def)
  then have ino: "fs_inode fs (full_path fs base ?f) = Some i" using names(1,3) by metis
  obtain h d1 where h: "handler_download fallocate fs d base pl [?f] = (Inr h, d1)"
    using ino space by (simp add: handler_download_def preallocate_def Let_def)
  have dist: "distinct (map (\<lambda>f. the (fs_inode fs (full_path fs base f))) [?f])" by simp
  have small: "sum_list (map (\<lambda>f. unat (as_u64 (ef_length f))) [?f]) < 2 ^ 64" using unsigned_less[of "as_u64 (ef_length f)"] by simp
  note wf = handler_download_ok[OF h data(3) dist small]
  have tg: "targets h = [FileChunk_new i 0 (unat (as_u64 (ef_length f)))]"
    using h ino space by (auto simp: handler_download_def preallocate_def Let_def)
  have in0: "unat (0 :: u32) * mf_piece_length h < total_length h" using wf(3) data by (cases data) simp_all
  obtain d2 where d2: "write_piece h d1 0 data = (Inr (), d2)" "handler_ok h d2"
    "flat d2 (targets h) = overlay (unat (0 :: u32) * mf_piece_length h) data 0 (flat d1 (targets h))"
    using write_piece_overlay[OF wf(1) in0, of data] data(1) unsigned_less[of "as_u64 (ef_length f)"] by auto
  have len: "length (flat d1 (targets h)) = length data" using wf(1) tg data(1) by (auto simp: handler_ok_def flat_def file_bytes_def FileChunk_new_def backed_def)
  have "flat d2 (targets h) = data" unfolding d2(3) overlay_def len by (rule nth_equalityI) simp_all
  then have "take (length data) (the (d2 i)) = data" using tg data(1) by (simp add: flat_def file_bytes_def FileChunk_new_def)
  then show ?thesis unfolding files using h d2(1) valid renaming_is_valid[OF one] by simp
qed

definition one_inode :: fs_names where
  "one_inode = \<lparr>fs_is_file = (\<lambda>_. False), fs_inode = (\<lambda>p. if resolve_path p = [''/'', ''home'', ''.profile''] then Some 3 else None)\<rparr>"

definition small_torrent :: torrent_v1 where
  "small_torrent =
     \<lparr>v1_info = \<lparr>tc_info_hash = InfoV1 [], tc_name = ''n'', tc_announce = None, tc_announce_list = None, tc_piece_length = 16384,
        tc_creation_date = None, tc_comment = None, tc_created_by = None, tc_web_seeds = None, tc_dht_nodes = None\<rparr>,
      v1_private = False, v1_pieces = replicate 20 0,
      v1_mode_of = MultiFile [\<lparr>ef_length = 2, ef_path = [''a''], ef_md5sum = None\<rparr>]\<rparr>"

theorem torrent_names_escape_witness:
  "\<exists>h d1 d2. handler_download (\<lambda>_. FallocateOk) one_inode [3 \<mapsto> [1, 1, 1]] [''/'', ''data'', ''x''] 16384
       [\<lparr>ef_length = 2, ef_path = [''..'', ''..'', ''..'', ''home'', ''.profile''], ef_md5sum = None\<rparr>] = (Inr h, d1)
     \<and> write_piece h d1 0 [7, 8] = (Inr (), d2) \<and> take 2 (the (d2 3)) = [7, 8]"
proof -
  let ?f = "\<lparr>ef_length = 2, ef_path = [''a''], ef_md5sum = None\<rparr>"
  have valid: "v1_validate small_torrent = Inr ()"
    by (simp add: small_torrent_def v1_validate_def v1_total_size_def piece_length_validate_def as_u64_def)
  have mode: "v1_mode_of small_torrent = MultiFile [?f]" by (simp add: small_torrent_def)
  have base: "rooted [''/'', ''data'', ''x'']" and cs: "list_all plain [''home'', ''.profile'']"
    by (simp_all add: rooted_def plain_def)
  have names: "fs_inode one_inode p = fs_inode one_inode q" if "resolve_path p = resolve_path q" for p q
    using that by (simp add: one_inode_def)
  have dir: "\<not> fs_is_file one_inode [''/'', ''data'', ''x'']" by (simp add: one_inode_def)
  have ino: "fs_inode one_inode (''/'' # [''home'', ''.profile'']) = Some 3"
    by (simp add: one_inode_def resolve_path_def resolve_step_def)
  have len: "length [7, 8 :: u8] = unat (as_u64 (ef_length ?f))" by (simp add: as_u64_def)
  have files: "mode_files (v1_mode_of (renamed (replicate (length [''/'', ''data'', ''x'']) ''..'' @ [''home'', ''.profile'']) ?f small_torrent))
      = [\<lparr>ef_length = 2, ef_path = [''..'', ''..'', ''..'', ''home'', ''.profile''], ef_md5sum = None\<rparr>]"
    by (simp add: renamed_def)
  have two: "length [7, 8 :: u8] = 2" by simp
  show ?thesis
    using torrent_names_escape[OF valid mode base cs names dir ino _ len, of "\<lambda>_. FallocateOk" 16384 "[3 \<mapsto> [1, 1, 1]]"]
    unfolding files two by simp
qed

end
