(* ===== verification/BitField.thy ===== *)
theory BitField
  imports Bqti_Prelude
begin

text \<open>
  The piece bitfield of a session and of a peer (\<open>session/bit_field.rs\<close>): one bit per piece,
  most significant bit first. Indexing the byte vector out of bounds panics in the source, so
  the accessors return an \<open>option\<close>. The theory shows that a bitfield whose byte vector covers
  its piece count never panics and behaves as a set of piece indices, and that the byte-wise
  \<open>difference\<close> computes the set difference in ascending order.
\<close>

unbundle bit_operations_syntax

record bitfield =
  bf_bytes :: bytes
  piece_count :: nat

definition bf_empty :: "nat \<Rightarrow> bitfield" where
  "bf_empty n = \<lparr>bf_bytes = replicate ((n + 7) div 8) 0, piece_count = n\<rparr>"

definition from_wire :: "bytes \<Rightarrow> nat \<Rightarrow> bitfield" where
  "from_wire bs n = \<lparr>bf_bytes = bs, piece_count = n\<rparr>"

definition bf_have :: "bitfield \<Rightarrow> nat \<Rightarrow> bool option" where
  "bf_have bf index =
     (if piece_count bf \<le> index then Some False
      else let byte = index div 8; bt = 7 - index mod 8
           in if byte < length (bf_bytes bf)
              then Some (bf_bytes bf ! byte AND push_bit bt 1 \<noteq> 0)
              else None)"

definition bf_set :: "bitfield \<Rightarrow> nat \<Rightarrow> bitfield option" where
  "bf_set bf index =
     (if piece_count bf \<le> index then Some bf
      else let byte = index div 8; bt = 7 - index mod 8
           in if byte < length (bf_bytes bf)
              then Some (bf\<lparr>bf_bytes := (bf_bytes bf)[byte := bf_bytes bf ! byte OR push_bit bt 1]\<rparr>)
              else None)"

definition bf_unset :: "bitfield \<Rightarrow> nat \<Rightarrow> bitfield option" where
  "bf_unset bf index =
     (if piece_count bf \<le> index then Some bf
      else let byte = index div 8; bt = 7 - index mod 8
           in if byte < length (bf_bytes bf)
              then Some (bf\<lparr>bf_bytes := (bf_bytes bf)[byte := bf_bytes bf ! byte AND NOT (push_bit bt 1)]\<rparr>)
              else None)"

text \<open>The iterators over \<open>0..piece_count\<close> are lazy. \<open>scan\<close> runs one to its end;
  \<open>next_is_none\<close> asks for its first element only, as \<open>is_complete\<close> does.\<close>

fun scan :: "(nat \<Rightarrow> bool option) \<Rightarrow> nat list \<Rightarrow> nat list option" where
  "scan p [] = Some []"
| "scan p (i # is) =
     (case p i of
        None \<Rightarrow> None
      | Some b \<Rightarrow> map_option (\<lambda>rest. if b then i # rest else rest) (scan p is))"

fun next_is_none :: "(nat \<Rightarrow> bool option) \<Rightarrow> nat list \<Rightarrow> bool option" where
  "next_is_none p [] = Some True"
| "next_is_none p (i # is) =
     (case p i of None \<Rightarrow> None | Some True \<Rightarrow> Some False | Some False \<Rightarrow> next_is_none p is)"

definition missing_pieces :: "bitfield \<Rightarrow> nat list option" where
  "missing_pieces bf = scan (\<lambda>i. map_option Not (bf_have bf i)) [0..<piece_count bf]"

definition available_pieces :: "bitfield \<Rightarrow> nat list option" where
  "available_pieces bf = scan (bf_have bf) [0..<piece_count bf]"

definition is_complete :: "bitfield \<Rightarrow> bool option" where
  "is_complete bf = next_is_none (\<lambda>i. map_option Not (bf_have bf i)) [0..<piece_count bf]"

definition bf_count :: "bitfield \<Rightarrow> nat option" where
  "bf_count bf = map_option length (scan (bf_have bf) [0..<piece_count bf])"

definition byte_or_zero :: "bytes \<Rightarrow> nat \<Rightarrow> u8" where
  "byte_or_zero bs i = (if i < length bs then bs ! i else 0)"

definition difference :: "bitfield \<Rightarrow> bitfield \<Rightarrow> nat list" where
  "difference self other =
     concat (map (\<lambda>byte_idx.
       let my_byte = byte_or_zero (bf_bytes self) byte_idx;
           their_byte = byte_or_zero (bf_bytes other) byte_idx;
           diff = my_byte AND NOT their_byte
       in List.map_filter (\<lambda>bit_pos.
            let piece_index = byte_idx * 8 + bit_pos
            in if piece_count self \<le> piece_index then None
               else if diff AND push_bit (7 - bit_pos) 1 \<noteq> 0 then Some piece_index
               else None) [0..<8])
       [0..<max (length (bf_bytes self)) (length (bf_bytes other))])"

subsection \<open>Well-formed bitfields\<close>

text \<open>The byte vector covers the piece count. \<open>bf_empty\<close> establishes it and the setters keep
  it; \<open>from_wire\<close> does not check it.\<close>

definition bf_wf :: "bitfield \<Rightarrow> bool" where
  "bf_wf bf \<longleftrightarrow> piece_count bf \<le> 8 * length (bf_bytes bf)"

definition bf_mem :: "bitfield \<Rightarrow> nat \<Rightarrow> bool" where
  "bf_mem bf i \<longleftrightarrow> i < piece_count bf \<and> bit (byte_or_zero (bf_bytes bf) (i div 8)) (7 - i mod 8)"

lemma bf_wf_byte: "bf_wf bf \<Longrightarrow> i < piece_count bf \<Longrightarrow> i div 8 < length (bf_bytes bf)"
  unfolding bf_wf_def by linarith

lemma bf_have_mem: "bf_wf bf \<Longrightarrow> bf_have bf i = Some (bf_mem bf i)"
  using bf_wf_byte[of bf i]
  by (auto simp: bf_have_def bf_mem_def byte_or_zero_def Let_def bit_iff_and_push_bit_not_eq_0)

lemma bf_empty_wf [simp, wf_intros]: "bf_wf (bf_empty n)"
  by (auto simp: bf_wf_def bf_empty_def)

lemma bf_empty_mem [simp]: "\<not> bf_mem (bf_empty n) i"
  by (auto simp: bf_mem_def bf_empty_def byte_or_zero_def)

lemma bit_pos_less [simp]: "7 - n mod 8 < (8::nat)"
  by simp

lemma same_bit_position:
  "i div 8 = j div 8 \<Longrightarrow> 7 - i mod 8 = 7 - j mod (8::nat) \<Longrightarrow> i = j"
proof -
  assume "i div 8 = j div 8" and "7 - i mod 8 = 7 - j mod (8::nat)"
  moreover have "i mod 8 < 8" and "j mod 8 < 8" by simp_all
  ultimately have "i div 8 = j div 8" and "i mod 8 = j mod 8" by linarith+
  then show "i = j" by (metis div_mult_mod_eq)
qed

lemma bf_set_wf:
  assumes "bf_wf bf"
  shows "\<exists>bf'. bf_set bf i = Some bf' \<and> bf_wf bf' \<and> piece_count bf' = piece_count bf
           \<and> (\<forall>j. bf_mem bf' j \<longleftrightarrow> bf_mem bf j \<or> (j = i \<and> i < piece_count bf))"
proof (cases "i < piece_count bf")
  case False
  then show ?thesis using assms by (auto simp: bf_set_def)
next
  case True
  let ?b = "i div 8" and ?k = "7 - i mod 8"
  let ?bf = "bf\<lparr>bf_bytes := (bf_bytes bf)[?b := bf_bytes bf ! ?b OR push_bit ?k 1]\<rparr>"
  have len: "?b < length (bf_bytes bf)" using assms True by (rule bf_wf_byte)
  have "bf_mem ?bf j \<longleftrightarrow> bf_mem bf j \<or> j = i" if "j < piece_count bf" for j
    using len that bf_wf_byte[OF assms that] same_bit_position[of j i] bit_pos_less[of i]
    by (cases "j div 8 = ?b")
       (auto simp: bf_mem_def byte_or_zero_def bit_or_iff bit_exp_iff nth_list_update)
  then have "bf_mem ?bf j \<longleftrightarrow> bf_mem bf j \<or> (j = i \<and> i < piece_count bf)" for j
    using True by (cases "j < piece_count bf") (auto simp: bf_mem_def)
  then show ?thesis
    using True len assms by (auto simp: bf_set_def Let_def bf_wf_def)
qed

lemma bf_unset_wf:
  assumes "bf_wf bf"
  shows "\<exists>bf'. bf_unset bf i = Some bf' \<and> bf_wf bf' \<and> piece_count bf' = piece_count bf
           \<and> (\<forall>j. bf_mem bf' j \<longleftrightarrow> bf_mem bf j \<and> j \<noteq> i)"
proof (cases "i < piece_count bf")
  case False
  then show ?thesis using assms by (auto simp: bf_unset_def bf_mem_def)
next
  case True
  let ?b = "i div 8" and ?k = "7 - i mod 8"
  let ?bf = "bf\<lparr>bf_bytes := (bf_bytes bf)[?b := bf_bytes bf ! ?b AND NOT (push_bit ?k 1)]\<rparr>"
  have len: "?b < length (bf_bytes bf)" using assms True by (rule bf_wf_byte)
  have "bf_mem ?bf j \<longleftrightarrow> bf_mem bf j \<and> j \<noteq> i" if "j < piece_count bf" for j
    using len that bf_wf_byte[OF assms that] same_bit_position[of j i] bit_pos_less[of i]
    by (cases "j div 8 = ?b")
       (auto simp: bf_mem_def byte_or_zero_def bit_and_iff bit_not_iff bit_exp_iff
          nth_list_update)
  then have "bf_mem ?bf j \<longleftrightarrow> bf_mem bf j \<and> j \<noteq> i" for j
    by (cases "j < piece_count bf") (auto simp: bf_mem_def)
  then show ?thesis
    using True len assms by (auto simp: bf_unset_def Let_def bf_wf_def)
qed

subsection \<open>Interface: a bounded set of pieces\<close>

text \<open>What the session and the pipelines rely on: membership below a bound, an insertion and a
  removal that cannot fail on a well-formed value.\<close>

locale piece_set =
  fixes wf :: "'s \<Rightarrow> bool"
    and cnt :: "'s \<Rightarrow> nat"
    and mem :: "'s \<Rightarrow> nat \<Rightarrow> bool"
    and add :: "'s \<Rightarrow> nat \<Rightarrow> 's option"
    and del :: "'s \<Rightarrow> nat \<Rightarrow> 's option"
  assumes mem_bound: "mem s i \<Longrightarrow> i < cnt s"
    and add_law: "wf s \<Longrightarrow> \<exists>s'. add s i = Some s' \<and> wf s' \<and> cnt s' = cnt s
                    \<and> (\<forall>j. mem s' j \<longleftrightarrow> mem s j \<or> (j = i \<and> i < cnt s))"
    and del_law: "wf s \<Longrightarrow> \<exists>s'. del s i = Some s' \<and> wf s' \<and> cnt s' = cnt s
                    \<and> (\<forall>j. mem s' j \<longleftrightarrow> mem s j \<and> j \<noteq> i)"
begin

lemma add_all:
  "wf s \<Longrightarrow> \<exists>s'. fold_opt add s is = Some s' \<and> wf s' \<and> cnt s' = cnt s
     \<and> (\<forall>j. mem s' j \<longleftrightarrow> mem s j \<or> (j \<in> set is \<and> j < cnt s))"
proof (induction "is" arbitrary: s)
  case Nil
  then show ?case by simp
next
  case (Cons i "is")
  obtain s1 where s1: "add s i = Some s1" "wf s1" "cnt s1 = cnt s"
      "\<forall>j. mem s1 j \<longleftrightarrow> mem s j \<or> (j = i \<and> i < cnt s)"
    using add_law[OF Cons.prems, of i] by blast
  obtain s2 where "fold_opt add s1 is = Some s2" "wf s2" "cnt s2 = cnt s1"
      "\<forall>j. mem s2 j \<longleftrightarrow> mem s1 j \<or> (j \<in> set is \<and> j < cnt s1)"
    using Cons.IH[OF s1(2)] by blast
  with s1 show ?case by auto
qed

lemma add_del:
  assumes "wf s" and "\<not> mem s i"
  obtains s1 s2 where "add s i = Some s1" and "del s1 i = Some s2" and "mem s2 = mem s"
proof -
  obtain s1 where s1: "add s i = Some s1" "wf s1"
      "\<forall>j. mem s1 j \<longleftrightarrow> mem s j \<or> (j = i \<and> i < cnt s)"
    using add_law[OF assms(1), of i] by blast
  obtain s2 where s2: "del s1 i = Some s2" "\<forall>j. mem s2 j \<longleftrightarrow> mem s1 j \<and> j \<noteq> i"
    using del_law[OF s1(2), of i] by blast
  have "mem s2 = mem s" using s1 s2 assms(2) by (auto simp: fun_eq_iff)
  with s1 s2 that show thesis by blast
qed

end

interpretation bf: piece_set bf_wf piece_count bf_mem bf_set bf_unset
proof
  show "i < piece_count s" if "bf_mem s i" for s i
    using that by (simp add: bf_mem_def)
qed (rule bf_set_wf bf_unset_wf, assumption)+

subsection \<open>The iterators\<close>

lemma scan_total: "(\<And>i. i \<in> set is \<Longrightarrow> p i = Some (q i)) \<Longrightarrow> scan p is = Some (filter q is)"
  by (induction "is") auto

lemma next_is_none_total:
  "(\<And>i. i \<in> set is \<Longrightarrow> p i = Some (q i)) \<Longrightarrow> next_is_none p is = Some (\<forall>i\<in>set is. \<not> q i)"
  by (induction "is") (auto split: bool.splits)

lemma bf_count_mem: "bf_wf bf \<Longrightarrow> bf_count bf = Some (length (filter (bf_mem bf) [0..<piece_count bf]))"
  unfolding bf_count_def by (subst scan_total[where q = "bf_mem bf"]) (auto simp: bf_have_mem)

lemma is_complete_mem: "bf_wf bf \<Longrightarrow> is_complete bf = Some (\<forall>i<piece_count bf. bf_mem bf i)"
  unfolding is_complete_def
  by (subst next_is_none_total[where q = "\<lambda>i. \<not> bf_mem bf i"]) (auto simp: bf_have_mem)

lemma missing_pieces_mem:
  "bf_wf bf \<Longrightarrow> missing_pieces bf = Some (filter (\<lambda>i. \<not> bf_mem bf i) [0..<piece_count bf])"
  unfolding missing_pieces_def
  by (subst scan_total[where q = "\<lambda>i. \<not> bf_mem bf i"]) (auto simp: bf_have_mem)

subsection \<open>The byte-wise difference\<close>

definition bf_raw :: "bitfield \<Rightarrow> nat \<Rightarrow> bool" where
  "bf_raw bf i \<longleftrightarrow> bit (byte_or_zero (bf_bytes bf) (i div 8)) (7 - i mod 8)"

lemma difference_raw: "difference a b = filter (\<lambda>i. bf_mem a i \<and> \<not> bf_raw b i) [0..<piece_count a]"
proof -
  let ?L = "max (length (bf_bytes a)) (length (bf_bytes b))"
  let ?Q = "\<lambda>i. bf_mem a i \<and> \<not> bf_raw b i"
  let ?h = "\<lambda>i. if ?Q i then Some i else None"
  have blk: "List.map_filter (\<lambda>k. if piece_count a \<le> c * 8 + k then None
         else if (byte_or_zero (bf_bytes a) c AND NOT (byte_or_zero (bf_bytes b) c)) AND push_bit (7 - k) 1 \<noteq> 0
              then Some (c * 8 + k) else None) [0..<8]
       = List.map_filter (\<lambda>k. ?h (c * 8 + k)) [0..<8]" for c
    by (intro map_filter_cong) (auto simp: bf_mem_def bf_raw_def and_exp_eq_0_iff bit_and_iff bit_not_iff)
  have "difference a b = List.map_filter ?h [0..<?L * 8]"
    unfolding difference_def Let_def blk by (rule map_filter_blocks)
  also have "\<dots> = filter ?Q [0..<?L * 8]" by (rule map_filter_if)
  also have "\<dots> = filter ?Q [0..<piece_count a]"
  proof (rule filter_upt_extend)
    fix i assume "?Q i"
    then have "i div 8 < length (bf_bytes a)"
      by (auto simp: bf_mem_def byte_or_zero_def split: if_splits)
    then show "i < ?L * 8" by linarith
    show "i < piece_count a" using \<open>?Q i\<close> by (simp add: bf_mem_def)
  qed
  finally show ?thesis .
qed

subsection \<open>Properties\<close>

text \<open>On a well-formed bitfield \<open>set\<close> does not panic, keeps it well formed, and afterwards
  \<open>have\<close> answers yes for the piece that was set (when it is in range) and as before for every
  other piece.\<close>

lemma bitfield_set_have:
  assumes "bf_wf bf"
  shows "\<exists>bf'. bf_set bf i = Some bf' \<and> bf_wf bf' \<and> piece_count bf' = piece_count bf
     \<and> (\<forall>j. bf_have bf' j = (if j = i \<and> i < piece_count bf then Some True else bf_have bf j))"
  using bf_set_wf[OF assms, of i] assms by (auto simp: bf_have_mem)

text \<open>Between two well-formed bitfields of the same torrent the byte-wise \<open>difference\<close> is
  exactly the ascending list of pieces that the first has and the second has not.\<close>

lemma bitfield_difference:
  assumes "bf_wf a" and "bf_wf b" and "piece_count b = piece_count a"
  shows "difference a b = filter (\<lambda>i. bf_have a i = Some True \<and> bf_have b i = Some False) [0..<piece_count a]"
  unfolding difference_raw
  using assms by (intro filter_cong) (auto simp: bf_have_mem bf_mem_def bf_raw_def)

text \<open>A well-formed bitfield is complete exactly when the number of pieces it counts is the
  piece count, and then no piece is missing.\<close>

lemma bitfield_complete_count:
  assumes "bf_wf bf"
  shows "is_complete bf = Some (bf_count bf = Some (piece_count bf))
     \<and> is_complete bf = Some (missing_pieces bf = Some [])"
proof
  have "length (filter (bf_mem bf) [0..<piece_count bf]) = piece_count bf \<longleftrightarrow> (\<forall>i<piece_count bf. bf_mem bf i)"
    by (metis atLeast_upt diff_zero filter_True length_filter_less length_upt less_irrefl lessThan_iff)
  then show "is_complete bf = Some (bf_count bf = Some (piece_count bf))"
    using assms by (simp add: is_complete_mem bf_count_mem)
  show "is_complete bf = Some (missing_pieces bf = Some [])"
    using assms by (auto simp: is_complete_mem missing_pieces_mem filter_empty_conv)
qed

text \<open>\<open>from_wire\<close> accepts a byte vector that is too short for the piece count; a piece index
  that is in range but beyond the vector then makes \<open>have\<close> and \<open>set\<close> panic, so a peer that
  sends a short bitfield and then announces such a piece aborts the handler.\<close>

lemma short_bitfield_panics:
  assumes "i < n" and "length bs \<le> i div 8"
  shows "bf_have (from_wire bs n) i = None \<and> bf_set (from_wire bs n) i = None"
  using assms by (simp add: bf_have_def bf_set_def from_wire_def Let_def)

end
