(* ===== verification/Pipeline.thy ===== *)
theory Pipeline
  imports BitField KeySpace
begin

text \<open>
  The request pipeline of one peer (\<open>session/bep/pipeline.rs\<close>): the choke and interest flags
  of both sides, the peer's bitfield and the set of pieces requested and not yet received. The
  theory shows which pieces \<open>fill_requests\<close> asks for and that the number of outstanding
  requests never exceeds \<open>MAX_PIPELINE\<close>.
\<close>

definition MAX_PIPELINE :: nat where
  "MAX_PIPELINE = 128"

record pipeline =
  pl_peer :: node
  pl_bitfield :: bitfield
  am_choking :: bool
  am_interested :: bool
  peer_choking :: bool
  peer_interested :: bool
  pl_pending :: "u32 set"

definition Pipeline_new :: "node \<Rightarrow> bitfield \<Rightarrow> pipeline" where
  "Pipeline_new peer bf =
     \<lparr>pl_peer = peer, pl_bitfield = bf, am_choking = True, am_interested = False,
      peer_choking = True, peer_interested = False, pl_pending = {}\<rparr>"

definition evaluate_interest :: "bitfield \<Rightarrow> pipeline \<Rightarrow> bool \<times> pipeline" where
  "evaluate_interest ours p =
     (let interested = difference (pl_bitfield p) ours \<noteq> []
      in (interested, p\<lparr>am_interested := interested\<rparr>))"

definition on_unchoke :: "pipeline \<Rightarrow> pipeline" where
  "on_unchoke p = p\<lparr>peer_choking := False\<rparr>"

definition on_choke :: "pipeline \<Rightarrow> pipeline" where
  "on_choke p = p\<lparr>peer_choking := True, pl_pending := {}, am_interested := False\<rparr>"

definition pl_unchoke :: "pipeline \<Rightarrow> pipeline" where
  "pl_unchoke p = p\<lparr>am_choking := False\<rparr>"

definition pl_choke :: "pipeline \<Rightarrow> pipeline" where
  "pl_choke p = p\<lparr>am_choking := True\<rparr>"

definition on_peer_interested :: "pipeline \<Rightarrow> pipeline" where
  "on_peer_interested p = p\<lparr>peer_interested := True\<rparr>"

definition on_peer_not_interested :: "pipeline \<Rightarrow> pipeline" where
  "on_peer_not_interested p = p\<lparr>peer_interested := False\<rparr>"

definition clear_piece :: "u32 \<Rightarrow> pipeline \<Rightarrow> pipeline" where
  "clear_piece index p = p\<lparr>pl_pending := pl_pending p - {index}\<rparr>"

definition set_bitfield :: "nat \<Rightarrow> pipeline \<Rightarrow> pipeline option" where
  "set_bitfield index p = map_option (\<lambda>bf. p\<lparr>pl_bitfield := bf\<rparr>) (bf_set (pl_bitfield p) index)"

text \<open>The loop of \<open>fill_requests\<close>: slots left, pending set, requests so far.\<close>

fun fill_loop :: "nat list \<Rightarrow> nat \<Rightarrow> u32 set \<Rightarrow> u32 list \<Rightarrow> u32 list \<times> u32 set" where
  "fill_loop [] slots pend reqs = (reqs, pend)"
| "fill_loop (i # is) slots pend reqs =
     (let piece_index = word_of_nat i;
          (slots, pend, reqs) =
            (if piece_index \<notin> pend then (slots - 1, insert piece_index pend, reqs @ [piece_index])
             else (slots, pend, reqs))
      in if slots = 0 then (reqs, pend) else fill_loop is slots pend reqs)"

definition fill_requests :: "u32 option \<Rightarrow> bitfield \<Rightarrow> pipeline \<Rightarrow> u32 list \<times> pipeline" where
  "fill_requests received session_bitfield p =
     (if peer_choking p then ([], p)
      else let pend = (case received of Some index \<Rightarrow> pl_pending p - {index} | None \<Rightarrow> pl_pending p);
               available_slots = MAX_PIPELINE - card pend
           in if available_slots = 0 then ([], p\<lparr>pl_pending := pend\<rparr>)
              else let (reqs, pend') = fill_loop (difference (pl_bitfield p) session_bitfield) available_slots pend []
                   in (reqs, p\<lparr>pl_pending := pend'\<rparr>))"

subsection \<open>The loop\<close>

lemma fill_loop_spec:
  assumes "fill_loop is slots pend reqs = (reqs', pend')" and "finite pend" and "0 < slots"
  shows "\<exists>new. reqs' = reqs @ new \<and> pend' = pend \<union> set new \<and> distinct new \<and> set new \<inter> pend = {}
     \<and> set new \<subseteq> word_of_nat ` set is \<and> length new \<le> slots
     \<and> (length new = slots \<or> word_of_nat ` set is \<subseteq> pend')"
  using assms
proof (induction "is" arbitrary: slots pend reqs)
  case Nil
  then show ?case by auto
next
  case (Cons i "is")
  let ?w = "word_of_nat i :: u32"
  show ?case
  proof (cases "?w \<in> pend")
    case True
    with Cons.prems have run: "fill_loop is slots pend reqs = (reqs', pend')" by simp
    obtain new where "reqs' = reqs @ new" "pend' = pend \<union> set new" "distinct new" "set new \<inter> pend = {}"
        "set new \<subseteq> word_of_nat ` set is" "length new \<le> slots"
        "length new = slots \<or> word_of_nat ` set is \<subseteq> pend'"
      using Cons.IH[OF run Cons.prems(2,3)] by blast
    then show ?thesis using True by (intro exI[of _ new]) auto
  next
    case False
    show ?thesis
    proof (cases "slots - 1 = 0")
      case True
      with False Cons.prems show ?thesis by (intro exI[of _ "[?w]"]) (auto simp: Let_def)
    next
      case s: False
      have run: "fill_loop is (slots - 1) (insert ?w pend) (reqs @ [?w]) = (reqs', pend')"
        using False s Cons.prems(1) by (simp add: Let_def)
      obtain new where "reqs' = (reqs @ [?w]) @ new" "pend' = insert ?w pend \<union> set new" "distinct new"
          "set new \<inter> insert ?w pend = {}" "set new \<subseteq> word_of_nat ` set is" "length new \<le> slots - 1"
          "length new = slots - 1 \<or> word_of_nat ` set is \<subseteq> pend'"
        using Cons.IH[OF run] s Cons.prems(2) by auto
      then show ?thesis using s False Cons.prems(3) by (intro exI[of _ "?w # new"]) auto
    qed
  qed
qed

subsection \<open>The pending window\<close>

definition pl_wf :: "pipeline \<Rightarrow> bool" where
  "pl_wf p \<longleftrightarrow> finite (pl_pending p) \<and> card (pl_pending p) \<le> MAX_PIPELINE"

lemma pl_wf_new [wf_intros]: "pl_wf (Pipeline_new peer bf)"
  by (simp add: pl_wf_def Pipeline_new_def)

lemma pl_wf_ops [wf_intros]:
  "pl_wf p \<Longrightarrow> pl_wf (on_unchoke p)" "pl_wf p \<Longrightarrow> pl_wf (on_choke p)"
  "pl_wf p \<Longrightarrow> pl_wf (pl_unchoke p)" "pl_wf p \<Longrightarrow> pl_wf (pl_choke p)"
  "pl_wf p \<Longrightarrow> pl_wf (on_peer_interested p)" "pl_wf p \<Longrightarrow> pl_wf (on_peer_not_interested p)"
  "pl_wf p \<Longrightarrow> pl_wf (snd (evaluate_interest ours p))"
  by (simp_all add: pl_wf_def on_unchoke_def on_choke_def pl_unchoke_def pl_choke_def
      on_peer_interested_def on_peer_not_interested_def evaluate_interest_def Let_def)

lemma card_Diff_le: "finite A \<Longrightarrow> card (A - B) \<le> card A"
  by (rule card_mono) auto

lemma clear_piece_wf [wf_intros]: "pl_wf p \<Longrightarrow> pl_wf (clear_piece i p)"
  using card_Diff_le[of "pl_pending p" "{i}"] by (simp add: pl_wf_def clear_piece_def)

lemma fill_requests_spec:
  assumes wf: "pl_wf p" and run: "fill_requests received sbf p = (reqs, p')" and open_peer: "\<not> peer_choking p"
  defines "pend \<equiv> (case received of Some index \<Rightarrow> pl_pending p - {index} | None \<Rightarrow> pl_pending p)"
    and "wanted \<equiv> word_of_nat ` set (difference (pl_bitfield p) sbf)"
  shows "distinct reqs \<and> set reqs \<subseteq> wanted - pend \<and> pl_pending p' = pend \<union> set reqs
     \<and> card (pl_pending p') \<le> MAX_PIPELINE
     \<and> (card (pl_pending p') = MAX_PIPELINE \<or> wanted \<subseteq> pl_pending p')"
proof -
  have pend: "finite pend" "card pend \<le> MAX_PIPELINE"
    using wf le_trans[OF card_Diff_le[of "pl_pending p"]]
    by (auto simp: pl_wf_def pend_def split: option.splits)
  show ?thesis
  proof (cases "MAX_PIPELINE - card pend = 0")
    case True
    then show ?thesis using run open_peer pend by (auto simp: fill_requests_def pend_def Let_def)
  next
    case False
    let ?s = "MAX_PIPELINE - card pend"
    obtain r q where rq: "fill_loop (difference (pl_bitfield p) sbf) ?s pend [] = (r, q)" by fastforce
    with run open_peer False have res: "reqs = r" "pl_pending p' = q"
      by (auto simp: fill_requests_def pend_def Let_def)
    obtain new where new: "r = new" "q = pend \<union> set new" "distinct new" "set new \<inter> pend = {}"
        "set new \<subseteq> wanted" "length new \<le> ?s" "length new = ?s \<or> wanted \<subseteq> q"
      using fill_loop_spec[OF rq pend(1)] False unfolding wanted_def by auto
    have "card q = card pend + length new"
      using new pend by (simp add: card_Un_disjoint distinct_card inf.commute)
    then show ?thesis using new res pend(2) by auto
  qed
qed

subsection \<open>Properties\<close>

text \<open>C22: when the peer does not choke us, \<open>fill_requests\<close> first takes the received piece, if one is
  named, off the outstanding requests. It then asks only for pieces the peer has and the session
  lacks, each once and none still outstanding; it records exactly the new requests beside the old
  ones; at most \<open>MAX_PIPELINE\<close> requests are then outstanding, and if there are fewer every wanted
  piece is. The two bitfields are well formed and of the same torrent.\<close>

theorem fill_requests_window:
  assumes "pl_wf p" and "fill_requests received sbf p = (reqs, p')" and "\<not> peer_choking p"
    and "bf_wf (pl_bitfield p)" and "bf_wf sbf" and "piece_count sbf = piece_count (pl_bitfield p)"
    and pend: "pend = (case received of Some index \<Rightarrow> pl_pending p - {index} | None \<Rightarrow> pl_pending p)"
  shows "distinct reqs \<and> pl_pending p' = pend \<union> set reqs \<and> set reqs \<inter> pend = {}
     \<and> (\<forall>r\<in>set reqs. \<exists>i. r = word_of_nat i \<and> bf_have (pl_bitfield p) i = Some True \<and> bf_have sbf i = Some False)
     \<and> card (pl_pending p') \<le> MAX_PIPELINE
     \<and> (card (pl_pending p') < MAX_PIPELINE \<longrightarrow>
          (\<forall>i. bf_have (pl_bitfield p) i = Some True \<longrightarrow> bf_have sbf i = Some False \<longrightarrow>
             word_of_nat i \<in> pl_pending p'))"
proof -
  have wanted: "i \<in> set (difference (pl_bitfield p) sbf) \<longleftrightarrow>
      bf_have (pl_bitfield p) i = Some True \<and> bf_have sbf i = Some False" for i
    using assms(4-6) by (auto simp: difference_raw bf_have_mem bf_mem_def bf_raw_def)
  let ?W = "word_of_nat ` set (difference (pl_bitfield p) sbf) :: u32 set"
  have spec: "distinct reqs" "set reqs \<subseteq> ?W - pend" "pl_pending p' = pend \<union> set reqs"
      "card (pl_pending p') \<le> MAX_PIPELINE" "card (pl_pending p') = MAX_PIPELINE \<or> ?W \<subseteq> pl_pending p'"
    using fill_requests_spec[OF assms(1-3)] unfolding pend by auto
  have "\<exists>i. r = word_of_nat i \<and> bf_have (pl_bitfield p) i = Some True \<and> bf_have sbf i = Some False"
    if "r \<in> set reqs" for r
    using that spec(2) wanted by blast
  moreover have "word_of_nat i \<in> pl_pending p'"
    if "card (pl_pending p') < MAX_PIPELINE" "bf_have (pl_bitfield p) i = Some True" "bf_have sbf i = Some False" for i
    using that spec(5) wanted[of i] by auto
  ultimately show ?thesis using spec(1-4) by blast
qed

definition asking :: pipeline where
  "asking = (on_unchoke (Pipeline_new \<lparr>node_id = \<lparr>key_id = [], pub_key = []\<rparr>, node_addr = SocketV4 1 1\<rparr>
     (from_wire [240] 8)))\<lparr>pl_pending := {0, 1}\<rparr>"

theorem fill_requests_window_witness:
  "fill_requests (Some 0) (from_wire [128] 8) asking = ([2, 3], asking\<lparr>pl_pending := {1, 2, 3}\<rparr>)
     \<and> {1, 2, 3} = {1} \<union> {2, 3 :: u32} \<and> card {1, 2, 3 :: u32} \<le> MAX_PIPELINE"
proof -
  have run: "fill_requests (Some 0) (from_wire [128] 8) asking = ([2, 3], asking\<lparr>pl_pending := {1, 2, 3}\<rparr>)"
    by code_simp
  have wf: "pl_wf asking" by (simp add: pl_wf_def asking_def MAX_PIPELINE_def)
  have fits: "\<not> peer_choking asking" "bf_wf (pl_bitfield asking)" "bf_wf (from_wire [128] 8)"
      "piece_count (from_wire [128] 8) = piece_count (pl_bitfield asking)"
    by (simp_all add: asking_def on_unchoke_def Pipeline_new_def bf_wf_def from_wire_def)
  have pend: "{1} = (case Some 0 of Some index \<Rightarrow> pl_pending asking - {index} | None \<Rightarrow> pl_pending asking)"
    by (auto simp: asking_def)
  note window = fill_requests_window[OF wf run fits pend]
  show ?thesis using run window[THEN conjunct2, THEN conjunct1]
      window[THEN conjunct2, THEN conjunct2, THEN conjunct2, THEN conjunct2, THEN conjunct1] by simp
qed

text \<open>A choke from the peer drops every outstanding request, and until the peer unchokes us
  \<open>fill_requests\<close> asks for nothing.\<close>

lemma choked_pipeline_is_silent:
  "pl_pending (on_choke p) = {} \<and> fill_requests received sbf (on_choke p) = ([], on_choke p)"
  by (simp add: on_choke_def fill_requests_def)

end
