(* ===== verification/SessionState.thy ===== *)
theory SessionState
  imports Builder Chunks Pipeline "HOL-Library.AList"
begin

text \<open>
  The life cycle of a torrent session: \<open>session/resume.rs\<close>, \<open>session/cache.rs\<close>,
  \<open>session/state.rs\<close> and \<open>session/transition.rs\<close>. A cancellation token is a number; the session
  keeps the set of tokens that were cancelled, and replacing a state drops the old one, which
  cancels its token. The directories under the data directory, the name space, \<open>fallocate\<close> and
  the bencode library are parameters of the environment. \<open>transition\<close> is given twice: run alone,
  and as a sequence of atomic steps (one for each acquisition of a lock) that interleaves with
  other transitions of the same session.
\<close>

subsection \<open>Resume files\<close>

record resume_file =
  rf_info_hash :: bytes
  rf_bitfield :: bytes
  rf_resource :: string
  rf_total_pieces :: nat

type_synonym files = "path \<Rightarrow> bytes option"

definition path_string :: "path \<Rightarrow> string" where
  "path_string p = concat (map (\<lambda>c. CHR ''/'' # c) p)"

definition ResumeFile_new :: "info_hash \<Rightarrow> bitfield \<Rightarrow> path \<Rightarrow> resume_file" where
  "ResumeFile_new ih bf resource =
     \<lparr>rf_info_hash = info_hash_bytes ih, rf_bitfield = bf_bytes bf,
      rf_resource = path_string resource, rf_total_pieces = piece_count bf\<rparr>"

definition resume_path :: "path \<Rightarrow> path" where
  "resume_path resource = resource @ [''.bqtiresume'']"

definition resume_open :: "(bytes \<Rightarrow> resume_file option) \<Rightarrow> files \<Rightarrow> path \<Rightarrow> info_hash \<Rightarrow> resume_file option" where
  "resume_open dec fs resource ih =
     (case fs (resume_path resource) of
        None \<Rightarrow> None
      | Some bs \<Rightarrow>
          (case dec bs of
             None \<Rightarrow> None
           | Some data \<Rightarrow> if rf_info_hash data \<noteq> info_hash_bytes ih then None else Some data))"

definition resume_persist ::
  "(resume_file \<Rightarrow> bytes option) \<Rightarrow> (path \<Rightarrow> bool) \<Rightarrow> files \<Rightarrow> resume_file \<Rightarrow> path \<Rightarrow> bit_torrent_error + files" where
  "resume_persist enc writable fs r resource =
     (let p = resume_path resource; tmp = resource @ [''.bqtiresume.bqti.tmp'']
      in case enc r of
           None \<Rightarrow> Inl CodecError
         | Some bs \<Rightarrow>
             if \<not> writable tmp then Inl IoError
             else let fs = fs(tmp := Some bs)
                  in if writable p then Inr (fs(p := fs tmp, tmp := None)) else Inl IoError)"

definition resume_get_bitfield :: "resume_file \<Rightarrow> bitfield" where
  "resume_get_bitfield r = from_wire (rf_bitfield r) (rf_total_pieces r)"

definition resume_is_complete :: "resume_file \<Rightarrow> bool option" where
  "resume_is_complete r =
     (let bf = resume_get_bitfield r
      in next_is_none (\<lambda>i. map_option Not (bf_have bf i)) [0..<rf_total_pieces r])"

subsection \<open>The session cache\<close>

record session_env =
  se_names :: fs_names
  se_fallocate :: "int \<Rightarrow> fallocate_result"
  se_download_dir :: "torrent_file \<Rightarrow> path option"
  se_upload_dir :: "path \<Rightarrow> torrent_file \<Rightarrow> path option"
  se_writable :: "path \<Rightarrow> bool"
  se_enc_resume :: "resume_file \<Rightarrow> bytes option"
  se_dec_resume :: "bytes \<Rightarrow> resume_file option"
  se_codec :: net_codec
  se_enc_torrent :: "bencode_torrent \<Rightarrow> bytes option"
  se_sha1 :: "bytes \<Rightarrow> bytes"
  se_sha256 :: "bytes \<Rightarrow> bytes"

record session_fs =
  sf_disk :: disk
  sf_files :: files

datatype caching_mode = CacheDownload path torrent_file | CacheSeed path torrent_file

record session_cache =
  sc_dir :: path
  sc_torrent :: torrent_file
  sc_resume :: "resume_file option"

definition torrent_info_hash :: "torrent_file \<Rightarrow> info_hash" where
  "torrent_info_hash t = tc_info_hash (torrent_common_of t)"

fun torrent_piece_hashes :: "torrent_file \<Rightarrow> bytes list" where
  "torrent_piece_hashes (TorrentFileV1 t) = v1_piece_hashes t"
| "torrent_piece_hashes (TorrentFileV2 t) = v2_piece_hashes t"

definition SessionCache_new :: "session_env \<Rightarrow> session_fs \<Rightarrow> caching_mode \<Rightarrow> session_cache option" where
  "SessionCache_new env fs mode =
     (let (cache_dir, metafile) =
            (case mode of
               CacheDownload _ metafile \<Rightarrow> (se_download_dir env metafile, metafile)
             | CacheSeed user_space metafile \<Rightarrow> (se_upload_dir env user_space metafile, metafile))
      in case cache_dir of
           None \<Rightarrow> None
         | Some dir \<Rightarrow>
             Some \<lparr>sc_dir = dir, sc_torrent = metafile,
                   sc_resume = resume_open (se_dec_resume env) (sf_files fs) dir (torrent_info_hash metafile)\<rparr>)"

definition persist_torrent :: "session_env \<Rightarrow> session_cache \<Rightarrow> session_fs \<Rightarrow> session_fs" where
  "persist_torrent env c fs =
     (let p = sc_dir c @ [''.torrent'']
      in if sf_files fs p \<noteq> None then fs
         else case torrent_save (se_codec env) (se_enc_torrent env) (se_writable env) (sf_files fs) p (sc_torrent c) of
                Inr files \<Rightarrow> fs\<lparr>sf_files := files\<rparr>
              | Inl _ \<Rightarrow> fs)"

definition persist_resume :: "session_env \<Rightarrow> session_cache \<Rightarrow> bitfield \<Rightarrow> session_fs \<Rightarrow> session_fs" where
  "persist_resume env c bf fs =
     (let data = ResumeFile_new (torrent_info_hash (sc_torrent c)) bf (sc_dir c)
      in case resume_persist (se_enc_resume env) (se_writable env) (sf_files fs) data (sc_dir c) of
           Inr files \<Rightarrow> fs\<lparr>sf_files := files\<rparr>
         | Inl _ \<Rightarrow> fs)"

subsection \<open>Resources of a state\<close>

datatype session_error =
    FailedToLoad | StateError | UnableToFindXDGFolder | InvalidTransition | ChunkReaderError chunk_handler_error

datatype session_event =
    PieceVerified u32 u32 | SeedStarted | IdleEvent | PieceDownloaded u32 u32 | DownloadCompleted string

record 's state_resources =
  rs_handler :: "'s multi_file_handler"
  rs_cache :: session_cache

definition resources_download ::
  "session_env \<Rightarrow> torrent_file \<Rightarrow> path \<Rightarrow> session_fs \<Rightarrow> (session_error + downloading state_resources) \<times> session_fs" where
  "resources_download env metafile user_space fs =
     (case SessionCache_new env fs (CacheDownload user_space metafile) of
        None \<Rightarrow> (Inl UnableToFindXDGFolder, fs)
      | Some c \<Rightarrow>
          (case handler_download (se_fallocate env) (se_names env) (sf_disk fs) (sc_dir c)
                  (tc_piece_length (torrent_common_of metafile)) (torrent_files metafile) of
             (Inl e, d) \<Rightarrow> (Inl (ChunkReaderError e), fs\<lparr>sf_disk := d\<rparr>)
           | (Inr h, d) \<Rightarrow>
               (Inr \<lparr>rs_handler = h, rs_cache = c\<rparr>, persist_torrent env c (fs\<lparr>sf_disk := d\<rparr>))))"

text \<open>\<open>verify_pieces\<close>: read every piece and compare its SHA-1 digest; the result is the bitfield
  of the pieces that match and the events sent on the way. \<open>None\<close> is a panic of \<open>set\<close>.\<close>

fun verify_pieces ::
  "(bytes \<Rightarrow> bytes) \<Rightarrow> seeding multi_file_handler \<Rightarrow> disk \<Rightarrow> nat \<Rightarrow> nat \<Rightarrow> bytes list \<Rightarrow> bitfield \<Rightarrow> session_event list
     \<Rightarrow> ((session_error + bitfield) \<times> session_event list) option" where
  "verify_pieces sha1 h d total_pieces index [] bf evs = Some (Inr bf, evs)"
| "verify_pieces sha1 h d total_pieces index (expected # rest) bf evs =
     (case read_piece h d (word_of_nat index) of
        Inl e \<Rightarrow> Some (Inl (ChunkReaderError e), evs)
      | Inr data \<Rightarrow>
          if sha1 data \<noteq> expected then verify_pieces sha1 h d total_pieces (Suc index) rest bf evs
          else case bf_set bf index of
                 None \<Rightarrow> None
               | Some bf \<Rightarrow>
                   verify_pieces sha1 h d total_pieces (Suc index) rest bf
                     (evs @ [PieceVerified (word_of_nat total_pieces) (word_of_nat index)]))"

definition resources_seed ::
  "session_env \<Rightarrow> path \<Rightarrow> torrent_file \<Rightarrow> session_fs
     \<Rightarrow> ((session_error + seeding state_resources \<times> bitfield) \<times> session_fs \<times> session_event list) option" where
  "resources_seed env user_space metafile fs =
     (case SessionCache_new env fs (CacheSeed user_space metafile) of
        None \<Rightarrow> Some (Inl UnableToFindXDGFolder, fs, [])
      | Some c \<Rightarrow>
          (case handler_seed (se_names env) (sf_disk fs) (sc_dir c)
                  (tc_piece_length (torrent_common_of metafile)) (torrent_files metafile) of
             Inl e \<Rightarrow> Some (Inl (ChunkReaderError e), fs, [])
           | Inr h \<Rightarrow>
               let fs = persist_torrent env c fs; res = \<lparr>rs_handler = h, rs_cache = c\<rparr>;
                   hashes = torrent_piece_hashes metafile;
                   verify = (case verify_pieces (se_sha1 env) h (sf_disk fs) (length hashes) 0 hashes
                                    (bf_empty (length hashes)) [] of
                               None \<Rightarrow> None
                             | Some (Inl e, evs) \<Rightarrow> Some (Inl e, fs, evs)
                             | Some (Inr verified, evs) \<Rightarrow>
                                 Some (Inr (res, verified), persist_resume env c verified fs, evs))
               in case sc_resume c of
                    None \<Rightarrow> verify
                  | Some resume \<Rightarrow>
                      (case resume_is_complete resume of
                         None \<Rightarrow> None
                       | Some complete \<Rightarrow>
                           if complete then Some (Inr (res, resume_get_bitfield resume), fs, []) else verify)))"

subsection \<open>States and transitions\<close>

text \<open>A bounded queue. A sender waits while it is full. The handlers of the peer protocol are modelled
  as run to completion, so there \<open>ch_queue\<close> lists all that was sent and not yet received, the
  messages of waiting senders behind those in the buffer; the interleavings of \<open>Workers\<close> send only
  while the buffer has room.\<close>

record 'a channel =
  ch_queue :: "'a list"
  ch_open :: bool
  ch_capacity :: nat

definition new_channel :: "nat \<Rightarrow> 'a channel" where
  "new_channel capacity = \<lparr>ch_queue = [], ch_open = True, ch_capacity = capacity\<rparr>"

record piece_request =
  rq_index :: u32
  rq_respond :: "nat option"

datatype last_state = LastDownloading path | LastSeeding path

datatype torrent_state =
    Idle "last_state option"
  | Downloading path path "downloading state_resources option" nat "(u32 \<times> bytes) channel"
  | Seeding path "seeding state_resources option" nat "piece_request channel"
  | Cancelled

datatype transition = ToDownload torrent_file path | ToSeed path torrent_file | Pause | Resume torrent_file | Cancel

datatype active_mode = ModeDownloading | ModeSeeding | ModeIdle

datatype peer_state = Connecting | Pending bytes bool | Active pipeline

datatype worker = DownloadWorker path nat | SeedWorker nat

record torrent_session =
  ts_metadata :: torrent_file
  ts_state :: torrent_state
  ts_bitfield :: bitfield
  ts_peers :: "(sock_addr \<times> peer_state) list"
  ts_events :: "session_event list"
  ts_pending_writes :: u64
  ts_cancelled :: "nat set"
  ts_next_token :: nat
  ts_workers :: "worker list"

fun current_mode :: "torrent_state \<Rightarrow> active_mode" where
  "current_mode (Downloading _ _ _ _ _) = ModeDownloading"
| "current_mode (Seeding _ _ _ _) = ModeSeeding"
| "current_mode _ = ModeIdle"

fun cancel_inner :: "torrent_state \<Rightarrow> nat set \<Rightarrow> nat set" where
  "cancel_inner (Downloading _ _ _ token _) c = insert token c"
| "cancel_inner (Seeding _ _ token _) c = insert token c"
| "cancel_inner _ c = c"

fun can_transition_to :: "torrent_state \<Rightarrow> transition \<Rightarrow> bool" where
  "can_transition_to (Idle None) (ToDownload _ _) = True"
| "can_transition_to (Idle None) (ToSeed _ _) = True"
| "can_transition_to (Downloading _ _ _ _ _) Pause = True"
| "can_transition_to (Downloading _ _ _ _ _) Cancel = True"
| "can_transition_to (Downloading _ _ _ _ _) (ToSeed _ _) = True"
| "can_transition_to (Seeding _ _ _ _) Pause = True"
| "can_transition_to (Seeding _ _ _ _) Cancel = True"
| "can_transition_to (Idle (Some _)) (Resume _) = True"
| "can_transition_to (Idle (Some _)) Cancel = True"
| "can_transition_to _ _ = False"

text \<open>\<open>purge\<close> removes the directory of a running state: the path it passes to
  \<open>remove_dir_all\<close>.\<close>

fun purge :: "torrent_state \<Rightarrow> path option" where
  "purge (Downloading p _ _ _ _) = Some p"
| "purge (Seeding p _ _ _) = Some p"
| "purge _ = None"

fun take_downloading :: "torrent_state \<Rightarrow> (path \<times> downloading state_resources) option \<times> torrent_state" where
  "take_downloading (Downloading p dest (Some res) token tx) = (Some (dest, res), Downloading p dest None token tx)"
| "take_downloading st = (None, st)"

fun take_seeding :: "torrent_state \<Rightarrow> seeding state_resources option \<times> torrent_state" where
  "take_seeding (Seeding p (Some res) token tx) = (Some res, Seeding p None token tx)"
| "take_seeding st = (None, st)"

fun is_cancelled :: "torrent_state \<Rightarrow> bool" where
  "is_cancelled Cancelled = True"
| "is_cancelled _ = False"

text \<open>Assigning a state drops the old one; a state that is not installed is dropped too. Dropping
  cancels the token.\<close>

definition swap_state :: "torrent_state \<Rightarrow> torrent_session \<Rightarrow> torrent_session" where
  "swap_state next_state s =
     (if is_cancelled (ts_state s) then s\<lparr>ts_cancelled := cancel_inner next_state (ts_cancelled s)\<rparr>
      else s\<lparr>ts_state := next_state, ts_cancelled := cancel_inner (ts_state s) (ts_cancelled s)\<rparr>)"

definition transition_downloading ::
  "session_env \<Rightarrow> torrent_file \<Rightarrow> path \<Rightarrow> torrent_session \<Rightarrow> session_fs \<Rightarrow> (session_error + unit) \<times> torrent_session \<times> session_fs" where
  "transition_downloading env metafile dest s fs =
     (let token = ts_next_token s; s = s\<lparr>ts_next_token := Suc token\<rparr>
      in case resources_download env metafile dest fs of
           (Inl e, fs) \<Rightarrow> (Inl e, s, fs)
         | (Inr res, fs) \<Rightarrow>
             let path = sc_dir (rs_cache res);
                 s = (case sc_resume (rs_cache res) of
                        Some resume \<Rightarrow> s\<lparr>ts_bitfield := resume_get_bitfield resume\<rparr>
                      | None \<Rightarrow> s);
                 s = swap_state (Downloading path dest (Some res) token (new_channel 64)) s
             in (Inr (), s\<lparr>ts_workers := ts_workers s @ [DownloadWorker path token]\<rparr>, fs))"

definition transition_seeding ::
  "session_env \<Rightarrow> torrent_file \<Rightarrow> path \<Rightarrow> torrent_session \<Rightarrow> session_fs
     \<Rightarrow> ((session_error + unit) \<times> torrent_session \<times> session_fs) option" where
  "transition_seeding env metafile user_space s fs =
     (let token = ts_next_token s; s = s\<lparr>ts_next_token := Suc token\<rparr>
      in case resources_seed env user_space metafile fs of
           None \<Rightarrow> None
         | Some (Inl e, fs, evs) \<Rightarrow> Some (Inl e, s\<lparr>ts_events := ts_events s @ evs\<rparr>, fs)
         | Some (Inr (res, bf), fs, evs) \<Rightarrow>
             let path = sc_dir (rs_cache res);
                 s = s\<lparr>ts_events := ts_events s @ evs\<rparr>;
                 s = s\<lparr>ts_bitfield := bf\<rparr>;
                 s = swap_state (Seeding path (Some res) token (new_channel 256)) s
             in Some (Inr (), s\<lparr>ts_workers := ts_workers s @ [SeedWorker token]\<rparr>, fs))"

fun last_of :: "torrent_state \<Rightarrow> last_state option" where
  "last_of (Downloading _ dest _ _ _) = Some (LastDownloading dest)"
| "last_of (Seeding path _ _ _) = Some (LastSeeding path)"
| "last_of _ = None"

definition transition_idle :: "torrent_session \<Rightarrow> torrent_session" where
  "transition_idle s =
     (let s = swap_state (Idle (last_of (ts_state s))) s
      in s\<lparr>ts_events := ts_events s @ [IdleEvent]\<rparr>)"

definition transition_cancelled :: "torrent_session \<Rightarrow> torrent_session" where
  "transition_cancelled s = (if \<not> is_cancelled (ts_state s) then swap_state Cancelled s else s)"

text \<open>\<open>transition\<close>, run without interference. \<open>None\<close> is a panic.\<close>

definition transition ::
  "session_env \<Rightarrow> transition \<Rightarrow> torrent_session \<Rightarrow> session_fs
     \<Rightarrow> ((session_error + unit) \<times> torrent_session \<times> session_fs) option" where
  "transition env to s fs =
     (if \<not> can_transition_to (ts_state s) to then Some (Inl InvalidTransition, s, fs)
      else let s = s\<lparr>ts_cancelled := cancel_inner (ts_state s) (ts_cancelled s)\<rparr>
           in case to of
                ToDownload metafile dest \<Rightarrow> Some (transition_downloading env metafile dest s fs)
              | ToSeed path metafile \<Rightarrow> transition_seeding env metafile path s fs
              | Pause \<Rightarrow> Some (Inr (), transition_idle s, fs)
              | Resume metafile \<Rightarrow>
                  (case ts_state s of
                     Idle (Some paused_from) \<Rightarrow>
                       (case paused_from of
                          LastDownloading dest \<Rightarrow> Some (transition_downloading env metafile dest s fs)
                        | LastSeeding path \<Rightarrow> transition_seeding env metafile path s fs)
                   | _ \<Rightarrow> None)
              | Cancel \<Rightarrow> Some (Inr (), transition_cancelled s, fs))"

datatype session_mode = SessionDownload path | SessionSeed path

definition session_initial :: "torrent_file \<Rightarrow> torrent_session" where
  "session_initial metadata =
     \<lparr>ts_metadata = metadata, ts_state = Idle None,
      ts_bitfield = bf_empty (length (torrent_piece_hashes metadata)), ts_peers = [], ts_events = [],
      ts_pending_writes = 0, ts_cancelled = {}, ts_next_token = 0, ts_workers = []\<rparr>"

definition TorrentSession_new ::
  "session_env \<Rightarrow> session_mode \<Rightarrow> torrent_file \<Rightarrow> session_fs \<Rightarrow> ((session_error + torrent_session) \<times> session_fs) option" where
  "TorrentSession_new env mode metadata fs =
     (let to = (case mode of
                  SessionSeed source_dir \<Rightarrow> ToSeed source_dir metadata
                | SessionDownload destination_dir \<Rightarrow> ToDownload metadata destination_dir)
      in case transition env to (session_initial metadata) fs of
           None \<Rightarrow> None
         | Some (Inl e, s, fs) \<Rightarrow> Some (Inl e, fs)
         | Some (Inr _, s, fs) \<Rightarrow> Some (Inr s, fs))"

subsection \<open>Interleaved transitions\<close>

text \<open>Where a transition in flight is, between two acquisitions of the session's locks.\<close>

datatype phase =
    Guarded transition
  | Stopped transition
  | Loaded torrent_state "bitfield option" worker
  | Published torrent_state worker
  | Spawning worker
  | Install torrent_state
  | Finished "session_error + unit"

fun transition_step ::
  "session_env \<Rightarrow> phase \<Rightarrow> torrent_session \<Rightarrow> session_fs \<Rightarrow> (phase \<times> torrent_session \<times> session_fs) option" where
  "transition_step env (Guarded to) s fs =
     Some (Stopped to, s\<lparr>ts_cancelled := cancel_inner (ts_state s) (ts_cancelled s)\<rparr>, fs)"
| "transition_step env (Stopped (ToDownload metafile dest)) s fs =
     (let token = ts_next_token s; s = s\<lparr>ts_next_token := Suc token\<rparr>
      in case resources_download env metafile dest fs of
           (Inl e, fs) \<Rightarrow> Some (Finished (Inl e), s, fs)
         | (Inr res, fs) \<Rightarrow>
             Some (Loaded (Downloading (sc_dir (rs_cache res)) dest (Some res) token (new_channel 64))
                     (map_option resume_get_bitfield (sc_resume (rs_cache res)))
                     (DownloadWorker (sc_dir (rs_cache res)) token), s, fs))"
| "transition_step env (Stopped (ToSeed path metafile)) s fs =
     (let token = ts_next_token s; s = s\<lparr>ts_next_token := Suc token\<rparr>
      in case resources_seed env path metafile fs of
           None \<Rightarrow> None
         | Some (Inl e, fs, evs) \<Rightarrow> Some (Finished (Inl e), s\<lparr>ts_events := ts_events s @ evs\<rparr>, fs)
         | Some (Inr (res, bf), fs, evs) \<Rightarrow>
             Some (Loaded (Seeding (sc_dir (rs_cache res)) (Some res) token (new_channel 256)) (Some bf) (SeedWorker token),
                   s\<lparr>ts_events := ts_events s @ evs\<rparr>, fs))"
| "transition_step env (Stopped Pause) s fs = Some (Install (Idle (last_of (ts_state s))), s, fs)"
| "transition_step env (Stopped (Resume metafile)) s fs =
     (case ts_state s of
        Idle (Some (LastDownloading dest)) \<Rightarrow> Some (Stopped (ToDownload metafile dest), s, fs)
      | Idle (Some (LastSeeding path)) \<Rightarrow> Some (Stopped (ToSeed path metafile), s, fs)
      | _ \<Rightarrow> None)"
| "transition_step env (Stopped Cancel) s fs =
     Some (if is_cancelled (ts_state s) then Finished (Inr ()) else Install Cancelled, s, fs)"
| "transition_step env (Loaded st bf w) s fs =
     Some (Published st w, (case bf of Some b \<Rightarrow> s\<lparr>ts_bitfield := b\<rparr> | None \<Rightarrow> s), fs)"
| "transition_step env (Published st w) s fs = Some (Spawning w, swap_state st s, fs)"
| "transition_step env (Spawning w) s fs = Some (Finished (Inr ()), s\<lparr>ts_workers := ts_workers s @ [w]\<rparr>, fs)"
| "transition_step env (Install st) s fs =
     (let s = swap_state st s
      in Some (Finished (Inr ()), if st = Cancelled then s else s\<lparr>ts_events := ts_events s @ [IdleEvent]\<rparr>, fs))"
| "transition_step env (Finished r) s fs = None"

text \<open>What every other operation of a session leaves alone: the kind of the state and its token,
  the supply of tokens and the list of workers. Tokens are only ever cancelled.\<close>

fun state_token :: "torrent_state \<Rightarrow> nat option" where
  "state_token (Downloading _ _ _ token _) = Some token"
| "state_token (Seeding _ _ token _) = Some token"
| "state_token _ = None"

definition same_control :: "torrent_session \<Rightarrow> torrent_session \<Rightarrow> bool" where
  "same_control s s' \<longleftrightarrow> current_mode (ts_state s) = current_mode (ts_state s')
     \<and> state_token (ts_state s) = state_token (ts_state s') \<and> last_of (ts_state s) = last_of (ts_state s')
     \<and> is_cancelled (ts_state s) = is_cancelled (ts_state s')
     \<and> ts_cancelled s \<subseteq> ts_cancelled s' \<and> ts_next_token s = ts_next_token s' \<and> ts_workers s = ts_workers s'"

type_synonym configuration = "phase list \<times> torrent_session \<times> session_fs"

inductive session_step :: "session_env \<Rightarrow> configuration \<Rightarrow> configuration \<Rightarrow> bool" for env where
  start: "can_transition_to (ts_state s) to \<Longrightarrow> session_step env (ps, s, fs) (ps @ [Guarded to], s, fs)"
| advance: "i < length ps \<Longrightarrow> transition_step env (ps ! i) s fs = Some (p, s', fs')
     \<Longrightarrow> session_step env (ps, s, fs) (ps[i := p], s', fs')"
| other: "same_control s s' \<Longrightarrow> session_step env (ps, s, fs) (ps, s', fs')"

inductive session_reach :: "session_env \<Rightarrow> configuration \<Rightarrow> configuration \<Rightarrow> bool" for env where
  here: "session_reach env c c"
| later: "session_reach env c c' \<Longrightarrow> session_step env c' c'' \<Longrightarrow> session_reach env c c''"

subsection \<open>A transition run alone\<close>

fun run_phases :: "nat \<Rightarrow> session_env \<Rightarrow> phase \<Rightarrow> torrent_session \<Rightarrow> session_fs \<Rightarrow> (phase \<times> torrent_session \<times> session_fs) option" where
  "run_phases 0 env p s fs = Some (p, s, fs)"
| "run_phases (Suc n) env p s fs =
     (case p of
        Finished r \<Rightarrow> Some (p, s, fs)
      | _ \<Rightarrow> (case transition_step env p s fs of None \<Rightarrow> None | Some (p', s', fs') \<Rightarrow> run_phases n env p' s' fs'))"

lemma run_phases_finished [simp]: "run_phases n env (Finished r) s fs = Some (Finished r, s, fs)"
  by (cases n) simp_all

lemma run_phases_downloading:
  "run_phases (Suc (Suc (Suc (Suc n)))) env (Stopped (ToDownload m dest)) s fs =
     Some (case transition_downloading env m dest s fs of (r, s', fs') \<Rightarrow> (Finished r, s', fs'))"
  by (auto simp: transition_downloading_def Let_def split: prod.split sum.split option.split)

lemma run_phases_seeding:
  "run_phases (Suc (Suc (Suc (Suc n)))) env (Stopped (ToSeed path m)) s fs =
     map_option (\<lambda>(r, s', fs'). (Finished r, s', fs')) (transition_seeding env m path s fs)"
  by (auto simp: transition_seeding_def Let_def split: prod.split sum.split option.split)

lemma run_phases_stopped:
  "run_phases (Suc n) env (Stopped Pause) s fs = run_phases n env (Install (Idle (last_of (ts_state s)))) s fs"
  "run_phases (Suc n) env (Stopped Cancel) s fs =
     run_phases n env (if is_cancelled (ts_state s) then Finished (Inr ()) else Install Cancelled) s fs"
  "run_phases (Suc n) env (Guarded to) s fs =
     run_phases n env (Stopped to) (s\<lparr>ts_cancelled := cancel_inner (ts_state s) (ts_cancelled s)\<rparr>) fs"
  "run_phases (Suc n) env (Install st) s fs =
     Some (Finished (Inr ()), if st = Cancelled then swap_state st s
       else (swap_state st s)\<lparr>ts_events := ts_events (swap_state st s) @ [IdleEvent]\<rparr>, fs)"
  by (simp_all add: Let_def)

lemma run_phases_resume:
  "run_phases (Suc n) env (Stopped (Resume m)) s fs =
     (case ts_state s of
        Idle (Some (LastDownloading dest)) \<Rightarrow> run_phases n env (Stopped (ToDownload m dest)) s fs
      | Idle (Some (LastSeeding path)) \<Rightarrow> run_phases n env (Stopped (ToSeed path m)) s fs
      | _ \<Rightarrow> None)"
  by (simp split: torrent_state.split option.split last_state.split)

lemma uninterrupted_transition:
  assumes "can_transition_to (ts_state s) to"
  shows "run_phases 6 env (Guarded to) s fs =
     map_option (\<lambda>(r, s', fs'). (Finished r, s', fs')) (transition env to s fs)"
proof -
  let ?s = "s\<lparr>ts_cancelled := cancel_inner (ts_state s) (ts_cancelled s)\<rparr>"
  have "run_phases 6 env (Guarded to) s fs = run_phases (Suc (Suc (Suc (Suc 1)))) env (Stopped to) ?s fs"
    using run_phases_stopped(3)[of 5 env to s fs] by (simp only: numeral_eq_Suc pred_numeral_simps num.simps BitM.simps Suc_numeral One_nat_def)
  also have "\<dots> = map_option (\<lambda>(r, s', fs'). (Finished r, s', fs')) (transition env to s fs)"
  proof (cases to)
    case (ToDownload m dest)
    then show ?thesis using assms unfolding transition_def ToDownload run_phases_downloading by (simp add: Let_def)
  next
    case (ToSeed path m)
    then show ?thesis using assms unfolding transition_def ToSeed run_phases_seeding by (simp add: Let_def)
  next
    case Pause
    show ?thesis
      using assms unfolding transition_def Pause run_phases_stopped by (simp add: transition_idle_def Let_def)
  next
    case (Resume m)
    have "run_phases (Suc (Suc (Suc (Suc 1)))) env (Stopped (Resume m)) ?s fs =
        (case ts_state s of
          Idle (Some (LastDownloading dest)) \<Rightarrow> Some (case transition_downloading env m dest ?s fs of (r, s', fs') \<Rightarrow> (Finished r, s', fs'))
        | Idle (Some (LastSeeding path)) \<Rightarrow> map_option (\<lambda>(r, s', fs'). (Finished r, s', fs')) (transition_seeding env m path ?s fs)
        | _ \<Rightarrow> None)"
      unfolding run_phases_resume One_nat_def run_phases_downloading run_phases_seeding
      by (simp split: torrent_state.split option.split last_state.split)
    then show ?thesis
      using assms unfolding transition_def Resume
      by (auto simp: Let_def split: torrent_state.split option.split last_state.split)
  next
    case Cancel
    show ?thesis
      using assms unfolding transition_def Cancel run_phases_stopped
      by (simp add: transition_cancelled_def run_phases_stopped del: run_phases.simps)
  qed
  finally show ?thesis .
qed

subsection \<open>Which workers are alive\<close>

fun worker_token :: "worker \<Rightarrow> nat" where
  "worker_token (DownloadWorker _ token) = token"
| "worker_token (SeedWorker token) = token"

fun phase_token :: "phase \<Rightarrow> nat option" where
  "phase_token (Loaded _ _ w) = Some (worker_token w)"
| "phase_token (Published _ w) = Some (worker_token w)"
| "phase_token (Spawning w) = Some (worker_token w)"
| "phase_token _ = None"

definition held :: "torrent_session \<Rightarrow> nat \<Rightarrow> bool" where
  "held s token \<longleftrightarrow> token \<in> ts_cancelled s \<or> state_token (ts_state s) = Some token"

fun phase_ok :: "torrent_session \<Rightarrow> phase \<Rightarrow> bool" where
  "phase_ok s (Loaded st _ w) \<longleftrightarrow> state_token st = Some (worker_token w)"
| "phase_ok s (Published st w) \<longleftrightarrow> state_token st = Some (worker_token w)"
| "phase_ok s (Spawning w) \<longleftrightarrow> held s (worker_token w)"
| "phase_ok s (Install st) \<longleftrightarrow> state_token st = None"
| "phase_ok s _ \<longleftrightarrow> True"

lemma cancel_inner_token: "cancel_inner st c = (case state_token st of Some token \<Rightarrow> insert token c | None \<Rightarrow> c)"
  by (cases st) auto

lemma held_swap_state: "held s token \<Longrightarrow> held (swap_state st s) token"
  by (auto simp: held_def swap_state_def cancel_inner_token split: option.splits)

lemma swap_state_holds_new: "state_token st = Some token \<Longrightarrow> held (swap_state st s) token"
  by (auto simp: held_def swap_state_def cancel_inner_token)

lemma swap_state_fields [simp]:
  "ts_next_token (swap_state st s) = ts_next_token s" "ts_workers (swap_state st s) = ts_workers s"
  "ts_events (swap_state st s) = ts_events s" "ts_bitfield (swap_state st s) = ts_bitfield s"
  by (simp_all add: swap_state_def)

lemma held_update [simp]:
  "held (s\<lparr>ts_events := e\<rparr>) t = held s t" "held (s\<lparr>ts_bitfield := b\<rparr>) t = held s t"
  "held (s\<lparr>ts_workers := ws\<rparr>) t = held s t" "held (s\<lparr>ts_next_token := n\<rparr>) t = held s t"
  by (simp_all add: held_def)

lemma transition_step_held:
  assumes "transition_step env p s fs = Some (p', s', fs')" and "held s token"
  shows "held s' token"
  using assms
  by (cases "(env, p, s, fs)" rule: transition_step.cases)
     (auto simp: swap_state_def Let_def held_def cancel_inner_token
       split: option.splits sum.splits prod.splits torrent_state.splits last_state.splits if_splits)

lemma transition_step_phase_ok:
  assumes "transition_step env p s fs = Some (p', s', fs')" and "phase_ok s p"
  shows "phase_ok s' p'"
  using assms
  by (cases "(env, p, s, fs)" rule: transition_step.cases)
     (auto simp: swap_state_holds_new Let_def
       split: option.splits sum.splits prod.splits torrent_state.splits last_state.splits if_splits)

lemma transition_step_token_cases:
  assumes "transition_step env p s fs = Some (p', s', fs')"
  shows "phase_token p' = phase_token p \<and> ts_next_token s \<le> ts_next_token s' \<and> ts_workers s' = ts_workers s
    \<or> phase_token p = None \<and> phase_token p' = Some (ts_next_token s) \<and> ts_next_token s' = Suc (ts_next_token s)
        \<and> ts_workers s' = ts_workers s
    \<or> (\<exists>w. p = Spawning w \<and> phase_token p' = None \<and> ts_next_token s' = ts_next_token s \<and> ts_workers s' = ts_workers s @ [w])"
  using assms
  by (cases "(env, p, s, fs)" rule: transition_step.cases)
     (auto simp: Let_def
       split: option.splits sum.splits prod.splits torrent_state.splits last_state.splits if_splits)

lemma transition_step_tokens:
  assumes "transition_step env p s fs = Some (p', s', fs')"
  obtains (keep) "phase_token p' = phase_token p" "ts_next_token s \<le> ts_next_token s'" "ts_workers s' = ts_workers s"
  | (fresh) "phase_token p = None" "phase_token p' = Some (ts_next_token s)" "ts_next_token s' = Suc (ts_next_token s)"
      "ts_workers s' = ts_workers s"
  | (spawn) w where "p = Spawning w" "phase_token p' = None" "ts_next_token s' = ts_next_token s"
      "ts_workers s' = ts_workers s @ [w]"
  using transition_step_token_cases[OF assms]
  by (elim disjE exE conjE) (rule keep fresh spawn; assumption)+

definition control_inv :: "configuration \<Rightarrow> bool" where
  "control_inv = (\<lambda>(ps, s, fs).
     (\<forall>i<length ps. phase_ok s (ps ! i)) \<and> (\<forall>w\<in>set (ts_workers s). held s (worker_token w)))"

definition token_inv :: "configuration \<Rightarrow> bool" where
  "token_inv = (\<lambda>(ps, s, fs).
     (\<forall>i<length ps. \<forall>token. phase_token (ps ! i) = Some token \<longrightarrow>
        token < ts_next_token s \<and> token \<notin> worker_token ` set (ts_workers s)) \<and>
     (\<forall>i<length ps. \<forall>j<length ps. i \<noteq> j \<longrightarrow> phase_token (ps ! i) \<noteq> None \<longrightarrow> phase_token (ps ! i) \<noteq> phase_token (ps ! j)) \<and>
     distinct (map worker_token (ts_workers s)) \<and> (\<forall>w\<in>set (ts_workers s). worker_token w < ts_next_token s))"

lemma phase_ok_mono: "phase_ok s p \<Longrightarrow> (\<And>t. held s t \<Longrightarrow> held s' t) \<Longrightarrow> phase_ok s' p"
  by (cases p) auto

lemma same_control_held: "same_control s s' \<Longrightarrow> held s t \<Longrightarrow> held s' t"
  by (auto simp: same_control_def held_def)

lemma control_inv_step:
  assumes "session_step env c c'" and "control_inv c"
  shows "control_inv c'"
  using assms
proof cases
  case (start s to ps fs)
  then show ?thesis using assms(2) by (auto simp: control_inv_def nth_append)
next
  case (advance i ps s fs p s' fs')
  note held = transition_step_held[OF advance(4)]
  have ok: "\<forall>j<length ps. phase_ok s (ps ! j)" and ws: "\<forall>w\<in>set (ts_workers s). held s (worker_token w)"
    using assms(2) advance(1) by (auto simp: control_inv_def)
  have "phase_ok s' (ps[i := p] ! j)" if "j < length ps" for j
    using that ok advance(3) transition_step_phase_ok[OF advance(4)] phase_ok_mono[OF _ held]
    by (cases "j = i") auto
  moreover have "held s' (worker_token w)" if "w \<in> set (ts_workers s')" for w
    using transition_step_tokens[OF advance(4)] that ws held ok[rule_format, OF advance(3)] by cases auto
  ultimately show ?thesis using advance(2) by (auto simp: control_inv_def)
next
  case (other s s' ps fs fs')
  then show ?thesis
    using assms(2) phase_ok_mono[OF _ same_control_held[OF other(3)]] same_control_held[OF other(3)]
    by (auto simp: control_inv_def same_control_def)
qed

lemma token_invD:
  assumes "token_inv (ps, s, fs)"
  shows "\<And>j token. j < length ps \<Longrightarrow> phase_token (ps ! j) = Some token
      \<Longrightarrow> token < ts_next_token s \<and> token \<notin> worker_token ` set (ts_workers s)"
    and "\<And>j k. j < length ps \<Longrightarrow> k < length ps \<Longrightarrow> j \<noteq> k \<Longrightarrow> phase_token (ps ! j) \<noteq> None
      \<Longrightarrow> phase_token (ps ! j) \<noteq> phase_token (ps ! k)"
    and "distinct (map worker_token (ts_workers s))" and "\<forall>w\<in>set (ts_workers s). worker_token w < ts_next_token s"
  using assms by (auto simp: token_inv_def)

lemma token_inv_fresh:
  assumes inv: "token_inv (ps, s, fs)" and i: "i < length ps"
    and p: "phase_token p = Some (ts_next_token s)" and s': "ts_next_token s' = Suc (ts_next_token s)" "ts_workers s' = ts_workers s"
  shows "token_inv (ps[i := p], s', fs')"
proof -
  note old = token_invD(1)[OF inv] and apart = token_invD(2)[OF inv] and ws = token_invD(3,4)[OF inv]
  have at: "phase_token (ps[i := p] ! j) = (if j = i then Some (ts_next_token s) else phase_token (ps ! j))"
    if "j < length ps" for j using that p by auto
  have "token < ts_next_token s' \<and> token \<notin> worker_token ` set (ts_workers s')"
    if "j < length ps" "phase_token (ps[i := p] ! j) = Some token" for j token
    using that at[of j] old[of j token] ws(2) s' by (auto split: if_splits)
  moreover have "phase_token (ps[i := p] ! j) \<noteq> phase_token (ps[i := p] ! k)"
    if "j < length ps" "k < length ps" "j \<noteq> k" "phase_token (ps[i := p] ! j) \<noteq> None" for j k
    using that at[of j] at[of k] apart[of j k] old[of j "ts_next_token s"] old[of k "ts_next_token s"]
    by (auto split: if_splits)
  ultimately show ?thesis using ws s' by (auto simp: token_inv_def less_Suc_eq)
qed

lemma token_inv_spawn:
  assumes inv: "token_inv (ps, s, fs)" and i: "i < length ps" and me: "phase_token (ps ! i) = Some (worker_token w)"
    and p: "phase_token p = None" and s': "ts_next_token s' = ts_next_token s" "ts_workers s' = ts_workers s @ [w]"
  shows "token_inv (ps[i := p], s', fs')"
proof -
  note old = token_invD(1)[OF inv] and apart = token_invD(2)[OF inv] and ws = token_invD(3,4)[OF inv]
  have at: "phase_token (ps[i := p] ! j) = (if j = i then None else phase_token (ps ! j))"
    if "j < length ps" for j using that p by auto
  have "token < ts_next_token s' \<and> token \<notin> worker_token ` set (ts_workers s')"
    if "j < length ps" "phase_token (ps[i := p] ! j) = Some token" for j token
    using that at[of j] old[of j token] apart[OF _ i, of j] me s' by (auto split: if_splits)
  moreover have "phase_token (ps[i := p] ! j) \<noteq> phase_token (ps[i := p] ! k)"
    if "j < length ps" "k < length ps" "j \<noteq> k" "phase_token (ps[i := p] ! j) \<noteq> None" for j k
    using that at[of j] at[of k] apart[of j k] by (auto split: if_splits)
  moreover have "distinct (map worker_token (ts_workers s'))" using ws(1) old[OF i me] s'(2) by auto
  moreover have "\<forall>w\<in>set (ts_workers s'). worker_token w < ts_next_token s'" using ws(2) old[OF i me] s' by auto
  ultimately show ?thesis by (auto simp: token_inv_def)
qed

lemma token_inv_step:
  assumes "session_step env c c'" and "token_inv c"
  shows "token_inv c'"
  using assms
proof cases
  case (start s to ps fs)
  then show ?thesis using assms(2) by (auto simp: token_inv_def nth_append)
next
  case (advance i ps s fs p s' fs')
  have inv: "token_inv (ps, s, fs)" using assms(2) advance(1) by simp
  from advance(4) show ?thesis
  proof (cases rule: transition_step_tokens)
    case keep
    then show ?thesis using inv advance(2,3) by (force simp: token_inv_def nth_list_update)
  next
    case fresh
    then show ?thesis unfolding advance(2) by (intro token_inv_fresh[OF inv advance(3)])
  next
    case (spawn w)
    then show ?thesis unfolding advance(2) by (intro token_inv_spawn[OF inv advance(3)]) simp_all
  qed
next
  case (other s s' ps fs fs')
  then show ?thesis using assms(2) by (auto simp: token_inv_def same_control_def)
qed

subsection \<open>Reachable configurations\<close>

lemma session_reach_inv:
  assumes "session_reach env c c'" and "control_inv c" and "token_inv c"
  shows "control_inv c' \<and> token_inv c'"
  using assms by induction (auto intro: control_inv_step token_inv_step)

lemma session_initial_inv: "control_inv ([], session_initial m, fs) \<and> token_inv ([], session_initial m, fs)"
  by (simp add: control_inv_def token_inv_def session_initial_def)

lemma is_cancelled_iff: "is_cancelled st \<longleftrightarrow> st = Cancelled"
  by (cases st) auto

lemma swap_state_cancelled: "ts_state s = Cancelled \<Longrightarrow> ts_state (swap_state st s) = Cancelled"
  by (simp add: swap_state_def)

lemma transition_step_cancelled:
  assumes "transition_step env p s fs = Some (p', s', fs')" and "ts_state s = Cancelled"
  shows "ts_state s' = Cancelled"
  using assms
  by (cases "(env, p, s, fs)" rule: transition_step.cases)
     (auto simp: swap_state_cancelled Let_def split: option.splits sum.splits prod.splits)

lemma cancelled_reach:
  assumes "session_reach env c c'" and "ts_state (fst (snd c)) = Cancelled"
  shows "ts_state (fst (snd c')) = Cancelled"
  using assms
proof induction
  case (later c c' c'')
  from later(2) show ?case
    using later(3)[OF later(4)]
    by cases (auto simp: transition_step_cancelled same_control_def simp flip: is_cancelled_iff)
qed simp

lemma session_reach_trans:
  assumes "session_reach env c' c''" and "session_reach env c c'"
  shows "session_reach env c c''"
  using assms by induction (auto intro: session_reach.later)

lemma session_reach_run:
  assumes "run_phases n env p s fs = Some (p', s', fs')" and "i < length ps" and "ps ! i = p"
  shows "session_reach env (ps, s, fs) (ps[i := p'], s', fs')"
  using assms
proof (induction n arbitrary: p s fs ps)
  case 0
  then show ?case using list_update_id[of ps i] by (auto intro: here)
next
  case (Suc n)
  show ?case
  proof (cases "\<exists>r. p = Finished r")
    case True
    then show ?thesis using Suc.prems list_update_id[of ps i] by (auto intro: here)
  next
    case False
    obtain q s1 fs1 where st: "transition_step env p s fs = Some (q, s1, fs1)" and run: "run_phases n env q s1 fs1 = Some (p', s', fs')"
      using Suc.prems(1) False by (auto split: phase.splits option.splits)
    have "session_reach env (ps[i := q], s1, fs1) (ps[i := q, i := p'], s', fs')"
      by (rule Suc.IH[OF run]) (use Suc.prems in auto)
    moreover have "session_reach env (ps, s, fs) (ps[i := q], s1, fs1)"
      by (rule later[OF here advance]) (use Suc.prems st in auto)
    ultimately show ?thesis using session_reach_trans by auto
  qed
qed

lemma session_reach_transition:
  assumes "can_transition_to (ts_state s) to" and "transition env to s fs = Some (r, s', fs')"
  shows "session_reach env (ps, s, fs) (ps @ [Finished r], s', fs')"
proof -
  have "run_phases 6 env (Guarded to) s fs = Some (Finished r, s', fs')"
    using uninterrupted_transition[OF assms(1)] assms(2) by simp
  then have "session_reach env (ps @ [Guarded to], s, fs) ((ps @ [Guarded to])[length ps := Finished r], s', fs')"
    by (rule session_reach_run) simp_all
  then show ?thesis using session_reach_trans later[OF here start[of s to]] assms(1) by fastforce
qed

subsection \<open>Properties\<close>

text \<open>C7: however transitions of a session interleave, at most one of the workers it spawned has a
  token that is not cancelled, and that worker belongs to the state the session is in; a paused or
  cancelled session has none.\<close>

theorem one_live_worker:
  assumes "session_reach env ([], session_initial m, fs) (ps, s, fs')"
  shows "length (filter (\<lambda>w. worker_token w \<notin> ts_cancelled s) (ts_workers s)) \<le> 1
     \<and> (\<forall>w\<in>set (ts_workers s). worker_token w \<notin> ts_cancelled s \<longrightarrow> state_token (ts_state s) = Some (worker_token w))"
proof -
  have inv: "control_inv (ps, s, fs')" "token_inv (ps, s, fs')"
    using session_reach_inv[OF assms] session_initial_inv by auto
  let ?live = "filter (\<lambda>w. worker_token w \<notin> ts_cancelled s) (ts_workers s)"
  have own: "\<forall>w\<in>set (ts_workers s). worker_token w \<notin> ts_cancelled s \<longrightarrow> state_token (ts_state s) = Some (worker_token w)"
    using inv(1) by (auto simp: control_inv_def held_def)
  have d: "distinct (map worker_token ?live)"
    using inv(2) by (auto simp: token_inv_def distinct_map_filter)
  have "set (map worker_token ?live) \<subseteq> set_option (state_token (ts_state s))" using own by auto
  then have "length (map worker_token ?live) \<le> card (set_option (state_token (ts_state s)))"
    unfolding distinct_card[OF d, symmetric] by (intro card_mono) (cases "state_token (ts_state s)", auto)
  also have "\<dots> \<le> 1" by (cases "state_token (ts_state s)") auto
  finally show ?thesis using own by simp
qed

text \<open>C21: cancelling is final: once a session is cancelled, no transition that was in flight and no
  later step brings it back, every transition is refused, and every worker of the session has a
  cancelled token.\<close>

theorem cancelled_is_final:
  assumes "session_reach env ([], session_initial m, fs) (ps, s, fs')" and "ts_state s = Cancelled"
    and "session_reach env (ps, s, fs') (ps', s', fs'')"
  shows "ts_state s' = Cancelled \<and> (\<forall>to. transition env to s' fs'' = Some (Inl InvalidTransition, s', fs''))
     \<and> (\<forall>w\<in>set (ts_workers s'). worker_token w \<in> ts_cancelled s')"
proof -
  have st: "ts_state s' = Cancelled" using cancelled_reach[OF assms(3)] assms(2) by simp
  have "control_inv (ps', s', fs'')"
    using session_reach_inv[OF session_reach_trans[OF assms(3,1)]] session_initial_inv by blast
  then show ?thesis using st by (auto simp: control_inv_def held_def transition_def)
qed

definition sample_torrent :: torrent_file where
  "sample_torrent = TorrentFileV1
     \<lparr>v1_info = \<lparr>tc_info_hash = InfoV1 (replicate 20 0), tc_name = ''t'', tc_announce = None,
        tc_announce_list = None, tc_piece_length = 16384, tc_creation_date = None, tc_comment = None,
        tc_created_by = None, tc_web_seeds = None, tc_dht_nodes = None\<rparr>,
      v1_private = False, v1_pieces = replicate 20 3,
      v1_mode_of = SingleFile \<lparr>ef_length = 1, ef_path = [''a''], ef_md5sum = None\<rparr>\<rparr>"

definition sample_env :: session_env where
  "sample_env = \<lparr>se_names = two_files, se_fallocate = (\<lambda>_. FallocateOk), se_download_dir = (\<lambda>_. Some []),
     se_upload_dir = (\<lambda>_ _. Some []), se_writable = (\<lambda>_. True), se_enc_resume = (\<lambda>_. None), se_dec_resume = (\<lambda>_. None),
     se_codec = sample_codec, se_enc_torrent = (\<lambda>_. None), se_sha1 = (\<lambda>_. replicate 20 3), se_sha256 = id\<rparr>"

definition sample_fs :: session_fs where
  "sample_fs = \<lparr>sf_disk = [1 \<mapsto> [7]], sf_files = (\<lambda>_. None)\<rparr>"

lemma sample_download:
  "\<exists>res fs'. resources_download sample_env sample_torrent [''u''] sample_fs = (Inr res, fs') \<and> sc_resume (rs_cache res) = None"
  by (simp add: resources_download_def SessionCache_new_def handler_download_def sample_env_def sample_torrent_def
      sample_fs_def two_files_def full_path_eval preallocate_def resume_open_def Let_def)

lemma sample_started:
  obtains s fs' p res where "session_reach sample_env ([], session_initial sample_torrent, sample_fs) ([Finished (Inr ())], s, fs')"
    "ts_state s = Downloading p [''u''] res 0 (new_channel 64)" "ts_workers s = [DownloadWorker p 0]" "ts_cancelled s = {}"
proof -
  obtain res fs' where r: "resources_download sample_env sample_torrent [''u''] sample_fs = (Inr res, fs')" "sc_resume (rs_cache res) = None"
    using sample_download by blast
  let ?s = "\<lparr>ts_metadata = sample_torrent, ts_state = Downloading (sc_dir (rs_cache res)) [''u''] (Some res) 0 (new_channel 64),
      ts_bitfield = bf_empty (length (torrent_piece_hashes sample_torrent)), ts_peers = [], ts_events = [],
      ts_pending_writes = 0, ts_cancelled = {}, ts_next_token = 1, ts_workers = [DownloadWorker (sc_dir (rs_cache res)) 0]\<rparr>"
  have "session_reach sample_env ([], session_initial sample_torrent, sample_fs) ([] @ [Finished (Inr ())], ?s, fs')"
    by (rule session_reach_transition[of _ "ToDownload sample_torrent [''u'']"])
       (simp_all add: transition_def transition_downloading_def r session_initial_def swap_state_def Let_def)
  then show thesis by (intro that[of ?s fs' "sc_dir (rs_cache res)" "Some res"]) simp_all
qed

theorem one_live_worker_witness:
  "\<exists>ps s fs'. session_reach sample_env ([], session_initial sample_torrent, sample_fs) (ps, s, fs') \<and> ts_workers s \<noteq> [] \<and>
     length (filter (\<lambda>w. worker_token w \<notin> ts_cancelled s) (ts_workers s)) = 1"
proof -
  obtain s fs' p res where s: "session_reach sample_env ([], session_initial sample_torrent, sample_fs) ([Finished (Inr ())], s, fs')"
    "ts_state s = Downloading p [''u''] res 0 (new_channel 64)" "ts_workers s = [DownloadWorker p 0]" "ts_cancelled s = {}"
    by (rule sample_started)
  then show ?thesis using one_live_worker[OF s(1)] by fastforce
qed

theorem cancelled_is_final_witness:
  "\<exists>ps s fs'. session_reach sample_env ([], session_initial sample_torrent, sample_fs) (ps, s, fs') \<and> ts_workers s \<noteq> [] \<and>
     (\<forall>w\<in>set (ts_workers s). worker_token w \<in> ts_cancelled s) \<and>
     transition sample_env (Resume sample_torrent) s fs' = Some (Inl InvalidTransition, s, fs')"
proof -
  obtain s fs' p res where s: "session_reach sample_env ([], session_initial sample_torrent, sample_fs) ([Finished (Inr ())], s, fs')"
    "ts_state s = Downloading p [''u''] res 0 (new_channel 64)" "ts_workers s = [DownloadWorker p 0]" "ts_cancelled s = {}"
    by (rule sample_started)
  let ?s = "s\<lparr>ts_state := Cancelled, ts_cancelled := {0}\<rparr>"
  have "session_reach sample_env ([Finished (Inr ())], s, fs') ([Finished (Inr ())] @ [Finished (Inr ())], ?s, fs')"
    by (rule session_reach_transition[of _ Cancel])
       (simp_all add: s transition_def transition_cancelled_def swap_state_def)
  then have r: "session_reach sample_env ([], session_initial sample_torrent, sample_fs) ([Finished (Inr ())] @ [Finished (Inr ())], ?s, fs')"
    by (rule session_reach_trans[OF _ s(1)])
  show ?thesis using cancelled_is_final[OF r _ here] r s(3) by fastforce
qed

text \<open>Pausing a download cancels its worker and remembers where it was going; resuming it, when
  its files can be opened again, downloads to the same destination with a fresh token and a new
  worker, and takes the bitfield of the resume file when there is one.\<close>

lemma pause_resume_restores_download:
  assumes "ts_state s = Downloading p dest res token tx" and "resources_download env m dest fs = (Inr res', fs')"
    and "token \<noteq> ts_next_token s" and "ts_next_token s \<notin> ts_cancelled s"
  shows "\<exists>s1 s2. transition env Pause s fs = Some (Inr (), s1, fs) \<and> ts_state s1 = Idle (Some (LastDownloading dest))
     \<and> token \<in> ts_cancelled s1 \<and> transition env (Resume m) s1 fs = Some (Inr (), s2, fs')
     \<and> ts_state s2 = Downloading (sc_dir (rs_cache res')) dest (Some res') (ts_next_token s) (new_channel 64)
     \<and> ts_next_token s \<notin> ts_cancelled s2
     \<and> ts_workers s2 = ts_workers s @ [DownloadWorker (sc_dir (rs_cache res')) (ts_next_token s)]
     \<and> ts_bitfield s2 = (case sc_resume (rs_cache res') of Some r \<Rightarrow> resume_get_bitfield r | None \<Rightarrow> ts_bitfield s)"
  using assms
  by (simp add: transition_def transition_idle_def transition_downloading_def swap_state_def Let_def split: option.split)

text \<open>The guard of a transition is checked under a lock that is released before the state is
  swapped. A download that is moving on to seeding can be paused in between: the pause is
  acknowledged and the session is idle, and then it is seeding although nobody resumed it.\<close>

lemma pause_is_lost:
  assumes st: "ts_state s = Downloading p dest res token tx" and seed: "resources_seed env path m fs = Some (Inr (res', bf), fs', evs)"
  shows "\<exists>q s1 s2. session_reach env ([], s, fs) ([q, Finished (Inr ())], s1, fs') \<and> ts_state s1 = Idle (Some (LastDownloading dest))
     \<and> session_reach env ([q, Finished (Inr ())], s1, fs') ([Finished (Inr ()), Finished (Inr ())], s2, fs')
     \<and> current_mode (ts_state s2) = ModeSeeding"
proof -
  define n where "n = ts_next_token s"
  let ?s1 = "s\<lparr>ts_cancelled := insert token (ts_cancelled s), ts_next_token := Suc n, ts_events := ts_events s @ evs\<rparr>"
  let ?q = "Loaded (Seeding (sc_dir (rs_cache res')) (Some res') n (new_channel 256)) (Some bf) (SeedWorker n)"
  let ?s2 = "?s1\<lparr>ts_state := Idle (Some (LastDownloading dest)), ts_events := ts_events s @ evs @ [IdleEvent]\<rparr>"
  let ?s3 = "?s2\<lparr>ts_bitfield := bf, ts_state := Seeding (sc_dir (rs_cache res')) (Some res') n (new_channel 256), ts_workers := ts_workers s @ [SeedWorker n]\<rparr>"
  have "session_reach env ([Guarded (ToSeed path m)], s, fs) ([Guarded (ToSeed path m)][0 := ?q], ?s1, fs')"
    by (rule session_reach_run[of 2]) (simp_all add: eval_nat_numeral st seed n_def Let_def)
  then have one: "session_reach env ([], s, fs) ([?q], ?s1, fs')"
    using session_reach_trans[OF _ later[OF here start[of s "ToSeed path m" env "[]" fs]]] st by simp
  have "session_reach env ([?q], ?s1, fs') ([?q] @ [Finished (Inr ())], ?s2, fs')"
    by (rule session_reach_transition[of _ Pause]) (simp_all add: st transition_def transition_idle_def swap_state_def Let_def)
  then have two: "session_reach env ([], s, fs) ([?q, Finished (Inr ())], ?s2, fs')"
    using session_reach_trans[OF _ one] by simp
  have "session_reach env ([?q, Finished (Inr ())], ?s2, fs') ([?q, Finished (Inr ())][0 := Finished (Inr ())], ?s3, fs')"
    by (rule session_reach_run[of 3]) (simp_all add: eval_nat_numeral swap_state_def)
  then show ?thesis using two by fastforce
qed

text \<open>A failed start of seeding leaves the session in the downloading state with its worker
  cancelled.\<close>

lemma failed_seeding_kills_download:
  assumes "ts_state s = Downloading p dest res token tx" and "resources_seed env path m fs = Some (Inl e, fs', evs)"
  shows "\<exists>s'. transition env (ToSeed path m) s fs = Some (Inl e, s', fs') \<and> ts_state s' = ts_state s \<and> token \<in> ts_cancelled s'"
  using assms by (auto simp: transition_def transition_seeding_def Let_def)

lemma verify_pieces_exact:
  assumes "verify_pieces sha1 h d n i hs bf evs = Some (Inr bf', evs')" and "bf_wf bf" and "piece_count bf = i + length hs"
  shows "bf_wf bf' \<and> piece_count bf' = piece_count bf \<and> (\<forall>j. bf_mem bf' j \<longleftrightarrow> bf_mem bf j \<or>
     (i \<le> j \<and> j < i + length hs \<and> (\<exists>data. read_piece h d (word_of_nat j) = Inr data \<and> sha1 data = hs ! (j - i))))"
  using assms
proof (induction hs arbitrary: i bf evs)
  case Nil
  then show ?case by auto
next
  case (Cons e hs)
  obtain data where rd: "read_piece h d (word_of_nat i) = Inr data"
    using Cons.prems(1) by (auto split: sum.splits)
  obtain bf1 where bf1: "bf_set bf i = Some bf1" "bf_wf bf1" "piece_count bf1 = piece_count bf"
    "\<forall>j. bf_mem bf1 j \<longleftrightarrow> bf_mem bf j \<or> (j = i \<and> i < piece_count bf)"
    using bf_set_wf[OF Cons.prems(2), of i] by blast
  define b where "b = (if sha1 data = e then bf1 else bf)"
  have b: "bf_wf b" "piece_count b = piece_count bf" "\<forall>j. bf_mem b j \<longleftrightarrow> bf_mem bf j \<or> (j = i \<and> sha1 data = e)"
    using bf1 Cons.prems(2,3) by (auto simp: b_def)
  obtain evs1 where run: "verify_pieces sha1 h d n (Suc i) hs b evs1 = Some (Inr bf', evs')"
    using Cons.prems(1) rd bf1(1) by (auto simp: b_def split: if_splits)
  have ih: "bf_wf bf' \<and> piece_count bf' = piece_count b \<and> (\<forall>j. bf_mem bf' j \<longleftrightarrow> bf_mem b j \<or>
     (Suc i \<le> j \<and> j < Suc i + length hs \<and> (\<exists>data. read_piece h d (word_of_nat j) = Inr data \<and> sha1 data = hs ! (j - Suc i))))"
    using Cons.IH[OF run b(1)] b(2) Cons.prems(3) by simp
  have idx: "i \<le> j \<and> j < i + length (e # hs) \<and> P ((e # hs) ! (j - i)) j \<longleftrightarrow>
      (j = i \<and> P e i) \<or> (Suc i \<le> j \<and> j < Suc i + length hs \<and> P (hs ! (j - Suc i)) j)" for j P
  proof (cases "i < j")
    case True
    then have "(e # hs) ! (j - i) = hs ! (j - Suc i)" by (simp flip: Suc_diff_Suc)
    then show ?thesis using True by auto
  qed auto
  show ?case
    using ih b idx[of _ "\<lambda>x j. \<exists>data. read_piece h d (word_of_nat j) = Inr data \<and> sha1 data = x"] rd by auto
qed

lemma persist_torrent_disk [simp]: "sf_disk (persist_torrent env c fs) = sf_disk fs"
  by (simp add: persist_torrent_def Let_def split: sum.split)

text \<open>Unless a resume file claims that the torrent is complete, the bitfield a session starts
  seeding with has exactly the pieces whose content on disk has the SHA-1 digest the torrent gives
  for them.\<close>

lemma seed_bitfield_exact:
  assumes "resources_seed env path m fs = Some (Inr (res, bf), fs', evs)"
    and "\<forall>r. sc_resume (rs_cache res) = Some r \<longrightarrow> resume_is_complete r = Some False"
  shows "piece_count bf = length (torrent_piece_hashes m) \<and>
     (\<forall>i. bf_have bf i = Some (i < length (torrent_piece_hashes m) \<and>
        (\<exists>data. read_piece (rs_handler res) (sf_disk fs) (word_of_nat i) = Inr data \<and> se_sha1 env data = torrent_piece_hashes m ! i)))"
proof -
  let ?hs = "torrent_piece_hashes m"
  obtain evs' where "verify_pieces (se_sha1 env) (rs_handler res) (sf_disk fs) (length ?hs) 0 ?hs (bf_empty (length ?hs)) [] = Some (Inr bf, evs')"
    using assms by (auto simp: resources_seed_def Let_def split: option.splits sum.splits prod.splits if_splits)
  note v = verify_pieces_exact[OF this bf_empty_wf]
  have "piece_count (bf_empty (length ?hs)) = length ?hs" by (simp add: bf_empty_def)
  then have "bf_wf bf" "piece_count bf = length ?hs" and
    mem: "\<forall>i. bf_mem bf i \<longleftrightarrow> i < length ?hs \<and>
      (\<exists>data. read_piece (rs_handler res) (sf_disk fs) (word_of_nat i) = Inr data \<and> se_sha1 env data = ?hs ! i)"
    using v by auto
  then show ?thesis by (simp add: bf_have_mem)
qed

lemma sample_torrent_fields:
  "torrent_piece_hashes sample_torrent = [replicate 20 3]" "tc_piece_length (torrent_common_of sample_torrent) = 16384"
  "torrent_files sample_torrent = [\<lparr>ef_length = 1, ef_path = [''a''], ef_md5sum = None\<rparr>]"
  by (simp_all add: sample_torrent_def v1_piece_hashes_def chunks_exact_def chunks_short)

definition sample_handler :: "seeding multi_file_handler" where
  "sample_handler = \<lparr>targets = [FileChunk_new 1 0 1], mf_piece_length = 16384, total_length = 1, mf_state = SeedingMode\<rparr>"

lemma sample_seed:
  obtains fs' evs bf where "resources_seed sample_env [''u''] sample_torrent sample_fs =
    Some (Inr (\<lparr>rs_handler = sample_handler, rs_cache = \<lparr>sc_dir = [], sc_torrent = sample_torrent, sc_resume = None\<rparr>\<rparr>, bf), fs', evs)"
proof -
  obtain bf where bf: "bf_set (bf_empty 1) 0 = Some bf" using bf_set_wf[OF bf_empty_wf] by blast
  have rd: "read_piece sample_handler [1 \<mapsto> [7]] 0 = Inr [7]"
    by (simp add: read_piece_eval sample_handler_def FileChunk_new_def)
  have h: "handler_seed (se_names sample_env) (sf_disk sample_fs) [] 16384 [\<lparr>ef_length = 1, ef_path = [''a''], ef_md5sum = None\<rparr>]
      = Inr sample_handler"
    by (simp add: handler_seed_def sample_env_def sample_fs_def two_files_def full_path_eval sample_handler_def add64_def)
  have c: "SessionCache_new sample_env sample_fs (CacheSeed [''u''] sample_torrent) = Some \<lparr>sc_dir = [], sc_torrent = sample_torrent, sc_resume = None\<rparr>"
    by (simp add: SessionCache_new_def sample_env_def sample_fs_def resume_open_def)
  have v: "verify_pieces (se_sha1 sample_env) sample_handler (sf_disk sample_fs) 1 0 [replicate 20 3] (bf_empty 1) [] = Some (Inr bf, [PieceVerified 1 0])"
    using rd bf by (simp add: sample_env_def sample_fs_def)
  show thesis
    by (rule that) (use v in \<open>simp add: resources_seed_def c h sample_torrent_fields Let_def del: verify_pieces.simps\<close>)
qed

text \<open>C30: what \<open>persist_resume\<close> writes is what a session opened later on the same directory finds:
  the same bitfield, accepted only for the same info hash.\<close>

theorem resume_round_trip:
  assumes "\<forall>r bs. se_enc_resume env r = Some bs \<longrightarrow> se_dec_resume env bs = Some r"
    and "se_enc_resume env (ResumeFile_new (torrent_info_hash (sc_torrent c)) bf (sc_dir c)) \<noteq> None"
    and "\<forall>name. se_writable env (sc_dir c @ [name])"
  shows "map_option resume_get_bitfield
     (resume_open (se_dec_resume env) (sf_files (persist_resume env c bf fs)) (sc_dir c) ih)
       = (if info_hash_bytes (torrent_info_hash (sc_torrent c)) = info_hash_bytes ih then Some bf else None)"
proof -
  define r where "r = ResumeFile_new (torrent_info_hash (sc_torrent c)) bf (sc_dir c)"
  obtain bs where bs: "se_enc_resume env r = Some bs" "se_dec_resume env bs = Some r"
    using assms(1,2) by (auto simp: r_def)
  have "sf_files (persist_resume env c bf fs) (resume_path (sc_dir c)) = Some bs"
    using assms(3) bs(1) by (simp add: persist_resume_def resume_persist_def resume_path_def r_def[symmetric] Let_def)
  moreover have "resume_get_bitfield r = bf" "rf_info_hash r = info_hash_bytes (torrent_info_hash (sc_torrent c))"
    by (simp_all add: resume_get_bitfield_def r_def ResumeFile_new_def from_wire_def)
  ultimately show ?thesis using bs(2) by (simp add: resume_open_def)
qed

theorem resume_round_trip_witness:
  "\<exists>enc dec. map_option resume_get_bitfield
     (resume_open dec (sf_files (persist_resume (sample_env\<lparr>se_enc_resume := enc, se_dec_resume := dec\<rparr>)
        \<lparr>sc_dir = [''d''], sc_torrent = sample_torrent, sc_resume = None\<rparr> (bf_empty 9) sample_fs)) [''d''] (InfoV1 (replicate 20 0)))
     = Some (bf_empty 9)"
proof -
  let ?c = "\<lparr>sc_dir = [''d''], sc_torrent = sample_torrent, sc_resume = None\<rparr>"
  define r where "r = ResumeFile_new (torrent_info_hash sample_torrent) (bf_empty 9) [''d'']"
  let ?enc = "\<lambda>x. if x = r then Some [1] else None :: bytes option" and ?dec = "\<lambda>bs :: bytes. Some r"
  have ih: "info_hash_bytes (torrent_info_hash sample_torrent) = replicate 20 0"
    by (simp add: torrent_info_hash_def sample_torrent_def)
  show ?thesis
    using resume_round_trip[of "sample_env\<lparr>se_enc_resume := ?enc, se_dec_resume := ?dec\<rparr>" ?c "bf_empty 9" sample_fs "InfoV1 (replicate 20 0)"]
    by (intro exI[of _ ?enc] exI[of _ ?dec]) (simp add: r_def ih, simp add: sample_env_def)
qed

end
