(* ===== verification/BepRouter.thy ===== *)
theory BepRouter
  imports SessionState Auth
begin

text \<open>
  The peer protocol: \<open>session/bep/message.rs\<close>, \<open>session/bep/piece_auth.rs\<close>, the peer table of
  \<open>session/session.rs\<close> and the handlers of \<open>session/bep/router.rs\<close>. A handler returns its result,
  the session and the messages sent so far; \<open>None\<close> is a panic (or, for the download loop, no fuel
  left). Sending to a peer fails when no connection to it is open. The answers to piece requests
  and the order they complete in are parameters. A session's pipelines are shared by reference in
  the source; here the peer table holds the pipeline and a handler writes it back.
\<close>

subsection \<open>Messages\<close>

datatype standard_message =
    Handshake bytes bytes
  | Bitfield bytes
  | Interested
  | NotInterested
  | Choke
  | Unchoke
  | Request u32
  | Piece u32 bytes
  | Have u32

datatype bep_router_error =
    NodeErr | CertErr | StandardMessageErr | HandleFailed | ConnectionManagerErr | NonActivePipeline

type_synonym outbox = "(sock_addr \<times> standard_message) list"

subsection \<open>Signed pieces\<close>

definition SIGNATURE_LENGTH :: nat where "SIGNATURE_LENGTH = 64"

definition piece_hash :: "(bytes \<Rightarrow> bytes) \<Rightarrow> u32 \<Rightarrow> bytes \<Rightarrow> bytes" where
  "piece_hash sha256 index data = sha256 (to_le_bytes_u32 index @ data)"

definition make_payload :: "(bytes \<Rightarrow> bytes) \<Rightarrow> signer \<Rightarrow> u32 \<Rightarrow> bytes \<Rightarrow> auth_error + bytes" where
  "make_payload sha256 prover index data =
     (case signer_sign prover (piece_hash sha256 index data) of
        None \<Rightarrow> Inl PowSignFailed
      | Some sig \<Rightarrow> Inr (data @ sig))"

definition split_payload :: "bytes \<Rightarrow> (bytes \<times> bytes) option" where
  "split_payload payload =
     (if length payload \<le> SIGNATURE_LENGTH then None
      else let at = length payload - SIGNATURE_LENGTH in Some (take at payload, drop at payload))"

definition verify_piece :: "(bytes \<Rightarrow> bytes) \<Rightarrow> verifier \<Rightarrow> u32 \<Rightarrow> bytes \<Rightarrow> bytes \<Rightarrow> bytes \<Rightarrow> bool" where
  "verify_piece sha256 verify index data sig pk = verify pk (piece_hash sha256 index data) sig"

subsection \<open>The peers of a session\<close>

record router_env =
  re_host_id :: bytes
  re_sha256 :: "bytes \<Rightarrow> bytes"
  re_verify :: verifier
  re_connected :: "sock_addr \<Rightarrow> bool"
  re_encodes :: "standard_message \<Rightarrow> bool"

definition bep_send :: "router_env \<Rightarrow> sock_addr \<Rightarrow> standard_message \<Rightarrow> outbox \<Rightarrow> (bep_router_error + unit) \<times> outbox" where
  "bep_send env peer bep out =
     (if \<not> re_encodes env bep then (Inl StandardMessageErr, out)
      else if re_connected env peer then (Inr (), out @ [(peer, bep)])
      else (Inl ConnectionManagerErr, out))"

definition get_pipeline :: "torrent_session \<Rightarrow> sock_addr \<Rightarrow> pipeline option" where
  "get_pipeline s src = (case map_of (ts_peers s) src of Some (Active p) \<Rightarrow> Some p | _ \<Rightarrow> None)"

definition put_pipeline :: "sock_addr \<Rightarrow> pipeline \<Rightarrow> torrent_session \<Rightarrow> torrent_session" where
  "put_pipeline src p s = s\<lparr>ts_peers := AList.update src (Active p) (ts_peers s)\<rparr>"

definition session_set_bitfield :: "u32 \<Rightarrow> torrent_session \<Rightarrow> torrent_session option" where
  "session_set_bitfield index s = map_option (\<lambda>bf. s\<lparr>ts_bitfield := bf\<rparr>) (bf_set (ts_bitfield s) (unat index))"

definition add_piece :: "u32 \<Rightarrow> torrent_session \<Rightarrow> (bool \<times> torrent_session) option" where
  "add_piece index s =
     (case bf_have (ts_bitfield s) (unat index) of
        None \<Rightarrow> None
      | Some True \<Rightarrow> Some (False, s)
      | Some False \<Rightarrow> map_option (\<lambda>s. (True, s)) (session_set_bitfield index s))"

definition get_pending_peer :: "torrent_session \<Rightarrow> sock_addr \<Rightarrow> bytes option" where
  "get_pending_peer s peer = (case map_of (ts_peers s) peer of Some (Pending peer_id _) \<Rightarrow> Some peer_id | _ \<Rightarrow> None)"

definition insert_pending :: "sock_addr \<Rightarrow> bytes \<Rightarrow> bool \<Rightarrow> torrent_session \<Rightarrow> torrent_session" where
  "insert_pending addr peer_id we_initiated s =
     s\<lparr>ts_peers := AList.update addr (Pending peer_id we_initiated) (ts_peers s)\<rparr>"

definition insert_pipeline :: "router_env \<Rightarrow> sock_addr \<Rightarrow> bytes \<Rightarrow> bytes \<Rightarrow> torrent_session \<Rightarrow> torrent_session" where
  "insert_pipeline env addr peer_id bits s =
     (let piece_count = length (torrent_piece_hashes (ts_metadata s));
          caller = from_socket (Key_new (re_sha256 env) peer_id) addr
      in put_pipeline addr (Pipeline_new caller (from_wire bits piece_count)) s)"

definition is_pending_outbound :: "torrent_session \<Rightarrow> sock_addr \<Rightarrow> bool" where
  "is_pending_outbound s addr = (case map_of (ts_peers s) addr of Some (Pending _ True) \<Rightarrow> True | _ \<Rightarrow> False)"

definition broadcast :: "router_env \<Rightarrow> standard_message \<Rightarrow> torrent_session \<Rightarrow> outbox \<Rightarrow> outbox" where
  "broadcast env msg s out =
     foldl (\<lambda>out (addr, st). case st of Active _ \<Rightarrow> snd (bep_send env addr msg out) | _ \<Rightarrow> out) out (ts_peers s)"

definition broadcast_have :: "router_env \<Rightarrow> u32 \<Rightarrow> torrent_session \<Rightarrow> outbox \<Rightarrow> outbox" where
  "broadcast_have env index s out =
     foldl (\<lambda>out (addr, st). case st of Active _ \<Rightarrow> snd (bep_send env addr (Have index) out) | _ \<Rightarrow> out) out (ts_peers s)"

definition terminate_with :: "sock_addr \<Rightarrow> torrent_session \<Rightarrow> torrent_session" where
  "terminate_with other s = s\<lparr>ts_peers := AList.delete other (ts_peers s)\<rparr>"

definition shutdown_peers :: "torrent_session \<Rightarrow> sock_addr list \<times> torrent_session" where
  "shutdown_peers s = (map fst (ts_peers s), s\<lparr>ts_peers := []\<rparr>)"

definition piece_size :: "torrent_file \<Rightarrow> u32 \<Rightarrow> u32 option" where
  "piece_size metadata index =
     (let total_pieces = (word_of_nat (length (torrent_piece_hashes metadata)) :: u32);
          piece_length = (ucast (tc_piece_length (torrent_common_of metadata)) :: u32)
      in if index \<noteq> total_pieces - 1 then Some piece_length
         else if piece_length = 0 then None
         else let remainder = (ucast (total_size metadata mod ucast piece_length) :: u32)
              in Some (if remainder = 0 then piece_length else remainder))"

definition send_downloaded_piece :: "u32 \<Rightarrow> bytes \<Rightarrow> torrent_session \<Rightarrow> torrent_session" where
  "send_downloaded_piece index data s =
     (let s = s\<lparr>ts_pending_writes := ts_pending_writes s + 1\<rparr>
      in case ts_state s of
           Downloading p dest res token tx \<Rightarrow>
             if ch_open tx
             then s\<lparr>ts_state := Downloading p dest res token (tx\<lparr>ch_queue := ch_queue tx @ [(index, data)]\<rparr>)\<rparr>
             else s\<lparr>ts_pending_writes := ts_pending_writes s - 1\<rparr>
         | _ \<Rightarrow> s\<lparr>ts_pending_writes := ts_pending_writes s - 1\<rparr>)"

definition send_piece_request :: "piece_request \<Rightarrow> torrent_session \<Rightarrow> torrent_session" where
  "send_piece_request request s =
     (case ts_state s of
        Seeding p res token tx \<Rightarrow>
          if ch_open tx then s\<lparr>ts_state := Seeding p res token (tx\<lparr>ch_queue := ch_queue tx @ [request]\<rparr>)\<rparr> else s
      | _ \<Rightarrow> s)"

subsection \<open>Finding peers\<close>

datatype dial_outcome = Dialed | DialError | DialTimeout

definition handshake :: "router_env \<Rightarrow> bool \<Rightarrow> torrent_session \<Rightarrow> sock_addr \<Rightarrow> outbox \<Rightarrow> (bep_router_error + unit) \<times> torrent_session \<times> outbox" where
  "handshake env dialed s peer out =
     (if \<not> dialed then (Inl ConnectionManagerErr, s, out)
      else let s = insert_pending peer (re_host_id env) True s;
               (r, out) = bep_send env peer (Handshake (info_hash_bytes (torrent_info_hash (ts_metadata s))) (re_host_id env)) out
           in (r, s, out))"

definition discover_peer :: "router_env \<Rightarrow> (sock_addr \<Rightarrow> dial_outcome) \<Rightarrow> torrent_session \<times> outbox \<Rightarrow> sock_addr \<Rightarrow> torrent_session \<times> outbox" where
  "discover_peer env dial = (\<lambda>(s, out) addr.
     if map_of (ts_peers s) addr \<noteq> None then (s, out)
     else let s = s\<lparr>ts_peers := AList.update addr Connecting (ts_peers s)\<rparr>
          in if dial addr = DialTimeout then (terminate_with addr s, out)
             else case handshake env (dial addr = Dialed) s addr out of
                    (Inr _, s, out) \<Rightarrow> (s, out)
                  | (Inl _, s, out) \<Rightarrow> (terminate_with addr s, out))"

definition add_discovered_peers ::
  "router_env \<Rightarrow> (sock_addr \<Rightarrow> dial_outcome) \<Rightarrow> sock_addr list \<Rightarrow> torrent_session \<Rightarrow> outbox \<Rightarrow> torrent_session \<times> outbox" where
  "add_discovered_peers env dial peers s out =
     (if peers = [] then (s, out) else foldl (discover_peer env dial) (s, out) (remdups_adj (sort peers)))"

subsection \<open>Handlers\<close>

type_synonym bep_result = "((bep_router_error + unit) \<times> torrent_session \<times> outbox) option"

definition bep_handle_handshake :: "router_env \<Rightarrow> torrent_session \<Rightarrow> bytes \<Rightarrow> bytes \<Rightarrow> sock_addr \<Rightarrow> outbox \<Rightarrow> bep_result" where
  "bep_handle_handshake env s infohash_recv peerid_recv source out =
     (if get_pipeline s source \<noteq> None then Some (Inr (), s, out)
      else case info_hash_try_from infohash_recv of
             Inl _ \<Rightarrow> Some (Inl HandleFailed, s, out)
           | Inr ih \<Rightarrow>
               if ih \<noteq> torrent_info_hash (ts_metadata s) then Some (Inl HandleFailed, s, out)
               else if \<not> is_pending_outbound s source
               then let s = insert_pending source peerid_recv False s;
                        (r, out) = bep_send env source
                          (Handshake (info_hash_bytes (torrent_info_hash (ts_metadata s))) (re_host_id env)) out
                    in Some (r, s, out)
               else let s = insert_pending source peerid_recv True s;
                        (r, out) = bep_send env source (Bitfield (bf_bytes (ts_bitfield s))) out
                    in Some (r, s, out))"

text \<open>The end of \<open>handle_bitfield\<close> and of \<open>Have\<close>: tell the peer when it has something we want.\<close>

definition show_interest :: "router_env \<Rightarrow> torrent_session \<Rightarrow> sock_addr \<Rightarrow> pipeline \<Rightarrow> outbox \<Rightarrow> bep_result" where
  "show_interest env s source p out =
     (let (interested, p) = evaluate_interest (ts_bitfield s) p; s = put_pipeline source p s
      in if interested then let (r, out) = bep_send env source Interested out in Some (r, s, out)
         else Some (Inr (), s, out))"

definition handle_bitfield :: "router_env \<Rightarrow> torrent_session \<Rightarrow> bytes \<Rightarrow> sock_addr \<Rightarrow> outbox \<Rightarrow> bep_result" where
  "handle_bitfield env s bitfield_recv source out =
     (let self_init = is_pending_outbound s source
      in case get_pending_peer s source of
           None \<Rightarrow> Some (Inr (), s, out)
         | Some peer_id \<Rightarrow>
             let s = insert_pipeline env source peer_id bitfield_recv s;
                 (r, out) = (if self_init then (Inr (), out)
                             else bep_send env source (Bitfield (bf_bytes (ts_bitfield s))) out)
             in case r of
                  Inl e \<Rightarrow> Some (Inl e, s, out)
                | Inr _ \<Rightarrow>
                    if current_mode (ts_state s) \<noteq> ModeDownloading then Some (Inr (), s, out)
                    else case get_pipeline s source of
                           None \<Rightarrow> Some (Inr (), s, out)
                         | Some p \<Rightarrow> show_interest env s source p out)"

definition make_request ::
  "router_env \<Rightarrow> (sock_addr \<Rightarrow> u32 \<Rightarrow> bytes option) \<Rightarrow> sock_addr \<Rightarrow> u32 \<Rightarrow> key \<Rightarrow> bep_router_error + standard_message option" where
  "make_request env answer source index seeder_key =
     (if \<not> re_encodes env (Request index) then Inl StandardMessageErr
      else case answer source index of
             None \<Rightarrow> Inl ConnectionManagerErr
           | Some payload \<Rightarrow>
               (case split_payload payload of
                  None \<Rightarrow> Inr None
                | Some (data, sig) \<Rightarrow>
                    if \<not> verify_piece (re_sha256 env) (re_verify env) index data sig (pub_key seeder_key) then Inr None
                    else Inr (Some (Piece index data))))"

definition process_piece ::
  "router_env \<Rightarrow> sock_addr \<Rightarrow> torrent_session \<Rightarrow> u32 \<Rightarrow> bytes \<Rightarrow> outbox \<Rightarrow> (u32 list \<times> torrent_session \<times> outbox) option" where
  "process_piece env source s index data out =
     (case get_pipeline s source of
        None \<Rightarrow> Some ([], s, out)
      | Some p \<Rightarrow>
          (case add_piece index s of
             None \<Rightarrow> None
           | Some (added, s) \<Rightarrow>
               if \<not> added
               then let (reqs, p) = fill_requests None (ts_bitfield s) p in Some (reqs, put_pipeline source p s, out)
               else let p = clear_piece index p;
                        s = put_pipeline source p s;
                        s = send_downloaded_piece index data s;
                        out = broadcast_have env index s out
                    in case is_complete (ts_bitfield s) of
                         None \<Rightarrow> None
                       | Some complete \<Rightarrow>
                           if complete then Some ([], s, out)
                           else let (reqs, p) = fill_requests (Some index) (ts_bitfield s) p
                                in Some (reqs, put_pipeline source p s, out)))"

text \<open>The loop over the requests in flight after an unchoke.\<close>

fun fetch_loop ::
  "nat \<Rightarrow> router_env \<Rightarrow> (sock_addr \<Rightarrow> u32 \<Rightarrow> bytes option) \<Rightarrow> (u32 list \<Rightarrow> nat) \<Rightarrow> sock_addr \<Rightarrow> key
     \<Rightarrow> u32 list \<Rightarrow> torrent_session \<Rightarrow> outbox \<Rightarrow> bep_result" where
  "fetch_loop 0 env answer pick source seeder flight s out = None"
| "fetch_loop (Suc fuel) env answer pick source seeder flight s out =
     (if flight = [] then Some (Inr (), s, out)
      else let (index, rest) = next_done pick flight
           in case make_request env answer source index seeder of
                Inr (Some (Piece i data)) \<Rightarrow>
                  (case process_piece env source s i data out of
                     None \<Rightarrow> None
                   | Some (new, s, out) \<Rightarrow> fetch_loop fuel env answer pick source seeder (rest @ new) s out)
              | _ \<Rightarrow> fetch_loop fuel env answer pick source seeder rest s out)"

declare fetch_loop.simps(2) [simp del]

definition handle_unchoke ::
  "nat \<Rightarrow> router_env \<Rightarrow> (sock_addr \<Rightarrow> u32 \<Rightarrow> bytes option) \<Rightarrow> (u32 list \<Rightarrow> nat) \<Rightarrow> torrent_session \<Rightarrow> sock_addr \<Rightarrow> outbox \<Rightarrow> bep_result" where
  "handle_unchoke fuel env answer pick s source out =
     (case get_pipeline s source of
        None \<Rightarrow> Some (Inr (), s, out)
      | Some p \<Rightarrow>
          let (requests, p) = fill_requests None (ts_bitfield s) (on_unchoke p)
          in fetch_loop fuel env answer pick source (node_id (pl_peer p)) requests (put_pipeline source p s) out)"

definition handle_request_downloading ::
  "nat \<Rightarrow> router_env \<Rightarrow> (sock_addr \<Rightarrow> u32 \<Rightarrow> bytes option) \<Rightarrow> (u32 list \<Rightarrow> nat) \<Rightarrow> torrent_session \<Rightarrow> standard_message
     \<Rightarrow> sock_addr \<Rightarrow> outbox \<Rightarrow> bep_result" where
  "handle_request_downloading fuel env answer pick s msg source out =
     (case msg of
        Unchoke \<Rightarrow> handle_unchoke fuel env answer pick s source out
      | Have index \<Rightarrow>
          (case get_pipeline s source of
             None \<Rightarrow> Some (Inl NonActivePipeline, s, out)
           | Some p \<Rightarrow>
               (case set_bitfield (unat index) p of
                  None \<Rightarrow> None
                | Some p \<Rightarrow> show_interest env s source p out))
      | _ \<Rightarrow> Some (Inr (), s, out))"

definition handle_piece_request :: "torrent_session \<Rightarrow> u32 \<Rightarrow> sock_addr \<Rightarrow> nat option \<Rightarrow> outbox \<Rightarrow> bep_result" where
  "handle_piece_request s index source reply out =
     (case get_pipeline s source of
        None \<Rightarrow> Some (Inr (), s, out)
      | Some p \<Rightarrow>
          if am_choking p then Some (Inr (), s, out)
          else case bf_have (ts_bitfield s) (unat index) of
                 None \<Rightarrow> None
               | Some False \<Rightarrow> Some (Inr (), s, out)
               | Some True \<Rightarrow> Some (Inr (), send_piece_request \<lparr>rq_index = index, rq_respond = reply\<rparr> s, out))"

definition handle_request_seeding ::
  "router_env \<Rightarrow> torrent_session \<Rightarrow> standard_message \<Rightarrow> sock_addr \<Rightarrow> nat option \<Rightarrow> outbox \<Rightarrow> bep_result" where
  "handle_request_seeding env s msg source reply out =
     (case msg of
        Interested \<Rightarrow>
          if current_mode (ts_state s) \<noteq> ModeSeeding then Some (Inr (), s, out)
          else (case get_pipeline s source of
                  None \<Rightarrow> Some (Inr (), s, out)
                | Some p \<Rightarrow>
                    let s = put_pipeline source (pl_unchoke (on_peer_interested p)) s;
                        (r, out) = bep_send env source Unchoke out
                    in Some (r, s, out))
      | NotInterested \<Rightarrow>
          let s = (case get_pipeline s source of
                     None \<Rightarrow> s
                   | Some p \<Rightarrow> put_pipeline source (pl_choke (on_peer_not_interested p)) s);
              (r, out) = bep_send env source Choke out
          in Some (r, s, out)
      | Request index \<Rightarrow> handle_piece_request s index source reply out
      | Have index \<Rightarrow>
          (case get_pipeline s source of
             None \<Rightarrow> Some (Inr (), s, out)
           | Some p \<Rightarrow>
               (case set_bitfield (unat index) p of
                  None \<Rightarrow> None
                | Some p \<Rightarrow> Some (Inr (), put_pipeline source p s, out)))
      | _ \<Rightarrow> Some (Inr (), s, out))"

definition bep_handle_request ::
  "nat \<Rightarrow> router_env \<Rightarrow> (sock_addr \<Rightarrow> u32 \<Rightarrow> bytes option) \<Rightarrow> (u32 list \<Rightarrow> nat) \<Rightarrow> torrent_session \<Rightarrow> standard_message
     \<Rightarrow> sock_addr \<Rightarrow> nat option \<Rightarrow> outbox \<Rightarrow> bep_result" where
  "bep_handle_request fuel env answer pick s msg source reply out =
     (case msg of
        Handshake info_hash peer_id \<Rightarrow> bep_handle_handshake env s info_hash peer_id source out
      | Bitfield bf \<Rightarrow> handle_bitfield env s bf source out
      | Choke \<Rightarrow>
          (case get_pipeline s source of
             None \<Rightarrow> Some (Inr (), s, out)
           | Some p \<Rightarrow> Some (Inr (), put_pipeline source (on_choke p) s, out))
      | _ \<Rightarrow>
          (case current_mode (ts_state s) of
             ModeDownloading \<Rightarrow> handle_request_downloading fuel env answer pick s msg source out
           | ModeSeeding \<Rightarrow> handle_request_seeding env s msg source reply out
           | ModeIdle \<Rightarrow> Some (Inr (), s, out)))"

subsection \<open>Well-formed sessions\<close>

definition pipeline_ok :: "nat \<Rightarrow> pipeline \<Rightarrow> bool" where
  "pipeline_ok n p \<longleftrightarrow> pl_wf p \<and> bf_wf (pl_bitfield p) \<and> piece_count (pl_bitfield p) = n"

definition session_pieces :: "torrent_session \<Rightarrow> nat" where
  "session_pieces s = length (torrent_piece_hashes (ts_metadata s))"

definition session_wf :: "torrent_session \<Rightarrow> bool" where
  "session_wf s \<longleftrightarrow> bf_wf (ts_bitfield s) \<and> piece_count (ts_bitfield s) = session_pieces s \<and> session_pieces s < 2 ^ 32
     \<and> distinct (map fst (ts_peers s)) \<and> (\<forall>a p. get_pipeline s a = Some p \<longrightarrow> pipeline_ok (session_pieces s) p)"

lemma get_put_pipeline [simp]: "get_pipeline (put_pipeline a p s) b = (if b = a then Some p else get_pipeline s b)"
  by (simp add: get_pipeline_def put_pipeline_def update_conv')

lemma put_pipeline_fields [simp]:
  "ts_bitfield (put_pipeline a p s) = ts_bitfield s" "ts_metadata (put_pipeline a p s) = ts_metadata s"
  "ts_state (put_pipeline a p s) = ts_state s" "session_pieces (put_pipeline a p s) = session_pieces s"
  "ts_workers (put_pipeline a p s) = ts_workers s" "ts_cancelled (put_pipeline a p s) = ts_cancelled s"
  "ts_next_token (put_pipeline a p s) = ts_next_token s"
  by (simp_all add: put_pipeline_def session_pieces_def)

lemma put_put_pipeline [simp]: "put_pipeline a q (put_pipeline a p s) = put_pipeline a q s"
  by (simp add: put_pipeline_def)

lemma put_pipeline_wf [wf_intros]:
  "session_wf s \<Longrightarrow> pipeline_ok (session_pieces s) p \<Longrightarrow> session_wf (put_pipeline a p s)"
  by (auto simp: session_wf_def) (simp add: put_pipeline_def distinct_update)

lemma session_wf_pipeline: "session_wf s \<Longrightarrow> get_pipeline s a = Some p \<Longrightarrow> pipeline_ok (session_pieces s) p"
  by (auto simp: session_wf_def)

lemma pipeline_ok_ops [wf_intros]:
  "pipeline_ok n p \<Longrightarrow> pipeline_ok n (on_unchoke p)" "pipeline_ok n p \<Longrightarrow> pipeline_ok n (on_choke p)"
  "pipeline_ok n p \<Longrightarrow> pipeline_ok n (pl_unchoke p)" "pipeline_ok n p \<Longrightarrow> pipeline_ok n (pl_choke p)"
  "pipeline_ok n p \<Longrightarrow> pipeline_ok n (on_peer_interested p)" "pipeline_ok n p \<Longrightarrow> pipeline_ok n (on_peer_not_interested p)"
  "pipeline_ok n p \<Longrightarrow> pipeline_ok n (clear_piece i p)" "pipeline_ok n p \<Longrightarrow> pipeline_ok n (snd (evaluate_interest ours p))"
  unfolding pipeline_ok_def
  by (auto intro: pl_wf_ops clear_piece_wf)
     (simp_all add: on_unchoke_def on_choke_def pl_unchoke_def pl_choke_def on_peer_interested_def
       on_peer_not_interested_def clear_piece_def evaluate_interest_def Let_def)

lemma fill_requests_fields:
  "fill_requests r sbf p = (reqs, p') \<Longrightarrow> pl_bitfield p' = pl_bitfield p \<and> peer_choking p' = peer_choking p \<and> pl_peer p' = pl_peer p"
  by (auto simp: fill_requests_def Let_def split: if_splits prod.splits)

subsection \<open>Wanted pieces\<close>

definition wants :: "torrent_session \<Rightarrow> pipeline \<Rightarrow> u32 set" where
  "wants s p = {w. bf_mem (pl_bitfield p) (unat w) \<and> \<not> bf_mem (ts_bitfield s) (unat w)}"

lemma unat_word_of_nat_u32: "i < 2 ^ 32 \<Longrightarrow> unat (word_of_nat i :: u32) = i"
  by (simp add: unat_of_nat)

lemma wants_difference:
  assumes "session_wf s" and "pipeline_ok (session_pieces s) p"
  shows "word_of_nat ` set (difference (pl_bitfield p) (ts_bitfield s)) = wants s p"
proof -
  have n: "piece_count (pl_bitfield p) = session_pieces s" "piece_count (ts_bitfield s) = session_pieces s" "session_pieces s < 2 ^ 32"
    using assms by (auto simp: session_wf_def pipeline_ok_def)
  have d: "i \<in> set (difference (pl_bitfield p) (ts_bitfield s)) \<longleftrightarrow> bf_mem (pl_bitfield p) i \<and> \<not> bf_mem (ts_bitfield s) i" for i
    using n by (auto simp: difference_raw bf_mem_def bf_raw_def)
  have lt: "i < 2 ^ 32" if "bf_mem (pl_bitfield p) i" for i using that n by (simp add: bf_mem_def)
  show ?thesis
  proof (intro set_eqI iffI)
    fix w :: u32
    assume "w \<in> word_of_nat ` set (difference (pl_bitfield p) (ts_bitfield s))"
    then show "w \<in> wants s p" using d lt by (auto simp: wants_def unat_word_of_nat_u32)
  next
    fix w :: u32
    assume "w \<in> wants s p"
    then have "unat w \<in> set (difference (pl_bitfield p) (ts_bitfield s))" using d by (simp add: wants_def)
    then show "w \<in> word_of_nat ` set (difference (pl_bitfield p) (ts_bitfield s))" by (intro image_eqI[of _ _ "unat w"]) simp_all
  qed
qed

lemma wants_index:
  assumes "session_wf s" and "pipeline_ok (session_pieces s) p"
  shows "(\<exists>w\<in>wants s p. i = unat w) \<longleftrightarrow> bf_mem (pl_bitfield p) i \<and> \<not> bf_mem (ts_bitfield s) i"
proof
  assume mem: "bf_mem (pl_bitfield p) i \<and> \<not> bf_mem (ts_bitfield s) i"
  then have "i < 2 ^ 32" using assms by (simp add: bf_mem_def pipeline_ok_def session_wf_def)
  then have "unat (word_of_nat i :: u32) = i" by (rule unat_word_of_nat_u32)
  with mem show "\<exists>w\<in>wants s p. i = unat w" by (intro bexI[of _ "word_of_nat i"]) (simp_all add: wants_def)
qed (auto simp: wants_def)

lemma finite_wants [simp]: "finite (wants s p)"
  by (rule finite_subset[of _ UNIV]) simp_all

subsection \<open>One piece of a download\<close>

fun enqueue_pieces :: "(u32 \<times> bytes) list \<Rightarrow> torrent_state \<Rightarrow> torrent_state" where
  "enqueue_pieces got (Downloading p dest res token tx) =
     Downloading p dest res token (if ch_open tx then tx\<lparr>ch_queue := ch_queue tx @ got\<rparr> else tx)"
| "enqueue_pieces got st = st"

lemma enqueue_pieces_simps [simp]:
  "enqueue_pieces [] st = st" "enqueue_pieces ys (enqueue_pieces xs st) = enqueue_pieces (xs @ ys) st"
  by (cases st; simp)+

lemma send_downloaded_piece_fields [simp]:
  "ts_state (send_downloaded_piece i data s) = enqueue_pieces [(i, data)] (ts_state s)"
  "ts_bitfield (send_downloaded_piece i data s) = ts_bitfield s" "ts_metadata (send_downloaded_piece i data s) = ts_metadata s"
  "ts_peers (send_downloaded_piece i data s) = ts_peers s" "ts_cancelled (send_downloaded_piece i data s) = ts_cancelled s"
  "ts_next_token (send_downloaded_piece i data s) = ts_next_token s" "ts_workers (send_downloaded_piece i data s) = ts_workers s"
  by (simp_all add: send_downloaded_piece_def Let_def split: torrent_state.split)

lemma get_pipeline_peers: "ts_peers s' = ts_peers s \<Longrightarrow> get_pipeline s' a = get_pipeline s a"
  by (simp add: get_pipeline_def)

lemma session_wf_cong:
  assumes "ts_bitfield s' = ts_bitfield s" and "ts_metadata s' = ts_metadata s" and "ts_peers s' = ts_peers s"
  shows "session_wf s' = session_wf s"
  using assms by (simp add: session_wf_def session_pieces_def get_pipeline_def)

definition gains :: "torrent_session \<Rightarrow> u32 set \<Rightarrow> torrent_session \<Rightarrow> bool" where
  "gains s ws s' \<longleftrightarrow> ts_metadata s' = ts_metadata s \<and> ts_cancelled s' = ts_cancelled s
     \<and> ts_next_token s' = ts_next_token s \<and> ts_workers s' = ts_workers s \<and>
     (\<forall>i. bf_mem (ts_bitfield s') i \<longleftrightarrow> bf_mem (ts_bitfield s) i \<or> (\<exists>w\<in>ws. i = unat w))"

lemma add_piece_new:
  assumes wf: "session_wf s" and w: "w \<in> wants s p" and p: "pipeline_ok (session_pieces s) p"
  obtains s' where "add_piece w s = Some (True, s')" "session_wf s'" "gains s {w} s'" "ts_peers s' = ts_peers s" "ts_state s' = ts_state s"
proof -
  have bf: "bf_wf (ts_bitfield s)" using wf by (simp add: session_wf_def)
  have new: "bf_have (ts_bitfield s) (unat w) = Some False" using w bf by (simp add: bf_have_mem wants_def)
  have lt: "unat w < piece_count (ts_bitfield s)"
    using w p wf by (simp add: wants_def bf_mem_def pipeline_ok_def session_wf_def)
  obtain bf' where bf': "bf_set (ts_bitfield s) (unat w) = Some bf'" "bf_wf bf'" "piece_count bf' = piece_count (ts_bitfield s)"
    "\<forall>j. bf_mem bf' j \<longleftrightarrow> bf_mem (ts_bitfield s) j \<or> (j = unat w \<and> unat w < piece_count (ts_bitfield s))"
    using bf_set_wf[OF bf] by blast
  let ?s = "s\<lparr>ts_bitfield := bf'\<rparr>"
  have "add_piece w s = Some (True, ?s)" using new bf'(1) by (simp add: add_piece_def session_set_bitfield_def)
  moreover have "session_wf ?s" using wf bf' by (simp add: session_wf_def session_pieces_def get_pipeline_def)
  moreover have "gains s {w} ?s" using bf'(4) lt by (auto simp: gains_def)
  ultimately show thesis by (intro that[of ?s]) simp_all
qed

lemma gains_wants: "gains s ws s' \<Longrightarrow> pl_bitfield q = pl_bitfield p \<Longrightarrow> wants s' q = wants s p - ws"
  by (auto simp: gains_def wants_def dest!: word_unat_eq_iff[THEN iffD2])

definition fetch_inv :: "torrent_session \<Rightarrow> sock_addr \<Rightarrow> u32 list \<Rightarrow> u32 set \<Rightarrow> pipeline \<Rightarrow> bool" where
  "fetch_inv s source flight fails p \<longleftrightarrow> session_wf s \<and> get_pipeline s source = Some p \<and> \<not> peer_choking p
     \<and> pl_pending p = set flight \<union> fails \<and> set flight \<inter> fails = {} \<and> distinct flight \<and> set flight \<subseteq> wants s p
     \<and> (card (pl_pending p) = MAX_PIPELINE \<or> wants s p \<subseteq> pl_pending p)"

definition fetch_measure :: "torrent_session \<Rightarrow> u32 list \<Rightarrow> pipeline \<Rightarrow> nat" where
  "fetch_measure s flight p = card (wants s p - pl_pending p) + length flight"

lemma fill_requests_wanted:
  assumes wf: "session_wf s" and p: "pipeline_ok (session_pieces s) p" and open_peer: "\<not> peer_choking p"
    and run: "fill_requests r (ts_bitfield s) p = (reqs, p')"
    and pend: "case r of Some i \<Rightarrow> i \<notin> pl_pending p | None \<Rightarrow> True"
  shows "distinct reqs" and "set reqs \<subseteq> wants s p" and "set reqs \<inter> pl_pending p = {}" and "pl_pending p' = pl_pending p \<union> set reqs"
    and "card (pl_pending p') = MAX_PIPELINE \<or> wants s p \<subseteq> pl_pending p'" and "pipeline_ok (session_pieces s) p'"
    and "wants s p' = wants s p"
proof -
  have pl: "pl_wf p" using p by (simp add: pipeline_ok_def)
  have keep: "(case r of Some i \<Rightarrow> pl_pending p - {i} | None \<Rightarrow> pl_pending p) = pl_pending p"
    using pend by (auto split: option.splits)
  note spec = fill_requests_spec[OF pl run open_peer, unfolded keep wants_difference[OF wf p]]
  show "distinct reqs" "set reqs \<subseteq> wants s p" "set reqs \<inter> pl_pending p = {}" "pl_pending p' = pl_pending p \<union> set reqs"
    "card (pl_pending p') = MAX_PIPELINE \<or> wants s p \<subseteq> pl_pending p'" using spec by auto
  note f = fill_requests_fields[OF run]
  show "pipeline_ok (session_pieces s) p'"
    using spec p f by (auto simp: pipeline_ok_def pl_wf_def)
  show "wants s p' = wants s p" using f by (simp add: wants_def)
qed

lemma is_complete_wants:
  assumes "session_wf s" and "pipeline_ok (session_pieces s) p"
  obtains c where "is_complete (ts_bitfield s) = Some c" "c \<longrightarrow> wants s p = {}"
proof -
  have "is_complete (ts_bitfield s) = Some (\<forall>i<piece_count (ts_bitfield s). bf_mem (ts_bitfield s) i)"
    using assms(1) by (intro is_complete_mem) (simp add: session_wf_def)
  moreover have "(\<forall>i<piece_count (ts_bitfield s). bf_mem (ts_bitfield s) i) \<longrightarrow> wants s p = {}"
    using assms by (auto simp: wants_def session_wf_def pipeline_ok_def bf_mem_def)
  ultimately show thesis by (rule that)
qed

text \<open>A verified piece leaves the flight, joins the bitfield and the downloader's queue, and makes
  room for new requests.\<close>

lemma process_piece_added:
  assumes wf: "session_wf s" and gp: "get_pipeline s source = Some p" and t: "t \<in> wants s p"
  obtains s' where "process_piece env source s t data out =
      (case is_complete (ts_bitfield s') of None \<Rightarrow> None | Some complete \<Rightarrow>
         if complete then Some ([], s', broadcast_have env t s' out)
         else let (reqs, q) = fill_requests (Some t) (ts_bitfield s') (clear_piece t p)
              in Some (reqs, put_pipeline source q s', broadcast_have env t s' out))"
    "session_wf s'" "gains s {t} s'" "ts_state s' = enqueue_pieces [(t, data)] (ts_state s)"
    "get_pipeline s' source = Some (clear_piece t p)" "pipeline_ok (session_pieces s') (clear_piece t p)"
    "wants s' (clear_piece t p) = wants s p - {t}"
proof -
  note ok = session_wf_pipeline[OF wf gp]
  obtain s1 where s1: "add_piece t s = Some (True, s1)" "session_wf s1" "gains s {t} s1" "ts_peers s1 = ts_peers s" "ts_state s1 = ts_state s"
    by (rule add_piece_new[OF wf t ok])
  define q where "q = clear_piece t p"
  define s2 where "s2 = send_downloaded_piece t data (put_pipeline source q s1)"
  have n: "session_pieces s2 = session_pieces s" "session_pieces s1 = session_pieces s"
    using s1(3) by (simp_all add: s2_def gains_def session_pieces_def)
  have q: "pipeline_ok (session_pieces s2) q" unfolding n q_def by (rule pipeline_ok_ops(7)[OF ok])
  have wf2: "session_wf s2"
    using session_wf_cong[of s2 "put_pipeline source q s1"] put_pipeline_wf[OF s1(2), of q source] q n by (simp add: s2_def)
  have g2: "gains s {t} s2" using s1(3) by (simp add: s2_def gains_def)
  have "wants s2 q = wants s p - {t}" by (rule gains_wants[OF g2]) (simp add: q_def clear_piece_def)
  moreover have "ts_state s2 = enqueue_pieces [(t, data)] (ts_state s)" "get_pipeline s2 source = Some q"
    using s1(5) get_pipeline_peers[of s2 "put_pipeline source q s1"] by (simp_all add: s2_def)
  moreover have "process_piece env source s t data out =
      (case is_complete (ts_bitfield s2) of None \<Rightarrow> None | Some complete \<Rightarrow>
         if complete then Some ([], s2, broadcast_have env t s2 out)
         else let (reqs, q) = fill_requests (Some t) (ts_bitfield s2) (clear_piece t p)
              in Some (reqs, put_pipeline source q s2, broadcast_have env t s2 out))"
    using gp s1(1) unfolding s2_def q_def by (simp add: process_piece_def Let_def)
  ultimately show thesis using wf2 g2 q unfolding q_def by (intro that[of s2])
qed

lemma fetch_measure_fill:
  assumes "distinct reqs" and "set reqs \<subseteq> W - P"  and "finite W"
  shows "card (W - (P \<union> set reqs)) + length reqs = card (W - P)"
proof -
  have "W - (P \<union> set reqs) = (W - P) - set reqs" by auto
  then show ?thesis
    using assms card_Diff_subset[of "set reqs" "W - P"] card_mono[of "W - P" "set reqs"] by (simp add: distinct_card)
qed

lemma process_piece_step:
  assumes inv: "fetch_inv s source flight fails p" and t: "t \<in> set flight" and rest: "set rest = set flight - {t}" "distinct rest"
  obtains new s' p' out' where "process_piece env source s t data out = Some (new, s', out')"
    "fetch_inv s' source (rest @ new) fails p'" "gains s {t} s'" "ts_state s' = enqueue_pieces [(t, data)] (ts_state s)"
    "fetch_measure s' (rest @ new) p' = card (wants s p - pl_pending p) + length rest" "pl_bitfield p' = pl_bitfield p"
proof -
  have wf: "session_wf s" and gp: "get_pipeline s source = Some p" and open_peer: "\<not> peer_choking p"
    and pend: "pl_pending p = set flight \<union> fails" and dis: "set flight \<inter> fails = {}" "distinct flight" "set flight \<subseteq> wants s p"
    using inv by (auto simp: fetch_inv_def)
  define q where "q = clear_piece t p"
  have tw: "t \<in> wants s p" using t dis(3) by blast
  obtain s2 where run: "process_piece env source s t data out =
      (case is_complete (ts_bitfield s2) of None \<Rightarrow> None | Some complete \<Rightarrow>
         if complete then Some ([], s2, broadcast_have env t s2 out)
         else let (reqs, q) = fill_requests (Some t) (ts_bitfield s2) q
              in Some (reqs, put_pipeline source q s2, broadcast_have env t s2 out))"
    and wf2: "session_wf s2" and g2: "gains s {t} s2" and st2: "ts_state s2 = enqueue_pieces [(t, data)] (ts_state s)"
    "get_pipeline s2 source = Some q" and ok: "pipeline_ok (session_pieces s2) q" and w2: "wants s2 q = wants s p - {t}"
    unfolding q_def by (rule process_piece_added[OF wf gp tw])
  have q: "\<not> peer_choking q" "pl_pending q = set rest \<union> fails" "pl_bitfield q = pl_bitfield p"
    using open_peer pend rest dis t by (auto simp: q_def clear_piece_def)
  have tp: "t \<notin> pl_pending q" using q(2) rest dis t by auto
  have same: "wants s2 q - pl_pending q = wants s p - pl_pending p" using w2 q(2) rest pend t by auto
  obtain c where c: "is_complete (ts_bitfield s2) = Some c" "c \<longrightarrow> wants s2 q = {}" by (rule is_complete_wants[OF wf2 ok])
  have rw: "set rest \<subseteq> wants s2 q" "distinct rest" "set rest \<inter> fails = {}" using rest dis w2 by auto
  show thesis
  proof (cases c)
    case True
    have "fetch_inv s2 source (rest @ []) fails q" using wf2 st2(2) q rw c(2) True by (simp add: fetch_inv_def)
    then show thesis using that[of "[]" s2 _ q] run c True g2 st2(1) same q(3) by (simp add: fetch_measure_def)
  next
    case False
    obtain reqs p' where f: "fill_requests (Some t) (ts_bitfield s2) q = (reqs, p')" by fastforce
    have "case Some t of Some i \<Rightarrow> i \<notin> pl_pending q | None \<Rightarrow> True" using tp by simp
    note spec = fill_requests_wanted[OF wf2 ok q(1) f this] and fields = fill_requests_fields[OF f]
    let ?s = "put_pipeline source p' s2"
    have sp: "wants ?s p' = wants s2 q" using spec(7) by (simp add: wants_def)
    have "fetch_inv ?s source (rest @ reqs) fails p'"
      using spec rw q(1,2) fields sp put_pipeline_wf[OF wf2, of p' source] unfolding fetch_inv_def by auto
    moreover have "fetch_measure ?s (rest @ reqs) p' = card (wants s p - pl_pending p) + length rest"
    proof -
      have "set reqs \<subseteq> wants s2 q - pl_pending q" using spec(2,3) by auto
      from fetch_measure_fill[OF spec(1) this finite_wants] show ?thesis by (simp add: fetch_measure_def sp spec(4) same)
    qed
    moreover have "gains s {t} ?s" using g2 by (simp add: gains_def)
    ultimately show thesis using that[of reqs ?s _ p'] run c(1) False f st2(1) fields q(3) by simp
  qed
qed

lemma next_done_distinct:
  assumes "fs \<noteq> []" and "next_done pick fs = (t, rest)" and "distinct fs"
  shows "t \<in> set fs" and "distinct rest" and "set rest = set fs - {t}" and "Suc (length rest) = length fs"
proof -
  let ?i = "pick fs mod length fs"
  have i: "?i < length fs" using assms(1) by simp
  have t: "t = fs ! ?i" and r: "rest = take ?i fs @ drop (Suc ?i) fs" using assms(2) by (auto simp: next_done_def Let_def)
  have "fs = take ?i fs @ t # drop (Suc ?i) fs" using id_take_nth_drop[OF i] by (simp add: t)
  then have "distinct (take ?i fs @ t # drop (Suc ?i) fs)" "set fs = set (take ?i fs @ t # drop (Suc ?i) fs)"
    using assms(3) by metis+
  then show "distinct rest" "set rest = set fs - {t}" "t \<in> set fs" by (auto simp: r)
  show "Suc (length rest) = length fs" by (rule next_done_props(2)[OF assms(1,2)])
qed

lemma make_request_piece: "make_request env answer source index k = Inr (Some m) \<Longrightarrow> \<exists>data. m = Piece index data"
  by (auto simp: make_request_def split: if_splits option.splits)

definition delivers :: "router_env \<Rightarrow> (sock_addr \<Rightarrow> u32 \<Rightarrow> bytes option) \<Rightarrow> sock_addr \<Rightarrow> key \<Rightarrow> u32 \<Rightarrow> bytes \<Rightarrow> bool" where
  "delivers env answer source seeder index data \<longleftrightarrow> make_request env answer source index seeder = Inr (Some (Piece index data))"

lemma fetch_loop_Suc:
  assumes "flight \<noteq> []" and "next_done pick flight = (t, rest)"
  shows "delivers env answer source k t data \<Longrightarrow> fetch_loop (Suc fuel) env answer pick source k flight s out =
      (case process_piece env source s t data out of None \<Rightarrow> None
       | Some (new, s, out) \<Rightarrow> fetch_loop fuel env answer pick source k (rest @ new) s out)"
    and "\<nexists>data. delivers env answer source k t data \<Longrightarrow>
      fetch_loop (Suc fuel) env answer pick source k flight s out = fetch_loop fuel env answer pick source k rest s out"
  using assms make_request_piece[of env answer source t k]
  by (auto simp: fetch_loop.simps(2) delivers_def split: sum.splits option.splits)

lemma gains_trans: "gains s A s' \<Longrightarrow> gains s' B s'' \<Longrightarrow> gains s (A \<union> B) s''"
  by (auto simp: gains_def)

text \<open>What a run of the loop from a session and a set of requests that failed before amounts to.\<close>

definition fetched ::
  "(u32 \<Rightarrow> bytes \<Rightarrow> bool) \<Rightarrow> torrent_session \<Rightarrow> u32 set \<Rightarrow> pipeline \<Rightarrow> (u32 \<times> bytes) list \<Rightarrow> torrent_session \<Rightarrow> u32 set \<Rightarrow> pipeline \<Rightarrow> bool" where
  "fetched dl s fails p got s' fails' p' \<longleftrightarrow> (\<forall>w\<in>fails' - fails. w \<in> wants s p \<and> (\<nexists>data. dl w data)) \<and> gains s (fst ` set got) s'
     \<and> fst ` set got \<subseteq> wants s p \<and> distinct (map fst got) \<and> (\<forall>(w, data)\<in>set got. dl w data)
     \<and> ts_state s' = enqueue_pieces got (ts_state s) \<and> pl_bitfield p' = pl_bitfield p"

lemma fetched_here: "fetched dl s fails p [] s fails p"
  by (simp add: fetched_def gains_def)

lemma fetched_piece:
  assumes "fetched dl s1 fails p1 got s' fails' p'" and "gains s {t} s1" and "ts_state s1 = enqueue_pieces [(t, data)] (ts_state s)"
    and "pl_bitfield p1 = pl_bitfield p" and "t \<in> wants s p" and "dl t data"
  shows "fetched dl s fails p ((t, data) # got) s' fails' p'"
  using assms gains_wants[OF assms(2,4)] gains_trans[of s "{t}" s1 "fst ` set got" s'] by (auto simp: fetched_def)

lemma fetched_failure:
  "fetched dl s (insert t fails) p got s' fails' p' \<Longrightarrow> t \<in> wants s p \<Longrightarrow> \<nexists>data. dl t data \<Longrightarrow> fetched dl s fails p got s' fails' p'"
  by (auto simp: fetched_def)

lemma fetch_loop_ends:
  assumes "fetch_inv s source flight fails p" and "fetch_measure s flight p < fuel"
  shows "\<exists>s' out'. fetch_loop fuel env answer pick source k flight s out = Some (Inr (), s', out')
     \<and> (\<exists>got p' fails'. fetch_inv s' source [] fails' p' \<and> fetched (delivers env answer source k) s fails p got s' fails' p')"
  using assms
proof (induction fuel arbitrary: s flight fails p out)
  case 0
  then show ?case by simp
next
  case (Suc fuel)
  show ?case
  proof (cases "flight = []")
    case True
    then have "fetch_loop (Suc fuel) env answer pick source k flight s out = Some (Inr (), s, out)"
      by (simp add: fetch_loop.simps(2))
    then show ?thesis using Suc.prems(1) fetched_here True by blast
  next
    case ne: False
    obtain t rest where nd: "next_done pick flight = (t, rest)" by fastforce
    have dis: "distinct flight" using Suc.prems(1) by (simp add: fetch_inv_def)
    note d = next_done_distinct[OF ne nd dis]
    have tw: "t \<in> wants s p" using Suc.prems(1) d(1) by (auto simp: fetch_inv_def)
    show ?thesis
    proof (cases "\<exists>data. delivers env answer source k t data")
      case True
      then obtain data where del: "delivers env answer source k t data" ..
      obtain new s1 p1 out1 where st: "process_piece env source s t data out = Some (new, s1, out1)"
        "fetch_inv s1 source (rest @ new) fails p1" "gains s {t} s1" "ts_state s1 = enqueue_pieces [(t, data)] (ts_state s)"
        "fetch_measure s1 (rest @ new) p1 = card (wants s p - pl_pending p) + length rest" "pl_bitfield p1 = pl_bitfield p"
        by (rule process_piece_step[OF Suc.prems(1) d(1,3,2)])
      have m: "fetch_measure s1 (rest @ new) p1 < fuel" using Suc.prems(2) st(5) d(4) by (simp add: fetch_measure_def)
      show ?thesis
        using Suc.IH[OF st(2) m, of out1] fetched_piece[where dl = "delivers env answer source k", OF _ st(3,4,6) tw del] unfolding fetch_loop_Suc(1)[OF ne nd del] st(1)
        by fastforce
    next
      case False
      have inv: "fetch_inv s source rest (insert t fails) p" using Suc.prems(1) d unfolding fetch_inv_def by auto
      have m: "fetch_measure s rest p < fuel" using Suc.prems(2) d(4) by (simp add: fetch_measure_def)
      show ?thesis
        using Suc.IH[OF inv m, of out] fetched_failure[where dl = "delivers env answer source k", OF _ tw False] unfolding fetch_loop_Suc(2)[OF ne nd False] by blast
    qed
  qed
qed

lemma card_wants: "pipeline_ok n p \<Longrightarrow> card (wants s p) \<le> n"
proof -
  assume ok: "pipeline_ok n p"
  have "unat ` wants s p \<subseteq> {..<n}" using ok by (auto simp: wants_def pipeline_ok_def bf_mem_def)
  then have "card (unat ` wants s p) \<le> n" using card_mono[of "{..<n}"] by fastforce
  moreover have "inj_on unat (wants s p)" by (rule inj_onI) (simp add: word_unat_eq_iff)
  ultimately show ?thesis by (simp add: card_image)
qed

lemma handle_unchoke_ends:
  assumes wf: "session_wf s" and gp: "get_pipeline s source = Some p" and fuel: "session_pieces s < fuel"
  shows "\<exists>s' out'. handle_unchoke fuel env answer pick s source out = Some (Inr (), s', out')
     \<and> (\<exists>got p' fails'. fetch_inv s' source [] fails' p' \<and>
          fetched (delivers env answer source (node_id (pl_peer p))) s (pl_pending p) p got s' fails' p')"
proof -
  define q where "q = on_unchoke p"
  have q: "pipeline_ok (session_pieces s) q" "\<not> peer_choking q" "pl_pending q = pl_pending p" "pl_bitfield q = pl_bitfield p" "pl_peer q = pl_peer p"
    using pipeline_ok_ops(1)[OF session_wf_pipeline[OF wf gp]] by (simp_all add: q_def on_unchoke_def)
  obtain reqs p1 where f: "fill_requests None (ts_bitfield s) q = (reqs, p1)" by fastforce
  have "case None of Some i \<Rightarrow> i \<notin> pl_pending q | None \<Rightarrow> True" by simp
  note spec = fill_requests_wanted[OF wf q(1,2) f this] and fields = fill_requests_fields[OF f]
  let ?s = "put_pipeline source p1 s"
  have w: "wants ?s p1 = wants s p" using fields q(4) by (simp add: wants_def)
  have wq: "wants s q = wants s p" using q(4) by (simp add: wants_def)
  have inv: "fetch_inv ?s source reqs (pl_pending p) p1"
    using put_pipeline_wf[OF wf spec(6), of source] spec q fields w wq unfolding fetch_inv_def by auto
  have "set reqs \<subseteq> wants s p - pl_pending p" using spec(2,3) wq q(3) by auto
  from fetch_measure_fill[OF spec(1) this finite_wants]
  have "fetch_measure ?s reqs p1 = card (wants s p - pl_pending p)" by (simp add: fetch_measure_def w spec(4) q(3))
  also have "\<dots> \<le> card (wants s p)" by (rule card_mono) auto
  also have "\<dots> \<le> session_pieces s" by (rule card_wants[OF session_wf_pipeline[OF wf gp]])
  finally have m: "fetch_measure ?s reqs p1 < fuel" using fuel by simp
  have "fetched dl ?s fl p1 got s' fails' p' \<Longrightarrow> fetched dl s fl p got s' fails' p'" for dl fl got s' fails' p'
    using w fields q(4) by (auto simp: fetched_def gains_def)
  then show ?thesis
    using fetch_loop_ends[OF inv m, of env answer pick "node_id (pl_peer p)" out] gp f fields q(5)
    unfolding handle_unchoke_def q_def by fastforce
qed

subsection \<open>Messages keep sessions well formed\<close>

fun message_ok :: "nat \<Rightarrow> standard_message \<Rightarrow> bool" where
  "message_ok n (Bitfield bs) \<longleftrightarrow> n \<le> 8 * length bs"
| "message_ok n _ \<longleftrightarrow> True"

definition keeps :: "torrent_session \<Rightarrow> torrent_session \<Rightarrow> bool" where
  "keeps s s' \<longleftrightarrow> session_wf s' \<and> ts_metadata s' = ts_metadata s \<and> same_control s s'"

lemma same_control_refl [simp]: "same_control s s"
  by (simp add: same_control_def)

lemma keeps_refl: "session_wf s \<Longrightarrow> keeps s s"
  by (simp add: keeps_def)

lemma peers_update_keeps:
  assumes "session_wf s" and "distinct (map fst ps)"
    and "\<And>a p. map_of ps a = Some (Active p) \<Longrightarrow> pipeline_ok (session_pieces s) p"
  shows "keeps s (s\<lparr>ts_peers := ps\<rparr>)"
  using assms by (auto simp: keeps_def session_wf_def session_pieces_def get_pipeline_def same_control_def
      split: option.splits peer_state.splits)

lemma map_of_active: "map_of (ts_peers s) a = Some (Active p) \<longleftrightarrow> get_pipeline s a = Some p"
  by (auto simp: get_pipeline_def split: option.splits peer_state.splits)

lemma put_pipeline_keeps: "session_wf s \<Longrightarrow> pipeline_ok (session_pieces s) p \<Longrightarrow> keeps s (put_pipeline a p s)"
  unfolding put_pipeline_def
  by (rule peers_update_keeps)
     (auto simp: update_conv' distinct_update session_wf_def map_of_active split: if_splits)

lemma insert_pending_keeps: "session_wf s \<Longrightarrow> keeps s (insert_pending a i b s)"
  unfolding insert_pending_def
  by (rule peers_update_keeps)
     (auto simp: update_conv' distinct_update session_wf_def map_of_active split: if_splits)

lemma terminate_with_keeps: "session_wf s \<Longrightarrow> keeps s (terminate_with a s)"
  unfolding terminate_with_def
  by (rule peers_update_keeps)
     (auto simp: delete_conv' distinct_delete session_wf_def map_of_active split: if_splits)

lemma insert_pipeline_keeps:
  assumes "session_wf s" and "session_pieces s \<le> 8 * length bits"
  shows "keeps s (insert_pipeline env a i bits s)"
  using assms pl_wf_new unfolding insert_pipeline_def Let_def
  by (intro put_pipeline_keeps) (auto simp: pipeline_ok_def session_pieces_def bf_wf_def from_wire_def Pipeline_new_def pl_wf_def)

lemma send_piece_request_keeps: "session_wf s \<Longrightarrow> keeps s (send_piece_request r s)"
  unfolding keeps_def send_piece_request_def
  by (auto simp: session_wf_def session_pieces_def get_pipeline_def same_control_def split: torrent_state.split)

lemma set_bitfield_ok:
  assumes "pipeline_ok n p"
  obtains p' where "set_bitfield i p = Some p'" "pipeline_ok n p'"
proof -
  have "bf_wf (pl_bitfield p)" using assms by (simp add: pipeline_ok_def)
  from bf_set_wf[OF this, of i] obtain bf where "bf_set (pl_bitfield p) i = Some bf" "bf_wf bf" "piece_count bf = piece_count (pl_bitfield p)"
    by blast
  then show thesis
    using assms by (intro that[of "p\<lparr>pl_bitfield := bf\<rparr>"]) (simp_all add: set_bitfield_def pipeline_ok_def pl_wf_def)
qed

lemma show_interest_keeps:
  assumes "session_wf s" and "pipeline_ok (session_pieces s) p"
  shows "\<exists>r s' out'. show_interest env s a p out = Some (r, s', out') \<and> keeps s s'"
  using put_pipeline_keeps[OF assms(1) pipeline_ok_ops(8)[OF assms(2)], of a "ts_bitfield s"]
  by (auto simp: show_interest_def Let_def split: prod.splits)

lemma keeps_trans: "keeps s s' \<Longrightarrow> keeps s' s'' \<Longrightarrow> keeps s s''"
  by (auto simp: keeps_def same_control_def)

lemma keeps_pieces: "keeps s s' \<Longrightarrow> session_pieces s' = session_pieces s"
  by (simp add: keeps_def session_pieces_def)

definition handled :: "torrent_session \<Rightarrow> bep_result \<Rightarrow> bool" where
  "handled s res \<longleftrightarrow> (\<exists>r s' out. res = Some (r, s', out) \<and> keeps s s')"

lemma handledI [intro]: "keeps s s' \<Longrightarrow> handled s (Some (r, s', out))"
  by (simp add: handled_def)

lemma enqueue_pieces_control [simp]:
  "current_mode (enqueue_pieces got st) = current_mode st" "state_token (enqueue_pieces got st) = state_token st"
  "last_of (enqueue_pieces got st) = last_of st" "is_cancelled (enqueue_pieces got st) = is_cancelled st"
  by (cases st; simp)+

lemma handle_unchoke_handled:
  assumes "session_wf s" and "session_pieces s < fuel"
  shows "handled s (handle_unchoke fuel env answer pick s source out)"
proof (cases "get_pipeline s source")
  case None
  then show ?thesis using keeps_refl[OF assms(1)] by (auto simp: handle_unchoke_def)
next
  case (Some p)
  obtain s' out' got p' fails' where r: "handle_unchoke fuel env answer pick s source out = Some (Inr (), s', out')"
    "fetch_inv s' source [] fails' p'" "fetched (delivers env answer source (node_id (pl_peer p))) s (pl_pending p) p got s' fails' p'"
    using handle_unchoke_ends[OF assms(1) Some assms(2)] by blast
  have "keeps s s'" using r(2,3) by (auto simp: keeps_def fetch_inv_def fetched_def gains_def same_control_def)
  then show ?thesis using r(1) by auto
qed

lemma handle_handshake_handled: "session_wf s \<Longrightarrow> handled s (bep_handle_handshake env s ih i source out)"
  using keeps_refl insert_pending_keeps
  by (auto simp: bep_handle_handshake_def Let_def split: sum.split prod.split)

lemma handle_bitfield_handled:
  assumes wf: "session_wf s" and bits: "session_pieces s \<le> 8 * length bits"
  shows "handled s (handle_bitfield env s bits source out)"
proof (cases "get_pending_peer s source")
  case None
  then show ?thesis using keeps_refl[OF wf] by (auto simp: handle_bitfield_def)
next
  case (Some i)
  define s1 where "s1 = insert_pipeline env source i bits s"
  have k: "keeps s s1" unfolding s1_def by (rule insert_pipeline_keeps[OF wf bits])
  have wf1: "session_wf s1" using k by (simp add: keeps_def)
  have "handled s (show_interest env s1 source p out')" if "get_pipeline s1 source = Some p" for p out'
    using show_interest_keeps[OF wf1 session_wf_pipeline[OF wf1 that], of env source out'] keeps_trans[OF k] by (auto simp: handled_def)
  then show ?thesis
    using Some k unfolding handle_bitfield_def s1_def[symmetric] by (auto simp: Let_def s1_def[symmetric] split: prod.split sum.split option.split)
qed

lemma handle_piece_request_handled:
  assumes "session_wf s"
  shows "handled s (handle_piece_request s i source reply out)"
proof -
  have "bf_have (ts_bitfield s) (unat i) = Some (bf_mem (ts_bitfield s) (unat i))"
    using assms by (simp add: bf_have_mem session_wf_def)
  then show ?thesis
    using keeps_refl[OF assms] send_piece_request_keeps[OF assms]
    by (auto simp: handle_piece_request_def split: option.split bool.split)
qed

lemma handle_downloading_handled:
  assumes wf: "session_wf s" and "session_pieces s < fuel"
  shows "handled s (handle_request_downloading fuel env answer pick s msg source out)"
proof -
  have "handled s (case set_bitfield (unat i) p of None \<Rightarrow> None | Some p \<Rightarrow> show_interest env s source p out)"
    if gp: "get_pipeline s source = Some p" for i :: u32 and p
  proof -
    obtain q where "set_bitfield (unat i) p = Some q" "pipeline_ok (session_pieces s) q"
      by (rule set_bitfield_ok[OF session_wf_pipeline[OF wf gp]])
    then show ?thesis using show_interest_keeps[OF wf, of q] by (auto simp: handled_def)
  qed
  then show ?thesis
    using keeps_refl[OF wf] handle_unchoke_handled[OF assms]
    by (auto simp: handle_request_downloading_def split: standard_message.split option.split)
qed

lemma handle_seeding_handled:
  assumes wf: "session_wf s"
  shows "handled s (handle_request_seeding env s msg source reply out)"
proof -
  have put: "keeps s (put_pipeline source (pl_unchoke (on_peer_interested p)) s)" "keeps s (put_pipeline source (pl_choke (on_peer_not_interested p)) s)"
    if "get_pipeline s source = Some p" for p
    using session_wf_pipeline[OF wf that] by (auto intro!: put_pipeline_keeps[OF wf] pipeline_ok_ops)
  have have_: "handled s (case set_bitfield (unat i) p of None \<Rightarrow> None | Some p \<Rightarrow> Some (Inr (), put_pipeline source p s, out))"
    if gp: "get_pipeline s source = Some p" for i :: u32 and p
  proof -
    obtain q where "set_bitfield (unat i) p = Some q" "pipeline_ok (session_pieces s) q"
      by (rule set_bitfield_ok[OF session_wf_pipeline[OF wf gp]])
    then show ?thesis using put_pipeline_keeps[OF wf, of q] by auto
  qed
  show ?thesis
    using keeps_refl[OF wf] put have_ handle_piece_request_handled[OF wf]
    by (auto simp: handle_request_seeding_def Let_def split: standard_message.split option.split prod.split)
qed

lemma bep_handle_request_handled:
  assumes wf: "session_wf s" and msg: "message_ok (session_pieces s) msg" and fuel: "session_pieces s < fuel"
  shows "handled s (bep_handle_request fuel env answer pick s msg source reply out)"
proof -
  have choke: "keeps s (put_pipeline source (on_choke p) s)" if "get_pipeline s source = Some p" for p
    using session_wf_pipeline[OF wf that] by (intro put_pipeline_keeps[OF wf] pipeline_ok_ops)
  have mode: "handled s (case current_mode (ts_state s) of
      ModeDownloading \<Rightarrow> handle_request_downloading fuel env answer pick s msg source out
    | ModeSeeding \<Rightarrow> handle_request_seeding env s msg source reply out | ModeIdle \<Rightarrow> Some (Inr (), s, out))"
    using handle_downloading_handled[OF wf fuel] handle_seeding_handled[OF wf] keeps_refl[OF wf] by (auto split: active_mode.split)
  show ?thesis
    using msg choke mode keeps_refl[OF wf] handle_handshake_handled[OF wf] handle_bitfield_handled[OF wf]
    unfolding bep_handle_request_def by (auto split: standard_message.split option.split)
qed

subsection \<open>Two peers that connect\<close>

record endpoint =
  ep_env :: router_env
  ep_addr :: sock_addr
  ep_session :: torrent_session

text \<open>Messages between two endpoints in the order they were sent; the flag says whether the first
  endpoint is the receiver. No piece requests are answered.\<close>

fun deliver :: "nat \<Rightarrow> endpoint \<Rightarrow> endpoint \<Rightarrow> (bool \<times> standard_message) list \<Rightarrow> (endpoint \<times> endpoint \<times> (bool \<times> standard_message) list) option" where
  "deliver 0 a b q = Some (a, b, q)"
| "deliver (Suc n) a b [] = Some (a, b, [])"
| "deliver (Suc n) a b ((to_a, m) # q) =
     (let (me, other) = (if to_a then (a, b) else (b, a))
      in case bep_handle_request 1 (ep_env me) (\<lambda>_ _. None) (\<lambda>_. 0) (ep_session me) m (ep_addr other) None [] of
           None \<Rightarrow> None
         | Some (r, s, out) \<Rightarrow>
             let me = me\<lparr>ep_session := s\<rparr>;
                 q = q @ map (\<lambda>(_, m). (\<not> to_a, m)) (filter (\<lambda>(addr, _). addr = ep_addr other) out)
             in if to_a then deliver n me b q else deliver n a me q)"

definition reaches :: "endpoint \<Rightarrow> endpoint \<Rightarrow> bool" where
  "reaches a b \<longleftrightarrow> re_connected (ep_env a) (ep_addr b) \<and> (\<forall>m. re_encodes (ep_env a) m)"

lemma bep_send_reaches: "reaches a b \<Longrightarrow> bep_send (ep_env a) (ep_addr b) m out = (Inr (), out @ [(ep_addr b, m)])"
  by (simp add: reaches_def bep_send_def)

lemma insert_pending_fields [simp]:
  "ts_bitfield (insert_pending a i w s) = ts_bitfield s" "ts_metadata (insert_pending a i w s) = ts_metadata s"
  "ts_state (insert_pending a i w s) = ts_state s"
  "map_of (ts_peers (insert_pending a i w s)) b = (if b = a then Some (Pending i w) else map_of (ts_peers s) b)"
  by (simp_all add: insert_pending_def update_conv')

lemma handshake_first:
  assumes "reaches me other" and "map_of (ts_peers (ep_session me)) (ep_addr other) = None"
    and "info_hash_wf (torrent_info_hash (ts_metadata (ep_session me)))"
  shows "bep_handle_request n (ep_env me) answer pick (ep_session me)
      (Handshake (info_hash_bytes (torrent_info_hash (ts_metadata (ep_session me)))) i) (ep_addr other) reply [] =
    Some (Inr (), insert_pending (ep_addr other) i False (ep_session me),
      [(ep_addr other, Handshake (info_hash_bytes (torrent_info_hash (ts_metadata (ep_session me)))) (re_host_id (ep_env me)))])"
proof -
  have "info_hash_try_from (info_hash_bytes (torrent_info_hash (ts_metadata (ep_session me)))) = Inr (torrent_info_hash (ts_metadata (ep_session me)))"
    using assms(3) by (cases "torrent_info_hash (ts_metadata (ep_session me))") (auto simp: info_hash_wf_def info_hash_try_from_def)
  then show ?thesis
    using assms by (simp add: bep_handle_request_def bep_handle_handshake_def get_pipeline_def is_pending_outbound_def bep_send_reaches Let_def)
qed

lemma handshake_reply:
  assumes "reaches me other" and "map_of (ts_peers (ep_session me)) (ep_addr other) = Some (Pending i0 True)"
    and "info_hash_wf (torrent_info_hash (ts_metadata (ep_session me)))"
  shows "bep_handle_request n (ep_env me) answer pick (ep_session me)
      (Handshake (info_hash_bytes (torrent_info_hash (ts_metadata (ep_session me)))) i) (ep_addr other) reply [] =
    Some (Inr (), insert_pending (ep_addr other) i True (ep_session me),
      [(ep_addr other, Bitfield (bf_bytes (ts_bitfield (ep_session me))))])"
proof -
  have "info_hash_try_from (info_hash_bytes (torrent_info_hash (ts_metadata (ep_session me)))) = Inr (torrent_info_hash (ts_metadata (ep_session me)))"
    using assms(3) by (cases "torrent_info_hash (ts_metadata (ep_session me))") (auto simp: info_hash_wf_def info_hash_try_from_def)
  then show ?thesis
    using assms by (simp add: bep_handle_request_def bep_handle_handshake_def get_pipeline_def is_pending_outbound_def bep_send_reaches Let_def)
qed

definition active_with :: "endpoint \<Rightarrow> endpoint \<Rightarrow> bool" where
  "active_with me other \<longleftrightarrow> (\<exists>p. get_pipeline (ep_session me) (ep_addr other) = Some p
     \<and> pl_peer p = from_socket (Key_new (re_sha256 (ep_env me)) (re_host_id (ep_env other))) (ep_addr other)
     \<and> pl_bitfield p = from_wire (bf_bytes (ts_bitfield (ep_session other))) (session_pieces (ep_session me)))"

lemma insert_pipeline_fields [simp]:
  "ts_bitfield (insert_pipeline env a i bits s) = ts_bitfield s" "ts_metadata (insert_pipeline env a i bits s) = ts_metadata s"
  "ts_state (insert_pipeline env a i bits s) = ts_state s"
  "get_pipeline (insert_pipeline env a i bits s) a =
     Some (Pipeline_new (from_socket (Key_new (re_sha256 env) i) a) (from_wire bits (session_pieces s)))"
  by (simp_all add: insert_pipeline_def session_pieces_def Let_def)

text \<open>A bitfield from a pending peer activates it; the peer that accepted the connection answers
  with its own bitfield first.\<close>

lemma bitfield_activates:
  assumes "reaches me other" and "map_of (ts_peers (ep_session me)) (ep_addr other) = Some (Pending i w)"
  obtains s' tail p where "bep_handle_request n (ep_env me) answer pick (ep_session me) (Bitfield bits) (ep_addr other) reply [] =
      Some (Inr (), s', (if w then [] else [(ep_addr other, Bitfield (bf_bytes (ts_bitfield (ep_session me))))]) @ tail)"
    "ts_bitfield s' = ts_bitfield (ep_session me)" "ts_metadata s' = ts_metadata (ep_session me)"
    "get_pipeline s' (ep_addr other) = Some p" "pl_peer p = from_socket (Key_new (re_sha256 (ep_env me)) i) (ep_addr other)"
    "pl_bitfield p = from_wire bits (session_pieces (ep_session me))"
proof -
  let ?s = "insert_pipeline (ep_env me) (ep_addr other) i bits (ep_session me)"
  let ?p = "Pipeline_new (from_socket (Key_new (re_sha256 (ep_env me)) i) (ep_addr other)) (from_wire bits (session_pieces (ep_session me)))"
  let ?q = "snd (evaluate_interest (ts_bitfield (ep_session me)) ?p)"
  let ?out = "if w then [] else [(ep_addr other, Bitfield (bf_bytes (ts_bitfield (ep_session me))))]"
  have pend: "get_pending_peer (ep_session me) (ep_addr other) = Some i" "is_pending_outbound (ep_session me) (ep_addr other) = w"
    using assms(2) by (simp_all add: get_pending_peer_def is_pending_outbound_def split: bool.split)
  have run: "bep_handle_request n (ep_env me) answer pick (ep_session me) (Bitfield bits) (ep_addr other) reply [] =
      (if current_mode (ts_state (ep_session me)) \<noteq> ModeDownloading then Some (Inr (), ?s, ?out)
       else show_interest (ep_env me) ?s (ep_addr other) ?p ?out)"
    by (simp add: bep_handle_request_def handle_bitfield_def pend bep_send_reaches[OF assms(1)] Let_def)
  have q: "pl_peer ?q = pl_peer ?p" "pl_bitfield ?q = pl_bitfield ?p" by (simp_all add: evaluate_interest_def Let_def)
  show thesis
  proof (cases "current_mode (ts_state (ep_session me)) = ModeDownloading")
    case False
    then show thesis using run by (intro that[of ?s "[]" ?p]) (simp_all add: Pipeline_new_def)
  next
    case True
    let ?tail = "if fst (evaluate_interest (ts_bitfield (ep_session me)) ?p) then [(ep_addr other, Interested)] else []"
    have "show_interest (ep_env me) ?s (ep_addr other) ?p ?out = Some (Inr (), put_pipeline (ep_addr other) ?q ?s, ?out @ ?tail)"
      by (simp add: show_interest_def bep_send_reaches[OF assms(1)] Let_def split: prod.split)
    then show thesis
      using run True q by (intro that[of "put_pipeline (ep_addr other) ?q ?s" ?tail ?q]) (simp_all add: Pipeline_new_def)
  qed
qed

lemma deliver_step:
  "bep_handle_request 1 (ep_env b) (\<lambda>_ _. None) (\<lambda>_. 0) (ep_session b) m (ep_addr a) None [] = Some (r, s, out) \<Longrightarrow>
     deliver (Suc n) a b ((False, m) # q) =
       deliver n a (b\<lparr>ep_session := s\<rparr>) (q @ map (\<lambda>(_, m). (True, m)) (filter (\<lambda>(addr, _). addr = ep_addr a) out))"
  "bep_handle_request 1 (ep_env a) (\<lambda>_ _. None) (\<lambda>_. 0) (ep_session a) m (ep_addr b) None [] = Some (r, s, out) \<Longrightarrow>
     deliver (Suc n) a b ((True, m) # q) =
       deliver n (a\<lparr>ep_session := s\<rparr>) b (q @ map (\<lambda>(_, m). (False, m)) (filter (\<lambda>(addr, _). addr = ep_addr b) out))"
  by (simp_all add: Let_def)

lemma reaches_session [simp]: "reaches (a\<lparr>ep_session := s\<rparr>) b = reaches a b" "reaches a (b\<lparr>ep_session := s\<rparr>) = reaches a b"
  by (simp_all add: reaches_def)

subsection \<open>Properties\<close>

text \<open>C19: when one node connects to another that has the same torrent and no entry for its address yet, the
  four messages of the handshake leave both with an active pipeline for the other, under the other's key and address
  and with the other's bitfield.\<close>

theorem handshake_activates_both:
  assumes ab: "reaches a b" and ba: "reaches b a"
    and ih: "torrent_info_hash (ts_metadata (ep_session b)) = torrent_info_hash (ts_metadata (ep_session a))"
    and wf: "info_hash_wf (torrent_info_hash (ts_metadata (ep_session a)))"
    and fresh: "map_of (ts_peers (ep_session b)) (ep_addr a) = None"
    and dial: "handshake (ep_env a) True (ep_session a) (ep_addr b) [] = (r, s, out)"
  shows "\<exists>a' b' q. deliver 4 (a\<lparr>ep_session := s\<rparr>) b (map (\<lambda>(_, m). (False, m)) out) = Some (a', b', q)
     \<and> active_with a' b' \<and> active_with b' a'"
proof -
  let ?ih = "info_hash_bytes (torrent_info_hash (ts_metadata (ep_session a)))"
  let ?a1 = "a\<lparr>ep_session := insert_pending (ep_addr b) (re_host_id (ep_env a)) True (ep_session a)\<rparr>"
  let ?b1 = "b\<lparr>ep_session := insert_pending (ep_addr a) (re_host_id (ep_env a)) False (ep_session b)\<rparr>"
  let ?a2 = "?a1\<lparr>ep_session := insert_pending (ep_addr b) (re_host_id (ep_env b)) True (ep_session ?a1)\<rparr>"
  have start: "a\<lparr>ep_session := s\<rparr> = ?a1" "map (\<lambda>(_, m). (False, m)) out = [(False, Handshake ?ih (re_host_id (ep_env a)))]"
    using dial by (auto simp: handshake_def bep_send_reaches[OF ab] Let_def)
  have one: "deliver 4 ?a1 b [(False, Handshake ?ih (re_host_id (ep_env a)))] = deliver 3 ?a1 ?b1 [(True, Handshake ?ih (re_host_id (ep_env b)))]"
    using deliver_step(1)[of b "Handshake ?ih (re_host_id (ep_env a))" ?a1 _ _ _ 3 "[]"]
      handshake_first[of b ?a1 1 "\<lambda>_ _. None" "\<lambda>_. 0" "re_host_id (ep_env a)" None] ba ih wf fresh
    by (simp add: reaches_def)
  have two: "deliver 3 ?a1 ?b1 [(True, Handshake ?ih (re_host_id (ep_env b)))] = deliver 2 ?a2 ?b1 [(False, Bitfield (bf_bytes (ts_bitfield (ep_session a))))]"
    using deliver_step(2)[of ?a1 "Handshake ?ih (re_host_id (ep_env b))" ?b1 _ _ _ 2 "[]"]
      handshake_reply[of ?a1 ?b1 _ 1 "\<lambda>_ _. None" "\<lambda>_. 0" "re_host_id (ep_env b)" None] ab wf
    by (simp add: reaches_def)
  have pb: "map_of (ts_peers (ep_session ?b1)) (ep_addr ?a2) = Some (Pending (re_host_id (ep_env a)) False)" by simp
  have rb: "reaches ?b1 ?a2" using ba by simp
  obtain sb tb p where sb: "bep_handle_request 1 (ep_env ?b1) (\<lambda>_ _. None) (\<lambda>_. 0) (ep_session ?b1) (Bitfield (bf_bytes (ts_bitfield (ep_session a)))) (ep_addr ?a2) None [] =
      Some (Inr (), sb, (if False then [] else [(ep_addr ?a2, Bitfield (bf_bytes (ts_bitfield (ep_session ?b1))))]) @ tb)"
    "ts_bitfield sb = ts_bitfield (ep_session ?b1)" "ts_metadata sb = ts_metadata (ep_session ?b1)"
    "get_pipeline sb (ep_addr ?a2) = Some p" "pl_peer p = from_socket (Key_new (re_sha256 (ep_env ?b1)) (re_host_id (ep_env a))) (ep_addr ?a2)"
    "pl_bitfield p = from_wire (bf_bytes (ts_bitfield (ep_session a))) (session_pieces (ep_session ?b1))"
    by (rule bitfield_activates[OF rb pb])
  let ?b3 = "?b1\<lparr>ep_session := sb\<rparr>"
  obtain q3 where three: "deliver 2 ?a2 ?b1 [(False, Bitfield (bf_bytes (ts_bitfield (ep_session a))))] =
      deliver 1 ?a2 ?b3 ((True, Bitfield (bf_bytes (ts_bitfield (ep_session b)))) # q3)"
    using deliver_step(1)[OF sb(1), of 1 "[]"] by (simp add: numeral_2_eq_2)
  have pa: "map_of (ts_peers (ep_session ?a2)) (ep_addr ?b3) = Some (Pending (re_host_id (ep_env b)) True)" by simp
  have ra: "reaches ?a2 ?b3" using ab by simp
  obtain sa ta p' where sa: "bep_handle_request 1 (ep_env ?a2) (\<lambda>_ _. None) (\<lambda>_. 0) (ep_session ?a2) (Bitfield (bf_bytes (ts_bitfield (ep_session b)))) (ep_addr ?b3) None [] =
      Some (Inr (), sa, (if True then [] else [(ep_addr ?b3, Bitfield (bf_bytes (ts_bitfield (ep_session ?a2))))]) @ ta)"
    "ts_bitfield sa = ts_bitfield (ep_session ?a2)" "ts_metadata sa = ts_metadata (ep_session ?a2)"
    "get_pipeline sa (ep_addr ?b3) = Some p'" "pl_peer p' = from_socket (Key_new (re_sha256 (ep_env ?a2)) (re_host_id (ep_env b))) (ep_addr ?b3)"
    "pl_bitfield p' = from_wire (bf_bytes (ts_bitfield (ep_session b))) (session_pieces (ep_session ?a2))"
    by (rule bitfield_activates[OF ra pa])
  let ?a4 = "?a2\<lparr>ep_session := sa\<rparr>"
  obtain q4 where "deliver 1 ?a2 ?b3 ((True, Bitfield (bf_bytes (ts_bitfield (ep_session b)))) # q3) = Some (?a4, ?b3, q4)"
    using deliver_step(2)[OF sa(1), of 0 q3] by simp
  moreover have "active_with ?a4 ?b3" "active_with ?b3 ?a4"
    using sa sb by (simp_all add: active_with_def session_pieces_def)
  ultimately show ?thesis unfolding start using one two three by auto
qed

definition open_router :: "bytes \<Rightarrow> router_env" where
  "open_router i = \<lparr>re_host_id = i, re_sha256 = id, re_verify = (\<lambda>_ _ _. True), re_connected = (\<lambda>_. True), re_encodes = (\<lambda>_. True)\<rparr>"

theorem handshake_activates_both_witness:
  "\<exists>a' b' q. deliver 4
     \<lparr>ep_env = open_router [1], ep_addr = SocketV4 1 1, ep_session = insert_pending (SocketV4 2 2) [1] True (session_initial sample_torrent)\<rparr>
     \<lparr>ep_env = open_router [2], ep_addr = SocketV4 2 2, ep_session = session_initial sample_torrent\<rparr>
     [(False, Handshake (replicate 20 0) [1])] = Some (a', b', q) \<and> active_with a' b' \<and> active_with b' a'"
proof -
  let ?a = "\<lparr>ep_env = open_router [1], ep_addr = SocketV4 1 1, ep_session = session_initial sample_torrent\<rparr>"
  let ?b = "\<lparr>ep_env = open_router [2], ep_addr = SocketV4 2 2, ep_session = session_initial sample_torrent\<rparr>"
  have ih: "torrent_info_hash (ts_metadata (session_initial sample_torrent)) = InfoV1 (replicate 20 0)"
    by (simp add: session_initial_def torrent_info_hash_def sample_torrent_def)
  have h: "handshake (ep_env ?a) True (ep_session ?a) (ep_addr ?b) [] =
      (Inr (), insert_pending (SocketV4 2 2) [1] True (session_initial sample_torrent), [(SocketV4 2 2, Handshake (replicate 20 0) [1])])"
    by (simp add: handshake_def bep_send_def open_router_def ih Let_def)
  show ?thesis
    using handshake_activates_both[OF _ _ _ _ _ h] ih
    by (simp add: reaches_def open_router_def info_hash_wf_def) (simp add: session_initial_def)
qed

lemma unchoke_fetches:
  assumes wf: "session_wf s" and gp: "get_pipeline s source = Some p" and mode: "current_mode (ts_state s) = ModeDownloading"
    and idle: "pl_pending p = {}" and fuel: "session_pieces s < fuel"
    and honest: "\<forall>w. bf_have (pl_bitfield p) (unat w) = Some True \<longrightarrow>
      (\<exists>data. make_request env answer source w (node_id (pl_peer p)) = Inr (Some (Piece w data)))"
  obtains s' out' got where "bep_handle_request fuel env answer pick s Unchoke source reply out = Some (Inr (), s', out')" and "session_wf s'"
    and "gains s (fst ` set got) s'" and "fst ` set got = wants s p" and "distinct (map fst got)" and "ts_state s' = enqueue_pieces got (ts_state s)"
    and "\<forall>(w, data)\<in>set got. make_request env answer source w (node_id (pl_peer p)) = Inr (Some (Piece w data))"
proof -
  let ?k = "node_id (pl_peer p)"
  have ok: "pipeline_ok (session_pieces s) p" by (rule session_wf_pipeline[OF wf gp])
  obtain s' out' got p' fails' where run: "handle_unchoke fuel env answer pick s source out = Some (Inr (), s', out')"
    and inv: "fetch_inv s' source [] fails' p'" and f: "fetched (delivers env answer source ?k) s (pl_pending p) p got s' fails' p'"
    using handle_unchoke_ends[OF wf gp fuel] by blast
  have peer: "bf_have (pl_bitfield p) i = Some (bf_mem (pl_bitfield p) i)" for i using ok by (simp add: bf_have_mem pipeline_ok_def)
  have gs: "gains s (fst ` set got) s'" and gw: "fst ` set got \<subseteq> wants s p" and bp: "pl_bitfield p' = pl_bitfield p"
    using f by (simp_all add: fetched_def)
  have left: "wants s' p' = wants s p - fst ` set got" by (rule gains_wants[OF gs bp])
  have "fails' = {}" using f honest idle by (auto simp: fetched_def delivers_def wants_def peer)
  then have "card (pl_pending p') \<noteq> MAX_PIPELINE" "pl_pending p' = {}" using inv by (simp_all add: fetch_inv_def MAX_PIPELINE_def)
  then have "wants s' p' = {}" using inv by (simp add: fetch_inv_def)
  then have got: "fst ` set got = wants s p" using left gw by blast
  have "bep_handle_request fuel env answer pick s Unchoke source reply out = Some (Inr (), s', out')"
    using run mode by (simp add: bep_handle_request_def handle_request_downloading_def)
  then show thesis by (rule that) (use f got gs inv in \<open>auto simp: fetched_def fetch_inv_def delivers_def\<close>)
qed

text \<open>C3: an unchoke from a peer with no request outstanding that answers every request for a piece it has with a correctly
  signed payload makes the session fetch, in whatever order the answers arrive, exactly the pieces
  that the peer has and the session lacked: afterwards the session has every piece it or the peer
  had, and each new piece was handed to the downloader once, with the data the peer signed. (The queue
  lists what was handed over; a sender that finds its 64 slots full waits for the downloader.)\<close>

theorem unchoke_fetches_everything:
  assumes wf: "session_wf s" and gp: "get_pipeline s source = Some p" and mode: "current_mode (ts_state s) = ModeDownloading"
    and idle: "pl_pending p = {}" and fuel: "session_pieces s < fuel"
    and honest: "\<forall>w. bf_have (pl_bitfield p) (unat w) = Some True \<longrightarrow>
      (\<exists>data. make_request env answer source w (node_id (pl_peer p)) = Inr (Some (Piece w data)))"
  shows "\<exists>s' out' got. bep_handle_request fuel env answer pick s Unchoke source reply out = Some (Inr (), s', out')
     \<and> (\<forall>i. bf_have (ts_bitfield s') i = Some (bf_have (ts_bitfield s) i = Some True \<or> bf_have (pl_bitfield p) i = Some True))
     \<and> ts_state s' = enqueue_pieces got (ts_state s) \<and> distinct (map fst got)
     \<and> (\<forall>w. w \<in> fst ` set got \<longleftrightarrow> bf_have (pl_bitfield p) (unat w) = Some True \<and> bf_have (ts_bitfield s) (unat w) = Some False)
     \<and> (\<forall>(w, data)\<in>set got. make_request env answer source w (node_id (pl_peer p)) = Inr (Some (Piece w data)))"
proof -
  have ok: "pipeline_ok (session_pieces s) p" by (rule session_wf_pipeline[OF wf gp])
  obtain s' out' got where run: "bep_handle_request fuel env answer pick s Unchoke source reply out = Some (Inr (), s', out')" and wf': "session_wf s'"
    and gs: "gains s (fst ` set got) s'" and got: "fst ` set got = wants s p" and rest: "distinct (map fst got)" "ts_state s' = enqueue_pieces got (ts_state s)"
      "\<forall>(w, data)\<in>set got. make_request env answer source w (node_id (pl_peer p)) = Inr (Some (Piece w data))"
    by (rule unchoke_fetches[OF assms])
  have have_s: "bf_have (ts_bitfield s) i = Some (bf_mem (ts_bitfield s) i)" "bf_have (ts_bitfield s') i = Some (bf_mem (ts_bitfield s') i)"
    "bf_have (pl_bitfield p) i = Some (bf_mem (pl_bitfield p) i)" for i
    using wf wf' ok by (auto simp: bf_have_mem session_wf_def pipeline_ok_def)
  have "bf_mem (ts_bitfield s') i \<longleftrightarrow> bf_mem (ts_bitfield s) i \<or> bf_mem (pl_bitfield p) i" for i
    using gs wants_index[OF wf ok, of i] unfolding got by (auto simp: gains_def)
  then show ?thesis
    using run got rest by (intro exI[of _ s'] exI[of _ out'] exI[of _ got]) (auto simp: have_s wants_def)
qed

definition leech :: torrent_session where
  "leech = (session_initial sample_torrent)\<lparr>ts_state := Downloading [] [] None 0 (new_channel 64),
     ts_peers := [(SocketV4 2 2, Active (Pipeline_new (from_socket (Key_new id [2]) (SocketV4 2 2)) (from_wire [128] 1)))]\<rparr>"

lemma session_pieces_sample [simp]: "session_pieces leech = 1"
  by (simp add: session_pieces_def leech_def session_initial_def sample_torrent_fields)

lemma leech_wf: "session_wf leech"
  by (auto simp: session_wf_def leech_def session_initial_def get_pipeline_def pipeline_ok_def sample_torrent_fields session_pieces_def
      bf_empty_def bf_wf_def Pipeline_new_def pl_wf_def from_wire_def split: if_splits)

theorem unchoke_fetches_everything_witness:
  "\<exists>s' out'. bep_handle_request 2 (open_router [1]) (\<lambda>_ _. Some ([7] @ replicate 64 0)) (\<lambda>_. 0) leech Unchoke (SocketV4 2 2) None [] = Some (Inr (), s', out')
     \<and> bf_have (ts_bitfield s') 0 = Some True"
proof -
  let ?p = "Pipeline_new (from_socket (Key_new id [2]) (SocketV4 2 2)) (from_wire [128] 1)"
  have gp: "get_pipeline leech (SocketV4 2 2) = Some ?p" by (simp add: get_pipeline_def leech_def)
  have honest: "make_request (open_router [1]) (\<lambda>_ _. Some ([7] @ replicate 64 0)) (SocketV4 2 2) w (node_id (pl_peer ?p)) = Inr (Some (Piece w [7]))" for w
    by (simp add: make_request_def open_router_def split_payload_def SIGNATURE_LENGTH_def verify_piece_def Let_def)
  have peer: "bf_have (pl_bitfield ?p) 0 = Some True"
    by (simp add: Pipeline_new_def bf_have_def from_wire_def Let_def)
  have hon: "\<forall>w. bf_have (pl_bitfield ?p) (unat w) = Some True \<longrightarrow> (\<exists>data. make_request (open_router [1])
      (\<lambda>_ _. Some ([7] @ replicate 64 0)) (SocketV4 2 2) w (node_id (pl_peer ?p)) = Inr (Some (Piece w data)))"
    using honest by blast
  have mode: "current_mode (ts_state leech) = ModeDownloading" by (simp add: leech_def)
  have idle: "pl_pending ?p = {}" by (simp add: Pipeline_new_def)
  have fuel: "session_pieces leech < 2" by simp
  obtain s' out' where "bep_handle_request 2 (open_router [1]) (\<lambda>_ _. Some ([7] @ replicate 64 0)) (\<lambda>_. 0) leech Unchoke (SocketV4 2 2) None [] = Some (Inr (), s', out')"
    and bits: "\<forall>i. bf_have (ts_bitfield s') i = Some (bf_have (ts_bitfield leech) i = Some True \<or> bf_have (pl_bitfield ?p) i = Some True)"
    using unchoke_fetches_everything[OF leech_wf gp mode idle fuel hon, of "\<lambda>_. 0" None "[]"] by (elim exE conjE) (rule that)
  then show ?thesis using spec[OF bits, of 0] peer by auto
qed

text \<open>A request that fails, or whose answer is not a signed piece, leaves the session as it is: the
  index stays among the pending ones of the pipeline and is not asked for again.\<close>

lemma failed_request_stays_pending:
  assumes "\<And>i data. make_request env answer source w k \<noteq> Inr (Some (Piece i data))"
  shows "fetch_loop (Suc (Suc n)) env answer pick source k [w] s out = Some (Inr (), s, out)"
  using assms by (auto simp: fetch_loop.simps(2) next_done_def split: sum.split option.split standard_message.split)

end
