(* ===== verification/Directories.thy ===== *)
theory Directories
  imports SessionState
begin

text \<open>
  The directories of the node: \<open>utils/bqti.rs\<close>. A name space maps places to files (by the number of
  their inode), directories and symbolic links, with the permissions of each inode; a symbolic
  link is followed where a path ends, and creating or removing an entry is refused where the
  operating system does not grant it. The files are the node's own, so changing their permissions
  succeeds. The session reads and writes the name space through \<open>seed_names\<close> and
  \<open>download_names\<close>. All paths are on one file system, so a hard link is refused only as the
  system refuses any creation. The theory shows that a seeding session opens the user's own files,
  and what \<open>link\<close> does to the files of a download.
\<close>

datatype name_entry = NsFile nat | NsDir | NsLink path

record name_space =
  ns_entries :: "(path \<times> name_entry) list"
  ns_mode :: "nat \<Rightarrow> nat"
  ns_grants :: "path \<Rightarrow> bool"

definition ns_at :: "name_space \<Rightarrow> path \<Rightarrow> name_entry option" where
  "ns_at ns p = map_of (ns_entries ns) (resolve_path p)"

definition ns_follow :: "name_space \<Rightarrow> path \<Rightarrow> name_entry option" where
  "ns_follow ns p = (case ns_at ns p of Some (NsLink q) \<Rightarrow> ns_at ns q | e \<Rightarrow> e)"

definition ns_put :: "path \<Rightarrow> name_entry \<Rightarrow> name_space \<Rightarrow> name_space" where
  "ns_put p e ns = ns\<lparr>ns_entries := AList.update (resolve_path p) e (ns_entries ns)\<rparr>"

text \<open>Creating a directory with its parents, one component after the other.\<close>

fun make_dirs :: "path list \<Rightarrow> name_space \<Rightarrow> bool \<times> name_space" where
  "make_dirs [] ns = (True, ns)"
| "make_dirs (p # ps) ns =
     (case ns_follow ns p of
        Some NsDir \<Rightarrow> make_dirs ps ns
      | Some _ \<Rightarrow> (False, ns)
      | None \<Rightarrow> if ns_at ns p \<noteq> None \<or> \<not> ns_grants ns p then (False, ns) else make_dirs ps (ns_put p NsDir ns))"

definition create_dir_all :: "path \<Rightarrow> name_space \<Rightarrow> bool \<times> name_space" where
  "create_dir_all p ns = make_dirs (tl (prefixes (resolve_path p))) ns"

definition hard_link :: "path \<Rightarrow> path \<Rightarrow> name_space \<Rightarrow> bool \<times> name_space" where
  "hard_link source target ns =
     (case ns_at ns source of
        None \<Rightarrow> (False, ns)
      | Some NsDir \<Rightarrow> (False, ns)
      | Some e \<Rightarrow>
          if ns_at ns target \<noteq> None \<or> ns_follow ns (butlast (resolve_path target)) \<noteq> Some NsDir \<or> \<not> ns_grants ns target then (False, ns)
          else (True, ns_put target e ns))"

definition symlink :: "path \<Rightarrow> path \<Rightarrow> name_space \<Rightarrow> bool \<times> name_space" where
  "symlink target place ns =
     (if ns_at ns place \<noteq> None \<or> ns_follow ns (butlast (resolve_path place)) \<noteq> Some NsDir \<or> \<not> ns_grants ns place then (False, ns)
      else (True, ns_put place (NsLink target) ns))"

definition remove_file :: "path \<Rightarrow> name_space \<Rightarrow> bool \<times> name_space" where
  "remove_file p ns =
     (if ns_at ns p = None \<or> ns_at ns p = Some NsDir \<or> \<not> ns_grants ns p then (False, ns)
      else (True, ns\<lparr>ns_entries := AList.delete (resolve_path p) (ns_entries ns)\<rparr>))"

text \<open>\<open>remove_dir_all\<close> does not follow a symbolic link at its argument.\<close>

definition remove_dir_all :: "path \<Rightarrow> name_space \<Rightarrow> bool \<times> name_space" where
  "remove_dir_all p ns =
     (if ns_at ns p \<noteq> Some NsDir \<or> \<not> ns_grants ns p then (False, ns)
      else (True, ns\<lparr>ns_entries := filter (\<lambda>(q, _). \<not> prefix (resolve_path p) q) (ns_entries ns)\<rparr>))"

definition read_dir :: "name_space \<Rightarrow> path \<Rightarrow> path list option" where
  "read_dir ns dir =
     (if ns_follow ns dir = Some NsDir
      then Some (filter (\<lambda>q. q \<noteq> [] \<and> butlast q = resolve_path dir \<and> q \<noteq> resolve_path dir) (map fst (ns_entries ns))) else None)"

subsection \<open>The functions of the program\<close>

definition bqti_data_dir :: "path option \<Rightarrow> path option \<Rightarrow> path option" where
  "bqti_data_dir xdg_data_home project_dir =
     (case xdg_data_home of Some base \<Rightarrow> Some (base @ [''bqti'']) | None \<Rightarrow> project_dir)"

definition uploads_dir :: "path option \<Rightarrow> name_space \<Rightarrow> path option" where
  "uploads_dir data_dir ns =
     (case data_dir of
        None \<Rightarrow> None
      | Some d \<Rightarrow> if ns_follow ns (d @ [''uploads'']) \<noteq> None then Some (d @ [''uploads'']) else None)"

definition downloads_dir :: "path option \<Rightarrow> name_space \<Rightarrow> path option" where
  "downloads_dir data_dir ns =
     (case data_dir of
        None \<Rightarrow> None
      | Some d \<Rightarrow> if ns_follow ns (d @ [''downloads'']) \<noteq> None then Some (d @ [''downloads'']) else None)"

definition inner_files :: "name_space \<Rightarrow> path \<Rightarrow> path list option" where
  "inner_files ns dir = read_dir ns dir"

definition ensure_parent_dirs :: "path \<Rightarrow> name_space \<Rightarrow> bool \<times> name_space" where
  "ensure_parent_dirs p ns = (case path_parent p of None \<Rightarrow> (True, ns) | Some parent \<Rightarrow> create_dir_all parent ns)"

definition ensure_download_dir :: "path option \<Rightarrow> string \<Rightarrow> name_space \<Rightarrow> path option \<times> name_space" where
  "ensure_download_dir data_dir entry ns =
     (case data_dir of
        None \<Rightarrow> (None, ns)
      | Some base \<Rightarrow>
          let p = push_path (base @ [''downloads'']) entry
          in if ns_follow ns p \<noteq> None then (Some p, ns)
             else case create_dir_all p ns of (ok, ns) \<Rightarrow> (if ok then Some p else None, ns))"

text \<open>One file of \<open>ensure_upload_dir\<close>. A file with an empty name is linked under the name of the user's
  path.\<close>

definition upload_file :: "path \<Rightarrow> path \<Rightarrow> embeded_file \<Rightarrow> name_space \<Rightarrow> bool \<times> name_space" where
  "upload_file internal_base user_base f ns =
     (let rel_path = to_path f
      in if ns_follow ns user_base = None then (False, ns)
         else case ensure_parent_dirs (join_path internal_base rel_path) ns of
                (False, ns) \<Rightarrow> (False, ns)
              | (True, ns) \<Rightarrow>
                  (case (if rel_path = [] \<or> rel_path = [''.''] then map_option (\<lambda>n. internal_base @ [n]) (path_file_name user_base)
                         else Some (join_path internal_base rel_path)) of
                     None \<Rightarrow> (False, ns)
                   | Some target \<Rightarrow>
                       if ns_follow ns target \<noteq> None then (True, ns)
                       else hard_link (join_path user_base rel_path) target ns))"

fun upload_loop :: "path \<Rightarrow> path \<Rightarrow> embeded_file list \<Rightarrow> name_space \<Rightarrow> bool \<times> name_space" where
  "upload_loop internal_base user_base [] ns = (True, ns)"
| "upload_loop internal_base user_base (f # fs) ns =
     (case upload_file internal_base user_base f ns of
        (False, ns) \<Rightarrow> (False, ns)
      | (True, ns) \<Rightarrow> upload_loop internal_base user_base fs ns)"

definition ensure_upload_dir :: "path option \<Rightarrow> path \<Rightarrow> string \<Rightarrow> embeded_file list \<Rightarrow> name_space \<Rightarrow> path option \<times> name_space" where
  "ensure_upload_dir data_dir user_base info_hash files ns =
     (case data_dir of
        None \<Rightarrow> (None, ns)
      | Some bqti_dir \<Rightarrow>
          let internal_base = push_path (bqti_dir @ [''uploads'']) info_hash
          in (case upload_loop internal_base user_base files ns of
                (ok, ns) \<Rightarrow> (if ok then Some internal_base else None, ns)))"

text \<open>\<open>link\<close>: the files of the download become read-only for their owner, and the user's directory
  gets a link named \<open>download\<close> in place of what had that name.\<close>

definition clear_place :: "path \<Rightarrow> name_space \<Rightarrow> bool \<times> name_space" where
  "clear_place p ns =
     (if ns_at ns p = None then (True, ns)
      else case remove_file p ns of (True, ns) \<Rightarrow> (True, ns) | (False, ns) \<Rightarrow> remove_dir_all p ns)"

definition link :: "path option \<Rightarrow> path \<Rightarrow> string \<Rightarrow> name_space \<Rightarrow> path option \<times> name_space" where
  "link data_dir user_downloads_dir info_hash_hex ns =
     (case data_dir of
        None \<Rightarrow> (None, ns)
      | Some d \<Rightarrow>
          let internal_dir = push_path (d @ [''downloads'']) info_hash_hex
          in case read_dir ns internal_dir of
               None \<Rightarrow> (None, ns)
             | Some entries \<Rightarrow>
                 let files = List.map_filter (\<lambda>q. case ns_follow ns q of Some (NsFile i) \<Rightarrow> Some i | _ \<Rightarrow> None) entries;
                     ns = ns\<lparr>ns_mode := (\<lambda>i. if i \<in> set files then 256 else ns_mode ns i)\<rparr>;
                     dest_symlink = user_downloads_dir @ [''download''];
                     (ok, ns) = clear_place dest_symlink ns
                 in if \<not> ok then (None, ns)
                    else case symlink internal_dir dest_symlink ns of
                           (ok, ns) \<Rightarrow> (if ok then Some dest_symlink else None, ns))"

subsection \<open>What a session sees\<close>

definition ns_is_file :: "name_space \<Rightarrow> path \<Rightarrow> bool" where
  "ns_is_file ns p \<longleftrightarrow> (case ns_follow ns p of Some (NsFile _) \<Rightarrow> True | _ \<Rightarrow> False)"

definition owner_reads :: "nat \<Rightarrow> bool" where "owner_reads m \<longleftrightarrow> odd (m div 256)"

definition owner_writes :: "nat \<Rightarrow> bool" where "owner_writes m \<longleftrightarrow> odd (m div 128)"

definition seed_names :: "name_space \<Rightarrow> fs_names" where
  "seed_names ns =
     \<lparr>fs_is_file = ns_is_file ns,
      fs_inode = (\<lambda>p. case ns_follow ns p of Some (NsFile i) \<Rightarrow> if owner_reads (ns_mode ns i) then Some i else None | _ \<Rightarrow> None)\<rparr>"

text \<open>Opening for a download creates a missing file; \<open>fresh\<close> numbers the inodes of new files.\<close>

definition download_names :: "(path \<Rightarrow> nat) \<Rightarrow> name_space \<Rightarrow> fs_names" where
  "download_names fresh ns =
     \<lparr>fs_is_file = ns_is_file ns,
      fs_inode = (\<lambda>p. case ns_follow ns p of
          Some (NsFile i) \<Rightarrow> if owner_reads (ns_mode ns i) \<and> owner_writes (ns_mode ns i) then Some i else None
        | Some _ \<Rightarrow> None
        | None \<Rightarrow> if ns_at ns p = None \<and> fst (ensure_parent_dirs p ns) \<and> ns_grants ns p then Some (fresh (resolve_path p)) else None)\<rparr>"

subsection \<open>Seeding opens the user's files\<close>

lemma ns_at_rooted: "rooted p \<Longrightarrow> ns_at ns p = map_of (ns_entries ns) p"
  by (simp add: ns_at_def)

lemma rooted_prefix:
  assumes "rooted p" and "prefix q p" and "q \<noteq> []"
  shows "rooted q"
proof -
  obtain r where "p = q @ r" using assms(2) by (rule prefixE)
  then show ?thesis using assms(1,3) by (cases q) (auto simp: rooted_def)
qed

lemma ns_put_rooted: "rooted p \<Longrightarrow> ns_put p e ns = ns\<lparr>ns_entries := AList.update p e (ns_entries ns)\<rparr>"
  by (simp add: ns_put_def)

lemma make_dirs_ok:
  assumes "\<forall>p\<in>set ps. rooted p \<and> map_of (ns_entries ns) p \<in> {None, Some NsDir} \<and> ns_grants ns p"
  shows "\<exists>E. make_dirs ps ns = (True, ns\<lparr>ns_entries := E\<rparr>)
     \<and> map_of E = (\<lambda>p. if p \<in> set ps then Some NsDir else map_of (ns_entries ns) p)"
  using assms
proof (induction ps arbitrary: ns)
  case Nil
  then show ?case by (intro exI[of _ "ns_entries ns"]) simp
next
  case (Cons p ps)
  have p: "rooted p" "map_of (ns_entries ns) p \<in> {None, Some NsDir}" "ns_grants ns p" using Cons.prems by simp_all
  define ns1 where "ns1 = (if map_of (ns_entries ns) p = None then ns_put p NsDir ns else ns)"
  have step: "make_dirs (p # ps) ns = make_dirs ps ns1"
    using p by (auto simp: ns1_def ns_follow_def ns_at_rooted)
  have m1: "map_of (ns_entries ns1) = (\<lambda>q. if q = p then Some NsDir else map_of (ns_entries ns) q)"
    using p by (auto simp: ns1_def ns_put_rooted update_conv' fun_eq_iff)
  have same: "ns1 = ns\<lparr>ns_entries := ns_entries ns1\<rparr>" "ns_grants ns1 = ns_grants ns" using p by (simp_all add: ns1_def ns_put_rooted)
  have "\<forall>q\<in>set ps. rooted q \<and> map_of (ns_entries ns1) q \<in> {None, Some NsDir} \<and> ns_grants ns1 q"
    using Cons.prems by (simp add: m1 same(2))
  from Cons.IH[OF this] obtain E where "make_dirs ps ns1 = (True, ns1\<lparr>ns_entries := E\<rparr>)"
    "map_of E = (\<lambda>q. if q \<in> set ps then Some NsDir else map_of (ns_entries ns1) q)"
    by blast
  moreover have "ns1\<lparr>ns_entries := E\<rparr> = ns\<lparr>ns_entries := E\<rparr>" by (subst same(1)) simp
  ultimately show ?case unfolding step by (intro exI[of _ E]) (auto simp: m1 fun_eq_iff)
qed

text \<open>The state of linking the files \<open>all\<close>: the directories above the targets are directories or
  missing, a target is missing or already the user's file, and the user's files are there.\<close>

definition dirs_above :: "path \<Rightarrow> embeded_file list \<Rightarrow> path set" where
  "dirs_above base all = {p. p \<noteq> [] \<and> (\<exists>g\<in>set all. strict_prefix p (base @ ef_path g))}"

definition linkable :: "path \<Rightarrow> path \<Rightarrow> embeded_file list \<Rightarrow> (embeded_file \<Rightarrow> nat) \<Rightarrow> name_space \<Rightarrow> bool" where
  "linkable internal_base user_base all ino ns \<longleftrightarrow>
     (\<forall>p\<in>dirs_above internal_base all. map_of (ns_entries ns) p \<in> {None, Some NsDir})
   \<and> (\<forall>g\<in>set all. map_of (ns_entries ns) (internal_base @ ef_path g) \<in> {None, Some (NsFile (ino g))}
       \<and> map_of (ns_entries ns) (user_base @ ef_path g) = Some (NsFile (ino g)))
   \<and> ns_follow ns user_base \<noteq> None \<and> (\<forall>p. ns_grants ns p)"

text \<open>The names of a torrent's files are plain, and none is a directory of another.\<close>

definition named_well :: "embeded_file list \<Rightarrow> bool" where
  "named_well all \<longleftrightarrow> (\<forall>f\<in>set all. ef_path f \<noteq> [] \<and> list_all plain (ef_path f))
     \<and> (\<forall>f\<in>set all. \<forall>g\<in>set all. \<not> strict_prefix (ef_path f) (ef_path g))"

lemma follow_more:
  assumes "\<And>p e. map_of (ns_entries ns) p = Some e \<Longrightarrow> map_of E p = Some e" and "ns_follow ns p \<noteq> None"
  shows "ns_follow (ns\<lparr>ns_entries := E\<rparr>) p = ns_follow ns p"
proof -
  have at: "ns_at (ns\<lparr>ns_entries := E\<rparr>) q = Some e" if "ns_at ns q = Some e" for q e using assms(1) that by (simp add: ns_at_def)
  show ?thesis using assms(2) at by (auto simp: ns_follow_def split: option.splits name_entry.splits)
qed

lemma upload_file_ok:
  assumes lk: "linkable ib ub all ino ns" and f: "f \<in> set all" and names: "named_well all" and bases: "rooted ib" "rooted ub"
    and same: "\<And>g. g \<in> set all \<Longrightarrow> ef_path g = ef_path f \<Longrightarrow> ino g = ino f"
  shows "\<exists>E. upload_file ib ub f ns = (True, ns\<lparr>ns_entries := E\<rparr>) \<and> linkable ib ub all ino (ns\<lparr>ns_entries := E\<rparr>)
     \<and> map_of E (ib @ ef_path f) = Some (NsFile (ino f)) \<and> map_of E ib = Some NsDir
     \<and> (\<forall>p e. map_of (ns_entries ns) p = Some e \<longrightarrow> map_of E p = Some e)"
proof -
  let ?t = "ib @ ef_path f" and ?s = "ub @ ef_path f" and ?M = "map_of (ns_entries ns)"
  have fp: "ef_path f \<noteq> []" "list_all plain (ef_path f)" using names f by (auto simp: named_well_def)
  have rt: "rooted ?t" "rooted ?s" by (rule rooted_append[OF bases(1) fp(2)], rule rooted_append[OF bases(2) fp(2)])
  have paths: "to_path f = ef_path f" "join_path ib (ef_path f) = ?t" "join_path ub (ef_path f) = ?s"
    using fp(2) by (simp_all add: to_path_plain join_plain)
  have dot: "ef_path f \<noteq> [''.'']" using fp(2) by (auto simp: plain_def)
  have par: "path_parent ?t = Some (butlast ?t)" using fp(1) bases(1) by (auto simp: path_parent_def rooted_def)
  have rp: "rooted (butlast ?t)"
  proof (rule rooted_prefix[OF rt(1)])
    show "butlast ?t \<noteq> []" using fp(1) bases(1) by (auto simp: rooted_def butlast_append)
  qed (simp add: prefixeq_butlast)
  let ?ps = "tl (prefixes (butlast ?t))"
  have ps: "p \<in> set ?ps \<longleftrightarrow> p \<noteq> [] \<and> prefix p (butlast ?t)" for p
    by (cases "butlast ?t") (auto simp: prefix_Cons)
  have short: "strict_prefix (butlast ?t) ?t" using fp(1) by (metis append_is_Nil_conv butlast_append strict_prefix_def prefixeq_butlast append_butlast_last_id not_Cons_self2 append_self_conv)
  have psD: "set ?ps \<subseteq> dirs_above ib all" using prefix_order.le_less_trans[OF _ short] f unfolding dirs_above_def ps[abs_def] subset_iff mem_Collect_eq by blast
  have "\<forall>p\<in>set ?ps. rooted p \<and> ?M p \<in> {None, Some NsDir} \<and> ns_grants ns p"
    using lk psD rooted_prefix[OF rp] by (auto simp: linkable_def ps)
  from make_dirs_ok[OF this] obtain E where E: "make_dirs ?ps ns = (True, ns\<lparr>ns_entries := E\<rparr>)"
    "map_of E = (\<lambda>p. if p \<in> set ?ps then Some NsDir else ?M p)" by blast
  have outside: "ib @ ef_path g \<notin> dirs_above ib all" if "g \<in> set all" for g
    using names that by (auto simp: dirs_above_def named_well_def strict_prefix_def)
  have tgt: "map_of E (ib @ ef_path g) = ?M (ib @ ef_path g)" if "g \<in> set all" for g using outside[OF that] psD E(2) by auto
  have keep: "map_of E p = Some e" if "?M p = Some e" for p e
  proof (cases "p \<in> set ?ps")
    case True
    then have "?M p \<in> {None, Some NsDir}" using lk psD unfolding linkable_def by blast
    then show ?thesis using that True by (simp add: E(2))
  qed (simp add: E(2) that)
  have ibD: "map_of E ib = Some NsDir"
  proof -
    have "prefix ib (butlast ?t)" using fp(1) by (simp add: butlast_append)
    then have "ib \<in> set ?ps" using bases(1) by (auto simp: ps rooted_def)
    then show ?thesis by (simp add: E(2))
  qed
  have parD: "ns_follow (ns\<lparr>ns_entries := E\<rparr>) (butlast ?t) = Some NsDir"
    using rp by (auto simp: ns_follow_def ns_at_rooted E(2) ps rooted_def)
  have lkE: "linkable ib ub all ino (ns\<lparr>ns_entries := E\<rparr>)"
    unfolding linkable_def
  proof (intro conjI ballI)
    show "map_of (ns_entries (ns\<lparr>ns_entries := E\<rparr>)) p \<in> {None, Some NsDir}" if "p \<in> dirs_above ib all" for p
      using lk that by (simp add: linkable_def E(2))
    show "map_of (ns_entries (ns\<lparr>ns_entries := E\<rparr>)) (ib @ ef_path g) \<in> {None, Some (NsFile (ino g))}" if "g \<in> set all" for g
      using lk tgt[OF that] that by (simp add: linkable_def)
    show "map_of (ns_entries (ns\<lparr>ns_entries := E\<rparr>)) (ub @ ef_path g) = Some (NsFile (ino g))" if "g \<in> set all" for g
      using lk that keep by (simp add: linkable_def)
    show "ns_follow (ns\<lparr>ns_entries := E\<rparr>) ub \<noteq> None" using lk follow_more[OF keep] by (simp add: linkable_def)
  qed (use lk in \<open>auto simp: linkable_def\<close>)
  have run: "upload_file ib ub f ns = (if ns_follow (ns\<lparr>ns_entries := E\<rparr>) ?t \<noteq> None then (True, ns\<lparr>ns_entries := E\<rparr>)
      else hard_link ?s ?t (ns\<lparr>ns_entries := E\<rparr>))"
  proof -
    obtain y where "ns_follow ns ub = Some y" using lk by (auto simp: linkable_def)
    then show ?thesis using E(1) rp by (simp add: upload_file_def paths dot fp(1) par ensure_parent_dirs_def create_dir_all_def Let_def)
  qed
  show ?thesis
  proof (cases "?M ?t")
    case (Some e)
    then have "e = NsFile (ino f)" using lk f by (auto simp: linkable_def)
    then have "upload_file ib ub f ns = (True, ns\<lparr>ns_entries := E\<rparr>)" "map_of E ?t = Some (NsFile (ino f))"
      using Some tgt[OF f] rt(1) run by (simp_all add: ns_follow_def ns_at_rooted)
    then show ?thesis using lkE ibD keep by (intro exI[of _ E]) simp
  next
    case None
    let ?E = "AList.update ?t (NsFile (ino f)) E"
    have src: "map_of E ?s = Some (NsFile (ino f))" using lkE f by (simp add: linkable_def)
    have et: "map_of E ?t = None" using None tgt[OF f] by simp
    have up: "upload_file ib ub f ns = (True, ns\<lparr>ns_entries := ?E\<rparr>)"
      using run src et rt parD lk by (simp add: ns_follow_def[of _ ?t] ns_at_rooted hard_link_def ns_put_rooted linkable_def)
    have more: "map_of ?E p = Some e" if "map_of E p = Some e" for p e using that et by (auto simp: update_conv')
    have "linkable ib ub all ino (ns\<lparr>ns_entries := ?E\<rparr>)"
      unfolding linkable_def
    proof (intro conjI ballI)
      show "map_of (ns_entries (ns\<lparr>ns_entries := ?E\<rparr>)) p \<in> {None, Some NsDir}" if "p \<in> dirs_above ib all" for p
        using lkE that outside[OF f] by (auto simp: linkable_def update_conv')
      show "map_of (ns_entries (ns\<lparr>ns_entries := ?E\<rparr>)) (ib @ ef_path g) \<in> {None, Some (NsFile (ino g))}" if "g \<in> set all" for g
        using lkE that same[OF that] by (simp add: linkable_def update_conv')
      show "map_of (ns_entries (ns\<lparr>ns_entries := ?E\<rparr>)) (ub @ ef_path g) = Some (NsFile (ino g))" if "g \<in> set all" for g
        using lkE that more by (simp add: linkable_def)
      show "ns_follow (ns\<lparr>ns_entries := ?E\<rparr>) ub \<noteq> None"
        using lkE follow_more[of "ns\<lparr>ns_entries := E\<rparr>" ?E ub] more by (simp add: linkable_def)
    qed (use lk in \<open>auto simp: linkable_def\<close>)
    moreover have "map_of ?E ib = Some NsDir" by (rule more[OF ibD])
    ultimately show ?thesis using up more keep by (intro exI[of _ ?E]) (auto simp: update_conv')
  qed
qed

lemma upload_loop_ok:
  assumes "linkable ib ub all ino ns" and "set fs \<subseteq> set all" and "named_well all" and "rooted ib" "rooted ub"
    and "\<And>f g. f \<in> set all \<Longrightarrow> g \<in> set all \<Longrightarrow> ef_path g = ef_path f \<Longrightarrow> ino g = ino f"
  shows "\<exists>E. upload_loop ib ub fs ns = (True, ns\<lparr>ns_entries := E\<rparr>) \<and> (fs \<noteq> [] \<longrightarrow> map_of E ib = Some NsDir)
     \<and> (\<forall>f\<in>set fs. map_of E (ib @ ef_path f) = Some (NsFile (ino f)))
     \<and> (\<forall>p e. map_of (ns_entries ns) p = Some e \<longrightarrow> map_of E p = Some e)"
  using assms(1,2)
proof (induction fs arbitrary: ns)
  case Nil
  then show ?case by (intro exI[of _ "ns_entries ns"]) simp
next
  case (Cons f fs)
  then have f: "f \<in> set all" and sub: "set fs \<subseteq> set all" by auto
  obtain E where E: "upload_file ib ub f ns = (True, ns\<lparr>ns_entries := E\<rparr>)" "linkable ib ub all ino (ns\<lparr>ns_entries := E\<rparr>)"
    "map_of E (ib @ ef_path f) = Some (NsFile (ino f))" "map_of E ib = Some NsDir"
    "\<forall>p e. map_of (ns_entries ns) p = Some e \<longrightarrow> map_of E p = Some e"
    using upload_file_ok[OF Cons.prems(1) f assms(3-5) assms(6)[OF f]] by blast
  obtain E' where "upload_loop ib ub fs (ns\<lparr>ns_entries := E\<rparr>) = (True, ns\<lparr>ns_entries := E'\<rparr>)"
    "\<forall>f\<in>set fs. map_of E' (ib @ ef_path f) = Some (NsFile (ino f))" "\<forall>p e. map_of E p = Some e \<longrightarrow> map_of E' p = Some e"
    using Cons.IH[OF E(2) sub] by auto
  then show ?case using E by (intro exI[of _ E']) simp
qed

text \<open>The session's view of the internal directory afterwards.\<close>

lemma seed_names_file:
  assumes "rooted (ib @ ef_path f)" and "list_all plain (ef_path f)" and "rooted ib"
    and "ns_at ns ib = Some NsDir" and "ns_at ns (ib @ ef_path f) = Some (NsFile i)" and "owner_reads (ns_mode ns i)"
  shows "fs_inode (seed_names ns) (full_path (seed_names ns) ib f) = Some i"
  using assms by (simp add: seed_names_def full_path_def ns_is_file_def ns_follow_def to_path_plain join_plain)

lemma upload_dir_opens:
  assumes links: "linkable ib ub files ino ns" and names: "named_well files" "files \<noteq> []" and roots: "rooted ib" "rooted ub"
    and dir: "push_path (data @ [''uploads'']) hex = ib"
    and inodes: "\<And>f g. f \<in> set files \<Longrightarrow> g \<in> set files \<Longrightarrow> ef_path g = ef_path f \<Longrightarrow> ino g = ino f"
    and readable: "\<forall>f\<in>set files. owner_reads (ns_mode ns (ino f))"
  shows "\<exists>ns'. ensure_upload_dir (Some data) ub hex files ns = (Some ib, ns')
     \<and> (\<forall>p e. ns_at ns p = Some e \<longrightarrow> ns_at ns' p = Some e)
     \<and> (\<forall>f\<in>set files. fs_inode (seed_names ns') (full_path (seed_names ns') ib f) = Some (ino f))"
proof -
  obtain E where E: "upload_loop ib ub files ns = (True, ns\<lparr>ns_entries := E\<rparr>)" "map_of E ib = Some NsDir"
    "\<forall>f\<in>set files. map_of E (ib @ ef_path f) = Some (NsFile (ino f))"
    "\<forall>p e. map_of (ns_entries ns) p = Some e \<longrightarrow> map_of E p = Some e"
    using upload_loop_ok[OF links subset_refl names(1) roots inodes] names(2) by blast
  have "fs_inode (seed_names (ns\<lparr>ns_entries := E\<rparr>)) (full_path (seed_names (ns\<lparr>ns_entries := E\<rparr>)) ib f) = Some (ino f)"
    if "f \<in> set files" for f
  proof (rule seed_names_file)
    show pl: "list_all plain (ef_path f)" using names(1) that by (simp add: named_well_def)
    show "rooted (ib @ ef_path f)" by (rule rooted_append[OF roots(1) pl])
    then show "ns_at (ns\<lparr>ns_entries := E\<rparr>) (ib @ ef_path f) = Some (NsFile (ino f))" using E(3) that by (simp add: ns_at_rooted)
  qed (use roots E(2) readable that in \<open>simp_all add: ns_at_rooted\<close>)
  then show ?thesis using E(1,4) dir by (intro exI[of _ "ns\<lparr>ns_entries := E\<rparr>"]) (simp add: ensure_upload_dir_def ns_at_def)
qed

text \<open>C40: a seeding session reads the user's own files. The user's directory is there and has every file
  of the torrent, each readable by its owner; the names of the files are plain and none is a
  directory of another; the directories above the places of the links are directories or missing,
  and the places themselves are free or earlier links to the same files; and the system grants every
  creation, which includes that the upload directory is on the file system of the user's files, as
  hard links need. Then \<open>ensure_upload_dir\<close> succeeds, changes no entry that was there, and opening
  the files of the torrent in the directory it returns opens the inodes of the user's files.\<close>

theorem seeding_opens_user_files:
  assumes above: "\<forall>p. p \<noteq> [] \<longrightarrow> (\<exists>g\<in>set files. strict_prefix p (ib @ ef_path g)) \<longrightarrow> map_of (ns_entries ns) p \<in> {None, Some NsDir}"
    and places: "\<forall>g\<in>set files. map_of (ns_entries ns) (ib @ ef_path g) \<in> {None, Some (NsFile (ino g))}"
    and user: "ns_follow ns ub \<noteq> None" "\<forall>g\<in>set files. map_of (ns_entries ns) (ub @ ef_path g) = Some (NsFile (ino g))"
      "\<forall>f\<in>set files. owner_reads (ns_mode ns (ino f))"
    and granted: "\<forall>p. ns_grants ns p"
    and names: "\<forall>f\<in>set files. ef_path f \<noteq> [] \<and> list_all plain (ef_path f)"
      "\<forall>f\<in>set files. \<forall>g\<in>set files. \<not> strict_prefix (ef_path f) (ef_path g)" "files \<noteq> []"
    and roots: "rooted ib" "rooted ub" and dir: "push_path (data @ [''uploads'']) hex = ib"
  shows "\<exists>ns'. ensure_upload_dir (Some data) ub hex files ns = (Some ib, ns')
     \<and> (\<forall>p e. ns_at ns p = Some e \<longrightarrow> ns_at ns' p = Some e)
     \<and> (\<forall>f\<in>set files. fs_inode (seed_names ns') (full_path (seed_names ns') ib f) = Some (ino f))"
proof (rule upload_dir_opens[OF _ _ names(3) roots dir _ user(3)])
  show "linkable ib ub files ino ns" using above places user(1,2) granted by (auto simp: linkable_def dirs_above_def)
  show "named_well files" using names(1,2) by (simp add: named_well_def)
  show "ino g = ino f" if "f \<in> set files" "g \<in> set files" "ef_path g = ef_path f" for f g
    using user(2) that by (metis option.inject name_entry.inject(1))
qed

definition user_files :: name_space where
  "user_files = \<lparr>ns_entries = [([''/''], NsDir), ([''/'', ''u''], NsDir), ([''/'', ''u'', ''a''], NsFile 1),
      ([''/'', ''u'', ''s''], NsDir), ([''/'', ''u'', ''s'', ''b''], NsFile 2)],
     ns_mode = (\<lambda>_. 420), ns_grants = (\<lambda>_. True)\<rparr>"

definition user_torrent :: "embeded_file list" where
  "user_torrent = [\<lparr>ef_length = 3, ef_path = [''a''], ef_md5sum = None\<rparr>, \<lparr>ef_length = 2, ef_path = [''s'', ''b''], ef_md5sum = None\<rparr>]"

theorem seeding_opens_user_files_witness:
  "\<exists>ns'. ensure_upload_dir (Some [''/'', ''d'']) [''/'', ''u''] ''ab'' user_torrent user_files = (Some [''/'', ''d'', ''uploads'', ''ab''], ns')
     \<and> fs_inode (seed_names ns') (full_path (seed_names ns') [''/'', ''d'', ''uploads'', ''ab''] \<lparr>ef_length = 2, ef_path = [''s'', ''b''], ef_md5sum = None\<rparr>) = Some 2"
proof -
  let ?ib = "[''/'', ''d'', ''uploads'', ''ab'']" and ?ub = "[''/'', ''u'']" and ?ino = "\<lambda>f. if ef_path f = [''a''] then 1 else 2 :: nat"
  have "p \<in> {[''/''], [''/'', ''d''], [''/'', ''d'', ''uploads''], ?ib, ?ib @ [''s'']}"
    if "p \<noteq> []" "\<exists>g\<in>set user_torrent. strict_prefix p (?ib @ ef_path g)" for p
    using that by (auto simp: user_torrent_def strict_prefix_def prefix_Cons)
  then have above: "\<forall>p. p \<noteq> [] \<longrightarrow> (\<exists>g\<in>set user_torrent. strict_prefix p (?ib @ ef_path g)) \<longrightarrow> map_of (ns_entries user_files) p \<in> {None, Some NsDir}"
    by (fastforce simp: user_files_def)
  have places: "\<forall>g\<in>set user_torrent. map_of (ns_entries user_files) (?ib @ ef_path g) \<in> {None, Some (NsFile (?ino g))}"
    by (simp add: user_files_def user_torrent_def)
  have user: "ns_follow user_files ?ub \<noteq> None" "\<forall>g\<in>set user_torrent. map_of (ns_entries user_files) (?ub @ ef_path g) = Some (NsFile (?ino g))"
    "\<forall>f\<in>set user_torrent. owner_reads (ns_mode user_files (?ino f))" "\<forall>p. ns_grants user_files p"
    by (simp_all add: user_files_def user_torrent_def owner_reads_def ns_follow_def ns_at_def resolve_path_def resolve_step_def)
  have names: "\<forall>f\<in>set user_torrent. ef_path f \<noteq> [] \<and> list_all plain (ef_path f)"
    "\<forall>f\<in>set user_torrent. \<forall>g\<in>set user_torrent. \<not> strict_prefix (ef_path f) (ef_path g)" "user_torrent \<noteq> []"
    by (simp_all add: user_torrent_def plain_def strict_prefix_def)
  have "rooted ?ib" "rooted ?ub" "push_path ([''/'', ''d''] @ [''uploads'']) ''ab'' = ?ib"
    by (simp_all add: rooted_def plain_def push_path_def starts_at_root_def)
  from seeding_opens_user_files[OF above places user names this] obtain ns' where
    "ensure_upload_dir (Some [''/'', ''d'']) ?ub ''ab'' user_torrent user_files = (Some ?ib, ns')"
    "\<forall>f\<in>set user_torrent. fs_inode (seed_names ns') (full_path (seed_names ns') ?ib f) = Some (?ino f)"
    by blast
  then show ?thesis by (intro exI[of _ ns']) (simp add: user_torrent_def)
qed

subsection \<open>Linking a download\<close>

lemma map_of_keep: "\<not> P k \<Longrightarrow> map_of (filter (\<lambda>(q, _). \<not> P q) E) k = map_of E k"
  by (induction E) auto

lemma clear_place_unfold:
  "clear_place p ns = (if ns_at ns p = None then (True, ns)
     else if fst (remove_file p ns) then remove_file p ns else remove_dir_all p (snd (remove_file p ns)))"
  by (auto simp: clear_place_def split: prod.splits bool.splits)

lemma set_map_filter: "set (List.map_filter g xs) = {y. \<exists>x\<in>set xs. g x = Some y}"
  by (induction xs) (auto simp: List.map_filter_simps split: option.splits)

lemma file_entry: "(case e of Some (NsFile i) \<Rightarrow> Some i | _ \<Rightarrow> None) = Some i \<longleftrightarrow> e = Some (NsFile i)"
  by (auto split: option.splits name_entry.splits)

text \<open>The name space that \<open>link\<close> leaves, when the directory of the download is there.\<close>

definition link_files :: "path \<Rightarrow> name_space \<Rightarrow> nat set" where
  "link_files dir ns = {i. \<exists>q\<in>fst ` set (ns_entries ns). q \<noteq> [] \<and> butlast q = dir \<and> q \<noteq> dir \<and> ns_follow ns q = Some (NsFile i)}"

lemma link_result:
  assumes "push_path (data @ [''downloads'']) hex = dir" and "rooted dir" and "ns_at ns dir = Some NsDir"
  defines "ns1 \<equiv> ns\<lparr>ns_mode := (\<lambda>i. if i \<in> link_files dir ns then 256 else ns_mode ns i)\<rparr>"
  shows "snd (link (Some data) dest hex ns) =
     (if fst (clear_place (dest @ [''download'']) ns1)
      then snd (symlink dir (dest @ [''download'']) (snd (clear_place (dest @ [''download'']) ns1)))
      else snd (clear_place (dest @ [''download'']) ns1))"
proof -
  have files: "set (List.map_filter (\<lambda>q. case ns_follow ns q of Some (NsFile i) \<Rightarrow> Some i | _ \<Rightarrow> None)
      (filter (\<lambda>q. q \<noteq> [] \<and> butlast q = dir \<and> q \<noteq> dir) (map fst (ns_entries ns)))) = link_files dir ns"
    by (auto simp: link_files_def set_map_filter file_entry)
  have "read_dir ns dir = Some (filter (\<lambda>q. q \<noteq> [] \<and> butlast q = dir \<and> q \<noteq> dir) (map fst (ns_entries ns)))"
    using assms(2,3) by (simp add: read_dir_def ns_follow_def)
  then show ?thesis by (simp add: link_def assms(1) Let_def files ns1_def case_prod_beta)
qed

lemma link_steps_keep:
  assumes "rooted dest" and "\<not> prefix (dest @ [''download'']) q"
  shows "map_of (ns_entries (snd (clear_place (dest @ [''download'']) ns))) q = map_of (ns_entries ns) q"
    and "map_of (ns_entries (snd (symlink t (dest @ [''download'']) ns))) q = map_of (ns_entries ns) q"
    and "ns_mode (snd (clear_place (dest @ [''download'']) ns)) = ns_mode ns"
    and "ns_mode (snd (symlink t (dest @ [''download'']) ns)) = ns_mode ns"
proof -
  have place: "resolve_path (dest @ [''download'']) = dest @ [''download'']" using assms(1) by (simp add: rooted_append plain_def)
  have rm: "map_of (ns_entries (snd (remove_file (dest @ [''download'']) n))) q = map_of (ns_entries n) q" for n
    using assms(2) by (auto simp: remove_file_def place delete_conv')
  have rd: "map_of (ns_entries (snd (remove_dir_all (dest @ [''download'']) n))) q = map_of (ns_entries n) q" for n
    by (simp add: remove_dir_all_def place map_of_keep[of "prefix (dest @ [''download''])" q, OF assms(2)])
  show "map_of (ns_entries (snd (clear_place (dest @ [''download'']) ns))) q = map_of (ns_entries ns) q"
    by (simp add: clear_place_unfold rm rd)
  show "map_of (ns_entries (snd (symlink t (dest @ [''download'']) ns))) q = map_of (ns_entries ns) q"
    using assms(2) by (auto simp: symlink_def ns_put_def place update_conv')
  show "ns_mode (snd (clear_place (dest @ [''download'']) ns)) = ns_mode ns"
    by (simp add: clear_place_unfold remove_file_def remove_dir_all_def)
  show "ns_mode (snd (symlink t (dest @ [''download'']) ns)) = ns_mode ns"
    by (simp add: symlink_def ns_put_def)
qed

lemma link_effect:
  assumes "push_path (data @ [''downloads'']) hex = dir" and "rooted dir" "rooted dest" and "ns_at ns dir = Some NsDir"
    and "ns' = snd (link (Some data) dest hex ns)"
  shows "\<not> prefix (dest @ [''download'']) q \<Longrightarrow> map_of (ns_entries ns') q = map_of (ns_entries ns) q"
    and "ns_mode ns' i = (if i \<in> link_files dir ns then 256 else ns_mode ns i)"
proof -
  have other: "\<exists>q. \<not> prefix (dest @ [''download'']) q" by (intro exI[of _ "[]"]) simp
  show "\<not> prefix (dest @ [''download'']) q \<Longrightarrow> map_of (ns_entries ns') q = map_of (ns_entries ns) q"
    unfolding assms(5) link_result[OF assms(1,2,4)] by (simp add: link_steps_keep(1,2)[OF assms(3)])
  show "ns_mode ns' i = (if i \<in> link_files dir ns then 256 else ns_mode ns i)"
    unfolding assms(5) link_result[OF assms(1,2,4)] using other by (auto simp: link_steps_keep(3,4)[OF assms(3)])
qed

lemma download_blocked:
  assumes "f \<in> set files" and "fs_inode fs (full_path fs base f) = None"
  shows "\<exists>d'. download_loop fallocate fs d base files ts off = (Inl ChunkIo, d')"
  using assms(1)
proof (induction files arbitrary: d ts off)
  case (Cons g files)
  show ?case
  proof (cases "fs_inode fs (full_path fs base g)")
    case (Some i)
    then have "f \<in> set files" using Cons.prems assms(2) by auto
    then show ?thesis using Cons.IH Some
      by (auto simp: Let_def preallocate_def split: sum.split fallocate_result.split)
  qed simp
qed simp

lemma link_keeps_grants: "ns_grants (snd (link data_dir dest hex ns)) = ns_grants ns"
  by (auto simp: link_def clear_place_def remove_file_def remove_dir_all_def symlink_def ns_put_def Let_def split: option.splits prod.splits bool.splits if_splits)

text \<open>\<open>link\<close>, whether or not it succeeds in placing the link, takes the owner's write permission from the
  files at the top of the download's directory, so that they cannot be opened for writing again.\<close>

lemma linked_file_is_read_only:
  assumes dir: "push_path (data @ [''downloads'']) hex = ib" "rooted ib" "rooted dest" "ns_at ns ib = Some NsDir"
    and top: "ef_path f = [n]" "plain n" "ns_at ns (ib @ [n]) = Some (NsFile i)"
    and apart: "\<not> prefix (dest @ [''download'']) (ib @ [n])"
    and names: "names = download_names fresh (snd (link (Some data) dest hex ns))"
  shows "fs_inode names (full_path names ib f) = None"
proof -
  let ?ns = "snd (link (Some data) dest hex ns)"
  note eff = link_effect[OF dir refl]
  have rt: "rooted (ib @ [n])" using dir(2) top(2) by (simp add: rooted_append)
  have "\<not> prefix (dest @ [''download'']) ib" using apart by (auto simp: prefix_def)
  then have "ns_at ?ns ib = Some NsDir" "ns_at ?ns (ib @ [n]) = Some (NsFile i)"
    using eff(1) apart dir(2,4) top(3) rt by (simp_all add: ns_at_rooted)
  moreover have "i \<in> link_files ib ns"
  proof -
    have "map_of (ns_entries ns) (ib @ [n]) = Some (NsFile i)" using top(3) rt by (simp add: ns_at_rooted)
    then have "ib @ [n] \<in> fst ` set (ns_entries ns)" by (force dest: map_of_SomeD)
    moreover have "ns_follow ns (ib @ [n]) = Some (NsFile i)" using top(3) by (simp add: ns_follow_def)
    ultimately show ?thesis unfolding link_files_def by force
  qed
  then have "\<not> owner_writes (ns_mode ?ns i)" by (simp add: eff(2) owner_writes_def)
  moreover have "to_path f = [n]" "join_path ib [n] = ib @ [n]" using top(1,2) by (simp_all add: to_path_plain join_plain)
  ultimately show ?thesis
    using dir(2) by (simp add: names download_names_def full_path_def ns_is_file_def ns_follow_def)
qed

text \<open>A download that was linked can still be seeded: its files stay readable, and \<open>link\<close> touches no
  entry outside the place of the link.\<close>

lemma linked_download_opens:
  assumes links: "linkable up ib files ino ns" and names: "named_well files" "files \<noteq> []" and roots: "rooted up" "rooted ib" "rooted dest"
    and dirs: "push_path (data @ [''uploads'']) hex = up" "push_path (data @ [''downloads'']) hex = ib" "ns_at ns ib = Some NsDir"
    and inodes: "\<And>f g. f \<in> set files \<Longrightarrow> g \<in> set files \<Longrightarrow> ef_path g = ef_path f \<Longrightarrow> ino g = ino f"
    and readable: "\<forall>f\<in>set files. owner_reads (ns_mode ns (ino f))"
    and apart: "\<forall>f\<in>set files. \<not> prefix (dest @ [''download'']) (up @ ef_path f) \<and> \<not> prefix (dest @ [''download'']) (ib @ ef_path f)"
  shows "\<exists>ns'. ensure_upload_dir (Some data) ib hex files (snd (link (Some data) dest hex ns)) = (Some up, ns')
     \<and> (\<forall>f\<in>set files. fs_inode (seed_names ns') (full_path (seed_names ns') up f) = Some (ino f))"
proof -
  let ?ns = "snd (link (Some data) dest hex ns)"
  note eff = link_effect[OF dirs(2) roots(2,3) dirs(3) refl]
  have keep: "map_of (ns_entries ?ns) q = map_of (ns_entries ns) q" if "\<exists>f\<in>set files. prefix q (up @ ef_path f) \<or> prefix q (ib @ ef_path f)" for q
    using that apart prefix_order.trans by (intro eff(1)) blast
  have ib: "map_of (ns_entries ?ns) ib = Some NsDir"
    using keep[of ib] names(2) dirs(3) roots(2) by (cases files) (auto simp: ns_at_rooted)
  have "linkable up ib files ino ?ns"
    unfolding linkable_def
  proof (intro conjI ballI)
    show "map_of (ns_entries ?ns) p \<in> {None, Some NsDir}" if "p \<in> dirs_above up files" for p
    proof -
      have "\<exists>f\<in>set files. prefix p (up @ ef_path f)" using that prefix_order.less_imp_le by (auto simp: dirs_above_def)
      then have "map_of (ns_entries ?ns) p = map_of (ns_entries ns) p" by (intro keep) blast
      then show ?thesis using links that by (simp add: linkable_def)
    qed
    show "map_of (ns_entries ?ns) (up @ ef_path g) \<in> {None, Some (NsFile (ino g))}" "map_of (ns_entries ?ns) (ib @ ef_path g) = Some (NsFile (ino g))"
      if "g \<in> set files" for g
    proof -
      have "map_of (ns_entries ?ns) (up @ ef_path g) = map_of (ns_entries ns) (up @ ef_path g)"
        "map_of (ns_entries ?ns) (ib @ ef_path g) = map_of (ns_entries ns) (ib @ ef_path g)"
        by (rule keep, use that in blast)+
      then show "map_of (ns_entries ?ns) (up @ ef_path g) \<in> {None, Some (NsFile (ino g))}" "map_of (ns_entries ?ns) (ib @ ef_path g) = Some (NsFile (ino g))"
        using links that by (simp_all add: linkable_def)
    qed
    show "ns_follow ?ns ib \<noteq> None" using ib roots(2) by (simp add: ns_follow_def ns_at_rooted)
    show "\<forall>p. ns_grants ?ns p" using links by (simp add: linkable_def link_keeps_grants)
  qed
  moreover have "\<forall>f\<in>set files. owner_reads (ns_mode ?ns (ino f))" using readable by (simp add: eff(2) owner_reads_def)
  ultimately show ?thesis using upload_dir_opens[of up ib files ino ?ns data hex] names roots dirs inodes by blast
qed

text \<open>What had the name \<open>download\<close> in the user's directory is lost, a directory with everything below it.\<close>

lemma link_deletes_user_directory:
  assumes "rooted dest" and "ns_at ns (dest @ [''download'']) = Some NsDir" and "ns_grants ns (dest @ [''download''])"
  shows "fst (clear_place (dest @ [''download'']) ns)
     \<and> (\<forall>q. prefix (dest @ [''download'']) q \<longrightarrow> map_of (ns_entries (snd (clear_place (dest @ [''download'']) ns))) q = None)"
proof -
  have place: "resolve_path (dest @ [''download'']) = dest @ [''download'']" using assms(1) by (simp add: rooted_append plain_def)
  have "map_of (filter (\<lambda>(q, _). \<not> prefix (dest @ [''download'']) q) E) q = None" if "prefix (dest @ [''download'']) q" for q and E :: "(path \<times> name_entry) list"
    using that by (auto simp: map_of_eq_None_iff)
  then show ?thesis using assms(2,3) by (simp add: clear_place_unfold remove_file_def remove_dir_all_def place)
qed

text \<open>A torrent of one file whose name is empty, as the builder makes it before it is saved, cannot be
  seeded: only the parent of its directory is created.\<close>

lemma unnamed_file_cannot_be_linked:
  assumes "ef_path f = []" and "ns_at ns (ib @ [n]) = None" and "path_file_name ub = Some n" "plain n" and "rooted ib"
    and "ns_at ns ib = None" and "length ib > 1"
  shows "fst (upload_file ib ub f ns) = False"
proof -
  have rt: "rooted (ib @ [n])" using assms(4,5) by (simp add: rooted_append)
  have never: "map_of (ns_entries (snd (make_dirs ps n))) q = map_of (ns_entries n) q" if "q \<notin> resolve_path ` set ps" for ps n q
    using that
  proof (induction ps arbitrary: n)
    case (Cons p ps)
    then show ?case by (auto simp: ns_put_def update_conv' split: option.split name_entry.split)
  qed simp
  let ?r = "ensure_parent_dirs ib ns"
  have par: "?r = make_dirs (tl (prefixes (butlast ib))) ns"
  proof -
    have "butlast ib \<noteq> []" using assms(7) by (auto simp flip: length_0_conv)
    then have "rooted (butlast ib)" by (intro rooted_prefix[OF assms(5)]) (auto simp: prefixeq_butlast)
    then show ?thesis using assms(7) by (auto simp: ensure_parent_dirs_def path_parent_def create_dir_all_def)
  qed
  have short: "length (resolve_path q) \<le> length (butlast ib)" if "q \<in> set (tl (prefixes (butlast ib)))" for q
  proof -
    have q: "prefix q (butlast ib)" using that list.set_sel(2)[of "prefixes (butlast ib)" q] by auto
    show ?thesis
    proof (cases "q = []")
      case False
      then have "rooted q" using rooted_prefix[OF assms(5)] q prefix_order.trans prefixeq_butlast by blast
      then show ?thesis using prefix_length_le[OF q] by simp
    qed (simp add: resolve_path_def)
  qed
  have far: "q \<notin> resolve_path ` set (tl (prefixes (butlast ib)))" if "length ib \<le> length q" for q
    using that short assms(7) by fastforce
  have gone: "map_of (ns_entries (snd ?r)) ib = None" "map_of (ns_entries (snd ?r)) (ib @ [n]) = None"
    using never[OF far, of ib ns] never[OF far, of "ib @ [n]" ns] assms(2,5,6) rt by (simp_all add: par ns_at_rooted)
  show ?thesis
    using gone assms rt
    by (auto simp: upload_file_def to_path_def join_path_def ns_follow_def[of _ "ib @ [n]"] ns_follow_def[of _ ib] ns_at_rooted hard_link_def Let_def
        split: prod.splits bool.splits option.splits name_entry.splits)
qed

subsection \<open>Restoring sessions\<close>

text \<open>\<open>load_from_cache\<close>: the torrents found below the two directories. \<open>load\<close> reads a torrent file.\<close>

definition load_cached :: "(path \<Rightarrow> torrent_file option) \<Rightarrow> (path \<Rightarrow> torrent_file \<Rightarrow> caching_mode) \<Rightarrow> path option \<Rightarrow> name_space \<Rightarrow> caching_mode list" where
  "load_cached load make_mode cache_dir ns =
     (case cache_dir of
        None \<Rightarrow> []
      | Some p \<Rightarrow>
          (case read_dir ns p of
             None \<Rightarrow> []
           | Some entries \<Rightarrow>
               List.map_filter (\<lambda>info_hash. if ns_follow ns info_hash \<noteq> Some NsDir then None
                 else map_option (make_mode info_hash) (load (info_hash @ [''.torrent'']))) entries))"

definition load_from_cache :: "(path \<Rightarrow> torrent_file option) \<Rightarrow> path option \<Rightarrow> name_space \<Rightarrow> caching_mode list" where
  "load_from_cache load data_dir ns =
     load_cached load CacheDownload (downloads_dir data_dir ns) ns @ load_cached load CacheSeed (uploads_dir data_dir ns) ns"

text \<open>What is restored: a download whose user directory is its own internal directory, so the
  directory the user asked for is forgotten; and every torrent file kept below the internal
  directories is found.\<close>

lemma restored_download_destination:
  assumes "CacheDownload dest t \<in> set (load_from_cache load (Some data) ns)" and "rooted data"
  shows "\<exists>name. dest = data @ [''downloads'', name] \<and> load (dest @ [''.torrent'']) = Some t"
proof -
  have rt: "resolve_path (data @ [''downloads'']) = data @ [''downloads'']" using assms(2) by (simp add: rooted_append plain_def)
  have "dest \<noteq> [] \<and> butlast dest = data @ [''downloads''] \<and> load (dest @ [''.torrent'']) = Some t"
    using assms(1)
    by (auto simp: load_from_cache_def load_cached_def downloads_dir_def set_map_filter read_dir_def rt split: option.splits if_splits)
  then show ?thesis by (metis append_butlast_last_id append.assoc append_Cons append_Nil)
qed

lemma cached_download_is_restored:
  assumes "rooted data" "plain name" and "ns_at ns (data @ [''downloads'']) = Some NsDir"
    and "ns_at ns (data @ [''downloads'', name]) = Some NsDir" and "load (data @ [''downloads'', name, ''.torrent'']) = Some t"
  shows "CacheDownload (data @ [''downloads'', name]) t \<in> set (load_from_cache load (Some data) ns)"
proof -
  have rt: "rooted (data @ [''downloads''])" "rooted (data @ [''downloads'', name])"
    using assms(1,2) by (simp_all add: rooted_append plain_def)
  have "map_of (ns_entries ns) (data @ [''downloads'', name]) = Some NsDir" using assms(4) rt(2) by (simp add: ns_at_rooted)
  then have here: "(data @ [''downloads'', name], NsDir) \<in> set (ns_entries ns)" by (rule map_of_SomeD)
  have "CacheDownload (data @ [''downloads'', name]) t \<in> set (load_cached load CacheDownload (downloads_dir (Some data) ns) ns)"
    using assms(3-5) rt(1)
    by (auto simp: load_cached_def downloads_dir_def set_map_filter read_dir_def ns_follow_def butlast_append intro!: bexI[OF _ here])
  then show ?thesis by (simp add: load_from_cache_def)
qed

end
