(* ===== verification/Workers.thy ===== *)
theory Workers
  imports BepRouter Directories
begin

text \<open>
  The two workers of a session, \<open>spawn_downloader\<close> and \<open>spawn_seeder\<close> of \<open>session/session.rs\<close>.
  The downloader is a loop that spawns one task for each piece it receives; the loop, its tasks
  and the tasks of the router that bring pieces are interleaved by a step relation, with a step
  for each critical section: the router marks a piece, clears the request, counts the write and
  sends the piece once the queue of 64 has room; a write task writes, and looks at the bitfield
  afterwards. Two history fields record the pieces that were written and those that were dropped.
  The end of the downloader includes \<open>link\<close> and the opening of the upload directory, on the name
  space of \<open>Directories\<close>. The disk transfers every write whole (see \<open>Chunks\<close>).
\<close>

subsection \<open>The seeder\<close>

definition serve_request :: "(bytes \<Rightarrow> bytes) \<Rightarrow> signer \<Rightarrow> seeding multi_file_handler \<Rightarrow> disk \<Rightarrow> piece_request \<Rightarrow> (nat \<times> bytes) option" where
  "serve_request sha256 prover h d req =
     (case read_piece h d (rq_index req) of
        Inl _ \<Rightarrow> None
      | Inr data \<Rightarrow>
          (case make_payload sha256 prover (rq_index req) data of
             Inl _ \<Rightarrow> None
           | Inr signed_payload \<Rightarrow> map_option (\<lambda>reply. (reply, signed_payload)) (rq_respond req)))"

text \<open>One round of the seeder's loop: the next request of the queue is answered.\<close>

definition seeder_round ::
  "(bytes \<Rightarrow> bytes) \<Rightarrow> signer \<Rightarrow> seeding multi_file_handler \<Rightarrow> disk \<Rightarrow> torrent_session \<Rightarrow> ((nat \<times> bytes) option \<times> torrent_session) option" where
  "seeder_round sha256 prover h d s =
     (case ts_state s of
        Seeding p res token tx \<Rightarrow>
          if token \<in> ts_cancelled s then None
          else (case ch_queue tx of
                  [] \<Rightarrow> None
                | req # rest \<Rightarrow>
                    Some (serve_request sha256 prover h d req, s\<lparr>ts_state := Seeding p res token (tx\<lparr>ch_queue := rest\<rparr>)\<rparr>))
      | _ \<Rightarrow> None)"

text \<open>The start of the seeder: it reports itself and takes the resources out of the state. The end:
  every peer is choked; a seeder that was not cancelled pauses the session. The receiver goes with
  the task.\<close>

definition start_seeder :: "torrent_session \<Rightarrow> seeding state_resources option \<times> torrent_session" where
  "start_seeder s =
     (let s = s\<lparr>ts_events := ts_events s @ [SeedStarted]\<rparr>
      in case take_seeding (ts_state s) of (resources, st) \<Rightarrow> (resources, s\<lparr>ts_state := st\<rparr>))"

fun close_uploader :: "nat \<Rightarrow> torrent_state \<Rightarrow> torrent_state" where
  "close_uploader token (Seeding p res token' tx) =
     Seeding p res token' (if token' = token then tx\<lparr>ch_queue := [], ch_open := False\<rparr> else tx)"
| "close_uploader token st = st"

definition stop_seeder ::
  "session_env \<Rightarrow> router_env \<Rightarrow> nat \<Rightarrow> torrent_session \<Rightarrow> session_fs \<Rightarrow> outbox \<Rightarrow> (torrent_session \<times> session_fs \<times> outbox) option" where
  "stop_seeder env renv token s fs out =
     (let out = broadcast renv Choke s out
      in if token \<in> ts_cancelled s then Some (s\<lparr>ts_state := close_uploader token (ts_state s)\<rparr>, fs, out)
         else case transition env Pause s fs of
                None \<Rightarrow> None
              | Some (_, s, fs) \<Rightarrow> Some (s\<lparr>ts_state := close_uploader token (ts_state s)\<rparr>, fs, out))"

subsection \<open>The downloader\<close>

datatype write_outcome = HashRefused | WriteFailed | PieceWritten

text \<open>The task of one piece, up to the point where it looks at the bitfield. A torrent without pieces
  never gets here (see \<open>start_downloader\<close>).\<close>

definition write_task ::
  "session_env \<Rightarrow> downloading state_resources \<Rightarrow> torrent_session \<Rightarrow> session_fs \<Rightarrow> u32 \<Rightarrow> bytes \<Rightarrow> write_outcome \<times> torrent_session \<times> session_fs" where
  "write_task env res s fs index data =
     (let piece_count = length (torrent_piece_hashes (ts_metadata s)) - 1;
          released = s\<lparr>ts_pending_writes := ts_pending_writes s - 1\<rparr>
      in if verify_hash (se_sha1 env) (se_sha256 env) (ts_metadata s) index data \<noteq> Inr ()
         then (HashRefused, released, fs)
         else case write_piece (rs_handler res) (sf_disk fs) index data of
                (Inl _, d) \<Rightarrow> (WriteFailed, released, fs\<lparr>sf_disk := d\<rparr>)
              | (Inr _, d) \<Rightarrow>
                  (PieceWritten, released\<lparr>ts_events := ts_events s @ [PieceDownloaded (word_of_nat piece_count) index]\<rparr>, fs\<lparr>sf_disk := d\<rparr>))"

text \<open>A task of the router with a new piece, after \<open>add_piece\<close>: the piece is marked, then the request is
  cleared from the pipeline of the source, then the write is counted, then the piece is sent.\<close>

datatype arrival = Marked sock_addr u32 bytes | Cleared u32 bytes | Counted u32 bytes

fun arriving :: "arrival \<Rightarrow> u32" where
  "arriving (Marked _ index _) = index"
| "arriving (Cleared index _) = index"
| "arriving (Counted index _) = index"

fun is_counted :: "arrival \<Rightarrow> bool" where
  "is_counted (Counted _ _) = True"
| "is_counted _ = False"

record download =
  dn_session :: torrent_session
  dn_fs :: session_fs
  dn_names :: name_space
  dn_res :: "downloading state_resources"
  dn_dest :: path
  dn_arrivals :: "arrival list"
  dn_tasks :: "(u32 \<times> bytes) list"
  dn_checks :: nat
  dn_done :: bool
  dn_alive :: bool
  dn_written :: "u32 set"
  dn_failed :: "u32 set"

text \<open>The start of the downloader: it takes the resources out of the state and tells every peer that
  it is interested. \<open>None\<close>: there is nothing to take, or the torrent has no pieces and the
  subtraction of one from their number panics in a checked build (in a release build it wraps
  around and the worker waits for pieces that cannot come).\<close>

definition start_downloader :: "router_env \<Rightarrow> torrent_session \<Rightarrow> session_fs \<Rightarrow> name_space \<Rightarrow> outbox \<Rightarrow> (download \<times> outbox) option" where
  "start_downloader renv s fs names out =
     (case take_downloading (ts_state s) of
        (None, _) \<Rightarrow> None
      | (Some (user_directory, res), st) \<Rightarrow>
          let s = s\<lparr>ts_state := st\<rparr>; out = broadcast renv Interested s out
          in if torrent_piece_hashes (ts_metadata s) = [] then None
             else Some (\<lparr>dn_session = s, dn_fs = fs, dn_names = names, dn_res = res, dn_dest = user_directory, dn_arrivals = [], dn_tasks = [],
                     dn_checks = 0, dn_done = False, dn_alive = True, dn_written = {}, dn_failed = {}\<rparr>, out))"

definition receive_piece :: "download \<Rightarrow> download option" where
  "receive_piece dn =
     (case ts_state (dn_session dn) of
        Downloading p dest res token tx \<Rightarrow>
          if token \<in> ts_cancelled (dn_session dn) \<or> dn_done dn \<or> \<not> dn_alive dn then None
          else (case ch_queue tx of
                  [] \<Rightarrow> None
                | m # rest \<Rightarrow>
                    Some (dn\<lparr>dn_session := (dn_session dn)\<lparr>ts_state := Downloading p dest res token (tx\<lparr>ch_queue := rest\<rparr>)\<rparr>,
                             dn_tasks := dn_tasks dn @ [m]\<rparr>))
      | _ \<Rightarrow> None)"

definition record_outcome :: "u32 \<Rightarrow> write_outcome \<Rightarrow> download \<Rightarrow> download" where
  "record_outcome index outcome dn =
     (case outcome of
        PieceWritten \<Rightarrow> dn\<lparr>dn_written := insert index (dn_written dn), dn_checks := Suc (dn_checks dn)\<rparr>
      | _ \<Rightarrow> dn\<lparr>dn_failed := insert index (dn_failed dn)\<rparr>)"

text \<open>A task runs: it gives up silently when the resources were dropped before it started.\<close>

definition run_task :: "session_env \<Rightarrow> nat \<Rightarrow> download \<Rightarrow> download" where
  "run_task env i dn =
     (let (index, data) = dn_tasks dn ! i; rest = take i (dn_tasks dn) @ drop (Suc i) (dn_tasks dn)
      in if \<not> dn_alive dn then dn\<lparr>dn_tasks := rest, dn_failed := insert index (dn_failed dn)\<rparr>
         else case write_task env (dn_res dn) (dn_session dn) (dn_fs dn) index data of
                (outcome, s, fs) \<Rightarrow> record_outcome index outcome (dn\<lparr>dn_tasks := rest, dn_session := s, dn_fs := fs\<rparr>))"

text \<open>A task that wrote its piece reads the bitfield: when every piece is marked it signals that the
  download is done. \<open>None\<close> is a panic of \<open>count\<close>.\<close>

definition check_done :: "download \<Rightarrow> download option" where
  "check_done dn =
     (let piece_count = length (torrent_piece_hashes (ts_metadata (dn_session dn))) - 1
      in map_option (\<lambda>n. dn\<lparr>dn_checks := dn_checks dn - 1, dn_done := dn_done dn \<or> n = piece_count + 1\<rparr>)
           (bf_count (ts_bitfield (dn_session dn))))"

definition persist_tick :: "session_env \<Rightarrow> download \<Rightarrow> download" where
  "persist_tick env dn =
     dn\<lparr>dn_fs := persist_resume env (rs_cache (dn_res dn)) (ts_bitfield (dn_session dn)) (dn_fs dn)\<rparr>"

text \<open>The sending half of \<open>send_downloaded_piece\<close>, after the write was counted: the piece is queued when
  the queue has room (a channel has at least one slot) and otherwise waits (\<open>None\<close>); it is dropped
  when the session is not downloading any more or the receiver is gone. The flag says which.\<close>

definition has_room :: "'a channel \<Rightarrow> bool" where
  "has_room tx \<longleftrightarrow> ch_queue tx = [] \<or> length (ch_queue tx) < ch_capacity tx"

definition hand_over :: "u32 \<Rightarrow> bytes \<Rightarrow> torrent_session \<Rightarrow> (bool \<times> torrent_session) option" where
  "hand_over index data s =
     (let refused = s\<lparr>ts_pending_writes := ts_pending_writes s - 1\<rparr>
      in case ts_state s of
           Downloading p dest res token tx \<Rightarrow>
             if \<not> ch_open tx then Some (False, refused)
             else if \<not> has_room tx then None
             else Some (True, s\<lparr>ts_state := Downloading p dest res token (tx\<lparr>ch_queue := ch_queue tx @ [(index, data)]\<rparr>)\<rparr>)
         | _ \<Rightarrow> Some (False, refused))"

definition clear_request :: "sock_addr \<Rightarrow> u32 \<Rightarrow> torrent_session \<Rightarrow> torrent_session" where
  "clear_request source index s =
     (case get_pipeline s source of None \<Rightarrow> s | Some p \<Rightarrow> put_pipeline source (clear_piece index p) s)"

text \<open>One critical section of an arrival: what is left of it (nothing once the piece is queued or
  dropped), the session and the pieces dropped. \<open>None\<close>: it has to wait.\<close>

fun advance :: "arrival \<Rightarrow> torrent_session \<Rightarrow> (arrival list \<times> torrent_session \<times> u32 set) option" where
  "advance (Marked source index data) s = Some ([Cleared index data], clear_request source index s, {})"
| "advance (Cleared index data) s = Some ([Counted index data], s\<lparr>ts_pending_writes := ts_pending_writes s + 1\<rparr>, {})"
| "advance (Counted index data) s =
     map_option (\<lambda>(queued, s). ([], s, if queued then {} else {index})) (hand_over index data s)"

text \<open>The function \<open>send_downloaded_piece\<close> of the router is these sections in a row, when the queue has
  room.\<close>

lemma sections_in_a_row:
  assumes "advance (Cleared index data) s = Some ([Counted index data], s1, {})" and "advance (Counted index data) s1 = Some ([], s2, lost)"
  shows "send_downloaded_piece index data s = s2"
  using assms by (auto simp: send_downloaded_piece_def hand_over_def Let_def split: torrent_state.splits if_splits)

text \<open>The end of the loop: cancelled, done, or the queue closed. The resume file is persisted and the
  download linked, the peers are told; unless it was cancelled, the worker cancels its token,
  reports completion and asks for seeding, which opens the upload directory. The receiver is
  dropped with the task. The transition takes the lock of the state, which a sender that waits for
  room in the queue holds; the definition is the end of a worker with no such sender (see
  \<open>full_queue_sticks\<close> for the other case).\<close>

fun close_channel :: "nat \<Rightarrow> torrent_state \<Rightarrow> torrent_state" where
  "close_channel token (Downloading p dest res token' tx) =
     Downloading p dest res token' (if token' = token then tx\<lparr>ch_queue := [], ch_open := False\<rparr> else tx)"
| "close_channel token st = st"

text \<open>The environment of a transition to seeding on a name space.\<close>

definition seeding_env :: "session_env \<Rightarrow> path option \<Rightarrow> (info_hash \<Rightarrow> string) \<Rightarrow> path \<Rightarrow> torrent_file \<Rightarrow> name_space \<Rightarrow> session_env \<times> name_space" where
  "seeding_env env data_dir hex user_base m ns =
     (case ensure_upload_dir data_dir user_base (hex (torrent_info_hash m)) (torrent_files m) ns of
        (up, ns) \<Rightarrow> (env\<lparr>se_upload_dir := (\<lambda>_ _. up), se_names := seed_names ns\<rparr>, ns))"

definition stop_downloader ::
  "session_env \<Rightarrow> router_env \<Rightarrow> path option \<Rightarrow> (info_hash \<Rightarrow> string) \<Rightarrow> nat \<Rightarrow> path \<Rightarrow> download \<Rightarrow> outbox \<Rightarrow> (download \<times> outbox) option" where
  "stop_downloader env renv data_dir hex token internal_directory dn out =
     (let dn = persist_tick env dn; s = dn_session dn; metadata = ts_metadata s;
          names = snd (link data_dir (dn_dest dn) (hex (torrent_info_hash metadata)) (dn_names dn));
          dn = dn\<lparr>dn_alive := False, dn_names := names\<rparr>;
          out = broadcast renv NotInterested s out
      in if token \<in> ts_cancelled s then Some (dn\<lparr>dn_session := s\<lparr>ts_state := close_channel token (ts_state s)\<rparr>\<rparr>, out)
         else let s = s\<lparr>ts_cancelled := insert token (ts_cancelled s),
                        ts_events := ts_events s @ [DownloadCompleted (path_string internal_directory)]\<rparr>;
                  to = ToSeed internal_directory metadata;
                  (env, names) = (if can_transition_to (ts_state s) to then seeding_env env data_dir hex internal_directory metadata names
                                  else (env, names))
              in case transition env to s (dn_fs dn) of
                   None \<Rightarrow> None
                 | Some (r, s, fs) \<Rightarrow>
                     Some (dn\<lparr>dn_session := s\<lparr>ts_state := close_channel token (ts_state s)\<rparr>, dn_fs := fs, dn_names := names\<rparr>, out))"

text \<open>The interleavings. The router only requests pieces of the torrent, so the index is in range.\<close>

inductive download_step :: "session_env \<Rightarrow> download \<Rightarrow> download \<Rightarrow> bool" for env where
  marks: "unat index < piece_count (ts_bitfield (dn_session dn)) \<Longrightarrow> add_piece index (dn_session dn) = Some (True, s)
     \<Longrightarrow> download_step env dn (dn\<lparr>dn_session := s, dn_arrivals := dn_arrivals dn @ [Marked source index data]\<rparr>)"
| advances: "dn_arrivals dn = xs @ a # ys \<Longrightarrow> advance a (dn_session dn) = Some (rest, s, lost)
     \<Longrightarrow> download_step env dn (dn\<lparr>dn_session := s, dn_arrivals := xs @ rest @ ys, dn_failed := dn_failed dn \<union> lost\<rparr>)"
| receives: "receive_piece dn = Some dn' \<Longrightarrow> download_step env dn dn'"
| writes: "i < length (dn_tasks dn) \<Longrightarrow> download_step env dn (run_task env i dn)"
| checks: "0 < dn_checks dn \<Longrightarrow> check_done dn = Some dn' \<Longrightarrow> download_step env dn dn'"
| persists: "dn_alive dn \<Longrightarrow> download_step env dn (persist_tick env dn)"

inductive download_run :: "session_env \<Rightarrow> download \<Rightarrow> download \<Rightarrow> bool" for env where
  run_here: "download_run env dn dn"
| run_step: "download_run env dn dn' \<Longrightarrow> download_step env dn' dn'' \<Longrightarrow> download_run env dn dn''"

lemma download_run_trans: "download_run env dn dn' \<Longrightarrow> download_run env dn' dn'' \<Longrightarrow> download_run env dn dn''"
  by (rotate_tac, induction rule: download_run.induct) (auto intro: run_step)

subsection \<open>Every marked piece is accounted for\<close>

fun queue_of :: "torrent_state \<Rightarrow> (u32 \<times> bytes) list" where
  "queue_of (Downloading _ _ _ _ tx) = ch_queue tx"
| "queue_of _ = []"

definition waiting :: "download \<Rightarrow> (u32 \<times> bytes) list" where
  "waiting dn = dn_tasks dn @ queue_of (ts_state (dn_session dn))"

text \<open>The pieces under way: in the hands of the router, queued, or with a task.\<close>

definition under_way :: "download \<Rightarrow> u32 list" where
  "under_way dn = map arriving (dn_arrivals dn) @ map fst (waiting dn)"

definition verified :: "session_env \<Rightarrow> torrent_file \<Rightarrow> u32 \<Rightarrow> bytes \<Rightarrow> bool" where
  "verified env m w data \<longleftrightarrow> verify_hash (se_sha1 env) (se_sha256 env) m w data = Inr ()"

text \<open>What opening the files of the download for seeding would read.\<close>

definition on_disk :: "session_env \<Rightarrow> download \<Rightarrow> u32 \<Rightarrow> bool" where
  "on_disk env dn w \<longleftrightarrow> (\<exists>data. read_piece (as_seeding (rs_handler (dn_res dn))) (sf_disk (dn_fs dn)) w = Inr data
     \<and> verified env (ts_metadata (dn_session dn)) w data)"

definition accounted :: "(u32 \<Rightarrow> bool) \<Rightarrow> download \<Rightarrow> bool" where
  "accounted before dn \<longleftrightarrow> bf_wf (ts_bitfield (dn_session dn)) \<and> dn_alive dn \<and> distinct (under_way dn)
     \<and> ts_pending_writes (dn_session dn) = word_of_nat (length (filter is_counted (dn_arrivals dn)) + length (waiting dn))
     \<and> (\<forall>w. bf_mem (ts_bitfield (dn_session dn)) (unat w) \<longrightarrow>
          before w \<or> w \<in> dn_written dn \<or> w \<in> dn_failed dn \<or> w \<in> set (under_way dn))
     \<and> (\<forall>w\<in>set (under_way dn). bf_mem (ts_bitfield (dn_session dn)) (unat w))"

definition stored :: "session_env \<Rightarrow> download \<Rightarrow> bool" where
  "stored env dn \<longleftrightarrow> handler_wf (rs_handler (dn_res dn)) (sf_disk (dn_fs dn)) \<and> (\<forall>w\<in>dn_written dn. on_disk env dn w)"

definition sized :: "session_env \<Rightarrow> download \<Rightarrow> bool" where
  "sized env dn \<longleftrightarrow> (\<forall>w data. verified env (ts_metadata (dn_session dn)) w data \<longrightarrow> piece_fits (rs_handler (dn_res dn)) w data)"

text \<open>Steps that touch neither the disk nor what was written.\<close>

lemma same_disk:
  assumes "dn_fs dn' = dn_fs dn" "dn_res dn' = dn_res dn" "dn_written dn' = dn_written dn" "ts_metadata (dn_session dn') = ts_metadata (dn_session dn)"
  shows "stored env dn' = stored env dn" and "sized env dn' = sized env dn"
  using assms by (simp_all add: stored_def sized_def on_disk_def)

lemma add_piece_marks:
  assumes "add_piece w s = Some (True, s')" and "bf_wf (ts_bitfield s)"
  shows "bf_wf (ts_bitfield s')" and "\<not> bf_mem (ts_bitfield s) (unat w)"
    and "\<forall>j. bf_mem (ts_bitfield s') j \<longrightarrow> bf_mem (ts_bitfield s) j \<or> j = unat w"
    and "\<forall>j. bf_mem (ts_bitfield s) j \<longrightarrow> bf_mem (ts_bitfield s') j"
    and "unat w < piece_count (ts_bitfield s) \<longrightarrow> bf_mem (ts_bitfield s') (unat w)"
    and "ts_state s' = ts_state s \<and> ts_pending_writes s' = ts_pending_writes s \<and> ts_metadata s' = ts_metadata s
      \<and> ts_peers s' = ts_peers s \<and> ts_cancelled s' = ts_cancelled s"
    and "piece_count (ts_bitfield s') = piece_count (ts_bitfield s)"
proof -
  have "bf_have (ts_bitfield s) (unat w) = Some False" and set: "session_set_bitfield w s = Some s'"
    using assms(1) by (auto simp: add_piece_def split: option.splits bool.splits)
  then show "\<not> bf_mem (ts_bitfield s) (unat w)" using assms(2) by (simp add: bf_have_mem)
  obtain bf where bf: "bf_set (ts_bitfield s) (unat w) = Some bf" "s' = s\<lparr>ts_bitfield := bf\<rparr>"
    using set by (auto simp: session_set_bitfield_def)
  obtain bf' where "bf_set (ts_bitfield s) (unat w) = Some bf'" "bf_wf bf'" "piece_count bf' = piece_count (ts_bitfield s)"
    "\<forall>j. bf_mem bf' j \<longleftrightarrow> bf_mem (ts_bitfield s) j \<or> (j = unat w \<and> unat w < piece_count (ts_bitfield s))"
    using bf_set_wf[OF assms(2)] by blast
  then show "bf_wf (ts_bitfield s')" "\<forall>j. bf_mem (ts_bitfield s') j \<longrightarrow> bf_mem (ts_bitfield s) j \<or> j = unat w"
    "\<forall>j. bf_mem (ts_bitfield s) j \<longrightarrow> bf_mem (ts_bitfield s') j"
    "unat w < piece_count (ts_bitfield s) \<longrightarrow> bf_mem (ts_bitfield s') (unat w)"
    "ts_state s' = ts_state s \<and> ts_pending_writes s' = ts_pending_writes s \<and> ts_metadata s' = ts_metadata s
      \<and> ts_peers s' = ts_peers s \<and> ts_cancelled s' = ts_cancelled s"
    "piece_count (ts_bitfield s') = piece_count (ts_bitfield s)"
    using bf by auto
qed

lemma mark_accounted:
  assumes acc: "accounted before dn" and add: "add_piece index (dn_session dn) = Some (True, s)"
    and range: "unat index < piece_count (ts_bitfield (dn_session dn))"
  shows "accounted before (dn\<lparr>dn_session := s, dn_arrivals := dn_arrivals dn @ [Marked source index data]\<rparr>)" (is "accounted before ?dn")
proof -
  have wf: "bf_wf (ts_bitfield (dn_session dn))" using acc by (auto simp: accounted_def)
  note m = add_piece_marks[OF add wf]
  have w: "waiting ?dn = waiting dn" using m(6) by (simp add: waiting_def)
  have u: "set (under_way ?dn) = insert index (set (under_way dn))" by (auto simp: under_way_def w)
  have fresh: "index \<notin> set (under_way dn)" using acc m(2) by (auto simp: accounted_def)
  then have "distinct (under_way ?dn)" using acc by (auto simp: accounted_def under_way_def w)
  moreover have "before v \<or> v \<in> dn_written dn \<or> v \<in> dn_failed dn \<or> v \<in> set (under_way ?dn)" if "bf_mem (ts_bitfield s) (unat v)" for v
    using that acc m(3) by (auto simp: accounted_def u word_unat_eq_iff)
  moreover have "\<forall>v\<in>set (under_way ?dn). bf_mem (ts_bitfield s) (unat v)" using acc m(4,5) range by (auto simp: accounted_def u)
  ultimately show ?thesis using acc m(1,6) by (simp add: accounted_def w)
qed

lemma clear_request_fields [simp]:
  "ts_bitfield (clear_request a i s) = ts_bitfield s" "ts_state (clear_request a i s) = ts_state s"
  "ts_pending_writes (clear_request a i s) = ts_pending_writes s" "ts_metadata (clear_request a i s) = ts_metadata s"
  "ts_cancelled (clear_request a i s) = ts_cancelled s" "ts_next_token (clear_request a i s) = ts_next_token s"
  "ts_events (clear_request a i s) = ts_events s"
  by (simp_all add: clear_request_def put_pipeline_def split: option.split)

text \<open>One section moves a piece on, or drops it, and keeps the count.\<close>

lemma advance_effect:
  assumes "advance a s = Some (rest, s', lost)"
  shows "ts_bitfield s' = ts_bitfield s \<and> ts_metadata s' = ts_metadata s \<and> ts_cancelled s' = ts_cancelled s
     \<and> (\<exists>q. queue_of (ts_state s') = queue_of (ts_state s) @ q \<and> mset (map arriving rest @ map fst q @ sorted_list_of_set lost) = {#arriving a#}
          \<and> finite lost
          \<and> ts_pending_writes s' + word_of_nat (length (filter is_counted [a]))
              = ts_pending_writes s + word_of_nat (length (filter is_counted rest) + length q))"
  using assms
  by (cases a) (auto simp: hand_over_def Let_def split: torrent_state.splits if_splits)

lemma advance_accounted:
  assumes acc: "accounted before dn" and arr: "dn_arrivals dn = xs @ a # ys" and adv: "advance a (dn_session dn) = Some (rest, s, lost)"
  shows "accounted before (dn\<lparr>dn_session := s, dn_arrivals := xs @ rest @ ys, dn_failed := dn_failed dn \<union> lost\<rparr>)" (is "accounted before ?dn")
proof -
  obtain q where e: "ts_bitfield s = ts_bitfield (dn_session dn)" "queue_of (ts_state s) = queue_of (ts_state (dn_session dn)) @ q"
    "mset (map arriving rest @ map fst q @ sorted_list_of_set lost) = {#arriving a#}" "finite lost"
    "ts_pending_writes s + word_of_nat (length (filter is_counted [a]))
       = ts_pending_writes (dn_session dn) + word_of_nat (length (filter is_counted rest) + length q)"
    using advance_effect[OF adv] by blast
  have w: "waiting ?dn = waiting dn @ q" by (simp add: waiting_def e(2))
  have u: "under_way ?dn = map arriving (xs @ rest @ ys) @ map fst (waiting dn @ q)" by (simp add: under_way_def w)
  have "mset (under_way ?dn @ sorted_list_of_set lost)
      = mset (map arriving xs @ map arriving ys @ map fst (waiting dn)) + mset (map arriving rest @ map fst q @ sorted_list_of_set lost)"
    unfolding u by simp
  also have "\<dots> = mset (under_way dn)" unfolding e(3) by (simp add: under_way_def arr)
  finally have "mset (under_way ?dn @ sorted_list_of_set lost) = mset (under_way dn)" .
  then have sets: "set (under_way dn) = set (under_way ?dn) \<union> lost" and "distinct (under_way ?dn @ sorted_list_of_set lost)"
    using acc mset_eq_setD[of "under_way ?dn @ sorted_list_of_set lost" "under_way dn"] mset_eq_imp_distinct_iff[of "under_way ?dn @ sorted_list_of_set lost" "under_way dn"] e(4)
    by (auto simp: accounted_def)
  moreover have "ts_pending_writes s = word_of_nat (length (filter is_counted (xs @ rest @ ys)) + length (waiting dn @ q))"
  proof -
    have "ts_pending_writes (dn_session dn) = word_of_nat (length (filter is_counted (xs @ a # ys)) + length (waiting dn))"
      using acc arr by (simp add: accounted_def)
    then have "ts_pending_writes s + word_of_nat (length (filter is_counted [a]))
        = word_of_nat (length (filter is_counted (xs @ rest @ ys)) + length (waiting dn @ q)) + word_of_nat (length (filter is_counted [a]))"
      unfolding e(5) by (simp add: ac_simps)
    then show ?thesis by (simp only: add_right_cancel)
  qed
  ultimately show ?thesis using acc e(1) w by (auto simp: accounted_def)
qed

lemma receive_accounted:
  assumes "accounted before dn" and "receive_piece dn = Some dn'"
  shows "accounted before dn'"
proof -
  obtain p dest res token tx m rest where st: "ts_state (dn_session dn) = Downloading p dest res token tx" "ch_queue tx = m # rest"
    "dn' = dn\<lparr>dn_session := (dn_session dn)\<lparr>ts_state := Downloading p dest res token (tx\<lparr>ch_queue := rest\<rparr>)\<rparr>, dn_tasks := dn_tasks dn @ [m]\<rparr>"
    using assms(2) by (auto simp: receive_piece_def split: torrent_state.splits if_splits list.splits)
  then have "waiting dn' = waiting dn" by (simp add: waiting_def)
  then show ?thesis using assms(1) st by (simp add: accounted_def under_way_def)
qed

lemma write_task_fields:
  assumes "write_task env res s fs w data = (outcome, s', fs')"
  shows "ts_bitfield s' = ts_bitfield s" and "ts_state s' = ts_state s" and "ts_pending_writes s' = ts_pending_writes s - 1"
    and "ts_metadata s' = ts_metadata s" and "ts_cancelled s' = ts_cancelled s"
  using assms by (auto simp: write_task_def Let_def split: if_splits prod.splits sum.splits)

lemma record_outcome_fields [simp]:
  "dn_session (record_outcome w o1 dn) = dn_session dn" "dn_tasks (record_outcome w o1 dn) = dn_tasks dn"
  "dn_alive (record_outcome w o1 dn) = dn_alive dn" "dn_fs (record_outcome w o1 dn) = dn_fs dn" "dn_res (record_outcome w o1 dn) = dn_res dn"
  "dn_arrivals (record_outcome w o1 dn) = dn_arrivals dn"
  by (simp_all add: record_outcome_def split: write_outcome.split)

lemma record_outcome_sets:
  "v \<in> dn_written (record_outcome w o1 dn) \<or> v \<in> dn_failed (record_outcome w o1 dn) \<longleftrightarrow> v = w \<or> v \<in> dn_written dn \<or> v \<in> dn_failed dn"
  by (auto simp: record_outcome_def split: write_outcome.split)

lemma word_of_nat_pred: "0 < n \<Longrightarrow> (word_of_nat n :: u64) - 1 = word_of_nat (n - 1)"
  by (cases n) simp_all

lemma run_task_alive:
  assumes "dn_alive dn" and "dn_tasks dn ! i = (w, data)"
    and "write_task env (dn_res dn) (dn_session dn) (dn_fs dn) w data = (outcome, s, fs)"
  shows "run_task env i dn = record_outcome w outcome (dn\<lparr>dn_tasks := take i (dn_tasks dn) @ drop (Suc i) (dn_tasks dn), dn_session := s, dn_fs := fs\<rparr>)"
  using assms by (simp add: run_task_def Let_def)

lemma run_task_accounted:
  assumes acc: "accounted before dn" and i: "i < length (dn_tasks dn)"
  shows "accounted before (run_task env i dn)"
proof -
  obtain w data where t: "dn_tasks dn ! i = (w, data)" by (cases "dn_tasks dn ! i")
  obtain outcome s fs where wt: "write_task env (dn_res dn) (dn_session dn) (dn_fs dn) w data = (outcome, s, fs)"
    by (cases "write_task env (dn_res dn) (dn_session dn) (dn_fs dn) w data")
  define rest where "rest = take i (dn_tasks dn) @ drop (Suc i) (dn_tasks dn)"
  define dn' where "dn' = run_task env i dn"
  have dn': "dn' = record_outcome w outcome (dn\<lparr>dn_tasks := rest, dn_session := s, dn_fs := fs\<rparr>)"
    unfolding dn'_def rest_def by (rule run_task_alive[OF _ t wt]) (use acc in \<open>simp add: accounted_def\<close>)
  note f = write_task_fields[OF wt]
  have split: "dn_tasks dn = take i (dn_tasks dn) @ (w, data) # drop (Suc i) (dn_tasks dn)"
    using id_take_nth_drop[OF i] t by simp
  let ?q = "queue_of (ts_state (dn_session dn))"
  have wait: "waiting dn = take i (dn_tasks dn) @ (w, data) # drop (Suc i) (dn_tasks dn) @ ?q"
    unfolding waiting_def by (subst split) simp
  have wait': "waiting dn' = take i (dn_tasks dn) @ drop (Suc i) (dn_tasks dn) @ ?q"
    by (simp add: waiting_def dn' rest_def f)
  let ?c = "length (filter is_counted (dn_arrivals dn))"
  have len: "?c + length (waiting dn') = ?c + length (waiting dn) - 1" "0 < ?c + length (waiting dn)" by (simp_all only: wait wait') simp_all
  have "ts_pending_writes (dn_session dn') = word_of_nat (?c + length (waiting dn'))"
    using acc word_of_nat_pred[OF len(2)] unfolding len(1) by (simp add: accounted_def dn' f)
  moreover have sets: "set (under_way dn) = insert w (set (under_way dn'))" unfolding under_way_def wait wait' by (auto simp: dn')
  moreover have "distinct (under_way dn')" using acc unfolding accounted_def under_way_def wait wait' by (auto simp: dn')
  ultimately show ?thesis
    using acc record_outcome_sets[of _ w outcome "dn\<lparr>dn_tasks := rest, dn_session := s, dn_fs := fs\<rparr>"]
    unfolding dn'_def[symmetric] accounted_def by (auto simp: dn' f)
qed

text \<open>A write of a piece that verifies succeeds, and changes that piece only.\<close>

lemma write_task_verified:
  assumes ver: "verified env (ts_metadata s) w data" and wf: "handler_wf (rs_handler res) (sf_disk fs)" and fits: "piece_fits (rs_handler res) w data"
  obtains d ev where "write_task env res s fs w data =
      (PieceWritten, s\<lparr>ts_pending_writes := ts_pending_writes s - 1, ts_events := ts_events s @ ev\<rparr>, fs\<lparr>sf_disk := d\<rparr>)"
    "handler_wf (rs_handler res) d" "\<forall>i. map_option length (d i) = map_option length (sf_disk fs i)"
    "read_piece (as_seeding (rs_handler res)) d w = Inr data"
    "\<forall>v. v \<noteq> w \<longrightarrow> read_piece (as_seeding (rs_handler res)) d v = read_piece (as_seeding (rs_handler res)) (sf_disk fs) v"
proof -
  obtain d where d: "write_piece (rs_handler res) (sf_disk fs) w data = (Inr (), d)" "handler_wf (rs_handler res) d"
    "\<forall>i. map_option length (d i) = map_option length (sf_disk fs i)" using write_piece_flat[OF wf fits] by blast
  have "write_task env res s fs w data =
      (PieceWritten, s\<lparr>ts_pending_writes := ts_pending_writes s - 1,
        ts_events := ts_events s @ [PieceDownloaded (word_of_nat (length (torrent_piece_hashes (ts_metadata s)) - 1)) w]\<rparr>, fs\<lparr>sf_disk := d\<rparr>)"
    using ver d by (simp add: write_task_def verified_def Let_def)
  then show thesis by (rule that) (use d mfh.read_same[OF wf fits] mfh.read_other[OF wf fits] in simp_all)
qed

lemma write_task_stored:
  assumes st: "stored env dn" and sz: "sized env dn"
    and run: "write_task env (dn_res dn) (dn_session dn) (dn_fs dn) w data = (outcome, s, fs)"
  shows "stored env (record_outcome w outcome (dn\<lparr>dn_tasks := rest, dn_session := s, dn_fs := fs\<rparr>))"
proof -
  let ?h = "rs_handler (dn_res dn)" and ?d = "sf_disk (dn_fs dn)" and ?m = "ts_metadata (dn_session dn)"
  have wf: "handler_wf ?h ?d" using st by (simp add: stored_def)
  have m: "ts_metadata s = ?m" by (rule write_task_fields(4)[OF run])
  show ?thesis
  proof (cases "verified env ?m w data")
    case False
    then have "outcome = HashRefused" "fs = dn_fs dn" using run by (auto simp: write_task_def verified_def Let_def)
    then show ?thesis using st m by (simp add: stored_def on_disk_def record_outcome_def)
  next
    case True
    then have fits: "piece_fits ?h w data" using sz by (simp add: sized_def)
    obtain d where d: "fs = (dn_fs dn)\<lparr>sf_disk := d\<rparr>" "outcome = PieceWritten" "handler_wf ?h d"
      "read_piece (as_seeding ?h) d w = Inr data" "\<forall>v. v \<noteq> w \<longrightarrow> read_piece (as_seeding ?h) d v = read_piece (as_seeding ?h) ?d v"
      by (rule write_task_verified[OF True wf fits]) (use run in auto)
    moreover have "on_disk env dn v" if "v \<in> dn_written dn" for v using st that by (simp add: stored_def)
    ultimately show ?thesis
      using True m by (auto simp: stored_def on_disk_def record_outcome_def) metis
  qed
qed

lemma run_task_stored:
  assumes "stored env dn" and "sized env dn"
  shows "stored env (run_task env i dn) \<and> sized env (run_task env i dn)"
proof (cases "dn_alive dn")
  case True
  obtain w data where t: "dn_tasks dn ! i = (w, data)" by (cases "dn_tasks dn ! i")
  obtain outcome s fs where wt: "write_task env (dn_res dn) (dn_session dn) (dn_fs dn) w data = (outcome, s, fs)"
    by (cases "write_task env (dn_res dn) (dn_session dn) (dn_fs dn) w data")
  show ?thesis
    using write_task_stored[OF assms wt] assms(2) write_task_fields(4)[OF wt] unfolding run_task_alive[OF True t wt] by (simp add: sized_def)
next
  case False
  then show ?thesis using assms by (simp add: run_task_def stored_def sized_def on_disk_def split: prod.split)
qed

lemma persist_resume_disk [simp]: "sf_disk (persist_resume env c bf fs) = sf_disk fs"
  by (simp add: persist_resume_def Let_def split: sum.split)

lemma download_step_inv:
  assumes "download_step env dn dn'" and "accounted before dn" and "stored env dn" and "sized env dn"
  shows "accounted before dn' \<and> stored env dn' \<and> sized env dn'"
  using assms(1)
proof cases
  case (marks index s source data)
  have wf: "bf_wf (ts_bitfield (dn_session dn))" using assms(2) by (simp add: accounted_def)
  show ?thesis
    using mark_accounted[OF assms(2) marks(3,2)] same_disk[of dn' dn] add_piece_marks(6)[OF marks(3) wf] assms(3,4) marks(1) by simp
next
  case (advances xs a ys rest s lost)
  have "ts_metadata s = ts_metadata (dn_session dn)" using advance_effect[OF advances(3)] by blast
  then show ?thesis
    using advance_accounted[OF assms(2) advances(2,3)] same_disk[of dn' dn] assms(3,4) advances(1) by simp
next
  case receives
  have "ts_metadata (dn_session dn') = ts_metadata (dn_session dn)" "dn_res dn' = dn_res dn" "dn_fs dn' = dn_fs dn" "dn_written dn' = dn_written dn"
    using receives by (auto simp: receive_piece_def split: torrent_state.splits if_splits list.splits)
  then show ?thesis using receive_accounted[OF assms(2) receives] assms(3,4) same_disk[of dn' dn] by simp
next
  case (writes i)
  then show ?thesis using run_task_accounted[OF assms(2)] run_task_stored[OF assms(3,4)] by blast
next
  case checks
  then obtain b where dn': "dn' = dn\<lparr>dn_checks := dn_checks dn - 1, dn_done := b\<rparr>" by (auto simp: check_done_def Let_def)
  have "accounted before dn'" using assms(2) unfolding dn' accounted_def under_way_def waiting_def by simp
  then show ?thesis using assms(3,4) same_disk[of dn' dn] by (simp add: dn')
next
  case persists
  then show ?thesis
    using assms(2-4) by (simp add: persist_tick_def accounted_def under_way_def waiting_def stored_def sized_def on_disk_def)
qed

lemma download_run_inv:
  assumes "download_run env dn dn'" and "accounted before dn" and "stored env dn" and "sized env dn"
  shows "accounted before dn' \<and> stored env dn' \<and> sized env dn'"
  using assms by induction (auto dest: download_step_inv)

lemma download_started:
  assumes "start_downloader renv s fs names out = Some (dn, out')"
  obtains p token tx where "ts_state s = Downloading p (dn_dest dn) (Some (dn_res dn)) token tx"
    "dn_session dn = s\<lparr>ts_state := Downloading p (dn_dest dn) None token tx\<rparr>" "dn_fs dn = fs" "dn_names dn = names" "dn_arrivals dn = []"
    "dn_tasks dn = []" "dn_checks dn = 0" "dn_alive dn" "\<not> dn_done dn" "dn_written dn = {}" "dn_failed dn = {}"
proof (cases "take_downloading (ts_state s)" rule: prod.exhaust)
  case (Pair a b)
  then obtain dest res where take: "take_downloading (ts_state s) = (Some (dest, res), b)"
    using assms by (cases a) (auto simp: start_downloader_def)
  moreover from this obtain p token tx where "ts_state s = Downloading p dest (Some res) token tx" "b = Downloading p dest None token tx"
    by (cases "ts_state s" rule: take_downloading.cases) auto
  ultimately show thesis using assms that by (auto simp: start_downloader_def Let_def split: if_splits)
qed

lemma accounted_started:
  assumes start: "start_downloader renv s fs names out = Some (dn, out')" and "bf_wf (ts_bitfield s)"
    and "queue_of (ts_state s) = []" and "ts_pending_writes s = 0"
  shows "accounted (\<lambda>w. bf_have (ts_bitfield s) (unat w) = Some True) dn"
  using start
proof (rule download_started)
  fix p token tx
  assume "ts_state s = Downloading p (dn_dest dn) (Some (dn_res dn)) token tx"
    "dn_session dn = s\<lparr>ts_state := Downloading p (dn_dest dn) None token tx\<rparr>" "dn_tasks dn = []" "dn_arrivals dn = []" "dn_alive dn"
  then show ?thesis using assms(2-4) by (simp add: accounted_def under_way_def waiting_def bf_have_mem)
qed

text \<open>The counter of pending writes cannot wrap around: it counts distinct piece indices.\<close>

lemma pending_writes_exact:
  assumes "accounted before dn" and "ts_pending_writes (dn_session dn) = 0"
  shows "waiting dn = [] \<and> filter is_counted (dn_arrivals dn) = []"
proof -
  let ?n = "length (filter is_counted (dn_arrivals dn)) + length (waiting dn)"
  have "?n \<le> length (under_way dn)" by (simp add: under_way_def)
  moreover have "length (under_way dn) = card (set (under_way dn))" using assms(1) by (simp add: accounted_def distinct_card)
  moreover have "card (set (under_way dn)) \<le> card (UNIV :: u32 set)" by (rule card_mono) simp_all
  ultimately have "?n < 2 ^ 64" by (simp add: card_word)
  moreover have "(word_of_nat ?n :: u64) = 0" using assms by (simp add: accounted_def)
  then have "2 ^ 64 dvd ?n" using word_of_nat_eq_0_iff[where ?'a = 64, of ?n] by (simp del: of_nat_add)
  ultimately have "\<not> 0 < ?n" by (meson dvd_imp_le leD)
  then show ?thesis by simp
qed

lemma drained_piece_on_disk:
  assumes start: "start_downloader renv s fs names out = Some (dn, out')"
    and fresh: "bf_wf (ts_bitfield s)" "queue_of (ts_state s) = []" "ts_pending_writes s = 0"
    and disk: "handler_wf (rs_handler (dn_res dn)) (sf_disk fs)"
    and sizes: "\<forall>w data. verified env (ts_metadata s) w data \<longrightarrow> piece_fits (rs_handler (dn_res dn)) w data"
    and run: "download_run env dn dn'"
    and drained: "ts_pending_writes (dn_session dn') = 0" "dn_arrivals dn' = []" "dn_failed dn' = {}"
    and marked: "bf_have (ts_bitfield (dn_session dn')) (unat w) = Some True" "bf_have (ts_bitfield s) (unat w) = Some False"
  shows "handler_wf (rs_handler (dn_res dn')) (sf_disk (dn_fs dn'))" and "on_disk env dn' w"
proof -
  let ?before = "\<lambda>w. bf_have (ts_bitfield s) (unat w) = Some True"
  have "stored env dn" "sized env dn"
    using start disk sizes by (auto elim!: download_started simp: stored_def sized_def)
  then have inv: "accounted ?before dn'" "stored env dn'"
    using download_run_inv[OF run accounted_started[OF start fresh]] by blast+
  have "bf_mem (ts_bitfield (dn_session dn')) (unat w)"
    using marked(1) inv(1) by (simp add: accounted_def bf_have_mem)
  moreover have "under_way dn' = []" using pending_writes_exact[OF inv(1) drained(1)] drained(2) by (simp add: under_way_def)
  ultimately have "w \<in> dn_written dn'"
    using inv(1) drained(3) marked(2) by (auto simp: accounted_def)
  then show "on_disk env dn' w" using inv(2) by (simp add: stored_def)
  show "handler_wf (rs_handler (dn_res dn')) (sf_disk (dn_fs dn'))" using inv(2) by (simp add: stored_def)
qed

subsection \<open>Schedules\<close>

lemma mark_missing:
  assumes "bf_wf (ts_bitfield (dn_session dn))" and "unat w < piece_count (ts_bitfield (dn_session dn))"
    and "\<not> bf_mem (ts_bitfield (dn_session dn)) (unat w)"
  obtains bf where "bf_wf bf" "piece_count bf = piece_count (ts_bitfield (dn_session dn))"
    "\<forall>j. bf_mem bf j \<longleftrightarrow> bf_mem (ts_bitfield (dn_session dn)) j \<or> j = unat w"
    "download_step env dn (dn\<lparr>dn_session := (dn_session dn)\<lparr>ts_bitfield := bf\<rparr>, dn_arrivals := dn_arrivals dn @ [Marked source w data]\<rparr>)"
proof -
  obtain bf where bf: "bf_set (ts_bitfield (dn_session dn)) (unat w) = Some bf" "bf_wf bf" "piece_count bf = piece_count (ts_bitfield (dn_session dn))"
    "\<forall>j. bf_mem bf j \<longleftrightarrow> bf_mem (ts_bitfield (dn_session dn)) j \<or> j = unat w"
    using bf_set_wf[OF assms(1), of "unat w"] assms(2) by blast
  have "add_piece w (dn_session dn) = Some (True, (dn_session dn)\<lparr>ts_bitfield := bf\<rparr>)"
    using assms bf(1) by (simp add: add_piece_def session_set_bitfield_def bf_have_mem)
  then show thesis using bf assms(2) that marks by blast
qed

text \<open>The three remaining sections of an arrival, one after the other.\<close>

definition queued :: "sock_addr \<Rightarrow> u32 \<Rightarrow> bytes \<Rightarrow> torrent_session \<Rightarrow> torrent_session" where
  "queued source w data s = send_downloaded_piece w data (clear_request source w s)"

lemma queue_marked:
  assumes "dn_arrivals dn = xs @ Marked source w data # ys"
    and "ts_state (dn_session dn) = Downloading p dest res token tx" and "ch_open tx" and "ch_queue tx = []"
  shows "download_run env dn (dn\<lparr>dn_session := queued source w data (dn_session dn), dn_arrivals := xs @ ys\<rparr>)"
proof -
  let ?s1 = "clear_request source w (dn_session dn)"
  let ?s2 = "?s1\<lparr>ts_pending_writes := ts_pending_writes ?s1 + 1\<rparr>"
  let ?s3 = "?s2\<lparr>ts_state := Downloading p dest res token (tx\<lparr>ch_queue := [(w, data)]\<rparr>)\<rparr>"
  let ?dn = "\<lambda>s as. dn\<lparr>dn_session := s, dn_arrivals := as\<rparr>"
  have q: "queued source w data (dn_session dn) = ?s3" using assms(2-4) by (simp add: queued_def send_downloaded_piece_def Let_def)
  have "download_step env dn (?dn ?s1 (xs @ [Cleared w data] @ ys))"
    using advances[of dn xs "Marked source w data" ys "[Cleared w data]" ?s1 "{}" env] assms(1) by simp
  moreover have "download_step env (?dn ?s1 (xs @ [Cleared w data] @ ys)) (?dn ?s2 (xs @ [Counted w data] @ ys))"
    using advances[of "?dn ?s1 (xs @ [Cleared w data] @ ys)" xs "Cleared w data" ys "[Counted w data]" ?s2 "{}" env] by simp
  moreover have "advance (Counted w data) ?s2 = Some ([], ?s3, {})"
    using assms(2-4) by (simp add: hand_over_def has_room_def Let_def)
  then have "download_step env (?dn ?s2 (xs @ [Counted w data] @ ys)) (?dn ?s3 (xs @ ys))"
    using advances[of "?dn ?s2 (xs @ [Counted w data] @ ys)" xs "Counted w data" ys "[]" ?s3 "{}" env] by simp
  ultimately show ?thesis unfolding q by (blast intro: run_here run_step)
qed

lemma queued_fields:
  assumes "ts_state s = Downloading p dest res token tx" and "ch_open tx" and "ch_queue tx = []"
  shows "ts_state (queued source w data s) = Downloading p dest res token (tx\<lparr>ch_queue := [(w, data)]\<rparr>)"
    and "ts_pending_writes (queued source w data s) = ts_pending_writes s + 1" and "ts_bitfield (queued source w data s) = ts_bitfield s"
    and "ts_metadata (queued source w data s) = ts_metadata s" and "ts_cancelled (queued source w data s) = ts_cancelled s"
    and "ts_next_token (queued source w data s) = ts_next_token s"
  using assms by (simp_all add: queued_def send_downloaded_piece_def Let_def)

lemma receive_first:
  assumes "ts_state (dn_session dn) = Downloading p dest res token tx" and "ch_queue tx = m # rest"
    and "token \<notin> ts_cancelled (dn_session dn)" and "\<not> dn_done dn" and "dn_alive dn"
  shows "receive_piece dn = Some (dn\<lparr>dn_session := (dn_session dn)\<lparr>ts_state := Downloading p dest res token (tx\<lparr>ch_queue := rest\<rparr>)\<rparr>,
    dn_tasks := dn_tasks dn @ [m]\<rparr>)"
  using assms by (simp add: receive_piece_def)

text \<open>Pieces that arrived one after the other while the queue was empty and went all the way to the disk;
  a check is due for each.\<close>

definition delivered :: "(u32 \<times> bytes) list \<Rightarrow> download \<Rightarrow> download \<Rightarrow> bool" where
  "delivered ws dn dn' \<longleftrightarrow>
     dn_res dn' = dn_res dn \<and> dn_names dn' = dn_names dn \<and> dn_dest dn' = dn_dest dn \<and> dn_failed dn' = dn_failed dn \<and> dn_done dn' = dn_done dn
     \<and> dn_alive dn' = dn_alive dn \<and> dn_arrivals dn' = dn_arrivals dn \<and> dn_tasks dn' = dn_tasks dn \<and> dn_written dn' = dn_written dn \<union> fst ` set ws
     \<and> dn_checks dn' = dn_checks dn + length ws \<and> sf_files (dn_fs dn') = sf_files (dn_fs dn)
     \<and> (\<forall>i. map_option length (sf_disk (dn_fs dn') i) = map_option length (sf_disk (dn_fs dn) i))
     \<and> handler_wf (rs_handler (dn_res dn)) (sf_disk (dn_fs dn'))
     \<and> (\<forall>v. read_piece (as_seeding (rs_handler (dn_res dn))) (sf_disk (dn_fs dn')) v =
          (case map_of ws v of Some data \<Rightarrow> Inr data | None \<Rightarrow> read_piece (as_seeding (rs_handler (dn_res dn))) (sf_disk (dn_fs dn)) v))
     \<and> ts_metadata (dn_session dn') = ts_metadata (dn_session dn) \<and> ts_state (dn_session dn') = ts_state (dn_session dn)
     \<and> ts_cancelled (dn_session dn') = ts_cancelled (dn_session dn) \<and> ts_next_token (dn_session dn') = ts_next_token (dn_session dn)
     \<and> ts_pending_writes (dn_session dn') = ts_pending_writes (dn_session dn)
     \<and> bf_wf (ts_bitfield (dn_session dn')) \<and> piece_count (ts_bitfield (dn_session dn')) = piece_count (ts_bitfield (dn_session dn))
     \<and> (\<forall>j. bf_mem (ts_bitfield (dn_session dn')) j \<longleftrightarrow> bf_mem (ts_bitfield (dn_session dn)) j \<or> j \<in> unat ` fst ` set ws)"

lemma deliver_one:
  assumes st: "ts_state (dn_session dn) = Downloading p dest res token tx" "ch_open tx" "ch_queue tx = []"
    and live: "token \<notin> ts_cancelled (dn_session dn)" "dn_alive dn" "\<not> dn_done dn" "dn_tasks dn = []"
    and bf: "bf_wf (ts_bitfield (dn_session dn))" "unat w < piece_count (ts_bitfield (dn_session dn))" "\<not> bf_mem (ts_bitfield (dn_session dn)) (unat w)"
    and good: "verified env (ts_metadata (dn_session dn)) w data"
    and disk: "handler_wf (rs_handler (dn_res dn)) (sf_disk (dn_fs dn))" "piece_fits (rs_handler (dn_res dn)) w data"
  obtains dn' where "download_run env dn dn'" and "delivered [(w, data)] dn dn'"
proof -
  obtain bf where b: "bf_wf bf" "piece_count bf = piece_count (ts_bitfield (dn_session dn))"
    "\<forall>j. bf_mem bf j \<longleftrightarrow> bf_mem (ts_bitfield (dn_session dn)) j \<or> j = unat w"
    and r1: "download_step env dn (dn\<lparr>dn_session := (dn_session dn)\<lparr>ts_bitfield := bf\<rparr>, dn_arrivals := dn_arrivals dn @ [Marked source w data]\<rparr>)"
      (is "download_step _ _ ?dn1")
    by (rule mark_missing[OF bf])
  have st1: "ts_state (dn_session ?dn1) = Downloading p dest res token tx" using st by simp
  define s2 where "s2 = queued source w data (dn_session ?dn1)"
  have q: "ts_state s2 = Downloading p dest res token (tx\<lparr>ch_queue := [(w, data)]\<rparr>)" "ts_pending_writes s2 = ts_pending_writes (dn_session dn) + 1"
    "ts_bitfield s2 = bf" "ts_metadata s2 = ts_metadata (dn_session dn)" "ts_cancelled s2 = ts_cancelled (dn_session dn)" "ts_next_token s2 = ts_next_token (dn_session dn)"
    using queued_fields[OF st1 st(2,3), of source w data] by (simp_all add: s2_def)
  have r2: "download_run env ?dn1 (dn\<lparr>dn_session := s2\<rparr>)"
    using queue_marked[of ?dn1 "dn_arrivals dn" source w data "[]", OF _ st1 st(2,3), of env] by (simp add: s2_def)
  let ?s3 = "s2\<lparr>ts_state := Downloading p dest res token tx\<rparr>"
  have same: "tx\<lparr>ch_queue := []\<rparr> = tx" using st(3) by simp
  have "receive_piece (dn\<lparr>dn_session := s2\<rparr>) = Some (dn\<lparr>dn_session := ?s3, dn_tasks := [(w, data)]\<rparr>)"
    using receive_first[of "dn\<lparr>dn_session := s2\<rparr>" p dest res token "tx\<lparr>ch_queue := [(w, data)]\<rparr>" "(w, data)" "[]"] q live same by simp
  then have r3: "download_step env (dn\<lparr>dn_session := s2\<rparr>) (dn\<lparr>dn_session := ?s3, dn_tasks := [(w, data)]\<rparr>)" (is "download_step _ _ ?dn3")
    by (rule receives)
  obtain d ev where wt: "write_task env (dn_res dn) ?s3 (dn_fs dn) w data =
      (PieceWritten, ?s3\<lparr>ts_pending_writes := ts_pending_writes ?s3 - 1, ts_events := ts_events ?s3 @ ev\<rparr>, (dn_fs dn)\<lparr>sf_disk := d\<rparr>)"
    and d: "handler_wf (rs_handler (dn_res dn)) d" "\<forall>i. map_option length (d i) = map_option length (sf_disk (dn_fs dn) i)"
      "read_piece (as_seeding (rs_handler (dn_res dn))) d w = Inr data"
      "\<forall>v. v \<noteq> w \<longrightarrow> read_piece (as_seeding (rs_handler (dn_res dn))) d v = read_piece (as_seeding (rs_handler (dn_res dn))) (sf_disk (dn_fs dn)) v"
    by (rule write_task_verified[of env ?s3 w data, OF _ disk]) (use good q in auto)
  define dn4 where "dn4 = run_task env 0 ?dn3"
  have r4: "download_step env ?dn3 dn4" unfolding dn4_def by (rule writes) simp
  have dn4: "dn4 = record_outcome w PieceWritten (?dn3\<lparr>dn_tasks := [],
      dn_session := ?s3\<lparr>ts_pending_writes := ts_pending_writes ?s3 - 1, ts_events := ts_events ?s3 @ ev\<rparr>, dn_fs := (dn_fs dn)\<lparr>sf_disk := d\<rparr>\<rparr>)"
    unfolding dn4_def using run_task_alive[of ?dn3 0 w data env] live wt by simp
  have "download_run env dn dn4" by (rule run_step[OF run_step[OF download_run_trans[OF run_step[OF run_here r1] r2] r3] r4])
  moreover have "delivered [(w, data)] dn dn4"
    using b d q live st by (auto simp: delivered_def dn4 record_outcome_def)
  ultimately show thesis by (rule that)
qed

lemma delivered_Cons:
  assumes "delivered [(w, data)] dn dn1" and "delivered ws dn1 dn2" and "w \<notin> fst ` set ws"
  shows "delivered ((w, data) # ws) dn dn2"
proof -
  have "map_of ws w = None" using assms(3) by (simp add: map_of_eq_None_iff)
  then have "read_piece (as_seeding (rs_handler (dn_res dn))) (sf_disk (dn_fs dn2)) v =
      (case map_of ((w, data) # ws) v of Some data \<Rightarrow> Inr data | None \<Rightarrow> read_piece (as_seeding (rs_handler (dn_res dn))) (sf_disk (dn_fs dn)) v)" for v
    using assms(1,2) by (auto simp: delivered_def split: option.split)
  moreover have "bf_mem (ts_bitfield (dn_session dn2)) j \<longleftrightarrow> bf_mem (ts_bitfield (dn_session dn)) j \<or> j \<in> unat ` fst ` set ((w, data) # ws)" for j
    using assms(1,2) unfolding delivered_def by auto
  ultimately show ?thesis using assms(1,2) unfolding delivered_def by simp
qed

text \<open>Any number of pieces, in any order: the queue never holds more than one of them.\<close>

lemma deliver_all:
  assumes "ts_state (dn_session dn) = Downloading p dest res token tx" "ch_open tx" "ch_queue tx = []"
    and "token \<notin> ts_cancelled (dn_session dn)" "dn_alive dn" "\<not> dn_done dn" "dn_tasks dn = []"
    and "bf_wf (ts_bitfield (dn_session dn))" "handler_wf (rs_handler (dn_res dn)) (sf_disk (dn_fs dn))"
    and "distinct (map fst ws)" "\<forall>(w, data)\<in>set ws. unat w < piece_count (ts_bitfield (dn_session dn)) \<and> \<not> bf_mem (ts_bitfield (dn_session dn)) (unat w)
       \<and> verified env (ts_metadata (dn_session dn)) w data \<and> piece_fits (rs_handler (dn_res dn)) w data"
  shows "\<exists>dn'. download_run env dn dn' \<and> delivered ws dn dn'"
  using assms
proof (induction ws arbitrary: dn)
  case Nil
  then show ?case by (intro exI[of _ dn]) (simp add: run_here delivered_def)
next
  case (Cons p ws)
  obtain w data where p: "p = (w, data)" by (cases p)
  obtain dn1 where one: "download_run env dn dn1" "delivered [(w, data)] dn dn1"
    by (rule deliver_one[OF Cons.prems(1-8), of w env data]) (use Cons.prems p in auto)
  have d1: "dn_res dn1 = dn_res dn" "ts_metadata (dn_session dn1) = ts_metadata (dn_session dn)"
    "piece_count (ts_bitfield (dn_session dn1)) = piece_count (ts_bitfield (dn_session dn))"
    "\<forall>j. bf_mem (ts_bitfield (dn_session dn1)) j \<longleftrightarrow> bf_mem (ts_bitfield (dn_session dn)) j \<or> j = unat w"
    using one(2) by (simp_all add: delivered_def)
  have other: "unat v \<noteq> unat w" if "(v, x) \<in> set ws" for v x
    using Cons.prems(10) p that by (force simp: word_unat_eq_iff)
  have "\<exists>dn'. download_run env dn1 dn' \<and> delivered ws dn1 dn'"
  proof (rule Cons.IH)
    show "\<forall>(v, x)\<in>set ws. unat v < piece_count (ts_bitfield (dn_session dn1)) \<and> \<not> bf_mem (ts_bitfield (dn_session dn1)) (unat v)
       \<and> verified env (ts_metadata (dn_session dn1)) v x \<and> piece_fits (rs_handler (dn_res dn1)) v x"
      using Cons.prems(11) other by (auto simp: d1)
  qed (use Cons.prems one(2) in \<open>simp_all add: delivered_def\<close>)
  moreover have "w \<notin> fst ` set ws" using Cons.prems(10) p by simp
  ultimately show ?case using one delivered_Cons download_run_trans unfolding p by blast
qed

lemma check_all:
  assumes "bf_wf (ts_bitfield (dn_session dn))" and "piece_count (ts_bitfield (dn_session dn)) = session_pieces (dn_session dn)"
    and "\<forall>j < session_pieces (dn_session dn). bf_mem (ts_bitfield (dn_session dn)) j" and "0 < session_pieces (dn_session dn)"
  shows "check_done dn = Some (dn\<lparr>dn_checks := dn_checks dn - 1, dn_done := True\<rparr>)"
proof -
  let ?bf = "ts_bitfield (dn_session dn)"
  have "filter (bf_mem ?bf) [0..<piece_count ?bf] = [0..<piece_count ?bf]" using assms(2,3) by (simp add: filter_id_conv)
  then have "bf_count ?bf = Some (piece_count ?bf)" by (simp add: bf_count_mem[OF assms(1)])
  then show ?thesis using assms(2,4) by (simp add: check_done_def session_pieces_def Let_def)
qed

subsection \<open>Properties\<close>

text \<open>C4: however the sections of the router's arrivals, the downloader's loop, its write tasks and the
  periodic persisting interleave: when no write is counted as pending, no arrival is between marking
  its piece and handing it over, and no piece was refused or dropped, every piece that the session
  marked since the download started is on disk and verifies against the torrent. The download
  starts with an empty queue on files of the proper lengths, data that verifies has the size of its
  piece, and the disk writes every buffer whole. (The counter alone does not say this: a piece is
  marked before its write is counted, see \<open>marked_before_counted\<close>.)\<close>

theorem drained_download_is_on_disk:
  assumes start: "start_downloader renv s fs names out = Some (dn, out')"
    and fresh: "bf_wf (ts_bitfield s)" "queue_of (ts_state s) = []" "ts_pending_writes s = 0"
    and disk: "handler_wf (rs_handler (dn_res dn)) (sf_disk fs)"
    and sizes: "\<forall>w data. verified env (ts_metadata s) w data \<longrightarrow> piece_fits (rs_handler (dn_res dn)) w data"
    and run: "download_run env dn dn'"
    and drained: "ts_pending_writes (dn_session dn') = 0" "dn_arrivals dn' = []" "dn_failed dn' = {}"
    and marked: "bf_have (ts_bitfield (dn_session dn')) (unat w) = Some True" "bf_have (ts_bitfield s) (unat w) = Some False"
  shows "\<exists>data. read_piece (as_seeding (rs_handler (dn_res dn'))) (sf_disk (dn_fs dn')) w = Inr data
    \<and> verify_hash (se_sha1 env) (se_sha256 env) (ts_metadata (dn_session dn')) w data = Inr ()"
  using drained_piece_on_disk(2)[OF assms] by (simp add: on_disk_def verified_def)

text \<open>Between marking a piece and counting its write the counter says that nothing is pending, and the
  disk is as before.\<close>

lemma marked_before_counted:
  fixes w :: u32
  assumes "bf_wf (ts_bitfield (dn_session dn))" and "unat w < piece_count (ts_bitfield (dn_session dn))"
    and "\<not> bf_mem (ts_bitfield (dn_session dn)) (unat w)"
  shows "\<exists>dn'. download_run env dn dn' \<and> bf_have (ts_bitfield (dn_session dn')) (unat w) = Some True
     \<and> ts_pending_writes (dn_session dn') = ts_pending_writes (dn_session dn) \<and> dn_fs dn' = dn_fs dn \<and> dn_failed dn' = dn_failed dn"
proof -
  obtain bf where bf: "bf_wf bf" "\<forall>j. bf_mem bf j \<longleftrightarrow> bf_mem (ts_bitfield (dn_session dn)) j \<or> j = unat w"
    and step: "download_step env dn (dn\<lparr>dn_session := (dn_session dn)\<lparr>ts_bitfield := bf\<rparr>, dn_arrivals := dn_arrivals dn @ [Marked (SocketV4 0 0) w []]\<rparr>)"
    by (rule mark_missing[OF assms])
  show ?thesis by (rule exI, rule conjI[OF run_step[OF run_here step]]) (use bf in \<open>simp add: bf_have_mem\<close>)
qed

definition strict_env :: session_env where
  "strict_env = sample_env\<lparr>se_sha1 := (\<lambda>d. if d = [7] then replicate 20 3 else [])\<rparr>"

definition download_handler :: "downloading multi_file_handler" where
  "download_handler = \<lparr>targets = [FileChunk_new 1 0 1], mf_piece_length = 16384, total_length = 1, mf_state = DownloadingMode\<rparr>"

definition sample_res :: "downloading state_resources" where
  "sample_res = \<lparr>rs_handler = download_handler, rs_cache = \<lparr>sc_dir = [''/'', ''d'', ''downloads'', ''ab''], sc_torrent = sample_torrent, sc_resume = None\<rparr>\<rparr>"

text \<open>A name space in which a download has begun.\<close>

definition begun_download :: name_space where
  "begun_download = \<lparr>ns_entries = [([''/''], NsDir), ([''/'', ''d''], NsDir), ([''/'', ''d'', ''downloads''], NsDir),
      ([''/'', ''d'', ''downloads'', ''ab''], NsDir), ([''/'', ''d'', ''downloads'', ''ab'', ''a''], NsFile 1), ([''/'', ''u''], NsDir)],
     ns_mode = (\<lambda>_. 420), ns_grants = (\<lambda>_. True)\<rparr>"

lemma strict_verified: "verified strict_env sample_torrent w data \<longleftrightarrow> unat w = 0 \<and> data = [7]"
  by (auto simp: verified_def strict_env_def sample_torrent_def v1_verify_hash_def v1_piece_hashes_def chunks_exact_def chunks_short Let_def)

lemma download_handler_wf: "handler_wf download_handler [1 \<mapsto> [c]]"
  by (simp add: handler_wf_unfold download_handler_def FileChunk_new_def backed_def)

definition one_session_downloading :: "downloading state_resources option \<Rightarrow> torrent_session" where
  "one_session_downloading res = leech\<lparr>ts_state := Downloading [''/'', ''d'', ''downloads'', ''ab''] [''/'', ''u''] res 0 (new_channel 64)\<rparr>"

definition one_piece :: download where
  "one_piece = \<lparr>dn_session = one_session_downloading None, dn_fs = sample_fs, dn_names = begun_download, dn_res = sample_res,
     dn_dest = [''/'', ''u''], dn_arrivals = [], dn_tasks = [], dn_checks = 0, dn_done = False, dn_alive = True, dn_written = {}, dn_failed = {}\<rparr>"

lemma leech_fields:
  "ts_bitfield leech = bf_empty 1" "ts_metadata leech = sample_torrent"
  "ts_pending_writes leech = 0" "ts_cancelled leech = {}" "ts_next_token leech = ts_next_token (session_initial sample_torrent)"
  by (simp_all add: leech_def session_initial_def sample_torrent_fields)

lemma one_piece_fields:
  "dn_session one_piece = one_session_downloading None" "dn_fs one_piece = sample_fs" "dn_res one_piece = sample_res" "dn_dest one_piece = [''/'', ''u'']"
  "dn_names one_piece = begun_download" "dn_arrivals one_piece = []" "dn_tasks one_piece = []" "dn_checks one_piece = 0" "\<not> dn_done one_piece" "dn_alive one_piece" "dn_failed one_piece = {}"
  "dn_written one_piece = {}"
  by (simp_all add: one_piece_def)

lemma one_session_fields:
  "ts_bitfield (one_session_downloading res) = bf_empty 1" "ts_metadata (one_session_downloading res) = sample_torrent"
  "ts_state (one_session_downloading res) = Downloading [''/'', ''d'', ''downloads'', ''ab''] [''/'', ''u''] res 0 (new_channel 64)"
  "ts_pending_writes (one_session_downloading res) = 0" "ts_cancelled (one_session_downloading res) = {}"
  "session_pieces (one_session_downloading res) = 1"
  by (simp_all add: one_session_downloading_def leech_fields session_pieces_def sample_torrent_fields)

lemma one_piece_starts:
  obtains out' where "start_downloader (open_router [1]) (one_session_downloading (Some sample_res)) sample_fs begun_download [] = Some (one_piece, out')"
  by (simp add: start_downloader_def one_session_downloading_def leech_def one_piece_def sample_torrent_fields session_initial_def Let_def)

lemma one_piece_sizes:
  assumes "\<forall>w data. verified env sample_torrent w data \<longleftrightarrow> unat w = 0 \<and> data = [7]"
  shows "\<forall>w data. verified env (ts_metadata (one_session_downloading res)) w data \<longrightarrow> piece_fits (rs_handler (dn_res one_piece)) w data"
  using assms by (simp add: one_session_fields piece_fits_def one_piece_def sample_res_def download_handler_def)

lemma one_piece_disk: "handler_wf (rs_handler (dn_res one_piece)) (sf_disk sample_fs)"
  by (simp add: one_piece_def sample_res_def sample_fs_def download_handler_wf[simplified])

text \<open>The only piece arrives, is received and written.\<close>

lemma one_piece_run:
  assumes "\<forall>w data. verified env sample_torrent w data \<longleftrightarrow> unat w = 0 \<and> data = [7]"
  obtains dn' where "download_run env one_piece dn'" "delivered [(0, [7])] one_piece dn'"
proof -
  have n: "piece_count (bf_empty 1) = 1" by (simp add: bf_empty_def)
  show thesis
    by (rule deliver_one[of one_piece "[''/'', ''d'', ''downloads'', ''ab'']" "[''/'', ''u'']" None 0 "new_channel 64" 0 env "[7]"])
      (use assms that one_piece_disk one_piece_sizes[OF assms, of None] in \<open>auto simp: one_piece_fields one_session_fields new_channel_def n[simplified] verified_def\<close>)
qed

theorem drained_download_is_on_disk_witness:
  "\<exists>dn' data. download_run strict_env one_piece dn' \<and> bf_have (ts_bitfield (dn_session dn')) 0 = Some True
     \<and> read_piece (as_seeding download_handler) (sf_disk (dn_fs dn')) 0 = Inr data \<and> verified strict_env sample_torrent 0 data"
proof -
  have strict: "\<forall>w data. verified strict_env sample_torrent w data \<longleftrightarrow> unat w = 0 \<and> data = [7]" by (simp add: strict_verified)
  obtain out' where start: "start_downloader (open_router [1]) (one_session_downloading (Some sample_res)) sample_fs begun_download [] = Some (one_piece, out')"
    by (rule one_piece_starts)
  obtain dn' where run: "download_run strict_env one_piece dn'" and d: "delivered [(0, [7])] one_piece dn'" by (rule one_piece_run[OF strict])
  have f: "dn_res dn' = sample_res" "dn_arrivals dn' = []" "dn_failed dn' = {}" "ts_pending_writes (dn_session dn') = 0" "ts_metadata (dn_session dn') = sample_torrent"
    "bf_have (ts_bitfield (dn_session dn')) 0 = Some True"
    using d by (simp_all add: delivered_def one_piece_fields one_session_fields bf_have_mem)
  have "\<exists>data. read_piece (as_seeding (rs_handler (dn_res dn'))) (sf_disk (dn_fs dn')) 0 = Inr data
      \<and> verify_hash (se_sha1 strict_env) (se_sha256 strict_env) (ts_metadata (dn_session dn')) 0 data = Inr ()"
    by (rule drained_download_is_on_disk[OF start _ _ _ one_piece_disk one_piece_sizes[OF strict] run])
      (use f in \<open>simp_all add: one_session_fields new_channel_def bf_have_mem\<close>)
  then show ?thesis using run f by (intro exI[of _ dn']) (auto simp: sample_res_def verified_def)
qed

text \<open>C34: the download can be declared done while a verified piece is still only in memory. The
  router marks pieces when they arrive and a write task compares the number of marked pieces, so
  when the last two pieces are queued together the first task to finish ends the download: the
  loop stops, the queue still holds the second piece, and the disk does not.\<close>

theorem done_before_last_write:
  assumes st: "ts_state (dn_session dn) = Downloading p dest res token tx" "ch_open tx" "ch_queue tx = []"
    and live: "token \<notin> ts_cancelled (dn_session dn)" "dn_alive dn" "\<not> dn_done dn" "dn_tasks dn = []"
    and bf: "bf_wf (ts_bitfield (dn_session dn))" "piece_count (ts_bitfield (dn_session dn)) = session_pieces (dn_session dn)"
    and two: "w1 \<noteq> w2" "unat w1 < session_pieces (dn_session dn)" "unat w2 < session_pieces (dn_session dn)"
    and missing: "\<forall>i < session_pieces (dn_session dn). bf_have (ts_bitfield (dn_session dn)) i = Some (i \<noteq> unat w1 \<and> i \<noteq> unat w2)"
    and good: "verify_hash (se_sha1 env) (se_sha256 env) (ts_metadata (dn_session dn)) w1 d1 = Inr ()"
    and disk: "handler_wf (rs_handler (dn_res dn)) (sf_disk (dn_fs dn))" "piece_fits (rs_handler (dn_res dn)) w1 d1"
  shows "\<exists>dn'. download_run env dn dn' \<and> dn_done dn' \<and> receive_piece dn' = None \<and> dn_failed dn' = dn_failed dn
    \<and> is_complete (ts_bitfield (dn_session dn')) = Some True \<and> queue_of (ts_state (dn_session dn')) = [(w2, d2)]
    \<and> read_piece (as_seeding (rs_handler (dn_res dn))) (sf_disk (dn_fs dn')) w2 = read_piece (as_seeding (rs_handler (dn_res dn))) (sf_disk (dn_fs dn)) w2"
proof -
  let ?s = "dn_session dn" and ?n = "session_pieces (dn_session dn)"
  have mem: "bf_mem (ts_bitfield ?s) i \<longleftrightarrow> i < ?n \<and> i \<noteq> unat w1 \<and> i \<noteq> unat w2" for i
    using missing bf(2) bf_have_mem[OF bf(1)] by (cases "i < ?n") (simp_all add: bf_mem_def)
  have ne: "unat w1 \<noteq> unat w2" using two(1) by (simp add: word_unat_eq_iff)
  let ?m1 = "Marked (SocketV4 0 0) w1 d1" and ?m2 = "Marked (SocketV4 0 0) w2 d2" and ?as = "dn_arrivals dn"
  have un1: "unat w1 < piece_count (ts_bitfield ?s)" "\<not> bf_mem (ts_bitfield ?s) (unat w1)" using two bf(2) mem by simp_all
  obtain bf1 where bf1: "bf_wf bf1" "piece_count bf1 = ?n" "\<forall>j. bf_mem bf1 j \<longleftrightarrow> bf_mem (ts_bitfield ?s) j \<or> j = unat w1"
    and r1: "download_step env dn (dn\<lparr>dn_session := ?s\<lparr>ts_bitfield := bf1\<rparr>, dn_arrivals := ?as @ [?m1]\<rparr>)" (is "download_step _ _ ?dn1")
    by (rule mark_missing[OF bf(1) un1, of env "SocketV4 0 0" d1]) (use bf(2) in simp)
  have un2: "bf_wf (ts_bitfield (dn_session ?dn1))" "unat w2 < piece_count (ts_bitfield (dn_session ?dn1))" "\<not> bf_mem (ts_bitfield (dn_session ?dn1)) (unat w2)"
    using bf1 two mem ne by simp_all
  obtain bf2 where bf2: "bf_wf bf2" "piece_count bf2 = ?n" "\<forall>j. bf_mem bf2 j \<longleftrightarrow> j < ?n"
    and r2: "download_step env ?dn1 (dn\<lparr>dn_session := ?s\<lparr>ts_bitfield := bf2\<rparr>, dn_arrivals := ?as @ [?m1, ?m2]\<rparr>)" (is "download_step _ _ ?dn2")
    by (rule mark_missing[OF un2, of env "SocketV4 0 0" d2]) (use bf1 two mem ne in auto)
  let ?st = "\<lambda>q. Downloading p dest res token (tx\<lparr>ch_queue := q\<rparr>)"
  have tx: "tx\<lparr>ch_queue := []\<rparr> = tx" using st(3) by simp
  define s3 where "s3 = queued (SocketV4 0 0) w1 d1 (?s\<lparr>ts_bitfield := bf2\<rparr>)"
  have s3: "ts_state s3 = ?st [(w1, d1)]" "ts_bitfield s3 = bf2" "ts_metadata s3 = ts_metadata ?s" "ts_cancelled s3 = ts_cancelled ?s"
    using queued_fields[of "?s\<lparr>ts_bitfield := bf2\<rparr>" p dest res token tx "SocketV4 0 0" w1 d1] st by (simp_all add: s3_def)
  have r3: "download_run env ?dn2 (dn\<lparr>dn_session := s3, dn_arrivals := ?as @ [?m2]\<rparr>)"
    using queue_marked[of ?dn2 ?as "SocketV4 0 0" w1 d1 "[?m2]" p dest res token tx env] st by (simp add: s3_def)
  let ?s4 = "s3\<lparr>ts_state := ?st []\<rparr>" and ?as4 = "?as @ [?m2]"
  have r4: "download_step env (dn\<lparr>dn_session := s3, dn_arrivals := ?as4\<rparr>) (dn\<lparr>dn_session := ?s4, dn_arrivals := ?as4, dn_tasks := [(w1, d1)]\<rparr>)" (is "download_step _ _ ?dn4")
    by (rule receives) (use live s3 in \<open>simp add: receive_piece_def\<close>)
  define s5 where "s5 = queued (SocketV4 0 0) w2 d2 ?s4"
  have s5: "ts_state s5 = ?st [(w2, d2)]" "ts_bitfield s5 = bf2" "ts_metadata s5 = ts_metadata ?s" "ts_cancelled s5 = ts_cancelled ?s"
    using queued_fields[of ?s4 p dest res token tx "SocketV4 0 0" w2 d2] st s3 by (simp_all add: s5_def tx)
  have r5: "download_run env ?dn4 (dn\<lparr>dn_session := s5, dn_arrivals := ?as, dn_tasks := [(w1, d1)]\<rparr>)" (is "download_run _ _ ?dn5")
  proof -
    have same: "?dn4\<lparr>dn_session := s5, dn_arrivals := ?as @ []\<rparr> = ?dn5" by (rule download.equality) simp_all
    have here: "queued (SocketV4 0 0) w2 d2 (dn_session ?dn4) = s5" by (simp add: s5_def)
    have "download_run env ?dn4 (?dn4\<lparr>dn_session := queued (SocketV4 0 0) w2 d2 (dn_session ?dn4), dn_arrivals := ?as @ []\<rparr>)"
      by (rule queue_marked[of ?dn4 ?as "SocketV4 0 0" w2 d2 "[]" p dest res token tx env]) (use st(2,3) in \<open>simp_all add: tx\<close>)
    then show ?thesis unfolding here same .
  qed
  have ver: "verified env (ts_metadata s5) w1 d1" using good s5(3) by (simp add: verified_def)
  obtain d ev where wt: "write_task env (dn_res dn) s5 (dn_fs dn) w1 d1 =
      (PieceWritten, s5\<lparr>ts_pending_writes := ts_pending_writes s5 - 1, ts_events := ts_events s5 @ ev\<rparr>, (dn_fs dn)\<lparr>sf_disk := d\<rparr>)"
    and other: "\<forall>v. v \<noteq> w1 \<longrightarrow> read_piece (as_seeding (rs_handler (dn_res dn))) d v = read_piece (as_seeding (rs_handler (dn_res dn))) (sf_disk (dn_fs dn)) v"
    by (rule write_task_verified[OF ver disk])
  define dn6 where "dn6 = run_task env 0 ?dn5"
  have r6: "download_step env ?dn5 dn6" unfolding dn6_def by (rule writes) simp
  have dn6: "dn6 = record_outcome w1 PieceWritten (?dn5\<lparr>dn_tasks := [],
      dn_session := s5\<lparr>ts_pending_writes := ts_pending_writes s5 - 1, ts_events := ts_events s5 @ ev\<rparr>, dn_fs := (dn_fs dn)\<lparr>sf_disk := d\<rparr>\<rparr>)"
    unfolding dn6_def using run_task_alive[of ?dn5 0 w1 d1 env] live wt by simp
  let ?dn7 = "dn6\<lparr>dn_checks := dn_checks dn6 - 1, dn_done := True\<rparr>"
  have f6: "dn_checks dn6 = Suc (dn_checks dn)" "dn_failed dn6 = dn_failed dn" "ts_bitfield (dn_session dn6) = bf2" "session_pieces (dn_session dn6) = ?n"
    "ts_state (dn_session dn6) = ?st [(w2, d2)]" "sf_disk (dn_fs dn6) = d" "ts_cancelled (dn_session dn6) = ts_cancelled ?s"
    using s5 by (simp_all add: dn6 record_outcome_def session_pieces_def)
  have "check_done dn6 = Some ?dn7" by (rule check_all) (use f6 bf2 two in auto)
  then have r7: "download_step env dn6 ?dn7" by (intro checks) (simp_all add: f6)
  have run: "download_run env dn ?dn7"
    by (rule run_step[OF run_step[OF download_run_trans[OF run_step[OF download_run_trans[OF run_step[OF run_step[OF run_here r1] r2] r3] r4] r5] r6] r7])
  have "receive_piece ?dn7 = None" by (simp add: receive_piece_def split: torrent_state.split)
  moreover have "is_complete bf2 = Some True" using bf2 by (simp add: is_complete_mem)
  ultimately show ?thesis using run other two(1) f6 by (intro exI[of _ ?dn7]) simp
qed

definition two_pieces :: download where
  "two_pieces = one_piece\<lparr>dn_session := (session_initial (TorrentFileV1
        \<lparr>v1_info = torrent_common_of sample_torrent, v1_private = False, v1_pieces = replicate 20 4 @ replicate 20 3,
         v1_mode_of = SingleFile \<lparr>ef_length = 16385, ef_path = [''a''], ef_md5sum = None\<rparr>\<rparr>))\<lparr>ts_state := Downloading [] [] None 0 (new_channel 64)\<rparr>,
      dn_fs := sample_fs\<lparr>sf_disk := [1 \<mapsto> replicate 16385 0]\<rparr>,
      dn_res := sample_res\<lparr>rs_handler := download_handler\<lparr>targets := [FileChunk_new 1 0 16385], total_length := 16385\<rparr>\<rparr>\<rparr>"

theorem done_before_last_write_witness:
  "\<exists>dn'. download_run strict_env two_pieces dn' \<and> dn_done dn' \<and> receive_piece dn' = None \<and> dn_failed dn' = {}
    \<and> is_complete (ts_bitfield (dn_session dn')) = Some True \<and> queue_of (ts_state (dn_session dn')) = [(0, [8])]"
proof -
  have n: "session_pieces (dn_session two_pieces) = 2" "ts_bitfield (dn_session two_pieces) = bf_empty 2"
    by (simp_all add: two_pieces_def session_initial_def session_pieces_def v1_piece_hashes_def chunks_exact_def chunks_step chunks_short numeral_2_eq_2)
  have good: "verify_hash (se_sha1 strict_env) (se_sha256 strict_env) (ts_metadata (dn_session two_pieces)) 1 [7] = Inr ()"
    by (simp add: two_pieces_def session_initial_def strict_env_def v1_verify_hash_def v1_piece_hashes_def chunks_exact_def chunks_step chunks_short Let_def)
  have disk: "handler_wf (rs_handler (dn_res two_pieces)) (sf_disk (dn_fs two_pieces))" "piece_fits (rs_handler (dn_res two_pieces)) 1 [7]"
    by (simp_all add: two_pieces_def sample_res_def download_handler_def handler_wf_unfold FileChunk_new_def backed_def piece_fits_def)
  have st: "ts_state (dn_session two_pieces) = Downloading [] [] None 0 (new_channel 64)" "0 \<notin> ts_cancelled (dn_session two_pieces)"
    "dn_alive two_pieces" "\<not> dn_done two_pieces" "dn_tasks two_pieces = []" "dn_failed two_pieces = {}"
    by (simp_all add: two_pieces_def session_initial_def one_piece_def)
  obtain dn' where "download_run strict_env two_pieces dn'" "dn_done dn'" "receive_piece dn' = None" "dn_failed dn' = dn_failed two_pieces"
    "is_complete (ts_bitfield (dn_session dn')) = Some True" "queue_of (ts_state (dn_session dn')) = [(0, [8])]"
    using done_before_last_write[OF st(1) _ _ st(2-5) _ _ _ _ _ _ good disk, of 0 "[8]"]
    by (simp add: n new_channel_def bf_have_mem less_2_cases_iff) (simp add: bf_empty_def, blast)
  then show ?thesis using st(6) by auto
qed

text \<open>When the download is declared done while the queue is full, the loop receives nothing any more and
  nothing ever makes room: a router task that counted its write and waits for room in the queue
  waits as long as the receiver lives. It holds the read lock of the state, and the worker asks for
  the write lock before it drops the receiver.\<close>

lemma full_queue_sticks:
  assumes "download_run env dn dn'" and "dn_done dn" and "ts_state (dn_session dn) = Downloading p dest res token tx" and "ch_open tx" and "\<not> has_room tx"
  shows "dn_done dn' \<and> ts_state (dn_session dn') = Downloading p dest res token tx \<and> advance (Counted index data) (dn_session dn') = None"
proof -
  have stuck: "advance (Counted i x) s = None" if "ts_state s = Downloading p dest res token tx" for i x s
    using that assms(4,5) by (simp add: hand_over_def Let_def)
  have "dn_done dn' \<and> ts_state (dn_session dn') = Downloading p dest res token tx"
    using assms(1-3)
  proof induction
    case (run_step dn dn1 dn2)
    then have here: "dn_done dn1" "ts_state (dn_session dn1) = Downloading p dest res token tx" by simp_all
    from run_step.hyps(2) show ?case
    proof cases
      case (marks index s source data)
      then show ?thesis using here by (auto simp: add_piece_def session_set_bitfield_def split: option.splits bool.splits)
    next
      case (advances xs a ys rest s lost)
      then show ?thesis using here stuck by (cases a) auto
    next
      case receives
      then show ?thesis using here by (auto simp: receive_piece_def split: torrent_state.splits if_splits)
    next
      case (writes i)
      have "dn_done (run_task env i dn1) = dn_done dn1 \<and> ts_state (dn_session (run_task env i dn1)) = ts_state (dn_session dn1)"
        by (auto simp: run_task_def record_outcome_def Let_def write_task_fields(2) split: prod.split write_outcome.split)
      then show ?thesis using here writes by simp
    next
      case checks
      then show ?thesis using here by (auto simp: check_done_def Let_def)
    next
      case persists
      then show ?thesis using here by (simp add: persist_tick_def)
    qed
  qed simp
  then show ?thesis using stuck by simp
qed

subsection \<open>Serving pieces\<close>

text \<open>A request for a piece the seeder has, from a peer it has not choked, is queued for its worker;
  the worker reads the piece, signs it and answers, and the session is as before.\<close>

lemma seeder_answers:
  assumes seeding: "ts_state s = Seeding path res token tx" "ch_open tx" "ch_queue tx = []" "token \<notin> ts_cancelled s"
    and peer: "get_pipeline s source = Some p" "\<not> am_choking p" "bf_have (ts_bitfield s) (unat index) = Some True"
    and piece: "read_piece h d index = Inr data" "signer_sign prover (piece_hash sha256 index data) = Some sig"
  shows "\<exists>s'. bep_handle_request fuel renv answer pick s (Request index) source (Some reply) out = Some (Inr (), s', out)
     \<and> seeder_round sha256 prover h d s' = Some (Some (reply, data @ sig), s)"
proof -
  let ?tx = "tx\<lparr>ch_queue := [\<lparr>rq_index = index, rq_respond = Some reply\<rparr>]\<rparr>"
  have "bep_handle_request fuel renv answer pick s (Request index) source (Some reply) out =
      Some (Inr (), s\<lparr>ts_state := Seeding path res token ?tx\<rparr>, out)"
    using seeding peer by (simp add: bep_handle_request_def handle_request_seeding_def handle_piece_request_def send_piece_request_def)
  moreover have "seeder_round sha256 prover h d (s\<lparr>ts_state := Seeding path res token ?tx\<rparr>) =
      Some (Some (reply, data @ sig), s\<lparr>ts_state := Seeding path res token tx\<rparr>)"
    using seeding piece by (simp add: seeder_round_def serve_request_def make_payload_def)
  moreover have "s\<lparr>ts_state := Seeding path res token tx\<rparr> = s" using seeding(1) by simp
  ultimately show ?thesis by metis
qed

definition seed_session :: torrent_session where
  "seed_session = (session_initial sample_torrent)\<lparr>ts_state := Seeding [] None 0 (new_channel 256), ts_bitfield := from_wire [128] 1,
     ts_peers := [(SocketV4 1 1, Active (pl_unchoke (Pipeline_new (from_socket (Key_new id [1]) (SocketV4 1 1)) (bf_empty 1))))]\<rparr>"

definition sample_signer :: signer where
  "sample_signer = \<lparr>signer_pub_key = [2], signer_sign = (\<lambda>m. Some (replicate 64 9))\<rparr>"

text \<open>A request is dropped without an answer, whatever the state of the session, when the peer has no
  pipeline, is choked, or asks for a piece the seeder lacks.\<close>

lemma request_refused:
  assumes "current_mode (ts_state s) = ModeSeeding" and "bf_wf (ts_bitfield s)"
    and "get_pipeline s source = None \<or> (\<exists>p. get_pipeline s source = Some p \<and> am_choking p) \<or> \<not> bf_mem (ts_bitfield s) (unat index)"
  shows "bep_handle_request fuel renv answer pick s (Request index) source reply out = Some (Inr (), s, out)"
  using assms
  by (auto simp: bep_handle_request_def handle_request_seeding_def handle_piece_request_def bf_have_mem split: option.split)

text \<open>A piece whose data does not verify stays marked: the router marked it on arrival and the write
  task that rejects it does not unmark it. It is not wanted any more, so no peer is asked for it
  again.\<close>

lemma corrupt_piece_stays_marked:
  assumes "accounted before dn" and "run_task env 0 dn = dn'" and "dn_tasks dn = (w, data) # rest"
    and "\<not> verified env (ts_metadata (dn_session dn)) w data"
  shows "bf_have (ts_bitfield (dn_session dn')) (unat w) = Some True \<and> w \<in> dn_failed dn' \<and> dn_fs dn' = dn_fs dn
     \<and> w \<notin> wants (dn_session dn') p"
proof -
  have "bf_mem (ts_bitfield (dn_session dn)) (unat w)" "bf_wf (ts_bitfield (dn_session dn))"
    using assms(1,3) by (auto simp: accounted_def under_way_def waiting_def)
  moreover have "dn' = record_outcome w HashRefused (dn\<lparr>dn_tasks := rest,
      dn_session := (dn_session dn)\<lparr>ts_pending_writes := ts_pending_writes (dn_session dn) - 1\<rparr>\<rparr>)"
    using assms by (auto simp: run_task_def write_task_def verified_def accounted_def Let_def)
  ultimately show ?thesis by (simp add: record_outcome_def bf_have_mem wants_def)
qed

end
