(* ===== verification/Attacks.thy ===== *)
theory Attacks
  imports Join Workers
begin

text \<open>
  The attacking builds of the program, and why they fail. Three features of the crate build nodes
  that misbehave: \<open>ml_replay_token\<close> submits its token under a nonce of its own instead of asking for
  the challenge (\<open>authenticate\<close> of \<open>kademlia/mod.rs\<close>), \<open>ml_forge_token\<close> issues a token to itself
  (\<open>forget_token\<close> of \<open>kademlia/client.rs\<close>), and \<open>ml_piece_sub\<close> signs a piece under another index
  (\<open>piece_hash\<close> of \<open>bep/piece_auth.rs\<close>). They are run against the modelled server and the modelled
  downloader. What is assumed of signatures and digests is named.
\<close>

definition authenticate_replay ::
  "'w transport \<Rightarrow> ('k, 's) dht_env \<Rightarrow> node \<Rightarrow> u32 \<Rightarrow> ('k, 's, 'w) dht_client \<Rightarrow> (kademlia_error + unit) \<times> ('k, 's, 'w) dht_client" where
  "authenticate_replay transport env target nonce cl =
     (case best_token (e_now env) (kd_auth (cl_kd cl)) of
        None \<Rightarrow> (Inl (KadAuth UnAuthorized), cl)
      | Some t \<Rightarrow>
          (case signer_sign (am_signer (kd_auth (cl_kd cl))) (token_hash (e_sha256 env) t @ to_be_bytes_u32 nonce) of
             None \<Rightarrow> (Inl (KadAuth InvalidToken), cl)
           | Some signature \<Rightarrow>
               (case rpc_handshake transport target (SubmitHandshake t signature) cl of
                  (Inl e, cl) \<Rightarrow> (Inl e, cl)
                | (Inr (Pong receiver_id), cl) \<Rightarrow>
                    if receiver_id \<noteq> node_id target then (Inl (KadAuth RoguePeer), cl)
                    else (Inr (), with_connection (node_addr target) set_outbound_authenticated cl)
                | (Inr _, cl) \<Rightarrow> (Inl (KadAuth UnAuthorized), cl))))"

definition forget_token ::
  "'w transport \<Rightarrow> ('k, 's) dht_env \<Rightarrow> node \<Rightarrow> ('k, 's, 'w) dht_client \<Rightarrow> ((kademlia_error + node) \<times> ('k, 's, 'w) dht_client) option" where
  "forget_token transport env bootstrap cl =
     (case request_challange transport env bootstrap cl of
        None \<Rightarrow> None
      | Some (Inl e, cl) \<Rightarrow> Some (Inl e, cl)
      | Some (Inr signed_secret, cl) \<Rightarrow>
          let host = rt_host (kd_routes (cl_kd cl))
          in (case submit_challange transport env bootstrap signed_secret cl of
                (Inl e, cl) \<Rightarrow> Some (Inl e, cl)
              | (Inr bootstrap, cl) \<Rightarrow>
                  (case issue_token (e_sha256 env) (e_verify env) (e_ed_verify env) (e_pgp env) (e_manifest env) (e_now env)
                          (kd_auth (cl_kd cl)) host signed_secret BQTI_VERSION of
                     None \<Rightarrow> None
                   | Some (Inl e) \<Rightarrow> Some (Inl (KadAuth e), cl)
                   | Some (Inr t) \<Rightarrow>
                       let cl = with_connection (node_addr bootstrap) set_outbound_authenticated cl
                       in Some (Inr bootstrap, cl\<lparr>cl_kd := (cl_kd cl)\<lparr>kd_auth := store_token (kd_auth (cl_kd cl)) t\<rparr>\<rparr>))))"

definition piece_hash_sub :: "(bytes \<Rightarrow> bytes) \<Rightarrow> u32 \<Rightarrow> bytes \<Rightarrow> bytes" where
  "piece_hash_sub sha256 fake_index data = sha256 (to_le_bytes_u32 fake_index @ data)"

definition make_payload_sub :: "(bytes \<Rightarrow> bytes) \<Rightarrow> signer \<Rightarrow> u32 \<Rightarrow> bytes \<Rightarrow> auth_error + bytes" where
  "make_payload_sub sha256 prover fake_index data =
     (case signer_sign prover (piece_hash_sub sha256 fake_index data) of
        None \<Rightarrow> Inl PowSignFailed
      | Some sig \<Rightarrow> Inr (data @ sig))"

text \<open>A signature verifies for the message it was made for only.\<close>

definition binds :: "verifier \<Rightarrow> signer \<Rightarrow> bool" where
  "binds verify sg \<longleftrightarrow> (\<forall>m m' sig. signer_sign sg m = Some sig \<longrightarrow> verify (signer_pub_key sg) m' sig \<longrightarrow> m = m')"

subsection \<open>Packets that close the connection\<close>

lemma send_closing:
  assumes "handle_packet env (pl_server (rotate_salt (cl_net cl))) (server_end cl target) (make_packet (next_id (pl_rpc (cl_net cl)))) src =
      Some (r, server, c, [])" and "conn_closed c"
  obtains cl' where "rpc_send (server_transport env src) target make_packet cl = (Inl (KadRpc RpcTimeout), cl')" and "cl_kd cl' = cl_kd cl"
    and "cl_conns cl' (node_addr target) = None" and "pl_server (cl_net cl') = server" and "pl_conn (cl_net cl') = c"
proof -
  obtain rpc where rpc: "rpc_handle_request (pl_rpc (cl_net cl)) TimesOut = (Inl RpcTimeout, rpc)" by (rule timed_out_outcome)
  show thesis
    by (rule that[where cl' = "cl\<lparr>cl_conns := (cl_conns cl)(node_addr target := None),
          cl_net := (rotate_salt (cl_net cl))\<lparr>pl_rpc := rpc, pl_server := server, pl_conn := c\<rparr>\<rparr>"])
      (use assms rpc in \<open>cases "cl_conns cl (node_addr target)",
        simp_all add: rpc_send_def server_transport_def server_end_def reply_outcome_def Let_def\<close>)
qed

lemma to_be_bytes_u32_inject: "to_be_bytes_u32 a = to_be_bytes_u32 b \<Longrightarrow> a = b"
  by (drule arg_cong[of _ _ from_be_bytes]) (simp add: word_unat_eq_iff)

subsection \<open>Properties\<close>

text \<open>C27: replaying a token without its challenge fails. A node that holds a token and its key, and
  submits the token under a nonce it made up, is refused by every honest server unless the nonce
  happens to be the server's challenge for that key and address: its request times out, the server
  has closed the connection and has not authenticated it, its own state is unchanged otherwise,
  and the node does not take the connection for authenticated.\<close>

theorem replayed_token_is_refused:
  assumes tok: "best_token (e_now cenv) (kd_auth (cl_kd cl)) = Some t" "tk_peer t = signer_pub_key (am_signer (kd_auth (cl_kd cl)))"
    and keys: "binds (e_verify env) (am_signer (kd_auth (cl_kd cl)))" "signer_sign (am_signer (kd_auth (cl_kd cl))) (token_hash (e_sha256 cenv) t @ to_be_bytes_u32 nonce) \<noteq> None"
    and same: "e_sha256 cenv = e_sha256 env" and salt: "pl_salts (cl_net cl) = []"
    and wrong: "nonce \<noteq> am_challange (e_sha256 env) (kd_auth (pl_server (cl_net cl))) (tk_peer t) (addr_ip src)"
  shows "\<exists>cl'. authenticate_replay (server_transport env src) cenv target nonce cl = (Inl (KadRpc RpcTimeout), cl')
     \<and> cl_conns cl' (node_addr target) = None \<and> cl_kd cl' = cl_kd cl \<and> pl_server (cl_net cl') = pl_server (cl_net cl)
     \<and> conn_closed (pl_conn (cl_net cl')) \<and> conn_inbound (pl_conn (cl_net cl')) = conn_inbound (server_end cl target)"
proof -
  let ?sg = "am_signer (kd_auth (cl_kd cl))"
  let ?ch = "am_challange (e_sha256 env) (kd_auth (pl_server (cl_net cl))) (tk_peer t) (addr_ip src)"
  let ?c = "(server_end cl target)\<lparr>conn_closed := True\<rparr>"
  obtain sig where sig: "signer_sign ?sg (token_hash (e_sha256 env) t @ to_be_bytes_u32 nonce) = Some sig" using keys(2) same by auto
  have "\<not> e_verify env (tk_peer t) (token_hash (e_sha256 env) t @ to_be_bytes_u32 ?ch) sig"
    using keys(1) sig wrong tok(2) by (auto simp: binds_def dest!: to_be_bytes_u32_inject)
  then have "\<exists>e. handle_submit_handshake env (pl_server (cl_net cl)) (server_end cl target) i t sig src = (Inl (KadAuth e), pl_server (cl_net cl), ?c, [])" for i
    by (simp add: handle_submit_handshake_def token_sender_def Key_new_def Let_def)
  then obtain e where "handle_packet env (pl_server (rotate_salt (cl_net cl))) (server_end cl target)
      ((\<lambda>i. HandShake \<lparr>env_id = i, env_payload = SubmitHandshake t sig\<rparr>) (next_id (pl_rpc (cl_net cl)))) src = Some (Inl (KadAuth e), pl_server (cl_net cl), ?c, [])"
    using salt by fastforce
  then obtain cl' where "rpc_send (server_transport env src) target (\<lambda>i. HandShake \<lparr>env_id = i, env_payload = SubmitHandshake t sig\<rparr>) cl = (Inl (KadRpc RpcTimeout), cl')"
    "cl_kd cl' = cl_kd cl" "cl_conns cl' (node_addr target) = None" "pl_server (cl_net cl') = pl_server (cl_net cl)" "pl_conn (cl_net cl') = ?c"
    by (rule send_closing) simp_all
  then show ?thesis using tok(1) sig same by (simp add: authenticate_replay_def rpc_handshake_def)
qed

definition replaying_client :: "(nat, nat, (nat, nat) peer_link) dht_client" where
  "replaying_client = (let cl = sample_client (e_sha256 Kademlia.sample_env) [] in cl\<lparr>cl_kd := (cl_kd cl)\<lparr>kd_auth :=
     store_token (kd_auth (cl_kd cl)) ((Token_new [1] [] Unattested)\<lparr>exp_at := 5000\<rparr>)\<rparr>\<rparr>)"

theorem replayed_token_is_refused_witness:
  "\<exists>nonce cl'. authenticate_replay (server_transport Kademlia.sample_env (SocketV4 5 5)) (Kademlia.sample_env\<lparr>e_now := 1700\<rparr>)
       (from_socket (Key_new id []) (SocketV4 9 9)) nonce replaying_client = (Inl (KadRpc RpcTimeout), cl')
     \<and> conn_closed (pl_conn (cl_net cl')) \<and> conn_inbound (pl_conn (cl_net cl')) = None"
proof -
  let ?t = "(Token_new [1] [] Unattested)\<lparr>exp_at := 5000\<rparr>" and ?cl = replaying_client
  let ?ch = "am_challange (e_sha256 Kademlia.sample_env) (kd_auth (pl_server (cl_net ?cl))) (tk_peer ?t) (addr_ip (SocketV4 5 5))"
  have sg: "am_signer (kd_auth (cl_kd ?cl)) = \<lparr>signer_pub_key = [1], signer_sign = Some\<rparr>" and net: "pl_salts (cl_net ?cl) = []"
    by (simp_all add: replaying_client_def sample_node_def store_token_def Let_def)
  have tok: "best_token (e_now (Kademlia.sample_env\<lparr>e_now := 1700\<rparr>)) (kd_auth (cl_kd ?cl)) = Some ?t"
    by (simp add: best_token_def replaying_client_def store_token_def token_is_expired_def Let_def)
  have peer: "tk_peer ?t = signer_pub_key (am_signer (kd_auth (cl_kd ?cl)))" by (simp add: sg Token_new_def)
  have keys: "binds (e_verify Kademlia.sample_env) (am_signer (kd_auth (cl_kd ?cl)))" by (simp add: sg binds_def Kademlia.sample_env_def)
  have "?ch + 1 \<noteq> ?ch" by simp
  from replayed_token_is_refused[OF tok peer keys _ _ net this, of "from_socket (Key_new id []) (SocketV4 9 9)"]
  obtain cl' where "authenticate_replay (server_transport Kademlia.sample_env (SocketV4 5 5)) (Kademlia.sample_env\<lparr>e_now := 1700\<rparr>)
       (from_socket (Key_new id []) (SocketV4 9 9)) (?ch + 1) ?cl = (Inl (KadRpc RpcTimeout), cl')"
    "conn_closed (pl_conn (cl_net cl'))" "conn_inbound (pl_conn (cl_net cl')) = conn_inbound (server_end ?cl (from_socket (Key_new id []) (SocketV4 9 9)))"
    by (auto simp: sg)
  then show ?thesis
    by (intro exI conjI) (auto simp: replaying_client_def server_end_def Connection_new_def Let_def)
qed

text \<open>The answer to a challenge is not used up: the challenge of a key and an address stays the same
  until the server changes its salt, and an accepted submission is accepted again on a new
  connection from the same address.\<close>

lemma accepted_handshake_is_accepted_again:
  assumes "handle_submit_handshake env kd c i t signature src = (r, kd', c', rs)" and "conn_inbound c' \<noteq> conn_inbound c"
    and "addr_ip src' = addr_ip src" and "\<forall>n. e_can_reply env n"
  shows "\<exists>r2 kd2 c3 rs2. handle_submit_handshake env kd c2 j t signature src' = (r2, kd2, c3, rs2) \<and> conn_inbound c3 = Some (token_sender (e_sha256 env) t)"
  using assms by (auto simp: handle_submit_handshake_def Let_def then_connection_def kd_reply_def set_inbound_auth_def split: if_splits)

text \<open>A token that a node without a signed certificate issues to itself carries no certificate
  signature, so no server accepts it.\<close>

lemma rpc_send_keeps: "rpc_send transport target mp cl = (r, cl') \<Longrightarrow> cl_kd cl' = cl_kd cl"
  by (auto simp: rpc_send_def split: prod.splits)

lemma request_challange_keeps: "request_challange transport env boot cl = Some (r, cl') \<Longrightarrow> cl_kd cl' = cl_kd cl"
  by (auto simp: request_challange_def rpc_handshake_def Let_def dest!: rpc_send_keeps
      split: prod.splits sum.splits dht_response.splits option.splits)

lemma submit_challange_keeps:
  "submit_challange transport env boot secret cl = (r, cl') \<Longrightarrow> am_pgp_details (kd_auth (cl_kd cl')) = am_pgp_details (kd_auth (cl_kd cl))"
  by (auto simp: submit_challange_def rpc_handshake_def store_token_def with_connection_def Let_def dest!: rpc_send_keeps
      split: prod.splits sum.splits dht_response.splits option.splits if_splits)

lemma unsigned_issuer_token:
  assumes "issue_token H verify ed lib manifest now am sender secret ver = Some (Inr t)" and "am_pgp_details am = None"
  shows "issuer_ca_cert_sig t = []"
proof -
  obtain trust where "token_sign H now (am_signer am) (Token_new (pub_key (node_id sender)) (pow_value secret) trust) = Inr t"
    using assms unfolding issue_token_def Let_def by (auto split: option.splits sum.splits bool.splits)
  from token_sign_fields(5)[OF this] show ?thesis by (simp add: Token_new_def)
qed

lemma forged_token_is_refused:
  assumes forge: "forget_token transport env boot cl = Some (Inr n, cl')" and plain: "am_pgp_details (kd_auth (cl_kd cl)) = None"
  shows "\<exists>t. am_token (kd_auth (cl_kd cl')) = Some t
     \<and> (\<forall>senv kd c i signature src. handle_submit_handshake senv kd c i t signature src = (Inl (KadAuth InvalidToken), kd, c\<lparr>conn_closed := True\<rparr>, []))"
proof -
  obtain secret cl1 cl2 boot2 t where steps: "request_challange transport env boot cl = Some (Inr secret, cl1)" "submit_challange transport env boot secret cl1 = (Inr boot2, cl2)"
    and issued: "issue_token (e_sha256 env) (e_verify env) (e_ed_verify env) (e_pgp env) (e_manifest env) (e_now env)
       (kd_auth (cl_kd cl2)) (rt_host (kd_routes (cl_kd cl1))) secret BQTI_VERSION = Some (Inr t)"
    and stored: "am_token (kd_auth (cl_kd cl')) = Some t"
    using forge by (auto simp: forget_token_def store_token_def Let_def split: option.splits prod.splits sum.splits)
  have "issuer_ca_cert_sig t = []"
    using unsigned_issuer_token[OF issued] request_challange_keeps[OF steps(1)] submit_challange_keeps[OF steps(2)] plain by simp
  then show ?thesis using stored by (simp add: handle_submit_handshake_def verify_pgp_def Let_def)
qed

text \<open>A piece signed under another index is dropped by the downloader, when the digest tells the two
  apart.\<close>

lemma substituted_piece_is_dropped:
  assumes "make_payload_sub sha256 prover fake_index data = Inr payload" and "binds (re_verify env) prover"
    and "piece_hash sha256 index data \<noteq> piece_hash_sub sha256 fake_index data" and "pub_key seeder = signer_pub_key prover"
    and "\<forall>m sig. signer_sign prover m = Some sig \<longrightarrow> length sig = SIGNATURE_LENGTH" and "re_sha256 env = sha256" "re_encodes env (Request index)"
  shows "make_request env (\<lambda>_ _. Some payload) source index seeder = Inr None"
proof -
  obtain sig where sig: "signer_sign prover (piece_hash_sub sha256 fake_index data) = Some sig" "payload = data @ sig" "length sig = SIGNATURE_LENGTH"
    using assms(1,5) by (auto simp: make_payload_sub_def split: option.splits)
  have "\<not> re_verify env (pub_key seeder) (piece_hash sha256 index data) sig"
    using assms(2-4) sig(1) by (metis binds_def)
  then show ?thesis using assms(6,7) sig(2,3) by (simp add: make_request_def split_payload_def verify_piece_def Let_def)
qed

end
