(* ===== verification/IpcEvents.thy ===== *)
theory IpcEvents
  imports Bqti_Prelude
begin

text \<open>
  The interface between the daemon and its clients (\<open>bqti-ipc/src/lib.rs\<close>, \<open>bqti-ipc/src/state.rs\<close>)
  and the list that the status command of \<open>ipc/client.rs\<close> keeps. The hash map of torrents is an
  association list in iteration order. The theory shows when the client's list mirrors the state
  of the server, and what the snapshot sent to a new client is worth.
\<close>

datatype ipc_torrent_state =
    IpcPending
  | IpcPaused
  | IpcDownloading u32 u32 u64
  | IpcVerifying u32 u32
  | IpcSeeding u64 u32

datatype ipc_event =
    ExposeTorrent string string
  | SessionStateChanged string string ipc_torrent_state
  | DownloadComplted string string
  | TorrentAdded string string ipc_torrent_state
  | TorrentRemoved string
  | ErrorEvent string string

record ipc_torrent =
  it_info_hash :: string
  it_name :: string
  it_state :: ipc_torrent_state

type_synonym ipc_state = "(string \<times> ipc_torrent) list"

definition ipc_replicate :: "ipc_state \<Rightarrow> ipc_event list" where
  "ipc_replicate st = map (\<lambda>(_, t). SessionStateChanged (it_info_hash t) (it_name t) (it_state t)) st"

fun ipc_apply :: "ipc_state \<Rightarrow> ipc_event \<Rightarrow> ipc_event option \<times> ipc_state" where
  "ipc_apply st (SessionStateChanged info_hash name state) =
     (Some (SessionStateChanged info_hash name state),
      map (\<lambda>(k, t). (k, if k = info_hash then t\<lparr>it_name := name, it_state := state\<rparr> else t)) st)"
| "ipc_apply st (TorrentAdded info_hash name state) =
     (Some (TorrentAdded info_hash name state),
      AList.update info_hash \<lparr>it_info_hash = info_hash, it_name = name, it_state = state\<rparr> st)"
| "ipc_apply st (TorrentRemoved info_hash) = (Some (TorrentRemoved info_hash), AList.delete info_hash st)"
| "ipc_apply st event = (Some event, st)"

definition ipc_run :: "ipc_state \<Rightarrow> ipc_event list \<Rightarrow> ipc_state" where
  "ipc_run = foldl (\<lambda>st e. snd (ipc_apply st e))"

text \<open>The loop of \<open>handle_status\<close>: the torrents it shows, of all or of one info hash.\<close>

definition relevant :: "string option \<Rightarrow> string \<Rightarrow> bool" where
  "relevant info_hash h = (case info_hash of None \<Rightarrow> True | Some h' \<Rightarrow> h' = h)"

fun update_first :: "string \<Rightarrow> ipc_torrent_state \<Rightarrow> ipc_torrent list \<Rightarrow> ipc_torrent list" where
  "update_first h s [] = []"
| "update_first h s (t # ts) = (if it_info_hash t = h then t\<lparr>it_state := s\<rparr> # ts else t # update_first h s ts)"

fun status_event :: "string option \<Rightarrow> ipc_torrent list \<Rightarrow> ipc_event \<Rightarrow> ipc_torrent list" where
  "status_event sel ts (TorrentRemoved info_hash) =
     (if relevant sel info_hash then filter (\<lambda>t. it_info_hash t \<noteq> info_hash) ts else ts)"
| "status_event sel ts (TorrentAdded info_hash name state) =
     (if relevant sel info_hash then ts @ [\<lparr>it_info_hash = info_hash, it_name = name, it_state = state\<rparr>] else ts)"
| "status_event sel ts (SessionStateChanged info_hash name state) =
     (if relevant sel info_hash then update_first info_hash state ts else ts)"
| "status_event sel ts event = ts"

definition status_start :: "string option \<Rightarrow> ipc_torrent list \<Rightarrow> (string + ipc_torrent list)" where
  "status_start sel torrents =
     (case sel of
        None \<Rightarrow> Inr torrents
      | Some h \<Rightarrow>
          let torrents = filter (\<lambda>t. it_info_hash t = h) torrents
          in if torrents = [] then Inl h else Inr torrents)"

subsection \<open>The snapshot\<close>

definition ipc_wf :: "ipc_state \<Rightarrow> bool" where
  "ipc_wf st \<longleftrightarrow> distinct (map fst st) \<and> (\<forall>(k, t)\<in>set st. it_info_hash t = k)"

lemma map_of_changed:
  "map_of (map (\<lambda>(k, t). (k, if k = h then f t else t)) st) h' = (if h' = h then map_option f (map_of st h') else map_of st h')"
  by (induction st) auto

lemma apply_lookup:
  "map_of (snd (ipc_apply st e)) h =
     (case e of
        SessionStateChanged i n s \<Rightarrow> if h = i then map_option (\<lambda>t. t\<lparr>it_name := n, it_state := s\<rparr>) (map_of st h) else map_of st h
      | TorrentAdded i n s \<Rightarrow> if h = i then Some \<lparr>it_info_hash = i, it_name = n, it_state = s\<rparr> else map_of st h
      | TorrentRemoved i \<Rightarrow> if h = i then None else map_of st h
      | _ \<Rightarrow> map_of st h)"
  by (cases e) (auto simp: map_of_changed update_conv' delete_conv')

lemma ipc_run_Cons: "ipc_run st (e # es) = ipc_run (snd (ipc_apply st e)) es"
  by (simp add: ipc_run_def)

text \<open>Replaying the snapshot of a state on another brings over the name and the state of exactly
  those torrents the other already lists. The others it does not create: on an empty state, where
  a new client starts, the whole snapshot is ignored.\<close>

lemma snapshot_updates_known_torrents:
  assumes "ipc_wf st" and "ipc_wf st'"
  shows "map_of (ipc_run st' (ipc_replicate st)) h = (case map_of st' h of
       None \<Rightarrow> None
     | Some t \<Rightarrow> Some (case map_of st h of None \<Rightarrow> t | Some u \<Rightarrow> u))"
  using assms
proof (induction st arbitrary: st')
  case Nil
  then show ?case by (simp add: ipc_run_def ipc_replicate_def split: option.split)
next
  case (Cons kt st)
  obtain k t where kt: "kt = (k, t)" by fastforce
  let ?e = "SessionStateChanged k (it_name t) (it_state t)"
  let ?st = "snd (ipc_apply st' ?e)"
  have k: "it_info_hash t = k" "k \<notin> fst ` set st" "ipc_wf st" using Cons.prems(1) kt by (auto simp: ipc_wf_def)
  have "ipc_wf ?st" using Cons.prems(2) by (auto simp: ipc_wf_def comp_def case_prod_beta)
  then have ih: "map_of (ipc_run ?st (ipc_replicate st)) h = (case map_of ?st h of
      None \<Rightarrow> None | Some t \<Rightarrow> Some (case map_of st h of None \<Rightarrow> t | Some u \<Rightarrow> u))" by (rule Cons.IH[OF k(3)])
  have none: "map_of st k = None" using k(2) by (simp add: map_of_eq_None_iff)
  have same: "u\<lparr>it_name := it_name t, it_state := it_state t\<rparr> = t" if "map_of st' k = Some u" for u
  proof -
    have "it_info_hash u = k" using Cons.prems(2) map_of_SomeD[OF that] by (auto simp: ipc_wf_def)
    then show ?thesis using k(1) by (cases u; cases t) simp
  qed
  have "ipc_run st' (ipc_replicate (kt # st)) = ipc_run ?st (ipc_replicate st)"
    by (simp add: ipc_replicate_def kt ipc_run_Cons k(1))
  then show ?case
    using ih none same unfolding apply_lookup by (cases "map_of st' h") (auto simp: kt simp del: ipc_apply.simps split: option.splits)
qed

subsection \<open>The client's list\<close>

definition listed :: "ipc_torrent list \<Rightarrow> string \<rightharpoonup> ipc_torrent_state" where
  "listed ts = map_of (map (\<lambda>t. (it_info_hash t, it_state t)) ts)"

definition shown :: "ipc_state \<Rightarrow> string \<rightharpoonup> ipc_torrent_state" where
  "shown st = (\<lambda>h. map_option it_state (map_of st h))"

fun fresh_adds :: "ipc_state \<Rightarrow> ipc_event list \<Rightarrow> bool" where
  "fresh_adds st [] = True"
| "fresh_adds st (e # es) =
     ((case e of TorrentAdded h _ _ \<Rightarrow> map_of st h = None | _ \<Rightarrow> True) \<and> fresh_adds (snd (ipc_apply st e)) es)"

lemma listed_update_first: "listed (update_first h s ts) = (\<lambda>h'. if h' = h then map_option (\<lambda>_. s) (listed ts h') else listed ts h')"
  by (induction ts) (auto simp: listed_def fun_eq_iff)

lemma listed_filter: "listed (filter (\<lambda>t. it_info_hash t \<noteq> h) ts) = (listed ts)(h := None)"
  by (induction ts) (auto simp: listed_def fun_eq_iff)

lemma listed_append: "listed (ts @ [t]) = (\<lambda>h. case listed ts h of Some s \<Rightarrow> Some s | None \<Rightarrow> listed [t] h)"
  by (auto simp: listed_def map_add_def fun_eq_iff split: option.split)

lemma status_step:
  assumes "listed ts = shown st" and "case e of TorrentAdded h _ _ \<Rightarrow> map_of st h = None | _ \<Rightarrow> True"
  shows "listed (status_event None ts e) = shown (snd (ipc_apply st e))"
  using assms
  by (cases e) (auto simp: relevant_def listed_update_first listed_filter listed_append shown_def apply_lookup fun_eq_iff
      listed_def[of "[_]"] option.map_comp comp_def simp del: ipc_apply.simps split: option.split)

lemma status_run:
  "listed ts = shown st \<Longrightarrow> fresh_adds st es \<Longrightarrow> listed (foldl (status_event None) ts es) = shown (ipc_run st es)"
proof (induction es arbitrary: st ts)
  case Nil
  then show ?case by (simp add: ipc_run_def)
next
  case (Cons e es)
  have "listed (status_event None ts e) = shown (snd (ipc_apply st e))" by (rule status_step) (use Cons.prems in simp_all)
  then show ?case using Cons.IH Cons.prems(2) by (simp add: ipc_run_Cons del: ipc_apply.simps)
qed

lemma listed_start: "ipc_wf st \<Longrightarrow> listed (map snd st) = shown st"
  by (induction st) (auto simp: listed_def shown_def ipc_wf_def fun_eq_iff)

text \<open>A client that watches all torrents and starts from the server's list shows, after every
  event, each torrent exactly when the server lists it and in the state the server gives it,
  provided no torrent is added while it is listed.\<close>

lemma client_mirrors_server:
  assumes "ipc_wf st" and "fresh_adds st es"
  shows "listed (foldl (status_event None) (map snd st) es) = shown (ipc_run st es)"
  by (rule status_run[OF listed_start[OF assms(1)] assms(2)])

text \<open>A torrent that is added again while listed appears twice in the client's list, and the two
  disagree on its state: the server replaces it, the client shows the first.\<close>

lemma added_twice_differs:
  "listed (foldl (status_event None) [] [TorrentAdded h n s, TorrentAdded h n s']) h = Some s
   \<and> shown (ipc_run [] [TorrentAdded h n s, TorrentAdded h n s']) h = Some s'"
  by (simp add: listed_def shown_def ipc_run_def relevant_def)

text \<open>The event that \<open>PauseSession\<close> emits has an empty name, and the server's state takes it over.\<close>

lemma pausing_erases_name:
  "map_of st h = Some t \<Longrightarrow> map_of (snd (ipc_apply st (SessionStateChanged h '''' IpcPaused))) h = Some (t\<lparr>it_name := '''', it_state := IpcPaused\<rparr>)"
  by (simp add: apply_lookup del: ipc_apply.simps)

end
