(* ===== verification/Magnet.thy ===== *)
theory Magnet
  imports MetainfoV2
begin

text \<open>
  Magnet links (\<open>magnet.rs\<close>, and \<open>magnet\<close> of \<open>metainfo/v1.rs\<close> and \<open>v2.rs\<close>): parsing, printing
  and the link of a torrent. The text of socket addresses is a parameter. Printing does not
  escape, so the round trip holds for fields without an ampersand and fails otherwise.
\<close>

record magnet_link =
  ml_hash :: string
  ml_name :: "string option"
  ml_bootstrap :: "string option"
  ml_trackers :: "string list"
  ml_web_seed :: "string option"

definition strip_prefix :: "string \<Rightarrow> string \<Rightarrow> string option" where
  "strip_prefix p s = (if take (length p) s = p then Some (drop (length p) s) else None)"

text \<open>\<open>str::split\<close> and \<open>str::split_once\<close> with a character.\<close>

fun split_char :: "char \<Rightarrow> string \<Rightarrow> string list" where
  "split_char c [] = [[]]"
| "split_char c (x # xs) =
     (if x = c then [] # split_char c xs
      else case split_char c xs of [] \<Rightarrow> [[x]] | p # ps \<Rightarrow> (x # p) # ps)"

fun split_once :: "char \<Rightarrow> string \<Rightarrow> (string \<times> string) option" where
  "split_once c [] = None"
| "split_once c (x # xs) = (if x = c then Some ([], xs) else map_option (\<lambda>(k, v). (x # k, v)) (split_once c xs))"

record magnet_parse =
  mp_hash :: "string option"
  mp_name :: "string option"
  mp_bootstrap :: "string option"
  mp_trackers :: "string list"
  mp_web_seed :: "string option"

definition parse_pair :: "magnet_parse \<Rightarrow> string \<Rightarrow> magnet_parse option" where
  "parse_pair st pair =
     (case split_once CHR ''='' pair of
        None \<Rightarrow> None
      | Some (key, value) \<Rightarrow>
          Some (if key = ''xt'' then st\<lparr>mp_hash := strip_prefix ''urn:bqti:'' value\<rparr>
                else if key = ''dn'' then st\<lparr>mp_name := Some value\<rparr>
                else if key = ''bs'' then st\<lparr>mp_bootstrap := Some value\<rparr>
                else if key = ''tr'' then st\<lparr>mp_trackers := mp_trackers st @ [value]\<rparr>
                else if key = ''ws'' then st\<lparr>mp_web_seed := Some value\<rparr>
                else st))"

definition MagnetLink_new :: "string \<Rightarrow> magnet_link option" where
  "MagnetLink_new link =
     (case strip_prefix ''magnet:?'' link of
        None \<Rightarrow> None
      | Some query \<Rightarrow>
          (case fold_opt parse_pair \<lparr>mp_hash = None, mp_name = None, mp_bootstrap = None, mp_trackers = [], mp_web_seed = None\<rparr>
                  (split_char CHR ''&'' query) of
             None \<Rightarrow> None
           | Some st \<Rightarrow>
               map_option (\<lambda>hash. \<lparr>ml_hash = hash, ml_name = mp_name st, ml_bootstrap = mp_bootstrap st,
                                   ml_trackers = mp_trackers st, ml_web_seed = mp_web_seed st\<rparr>) (mp_hash st)))"

definition show_field :: "string \<Rightarrow> string option \<Rightarrow> string" where
  "show_field key v = (case v of None \<Rightarrow> [] | Some v \<Rightarrow> CHR ''&'' # key @ CHR ''='' # v)"

definition magnet_show :: "magnet_link \<Rightarrow> string" where
  "magnet_show m =
     ''magnet:?xt=urn:bqti:'' @ ml_hash m
       @ show_field ''dn'' (ml_name m)
       @ show_field ''bs'' (ml_bootstrap m)
       @ concat (map (\<lambda>tracker. show_field ''tr'' (Some tracker)) (ml_trackers m))
       @ show_field ''ws'' (ml_web_seed m)"

fun str_join :: "string \<Rightarrow> string list \<Rightarrow> string" where
  "str_join sep [] = []"
| "str_join sep [s] = s"
| "str_join sep (s # ss) = s @ sep @ str_join sep ss"

fun addr_show :: "(sock_addr \<Rightarrow> string) \<Rightarrow> torrent_addr \<Rightarrow> string" where
  "addr_show show_socket (Ip addr) = show_socket addr"
| "addr_show show_socket (I2P dest) = dest"

definition torrent_magnet :: "(bytes \<Rightarrow> string) \<Rightarrow> (sock_addr \<Rightarrow> string) \<Rightarrow> torrent_file \<Rightarrow> magnet_link" where
  "torrent_magnet hex_encode show_socket t =
     (let c = torrent_common_of t
      in \<lparr>ml_hash = info_hash_show hex_encode (tc_info_hash c),
          ml_name = Some (tc_name c),
          ml_bootstrap = map_option (\<lambda>nodes. str_join '','' (map (addr_show show_socket) nodes)) (tc_dht_nodes c),
          ml_trackers = (case tc_announce_list c of None \<Rightarrow> [] | Some tiers \<Rightarrow> concat tiers),
          ml_web_seed = Option.bind (tc_web_seeds c) (\<lambda>seeds. case seeds of [] \<Rightarrow> None | seed # _ \<Rightarrow> Some seed)\<rparr>)"

subsection \<open>Round trip\<close>

lemma strip_prefix_Some_iff: "strip_prefix p s = Some r \<longleftrightarrow> s = p @ r"
  by (auto simp: strip_prefix_def) (metis append_take_drop_id)

lemma split_char_plain: "c \<notin> set a \<Longrightarrow> split_char c a = [a]"
  by (induction a) auto

lemma split_char_append: "c \<notin> set a \<Longrightarrow> split_char c (a @ c # rest) = a # split_char c rest"
  by (induction a) auto

definition field_pairs :: "string \<Rightarrow> string option \<Rightarrow> string list" where
  "field_pairs key v = (case v of None \<Rightarrow> [] | Some v \<Rightarrow> [key @ CHR ''='' # v])"

lemma split_char_fields:
  "CHR ''&'' \<notin> set a \<Longrightarrow> \<forall>p\<in>set ps. CHR ''&'' \<notin> set p \<Longrightarrow> split_char CHR ''&'' (a @ concat (map ((#) CHR ''&'') ps)) = a # ps"
  by (induction ps arbitrary: a) (auto simp: split_char_plain split_char_append)

lemma show_field_pairs: "show_field key v = concat (map ((#) CHR ''&'') (field_pairs key v))"
  by (simp add: show_field_def field_pairs_def split: option.split)

lemma fold_trackers:
  "fold_opt parse_pair st (map (\<lambda>t. ''tr='' @ t) ts) = Some (st\<lparr>mp_trackers := mp_trackers st @ ts\<rparr>)"
  by (induction ts arbitrary: st) (auto simp: parse_pair_def)

lemma fold_fields:
  "fold_opt parse_pair st (field_pairs ''dn'' v) = Some (case v of None \<Rightarrow> st | Some x \<Rightarrow> st\<lparr>mp_name := Some x\<rparr>)"
  "fold_opt parse_pair st (field_pairs ''bs'' v) = Some (case v of None \<Rightarrow> st | Some x \<Rightarrow> st\<lparr>mp_bootstrap := Some x\<rparr>)"
  "fold_opt parse_pair st (field_pairs ''ws'' v) = Some (case v of None \<Rightarrow> st | Some x \<Rightarrow> st\<lparr>mp_web_seed := Some x\<rparr>)"
  by (simp_all add: field_pairs_def parse_pair_def split: option.split)

text \<open>A magnet link printed from a link whose fields have no ampersand is parsed back to the same
  link.\<close>

lemma magnet_round_trip:
  assumes "\<forall>v \<in> insert (ml_hash m) (set_option (ml_name m) \<union> set_option (ml_bootstrap m) \<union> set (ml_trackers m) \<union> set_option (ml_web_seed m)).
    CHR ''&'' \<notin> set v"
  shows "MagnetLink_new (magnet_show m) = Some m"
proof -
  let ?ps = "field_pairs ''dn'' (ml_name m) @ field_pairs ''bs'' (ml_bootstrap m) @ map (\<lambda>t. ''tr='' @ t) (ml_trackers m) @ field_pairs ''ws'' (ml_web_seed m)"
  have tr: "concat (map (\<lambda>tracker. show_field ''tr'' (Some tracker)) ts) = concat (map ((#) CHR ''&'') (map (\<lambda>t. ''tr='' @ t) ts))" for ts
    by (induction ts) (simp_all add: show_field_def)
  have q: "magnet_show m = ''magnet:?'' @ ((''xt=urn:bqti:'' @ ml_hash m) @ concat (map ((#) CHR ''&'') ?ps))"
    by (simp add: magnet_show_def tr) (simp add: show_field_pairs)
  have sp: "split_char CHR ''&'' ((''xt=urn:bqti:'' @ ml_hash m) @ concat (map ((#) CHR ''&'') ?ps)) = (''xt=urn:bqti:'' @ ml_hash m) # ?ps"
    by (rule split_char_fields) (use assms in \<open>auto simp: field_pairs_def split: option.splits\<close>)
  have hash: "parse_pair \<lparr>mp_hash = None, mp_name = None, mp_bootstrap = None, mp_trackers = [], mp_web_seed = None\<rparr> (''xt=urn:bqti:'' @ ml_hash m)
      = Some \<lparr>mp_hash = Some (ml_hash m), mp_name = None, mp_bootstrap = None, mp_trackers = [], mp_web_seed = None\<rparr>"
    by (simp add: parse_pair_def strip_prefix_def)
  have fold: "fold_opt parse_pair \<lparr>mp_hash = None, mp_name = None, mp_bootstrap = None, mp_trackers = [], mp_web_seed = None\<rparr> ((''xt=urn:bqti:'' @ ml_hash m) # ?ps)
    = Some \<lparr>mp_hash = Some (ml_hash m), mp_name = ml_name m, mp_bootstrap = ml_bootstrap m, mp_trackers = ml_trackers m, mp_web_seed = ml_web_seed m\<rparr>"
    unfolding fold_opt.simps hash option.case fold_opt_append fold_fields fold_trackers by (simp split: option.split)
  have "strip_prefix ''magnet:?'' (''magnet:?'' @ x) = Some x" for x by (simp add: strip_prefix_def)
  then show ?thesis unfolding q MagnetLink_new_def by (simp only: option.case sp fold) simp
qed

text \<open>A name with an ampersand is not escaped: the part after it is read as a field of its own, or
  makes the whole link unreadable.\<close>

lemma ampersand_breaks_link:
  "MagnetLink_new (magnet_show \<lparr>ml_hash = h, ml_name = Some ''a&b'', ml_bootstrap = None, ml_trackers = [], ml_web_seed = None\<rparr>) = None"
  if "CHR ''&'' \<notin> set h"
proof -
  have "split_char CHR ''&'' (''xt=urn:bqti:'' @ h @ ''&dn=a&b'') = [''xt=urn:bqti:'' @ h, ''dn=a'', ''b'']"
    using split_char_fields[of "''xt=urn:bqti:'' @ h" "[''dn=a'', ''b'']"] that by simp
  then show ?thesis
    by (simp add: MagnetLink_new_def magnet_show_def show_field_def strip_prefix_def parse_pair_def)
qed

end
