(* ===== verification/SessionManager.thy ===== *)
theory SessionManager
  imports Workers IpcEvents Magnet
begin

text \<open>
  The session manager (\<open>session/manager.rs\<close>): the sessions of a node, the table by info hash, the
  table by peer that routes messages, the queue of torrents to start and the translation of
  session events for clients. Sessions are shared by reference in the source; here they live in a
  list and the tables hold their positions. A worker or a handler is run to its end before the
  next one starts; the interleavings inside one session are in \<open>SessionState\<close> and \<open>Workers\<close>.
\<close>

datatype session_manager_error = SessionCorrupted | AlreadyExists string | TorrentSessionErr session_error | NotFound string

record session_manager =
  sm_sessions :: "torrent_session list"
  sm_by_hash :: "(info_hash \<times> nat) list"
  sm_by_peer :: "(sock_addr \<times> nat) list"
  sm_queue :: "(session_mode \<times> torrent_file) list"
  sm_queue_open :: bool
  sm_fs :: session_fs
  sm_cancelled :: bool

record manager_env =
  me_session :: session_env
  me_router :: router_env
  me_answer :: "sock_addr \<Rightarrow> u32 \<Rightarrow> bytes option"
  me_pick :: "u32 list \<Rightarrow> nat"
  me_hex :: "bytes \<Rightarrow> string"
  me_show_socket :: "sock_addr \<Rightarrow> string"

definition SessionManager_new :: "session_fs \<Rightarrow> session_manager" where
  "SessionManager_new fs =
     \<lparr>sm_sessions = [], sm_by_hash = [], sm_by_peer = [], sm_queue = [], sm_queue_open = True, sm_fs = fs, sm_cancelled = False\<rparr>"

subsection \<open>Messages\<close>

text \<open>The session a message is for, and the peer table with the binding a handshake makes.\<close>

definition sm_route :: "standard_message \<Rightarrow> sock_addr \<Rightarrow> session_manager \<Rightarrow> (nat \<times> session_manager) option" where
  "sm_route message source sm =
     (case message of
        Handshake info_hash _ \<Rightarrow>
          (case info_hash_try_from info_hash of
             Inl _ \<Rightarrow> None
           | Inr info_hash \<Rightarrow>
               map_option (\<lambda>session. (session, sm\<lparr>sm_by_peer := AList.update source session (sm_by_peer sm)\<rparr>))
                 (map_of (sm_by_hash sm) info_hash))
      | _ \<Rightarrow> map_option (\<lambda>session. (session, sm)) (map_of (sm_by_peer sm) source))"

definition sm_dispatch ::
  "nat \<Rightarrow> manager_env \<Rightarrow> standard_message \<Rightarrow> sock_addr \<Rightarrow> nat option \<Rightarrow> session_manager \<Rightarrow> outbox \<Rightarrow> (session_manager \<times> outbox) option" where
  "sm_dispatch fuel env message source reply sm out =
     (case sm_route message source sm of
        None \<Rightarrow> Some (sm, out)
      | Some (session, sm) \<Rightarrow>
          (case bep_handle_request fuel (me_router env) (me_answer env) (me_pick env) (sm_sessions sm ! session) message source reply out of
             None \<Rightarrow> None
           | Some (r, s, out) \<Rightarrow>
               let s = (if r = Inl ConnectionManagerErr then terminate_with source s else s)
               in Some (sm\<lparr>sm_sessions := (sm_sessions sm)[session := s]\<rparr>, out)))"

text \<open>Every session listens for lost connections.\<close>

definition sm_peer_lost :: "sock_addr \<Rightarrow> session_manager \<Rightarrow> session_manager" where
  "sm_peer_lost addr sm = sm\<lparr>sm_sessions := map (terminate_with addr) (sm_sessions sm)\<rparr>"

subsection \<open>Commands\<close>

definition sm_add :: "(bytes \<Rightarrow> string) \<Rightarrow> session_mode \<Rightarrow> torrent_file \<Rightarrow> session_manager \<Rightarrow> (session_manager_error + unit) \<times> session_manager" where
  "sm_add hex mode torrent sm =
     (let info_hash = torrent_info_hash torrent
      in if map_of (sm_by_hash sm) info_hash \<noteq> None then (Inl (AlreadyExists (info_hash_show hex info_hash)), sm)
         else if \<not> sm_queue_open sm then (Inl SessionCorrupted, sm)
         else (Inr (), sm\<lparr>sm_queue := sm_queue sm @ [(mode, torrent)]\<rparr>))"

definition sm_get :: "info_hash \<Rightarrow> session_manager \<Rightarrow> nat option" where
  "sm_get info_hash sm = map_of (sm_by_hash sm) info_hash"

definition sm_transition ::
  "manager_env \<Rightarrow> (torrent_session \<Rightarrow> transition) \<Rightarrow> info_hash \<Rightarrow> session_manager \<Rightarrow> ((session_manager_error + unit) \<times> session_manager) option" where
  "sm_transition env to info_hash sm =
     (case sm_get info_hash sm of
        None \<Rightarrow> Some (Inl (NotFound (info_hash_show (me_hex env) info_hash)), sm)
      | Some session \<Rightarrow>
          (case transition (me_session env) (to (sm_sessions sm ! session)) (sm_sessions sm ! session) (sm_fs sm) of
             None \<Rightarrow> None
           | Some (r, s, fs) \<Rightarrow>
               Some (case r of Inl e \<Rightarrow> Inl (TorrentSessionErr e) | Inr _ \<Rightarrow> Inr (),
                     sm\<lparr>sm_sessions := (sm_sessions sm)[session := s], sm_fs := fs\<rparr>)))"

definition sm_pause :: "manager_env \<Rightarrow> info_hash \<Rightarrow> session_manager \<Rightarrow> ((session_manager_error + unit) \<times> session_manager) option" where
  "sm_pause env = sm_transition env (\<lambda>_. Pause)"

definition sm_resume :: "manager_env \<Rightarrow> info_hash \<Rightarrow> session_manager \<Rightarrow> ((session_manager_error + unit) \<times> session_manager) option" where
  "sm_resume env = sm_transition env (\<lambda>s. Resume (ts_metadata s))"

definition sm_cancel :: "manager_env \<Rightarrow> info_hash \<Rightarrow> session_manager \<Rightarrow> ((session_manager_error + unit) \<times> session_manager) option" where
  "sm_cancel env = sm_transition env (\<lambda>_. Cancel)"

text \<open>The directory that \<open>remove\<close> deletes is part of its result.\<close>

definition sm_remove :: "info_hash \<Rightarrow> session_manager \<Rightarrow> path option \<times> session_manager" where
  "sm_remove info_hash sm =
     (case map_of (sm_by_hash sm) info_hash of
        None \<Rightarrow> (None, sm)
      | Some session \<Rightarrow>
          (purge (ts_state (sm_sessions sm ! session)),
           sm\<lparr>sm_by_hash := AList.delete info_hash (sm_by_hash sm),
              sm_by_peer := filter (\<lambda>(_, s). s \<noteq> session) (sm_by_peer sm)\<rparr>))"

subsection \<open>Background tasks\<close>

definition restore_cache :: "caching_mode list \<Rightarrow> session_manager \<Rightarrow> session_manager" where
  "restore_cache cache sm =
     (if \<not> sm_queue_open sm then sm
      else sm\<lparr>sm_queue := sm_queue sm @ map (\<lambda>c. case c of
             CacheDownload user_space metafile \<Rightarrow> (SessionDownload user_space, metafile)
           | CacheSeed user_space metafile \<Rightarrow> (SessionSeed user_space, metafile)) cache\<rparr>)"

text \<open>One round of \<open>queue_worker\<close>; it ends when the queue is empty or the manager was dropped.\<close>

definition queue_worker :: "manager_env \<Rightarrow> session_manager \<Rightarrow> session_manager option" where
  "queue_worker env sm =
     (case sm_queue sm of
        [] \<Rightarrow> Some sm
      | (mode, torrent) # rest \<Rightarrow>
          let sm = sm\<lparr>sm_queue := rest\<rparr>
          in if sm_cancelled sm then Some (sm\<lparr>sm_queue_open := False\<rparr>)
             else case TorrentSession_new (me_session env) mode torrent (sm_fs sm) of
                    None \<Rightarrow> None
                  | Some (Inl _, fs) \<Rightarrow> Some (sm\<lparr>sm_fs := fs\<rparr>)
                  | Some (Inr s, fs) \<Rightarrow>
                      Some (sm\<lparr>sm_fs := fs, sm_sessions := sm_sessions sm @ [s],
                               sm_by_hash := AList.update (torrent_info_hash torrent) (length (sm_sessions sm)) (sm_by_hash sm)\<rparr>))"

fun session_events_worker :: "(bytes \<Rightarrow> string) \<Rightarrow> (sock_addr \<Rightarrow> string) \<Rightarrow> torrent_file \<Rightarrow> session_event \<Rightarrow> ipc_event" where
  "session_events_worker hex show_socket torrent (PieceVerified total_pieces current) =
     SessionStateChanged (info_hash_show hex (torrent_info_hash torrent)) (tc_name (torrent_common_of torrent)) (IpcVerifying current total_pieces)"
| "session_events_worker hex show_socket torrent SeedStarted =
     ExposeTorrent (info_hash_show hex (torrent_info_hash torrent)) (magnet_show (torrent_magnet hex show_socket torrent))"
| "session_events_worker hex show_socket torrent (PieceDownloaded total_pieces current) =
     SessionStateChanged (info_hash_show hex (torrent_info_hash torrent)) (tc_name (torrent_common_of torrent)) (IpcDownloading current total_pieces 0)"
| "session_events_worker hex show_socket torrent (DownloadCompleted resource_path) =
     DownloadComplted (info_hash_show hex (torrent_info_hash torrent)) resource_path"
| "session_events_worker hex show_socket torrent IdleEvent =
     SessionStateChanged (info_hash_show hex (torrent_info_hash torrent)) (tc_name (torrent_common_of torrent)) IpcPaused"

definition manager_drop :: "session_manager \<Rightarrow> session_manager" where
  "manager_drop sm = sm\<lparr>sm_cancelled := True\<rparr>"

subsection \<open>No panic\<close>

datatype manager_event = Deliver standard_message sock_addr "nat option" | PeerLost sock_addr

fun sm_step :: "nat \<Rightarrow> manager_env \<Rightarrow> session_manager \<Rightarrow> manager_event \<Rightarrow> session_manager option" where
  "sm_step fuel env sm (Deliver message source reply) = map_option fst (sm_dispatch fuel env message source reply sm [])"
| "sm_step fuel env sm (PeerLost addr) = Some (sm_peer_lost addr sm)"

text \<open>A bitfield must cover the pieces of the session it is for; every other message is acceptable.\<close>

fun sm_ok :: "session_manager \<Rightarrow> manager_event \<Rightarrow> bool" where
  "sm_ok sm (Deliver message source reply) =
     (case sm_route message source sm of
        None \<Rightarrow> True
      | Some (session, _) \<Rightarrow> message_ok (session_pieces (sm_sessions sm ! session)) message)"
| "sm_ok sm (PeerLost addr) = True"

definition manager_wf :: "nat \<Rightarrow> session_manager \<Rightarrow> bool" where
  "manager_wf fuel sm \<longleftrightarrow> (\<forall>s\<in>set (sm_sessions sm). session_wf s \<and> session_pieces s < fuel)
     \<and> (\<forall>i\<in>snd ` set (sm_by_hash sm) \<union> snd ` set (sm_by_peer sm). i < length (sm_sessions sm))"

lemma get_pipeline_terminated: "get_pipeline (terminate_with a s) b = (if b = a then None else get_pipeline s b)"
  by (simp add: get_pipeline_def terminate_with_def delete_conv')

lemma terminate_with_wf [wf_intros]: "session_wf s \<Longrightarrow> session_wf (terminate_with a s)"
proof -
  assume wf: "session_wf s"
  have "session_pieces (terminate_with a s) = session_pieces s" by (simp add: session_pieces_def terminate_with_def)
  moreover have "distinct (map fst (ts_peers (terminate_with a s)))"
    using wf by (simp add: session_wf_def terminate_with_def AList.delete_eq distinct_map_filter)
  ultimately show ?thesis using wf by (auto simp: session_wf_def get_pipeline_terminated) (simp_all add: terminate_with_def)
qed

lemma session_pieces_terminated [simp]: "session_pieces (terminate_with a s) = session_pieces s"
  by (simp add: session_pieces_def terminate_with_def)

lemma sm_route_props:
  assumes "sm_route message source sm = Some (i, sm')"
  shows "sm_sessions sm' = sm_sessions sm" and "sm_by_hash sm' = sm_by_hash sm"
    and "i \<in> snd ` set (sm_by_hash sm) \<union> snd ` set (sm_by_peer sm)"
    and "set (sm_by_peer sm') \<subseteq> insert (source, i) (set (sm_by_peer sm))"
  using assms
  by (auto simp: sm_route_def split: standard_message.splits sum.splits option.splits dest!: map_of_SomeD set_update_subset intro: rev_image_eqI)

lemma sm_dispatch_total:
  assumes wf: "manager_wf fuel sm" and ok: "sm_ok sm (Deliver message source reply)"
  shows "\<exists>sm' out'. sm_dispatch fuel env message source reply sm out = Some (sm', out') \<and> manager_wf fuel sm'"
proof (cases "sm_route message source sm")
  case None
  then show ?thesis using wf by (simp add: sm_dispatch_def)
next
  case (Some ism)
  obtain i sm1 where route: "sm_route message source sm = Some (i, sm1)" using Some by (cases ism) simp
  note r = sm_route_props[OF route]
  have i: "i < length (sm_sessions sm)" using r(3) wf by (auto simp: manager_wf_def)
  let ?s = "sm_sessions sm ! i"
  have s: "session_wf ?s" "session_pieces ?s < fuel" using wf i by (auto simp: manager_wf_def)
  have m: "message_ok (session_pieces ?s) message" using ok route by simp
  have "handled ?s (bep_handle_request fuel (me_router env) (me_answer env) (me_pick env) ?s message source reply out)"
    by (rule bep_handle_request_handled[OF s(1) m s(2)])
  then obtain res s' out' where h: "bep_handle_request fuel (me_router env) (me_answer env) (me_pick env) ?s message source reply out = Some (res, s', out')"
    and k: "keeps ?s s'" by (auto simp: handled_def)
  let ?s' = "if res = Inl ConnectionManagerErr then terminate_with source s' else s'"
  have "session_wf s'" "session_pieces s' = session_pieces ?s" using k by (simp_all add: keeps_def session_pieces_def)
  then have s': "session_wf ?s'" "session_pieces ?s' < fuel" using s(2) by (auto intro: terminate_with_wf)
  have "\<forall>j\<in>snd ` set (sm_by_hash sm1) \<union> snd ` set (sm_by_peer sm1). j < length (sm_sessions sm)"
    using r(2,4) wf i by (force simp: manager_wf_def)
  moreover have "\<forall>t\<in>set ((sm_sessions sm)[i := ?s']). session_wf t \<and> session_pieces t < fuel"
    using wf s' by (auto simp: manager_wf_def dest!: set_update_subset_insert[THEN subsetD])
  ultimately have "manager_wf fuel (sm1\<lparr>sm_sessions := (sm_sessions sm1)[i := ?s']\<rparr>)" by (simp add: manager_wf_def r(1))
  then show ?thesis by (simp add: sm_dispatch_def route r(1) h Let_def)
qed

interpretation manager: panic_free "sm_step fuel env" "manager_wf fuel" sm_ok for fuel env
proof
  fix sm e
  assume wf: "manager_wf fuel sm" and ok: "sm_ok sm e"
  show "\<exists>sm'. sm_step fuel env sm e = Some sm' \<and> manager_wf fuel sm'"
  proof (cases e)
    case (Deliver message source reply)
    then show ?thesis using sm_dispatch_total[OF wf, of message source reply env "[]"] ok by auto
  next
    case (PeerLost addr)
    then show ?thesis using wf by (auto simp: manager_wf_def sm_peer_lost_def intro: terminate_with_wf)
  qed
qed

subsection \<open>Properties\<close>

text \<open>C2: no sequence of peer messages and lost connections makes the node panic, as long as each
  bitfield that arrives covers the pieces of the torrent it is for: every message of the sequence
  is handled to its end, whatever the peers answer and in whatever order, and afterwards every
  session is well formed, with bitfields of the right size and no more requests in flight than
  the pipeline allows.\<close>

theorem messages_never_panic:
  assumes "manager_wf fuel sm" and "all_ok (sm_step fuel env) sm_ok sm events"
  shows "\<exists>sm'. fold_opt (sm_step fuel env) sm events = Some sm' \<and> manager_wf fuel sm'"
  using assms by (rule manager.run_total)

definition sample_menv :: manager_env where
  "sample_menv = \<lparr>me_session = sample_env, me_router = open_router [1], me_answer = (\<lambda>_ _. None), me_pick = (\<lambda>_. 0),
     me_hex = (\<lambda>_. []), me_show_socket = (\<lambda>_. [])\<rparr>"

definition one_session :: session_manager where
  "one_session = (SessionManager_new sample_fs)\<lparr>sm_sessions := [leech], sm_by_hash := [(InfoV1 (replicate 20 0), 0)], sm_by_peer := [(SocketV4 2 2, 0)]\<rparr>"

theorem messages_never_panic_witness:
  "\<exists>sm'. fold_opt (sm_step 5 sample_menv) one_session
     [Deliver (Handshake (replicate 20 0) [7]) (SocketV4 3 3) None, Deliver (Have 9) (SocketV4 2 2) None, PeerLost (SocketV4 2 2)] = Some sm' \<and> manager_wf 5 sm'"
proof (rule messages_never_panic)
  show "manager_wf 5 one_session" by (simp add: manager_wf_def one_session_def SessionManager_new_def leech_wf)
  have ok: "sm_ok sm (Deliver (Handshake h p) a r)" "sm_ok sm (Deliver (Have i) a r)" "sm_ok sm (PeerLost a)" for sm h p a r i
    by (simp_all split: option.split)
  show "all_ok (sm_step 5 sample_menv) sm_ok one_session
     [Deliver (Handshake (replicate 20 0) [7]) (SocketV4 3 3) None, Deliver (Have 9) (SocketV4 2 2) None, PeerLost (SocketV4 2 2)]"
    using ok by (simp del: sm_ok.simps sm_step.simps split: option.split)
qed

text \<open>A message changes the session it is routed to and no other, and only a handshake changes a
  route, the sender's own.\<close>

lemma dispatch_isolated:
  assumes "sm_dispatch fuel env message source reply sm out = Some (sm', out')"
  shows "sm_by_hash sm' = sm_by_hash sm \<and> length (sm_sessions sm') = length (sm_sessions sm)
     \<and> (\<forall>a. a \<noteq> source \<longrightarrow> map_of (sm_by_peer sm') a = map_of (sm_by_peer sm) a)
     \<and> (\<forall>j. map_option fst (sm_route message source sm) \<noteq> Some j \<longrightarrow> sm_sessions sm' ! j = sm_sessions sm ! j)"
proof (cases "sm_route message source sm")
  case None
  then show ?thesis using assms by (simp add: sm_dispatch_def)
next
  case (Some ism)
  obtain i sm1 where route: "sm_route message source sm = Some (i, sm1)" using Some by (cases ism) simp
  have "map_of (sm_by_peer sm1) a = map_of (sm_by_peer sm) a" if "a \<noteq> source" for a
    using route that by (auto simp: sm_route_def update_conv' split: standard_message.splits sum.splits)
  then show ?thesis
    using assms sm_route_props(1,2)[OF route] by (auto simp: sm_dispatch_def route Let_def split: option.splits)
qed

lemma sm_transition_other:
  "sm_transition env to h sm = Some (r, sm') \<Longrightarrow> sm_get h sm \<noteq> Some i \<Longrightarrow> sm_sessions sm' ! i = sm_sessions sm ! i"
  by (auto simp: sm_transition_def split: option.splits)

text \<open>Removing a torrent unhooks its session but does not stop it. Afterwards the manager does not
  know the torrent, no message of any peer is routed to the session and no command reaches it; but
  the session itself is untouched: a running download or seeding worker keeps its token and goes
  on, in the directory that was just deleted.\<close>

lemma removed_session_runs_on:
  assumes hash: "sm_get info_hash sm = Some i" and running: "ts_state (sm_sessions sm ! i) = Downloading p dest res token tx"
    and one: "\<forall>h. sm_get h sm = Some i \<longrightarrow> h = info_hash"
    and rm: "sm_remove info_hash sm = (purged, sm')"
  shows "sm_get info_hash sm' = None \<and> purged = Some p
     \<and> (\<forall>message source. map_option fst (sm_route message source sm') \<noteq> Some i)
     \<and> (\<forall>env to h r sm''. sm_transition env to h sm' = Some (r, sm'') \<longrightarrow> sm_sessions sm'' ! i = sm_sessions sm ! i)
     \<and> sm_sessions sm' ! i = sm_sessions sm ! i"
proof -
  have sm': "sm' = sm\<lparr>sm_by_hash := AList.delete info_hash (sm_by_hash sm), sm_by_peer := filter (\<lambda>(_, s). s \<noteq> i) (sm_by_peer sm)\<rparr>"
    and p: "purged = Some p" using rm hash running by (simp_all add: sm_remove_def sm_get_def)
  have by_hash: "sm_get h sm' \<noteq> Some i" for h using one by (auto simp: sm_get_def sm' delete_conv')
  have by_peer: "map_of (sm_by_peer sm') a \<noteq> Some i" for a by (auto simp: sm' dest: map_of_SomeD)
  have "map_option fst (sm_route message source sm') \<noteq> Some i" for message source
    using by_hash by_peer by (auto simp: sm_route_def sm_get_def option.map_comp comp_def split: standard_message.split sum.split)
  moreover have "sm_sessions sm'' ! i = sm_sessions sm ! i" if "sm_transition env to h sm' = Some (r, sm'')" for env to h r sm''
    using sm_transition_other[OF that by_hash] by (simp add: sm')
  ultimately show ?thesis using p by (auto simp: sm_get_def sm' delete_conv')
qed

text \<open>The check for a torrent that already exists only sees started sessions, so a torrent added
  twice before the queue is served is started twice. The table then names the second session; the
  first runs on, with its own worker, out of reach of every command for that torrent.\<close>

lemma duplicate_add_starts_twice:
  assumes q: "sm_queue sm = []" "sm_queue_open sm" "\<not> sm_cancelled sm" "sm_get (torrent_info_hash t) sm = None"
    and range: "\<forall>h j. sm_get h sm = Some j \<longrightarrow> j < length (sm_sessions sm)"
    and first: "TorrentSession_new (me_session env) m1 t (sm_fs sm) = Some (Inr s1, fs1)"
    and second: "TorrentSession_new (me_session env) m2 t fs1 = Some (Inr s2, fs2)"
  shows "\<exists>sm1 sm2 sm'. sm_add hex m1 t sm = (Inr (), sm1) \<and> sm_add hex m2 t sm1 = (Inr (), sm2)
     \<and> Option.bind (queue_worker env sm2) (queue_worker env) = Some sm'
     \<and> sm_sessions sm' = sm_sessions sm @ [s1, s2] \<and> sm_get (torrent_info_hash t) sm' = Some (Suc (length (sm_sessions sm)))
     \<and> (\<forall>to h r sm''. sm_transition env to h sm' = Some (r, sm'') \<longrightarrow> sm_sessions sm'' ! length (sm_sessions sm) = s1)"
proof -
  let ?ih = "torrent_info_hash t" and ?n = "length (sm_sessions sm)"
  let ?sm2 = "sm\<lparr>sm_queue := [(m1, t), (m2, t)]\<rparr>"
  let ?sm' = "sm\<lparr>sm_queue := [], sm_fs := fs2, sm_sessions := sm_sessions sm @ [s1, s2],
      sm_by_hash := AList.update ?ih (Suc ?n) (AList.update ?ih ?n (sm_by_hash sm))\<rparr>"
  have "sm_add hex m1 t sm = (Inr (), sm\<lparr>sm_queue := [(m1, t)]\<rparr>)" "sm_add hex m2 t (sm\<lparr>sm_queue := [(m1, t)]\<rparr>) = (Inr (), ?sm2)"
    using q by (simp_all add: sm_add_def sm_get_def Let_def)
  moreover have "Option.bind (queue_worker env ?sm2) (queue_worker env) = Some ?sm'"
    using q first second by (simp add: queue_worker_def Let_def)
  moreover have "sm_get h ?sm' \<noteq> Some ?n" for h
    using range by (auto simp: sm_get_def update_conv')
  then have "sm_sessions sm'' ! ?n = s1" if "sm_transition env to h ?sm' = Some (r, sm'')" for to h r sm''
    using sm_transition_other[OF that] by (simp add: nth_append)
  moreover have "sm_get ?ih ?sm' = Some (Suc ?n)" by (simp add: sm_get_def update_conv')
  ultimately show ?thesis by (intro exI[of _ "sm\<lparr>sm_queue := [(m1, t)]\<rparr>"] exI[of _ ?sm2] exI[of _ ?sm']) (simp, blast?)
qed

lemma sample_session_starts:
  obtains s where "TorrentSession_new sample_env (SessionSeed [''u'']) sample_torrent sample_fs = Some (Inr s, sample_fs)"
proof -
  obtain fs' evs bf where s: "resources_seed sample_env [''u''] sample_torrent sample_fs =
      Some (Inr (\<lparr>rs_handler = sample_handler, rs_cache = \<lparr>sc_dir = [], sc_torrent = sample_torrent, sc_resume = None\<rparr>\<rparr>, bf), fs', evs)"
    by (rule sample_seed)
  have "persist_torrent sample_env c fs = fs" "persist_resume sample_env c b fs = fs" for c b fs
    by (simp_all add: persist_torrent_def persist_resume_def resume_persist_def torrent_save_def sample_env_def Let_def)
  then have "fs' = sample_fs"
    using s by (auto simp: resources_seed_def Let_def split: option.splits sum.splits prod.splits if_splits)
  then show thesis using s that by (simp add: TorrentSession_new_def transition_def transition_seeding_def session_initial_def Let_def)
qed

end
