(* ===== verification/Pex.thy ===== *)
theory Pex
  imports KeySpace
begin

text \<open>
  Peer exchange (\<open>pex.rs\<close>): the router remembers, for each torrent, the addresses of its swarm,
  and for each peer what it last told it. A set of addresses is a list without duplicates in the
  order in which iteration yields it. Whether a message encodes and whether sending to a peer
  succeeds are parameters. The theory shows that swarms stay bounded, that an exchange within the
  budget brings the receiver up to date, and where it does not.
\<close>

definition MAX_SWARM_SIZE :: nat where "MAX_SWARM_SIZE = 200"
definition MAX_PEX_DELTA :: nat where "MAX_PEX_DELTA = 50"

datatype pex_error = PexBencode | PexConnection | PexHandleFailed

record pex_message =
  px_info_hash :: key
  px_added :: "sock_addr list"
  px_dropped :: "sock_addr list"

record pex_router =
  px_swarms :: "(key \<times> sock_addr list) list"
  px_sessions :: "(sock_addr \<times> sock_addr list) list"

record pex_net =
  pn_encodes :: "pex_message \<Rightarrow> bool"
  pn_reaches :: "sock_addr \<Rightarrow> bool"

definition pex_create :: pex_router where
  "pex_create = \<lparr>px_swarms = [], px_sessions = []\<rparr>"

definition swarm_of :: "pex_router \<Rightarrow> key \<Rightarrow> sock_addr list" where
  "swarm_of pr info_hash = (case map_of (px_swarms pr) info_hash of None \<Rightarrow> [] | Some s \<Rightarrow> s)"

definition pex_announce :: "key \<Rightarrow> sock_addr \<Rightarrow> pex_router \<Rightarrow> pex_router" where
  "pex_announce info_hash addr pr =
     (let swarm = swarm_of pr info_hash;
          swarm = (if MAX_SWARM_SIZE \<le> length swarm \<or> addr \<in> set swarm then swarm else swarm @ [addr])
      in pr\<lparr>px_swarms := AList.update info_hash swarm (px_swarms pr)\<rparr>)"

definition pex_disconnect :: "key \<Rightarrow> sock_addr \<Rightarrow> pex_router \<Rightarrow> pex_router" where
  "pex_disconnect info_hash addr pr =
     pr\<lparr>px_swarms := map (\<lambda>(k, s). (k, if k = info_hash then removeAll addr s else s)) (px_swarms pr),
        px_sessions := AList.delete addr (px_sessions pr)\<rparr>"

definition pex_get_peers :: "pex_router \<Rightarrow> key \<Rightarrow> sock_addr list" where
  "pex_get_peers pr info_hash = swarm_of pr info_hash"

definition pex_first_message :: "key \<Rightarrow> sock_addr \<Rightarrow> pex_router \<Rightarrow> pex_message option \<times> pex_router" where
  "pex_first_message info_hash peer pr =
     (let current = swarm_of pr info_hash
      in if current = [] then (None, pr)
         else (Some \<lparr>px_info_hash = info_hash, px_added = take MAX_PEX_DELTA current, px_dropped = []\<rparr>,
               pr\<lparr>px_sessions := AList.update peer current (px_sessions pr)\<rparr>))"

definition last_sent :: "pex_router \<Rightarrow> sock_addr \<Rightarrow> sock_addr list" where
  "last_sent pr peer = (case map_of (px_sessions pr) peer of None \<Rightarrow> [] | Some s \<Rightarrow> s)"

definition pex_delta :: "key \<Rightarrow> sock_addr \<Rightarrow> pex_router \<Rightarrow> pex_message option \<times> pex_router" where
  "pex_delta info_hash peer pr =
     (case map_of (px_swarms pr) info_hash of
        None \<Rightarrow> (None, pr)
      | Some current \<Rightarrow>
          let sent = last_sent pr peer;
              pr = pr\<lparr>px_sessions := AList.update peer sent (px_sessions pr)\<rparr>;
              added = take MAX_PEX_DELTA (filter (\<lambda>a. a \<notin> set sent) current);
              dropped = take (MAX_PEX_DELTA - length added) (filter (\<lambda>a. a \<notin> set current) sent)
          in if added = [] \<and> dropped = [] then (None, pr)
             else (Some \<lparr>px_info_hash = info_hash, px_added = added, px_dropped = dropped\<rparr>,
                   pr\<lparr>px_sessions := AList.update peer current (px_sessions pr)\<rparr>))"

definition pex_send_message ::
  "pex_net \<Rightarrow> sock_addr \<Rightarrow> pex_message \<Rightarrow> pex_router \<Rightarrow> (sock_addr \<times> pex_message) list
     \<Rightarrow> (pex_error + unit) \<times> pex_router \<times> (sock_addr \<times> pex_message) list" where
  "pex_send_message net peer pex pr out =
     (if \<not> pn_encodes net pex then (Inl PexBencode, pr, out)
      else if pn_reaches net peer then (Inr (), pr, out @ [(peer, pex)])
      else (Inr (), pex_disconnect (px_info_hash pex) peer pr, out))"

text \<open>The result, the router, the messages sent and the peers reported as discovered.\<close>

definition pex_handle_incoming ::
  "pex_net \<Rightarrow> pex_message \<Rightarrow> sock_addr \<Rightarrow> pex_router
     \<Rightarrow> (pex_error + unit) \<times> pex_router \<times> (sock_addr \<times> pex_message) list \<times> (key \<times> sock_addr) list" where
  "pex_handle_incoming net incoming socket pr =
     (let info_hash = px_info_hash incoming; pr = pex_announce info_hash socket pr
      in case pex_first_message info_hash socket pr of
           (None, pr) \<Rightarrow> (Inl PexHandleFailed, pr, [], [])
         | (Some reply, pr) \<Rightarrow>
             (case pex_send_message net socket reply pr [] of
                (Inl e, pr, out) \<Rightarrow> (Inl e, pr, out, [])
              | (Inr _, pr, out) \<Rightarrow>
                  let pr = foldl (\<lambda>pr addr. pex_announce info_hash addr pr) pr (px_added incoming);
                      pr = foldl (\<lambda>pr addr. pex_disconnect info_hash addr pr) pr (px_dropped incoming)
                  in (Inr (), pr, out, map (\<lambda>addr. (info_hash, addr)) (px_added incoming))))"

definition gossip_peer ::
  "pex_net \<Rightarrow> pex_router \<times> (sock_addr \<times> pex_message) list \<Rightarrow> key \<times> sock_addr \<Rightarrow> pex_router \<times> (sock_addr \<times> pex_message) list" where
  "gossip_peer net = (\<lambda>(pr, out) (info_hash, peer).
     case pex_delta info_hash peer pr of
       (None, pr) \<Rightarrow> (pr, out)
     | (Some delta, pr) \<Rightarrow> snd (pex_send_message net peer delta pr out))"

definition gossip_round :: "pex_net \<Rightarrow> pex_router \<Rightarrow> pex_router \<times> (sock_addr \<times> pex_message) list" where
  "gossip_round net pr =
     foldl (gossip_peer net) (pr, []) (concat (map (\<lambda>(info_hash, peers). map (Pair info_hash) peers) (px_swarms pr)))"

subsection \<open>Swarms stay bounded\<close>

datatype pex_event = PexIncoming pex_message sock_addr | PexGossip | PexGone key sock_addr

text \<open>What can happen to a router: a message arrives, the gossip timer ticks, or a peer is dropped.\<close>

fun pex_step :: "pex_net \<Rightarrow> pex_router \<Rightarrow> pex_event \<Rightarrow> pex_router" where
  "pex_step net pr (PexIncoming incoming socket) = fst (snd (pex_handle_incoming net incoming socket pr))"
| "pex_step net pr PexGossip = fst (gossip_round net pr)"
| "pex_step net pr (PexGone info_hash addr) = pex_disconnect info_hash addr pr"

definition pex_wf :: "pex_router \<Rightarrow> bool" where
  "pex_wf pr \<longleftrightarrow> distinct (map fst (px_swarms pr)) \<and> (\<forall>(k, s)\<in>set (px_swarms pr). distinct s \<and> length s \<le> MAX_SWARM_SIZE)"

lemma swarm_of_bounded: "pex_wf pr \<Longrightarrow> distinct (swarm_of pr k) \<and> length (swarm_of pr k) \<le> MAX_SWARM_SIZE"
  by (fastforce simp: pex_wf_def swarm_of_def dest: map_of_SomeD split: option.split)

lemma pex_announce_wf [wf_intros]: "pex_wf pr \<Longrightarrow> pex_wf (pex_announce k a pr)"
  using swarm_of_bounded[of pr k]
  by (auto simp: pex_wf_def pex_announce_def distinct_update Let_def split: if_splits dest!: set_update_subset)

lemma pex_disconnect_wf [wf_intros]: "pex_wf pr \<Longrightarrow> pex_wf (pex_disconnect k a pr)"
  by (fastforce simp: pex_wf_def pex_disconnect_def distinct_removeAll case_prod_beta comp_def
      intro: order_trans[OF length_removeAll_less_eq])

lemma pex_sessions_wf [simp]: "pex_wf (pr\<lparr>px_sessions := x\<rparr>) = pex_wf pr"
  by (simp add: pex_wf_def)

lemma pex_first_message_wf [wf_intros]: "pex_wf pr \<Longrightarrow> pex_wf (snd (pex_first_message k a pr))"
  by (simp add: pex_first_message_def Let_def)

lemma pex_delta_wf [wf_intros]: "pex_wf pr \<Longrightarrow> pex_wf (snd (pex_delta k a pr))"
  by (simp add: pex_delta_def Let_def split: option.split)

lemma pex_send_wf [wf_intros]: "pex_wf pr \<Longrightarrow> pex_wf (fst (snd (pex_send_message net a m pr out)))"
  by (simp add: pex_send_message_def wf_intros)

lemma fold_wf:
  "(\<And>s e. P s \<Longrightarrow> P (f s e)) \<Longrightarrow> P s \<Longrightarrow> P (foldl f s es)"
  by (induction es arbitrary: s) auto

lemma gossip_peer_wf: "pex_wf (fst po) \<Longrightarrow> pex_wf (fst (gossip_peer net po kp))"
  using pex_delta_wf[of "fst po" "fst kp" "snd kp"]
  by (auto simp: gossip_peer_def case_prod_beta split: option.split intro: pex_send_wf)

lemma gossip_round_wf [wf_intros]: "pex_wf pr \<Longrightarrow> pex_wf (fst (gossip_round net pr))"
  unfolding gossip_round_def by (rule fold_wf[where P = "\<lambda>po. pex_wf (fst po)", OF gossip_peer_wf]) simp_all

lemma pex_handle_incoming_wf [wf_intros]:
  assumes "pex_wf pr" shows "pex_wf (fst (snd (pex_handle_incoming net m a pr)))"
proof -
  let ?k = "px_info_hash m"
  obtain r pr1 where fm: "pex_first_message ?k a (pex_announce ?k a pr) = (r, pr1)" by (cases "pex_first_message ?k a (pex_announce ?k a pr)")
  have wf1: "pex_wf pr1" using pex_first_message_wf[OF pex_announce_wf[OF assms], of ?k a ?k a] by (simp add: fm)
  have folds: "pex_wf (foldl (\<lambda>pr addr. pex_disconnect ?k addr pr) (foldl (\<lambda>pr addr. pex_announce ?k addr pr) pr2 xs) ys)"
    if "pex_wf pr2" for pr2 xs ys
    using that by (auto intro!: fold_wf wf_intros)
  show ?thesis
    using wf1 pex_send_wf[OF wf1, of net a "the r" "[]"] folds
    by (auto simp: pex_handle_incoming_def fm Let_def split: option.split sum.split prod.split)
qed

interpretation pex: preserved_by "pex_step net" pex_wf for net
proof
  show "pex_wf (pex_step net s e)" if "pex_wf s" for s e
    using that by (cases e) (auto intro: wf_intros)
qed

text \<open>Whatever messages, gossip rounds and disconnections a router goes through, the swarm it
  keeps for a torrent never has more than 200 addresses and no address twice.\<close>

lemma pex_swarms_bounded:
  "length (pex_get_peers (foldl (pex_step net) pex_create events) info_hash) \<le> MAX_SWARM_SIZE
   \<and> distinct (pex_get_peers (foldl (pex_step net) pex_create events) info_hash)"
proof -
  have "pex_wf (foldl (pex_step net) pex_create events)" by (rule pex.run_inv) (simp add: pex_wf_def pex_create_def)
  from swarm_of_bounded[OF this] show ?thesis by (simp add: pex_get_peers_def)
qed

subsection \<open>What a peer learns from a delta\<close>

text \<open>A delta tells a peer that knows what was last sent to it exactly the current swarm if at
  most 50 addresses changed, and otherwise leaves some out; in both cases the router then takes
  the whole swarm as sent, so an address left out is not sent by the next delta either.\<close>

lemma pex_delta_within_budget:
  assumes "map_of (px_swarms pr) info_hash = Some current" and "distinct current" and "distinct (last_sent pr peer)"
    and "pex_delta info_hash peer pr = (Some m, pr')"
  shows "((set (last_sent pr peer) \<union> set (px_added m)) - set (px_dropped m) = set current
            \<longleftrightarrow> card (set current - set (last_sent pr peer)) + card (set (last_sent pr peer) - set current) \<le> MAX_PEX_DELTA)
    \<and> length (px_added m) + length (px_dropped m) \<le> MAX_PEX_DELTA
    \<and> fst (pex_delta info_hash peer pr') = None"
proof -
  let ?sent = "last_sent pr peer"
  let ?new = "filter (\<lambda>a. a \<notin> set ?sent) current" and ?gone = "filter (\<lambda>a. a \<notin> set current) ?sent"
  have m: "px_added m = take MAX_PEX_DELTA ?new" "px_dropped m = take (MAX_PEX_DELTA - length (px_added m)) ?gone"
    and pr': "px_swarms pr' = px_swarms pr" "map_of (px_sessions pr') peer = Some current"
    using assms(1,4) by (auto simp: pex_delta_def Let_def update_conv' split: if_splits)
  have cn: "card (set current - set ?sent) = length ?new" "card (set ?sent - set current) = length ?gone"
    using distinct_card[of ?new] distinct_card[of ?gone] assms(2,3) by (simp_all add: set_diff_eq)
  have len: "length (px_added m) = min MAX_PEX_DELTA (length ?new)" "length (px_dropped m) = min (MAX_PEX_DELTA - length (px_added m)) (length ?gone)"
    using m by simp_all
  have all: "set (take n xs) = set xs \<longleftrightarrow> length xs \<le> n" if "distinct xs" for n and xs :: "sock_addr list"
  proof
    assume "set (take n xs) = set xs"
    then have "card (set (take n xs)) = card (set xs)" by simp
    then show "length xs \<le> n" using that by (simp add: distinct_card)
  qed simp
  have sub: "set (px_added m) \<subseteq> set ?new" "set (px_dropped m) \<subseteq> set ?gone" using m by (auto dest: in_set_takeD)
  then have "(set ?sent \<union> set (px_added m)) - set (px_dropped m) = set current
      \<longleftrightarrow> set (px_added m) = set ?new \<and> set (px_dropped m) = set ?gone" by auto
  also have "\<dots> \<longleftrightarrow> length ?new \<le> MAX_PEX_DELTA \<and> length ?gone \<le> MAX_PEX_DELTA - length (px_added m)"
    using all[of ?new MAX_PEX_DELTA] all[of ?gone "MAX_PEX_DELTA - length (px_added m)"] assms(2,3) m by simp
  also have "\<dots> \<longleftrightarrow> length ?new + length ?gone \<le> MAX_PEX_DELTA" using len by auto
  finally have view: "(set ?sent \<union> set (px_added m)) - set (px_dropped m) = set current \<longleftrightarrow> length ?new + length ?gone \<le> MAX_PEX_DELTA" .
  have "fst (pex_delta info_hash peer pr') = None"
    using pr' assms(1) by (simp add: pex_delta_def last_sent_def Let_def)
  then show ?thesis using view len by (simp add: cn)
qed

subsection \<open>Every message is answered\<close>

text \<open>Two routers that can reach each other, and the messages between them in the order sent; \<open>True\<close>
  marks a message for the first. No timer ticks: a round delivers the oldest message.\<close>

fun pex_exchange ::
  "nat \<Rightarrow> pex_net \<Rightarrow> sock_addr \<Rightarrow> sock_addr \<Rightarrow> pex_router \<times> pex_router \<times> (bool \<times> pex_message) list
     \<Rightarrow> pex_router \<times> pex_router \<times> (bool \<times> pex_message) list" where
  "pex_exchange 0 net aa ab (a, b, q) = (a, b, q)"
| "pex_exchange (Suc n) net aa ab (a, b, []) = (a, b, [])"
| "pex_exchange (Suc n) net aa ab (a, b, (True, m) # q) =
     (let (_, a, out, _) = pex_handle_incoming net m ab a in pex_exchange n net aa ab (a, b, q @ map (\<lambda>(_, m). (False, m)) out))"
| "pex_exchange (Suc n) net aa ab (a, b, (False, m) # q) =
     (let (_, b, out, _) = pex_handle_incoming net m aa b in pex_exchange n net aa ab (a, b, q @ map (\<lambda>(_, m). (True, m)) out))"

lemma announce_not_empty: "swarm_of (pex_announce k a pr) k \<noteq> []"
  by (auto simp: swarm_of_def pex_announce_def update_conv' MAX_SWARM_SIZE_def Let_def split: option.splits)

lemma pex_incoming_answers:
  assumes "\<And>m. pn_encodes net m" and "pn_reaches net socket"
  obtains pr' reply disc where "pex_handle_incoming net m socket pr = (Inr (), pr', [(socket, reply)], disc)"
  using that announce_not_empty[of "px_info_hash m" socket pr] assms
  by (auto simp: pex_handle_incoming_def pex_first_message_def pex_send_message_def Let_def)

text \<open>Two connected routers never stop exchanging messages once one message is under way. Every
  incoming message is answered at once with the whole swarm, and the answer is an incoming message
  of the other side, so the number of messages in flight never falls, however long they go on and
  although neither swarm changes any more.\<close>

lemma pex_exchange_never_ends:
  assumes "\<And>m. pn_encodes net m" and "pn_reaches net aa" and "pn_reaches net ab"
  shows "\<exists>a' b' q'. pex_exchange n net aa ab (a, b, q) = (a', b', q') \<and> length q' = length q"
proof (induction n arbitrary: a b q)
  case 0
  show ?case by simp
next
  case (Suc n)
  show ?case
  proof (cases q)
    case Nil
    then show ?thesis by simp
  next
    case (Cons d q0)
    obtain to_a m where d: "d = (to_a, m)" by fastforce
    obtain a1 r1 e1 where a1: "pex_handle_incoming net m ab a = (Inr (), a1, [(ab, r1)], e1)"
      by (rule pex_incoming_answers[where net = net and socket = ab and m = m and pr = a, OF assms(1,3)])
    obtain b1 r2 e2 where b1: "pex_handle_incoming net m aa b = (Inr (), b1, [(aa, r2)], e2)"
      by (rule pex_incoming_answers[where net = net and socket = aa and m = m and pr = b, OF assms(1,2)])
    show ?thesis
      using Suc.IH[of a1 b "q0 @ [(False, r1)]"] Suc.IH[of a b1 "q0 @ [(True, r2)]"]
      by (cases to_a) (simp_all add: Cons d a1 b1)
  qed
qed

text \<open>Nothing else starts an exchange: swarms are filled by incoming messages only, and messages are
  sent to the members of swarms only. A router that has never received a message stays silent.\<close>

lemma gossip_never_starts: "gossip_round net pex_create = (pex_create, [])"
  by (simp add: gossip_round_def pex_create_def)

text \<open>What was last sent is kept per peer and not per torrent: after a gossip with a peer about one
  torrent, the delta about another torrent reports the first one's swarm as dropped.\<close>

lemma deltas_mix_torrents:
  assumes "map_of (px_swarms pr) other = Some current" and "last_sent pr peer = first" and "a \<in> set first" and "a \<notin> set current"
    and "length (filter (\<lambda>a. a \<notin> set first) current) + length first \<le> MAX_PEX_DELTA"
  shows "\<exists>m pr'. pex_delta other peer pr = (Some m, pr') \<and> a \<in> set (px_dropped m)"
proof -
  let ?added = "filter (\<lambda>a. a \<notin> set first) current" and ?gone = "filter (\<lambda>a. a \<notin> set current) first"
  have "length ?gone \<le> MAX_PEX_DELTA - length ?added" using assms(5) length_filter_le[of "\<lambda>a. a \<notin> set current" first] by linarith
  moreover have "length ?added \<le> MAX_PEX_DELTA" using assms(5) by linarith
  moreover have "a \<in> set ?gone" using assms(3,4) by simp
  ultimately have "take (MAX_PEX_DELTA - length (take MAX_PEX_DELTA ?added)) ?gone = ?gone" and "?gone \<noteq> []" by (auto simp: filter_empty_conv)
  moreover from this have "0 < length ?gone" by simp
  then have "length ?added < MAX_PEX_DELTA" using \<open>length ?gone \<le> MAX_PEX_DELTA - length ?added\<close> by linarith
  ultimately show ?thesis using assms(1,2) \<open>a \<in> set ?gone\<close> by (simp add: pex_delta_def Let_def)
qed

end
