(* ===== verification/Wire.thy ===== *)
theory Wire
  imports Bqti_Prelude
begin

text \<open>
  Framing of messages on a QUIC stream: \<open>network/message.rs\<close> and the receiving side of
  \<open>network/connection.rs\<close>. A frame is a four-byte big-endian length, an identifier byte and
  the payload; length zero is a keep-alive. The stream is the byte string it delivers before
  it ends; \<open>read_exact\<close> fails when it ends early. The theory interprets the wire-format
  interface on the two directions and derives that a stream of frames is delivered message by
  message, in order, and that a frame above the limit is refused although the sender builds it.
\<close>

datatype message = KeepAlive | DHT bytes | PEX bytes | Standard bytes

datatype message_error = ParseFailed

datatype connection_error = MessageLimit u32 | ConnIo | DispatcherClosed | QuicConnectionError | Protocol

record packet =
  pk_message :: message
  source_addr :: sock_addr
  pk_reply :: bool

definition Packet_new :: "message \<Rightarrow> sock_addr \<Rightarrow> packet" where
  "Packet_new msg a = \<lparr>pk_message = msg, source_addr = a, pk_reply = False\<rparr>"

definition Packet_with_reply :: "message \<Rightarrow> sock_addr \<Rightarrow> packet" where
  "Packet_with_reply msg a = \<lparr>pk_message = msg, source_addr = a, pk_reply = True\<rparr>"

definition BUFFER_SIZE :: u32 where
  "BUFFER_SIZE = 1024 * 1024"

definition frame :: "u8 \<Rightarrow> bytes \<Rightarrow> bytes" where
  "frame ident payload = to_be_bytes_u32 (word_of_nat (1 + length payload)) @ [ident] @ payload"

fun to_bytes :: "message \<Rightarrow> bytes" where
  "to_bytes KeepAlive = [0, 0, 0, 0]"
| "to_bytes (DHT payload) = frame 100 payload"
| "to_bytes (PEX payload) = frame 20 payload"
| "to_bytes (Standard payload) = frame 19 payload"

definition from_bytes :: "u8 \<Rightarrow> bytes \<Rightarrow> message_error + message" where
  "from_bytes ident payload =
     (if ident = 20 then Inr (PEX payload)
      else if ident = 100 then Inr (DHT payload)
      else if ident = 19 then Inr (Standard payload)
      else Inl ParseFailed)"

definition read_exact :: "nat \<Rightarrow> bytes \<Rightarrow> connection_error + (bytes \<times> bytes)" where
  "read_exact n s = (if n \<le> length s then Inr (take n s, drop n s) else Inl Protocol)"

definition parse_incoming :: "bytes \<Rightarrow> connection_error + (message \<times> bytes)" where
  "parse_incoming recv =
     (case read_exact 4 recv of
        Inl e \<Rightarrow> Inl e
      | Inr (header, recv) \<Rightarrow>
          let len = (word_of_nat (from_be_bytes header) :: u32)
          in if len = 0 then Inr (KeepAlive, recv)
             else if BUFFER_SIZE < len then Inl (MessageLimit len)
             else case read_exact 1 recv of
                    Inl e \<Rightarrow> Inl e
                  | Inr (message_id, recv) \<Rightarrow>
                      (case read_exact (unat (len - 1)) recv of
                         Inl e \<Rightarrow> Inl e
                       | Inr (payload, recv) \<Rightarrow>
                           (case from_bytes (message_id ! 0) payload of
                              Inl _ \<Rightarrow> Inl Protocol
                            | Inr msg \<Rightarrow> Inr (msg, recv))))"

lemma parse_incoming_consumes: "parse_incoming s = Inr (msg, s') \<Longrightarrow> length s' < length s"
  by (auto simp: parse_incoming_def read_exact_def Let_def split: if_splits sum.splits)

text \<open>\<open>handle_uni_stream\<close>: parse and hand to the dispatcher until an error ends the loop;
  \<open>accept\<close> says whether the dispatcher channel still takes the packet.\<close>

function handle_uni_stream ::
  "(packet \<Rightarrow> bool) \<Rightarrow> sock_addr \<Rightarrow> bytes \<Rightarrow> packet list \<times> connection_error" where
  "handle_uni_stream accept remote recv =
     (case parse_incoming recv of
        Inl e \<Rightarrow> ([], e)
      | Inr (msg, recv') \<Rightarrow>
          if accept (Packet_new msg remote)
          then (case handle_uni_stream accept remote recv' of (ps, e) \<Rightarrow> (Packet_new msg remote # ps, e))
          else ([], DispatcherClosed))"
  by pat_completeness auto
termination
  by (relation "measure (\<lambda>(a, r, s). length s)") (auto dest: parse_incoming_consumes)

declare handle_uni_stream.simps [simp del]

fun payload_of :: "message \<Rightarrow> bytes" where
  "payload_of KeepAlive = []"
| "payload_of (DHT p) = p"
| "payload_of (PEX p) = p"
| "payload_of (Standard p) = p"

definition fits :: "message \<Rightarrow> bool" where
  "fits msg \<longleftrightarrow> length (payload_of msg) < unat BUFFER_SIZE"

subsection \<open>Round trip\<close>

lemma read_exact_append: "length a = n \<Longrightarrow> read_exact n (a @ b) = Inr (a, b)"
  by (auto simp: read_exact_def)

lemma unat_BUFFER_SIZE: "unat BUFFER_SIZE = 1048576"
  by (simp add: BUFFER_SIZE_def)

lemma parse_frame:
  assumes "length payload < unat BUFFER_SIZE"
  shows "parse_incoming (frame ident payload @ rest) =
     (case from_bytes ident payload of Inl _ \<Rightarrow> Inl Protocol | Inr msg \<Rightarrow> Inr (msg, rest))"
proof -
  let ?len = "word_of_nat (1 + length payload) :: u32"
  have small: "1 + length payload < 2 ^ 32" "1 + length payload \<le> 1048576"
    using assms by (simp_all add: unat_BUFFER_SIZE)
  have un: "unat ?len = 1 + length payload"
    using small(1) by (simp add: unat_of_nat del: of_nat_Suc of_nat_add)
  have hdr: "word_of_nat (from_be_bytes (to_be_bytes_u32 ?len)) = ?len"
    by (simp del: of_nat_Suc of_nat_add)
  have nz: "?len \<noteq> 0" using un by (metis unat_0 add_is_0 one_neq_zero)
  have le: "\<not> BUFFER_SIZE < ?len"
    using un small(2) by (simp add: word_less_nat_alt unat_BUFFER_SIZE del: of_nat_Suc of_nat_add)
  have pl: "unat (?len - 1) = length payload"
    using un nz by (simp add: unat_minus_one del: of_nat_Suc of_nat_add)
  have s1: "read_exact 4 (frame ident payload @ rest)
      = Inr (to_be_bytes_u32 ?len, ident # payload @ rest)"
    using read_exact_append[of "to_be_bytes_u32 ?len" 4] by (simp add: frame_def)
  have s2: "read_exact 1 (ident # payload @ rest) = Inr ([ident], payload @ rest)"
    using read_exact_append[of "[ident]" 1] by simp
  have s3: "read_exact (length payload) (payload @ rest) = Inr (payload, rest)"
    by (rule read_exact_append) simp
  show ?thesis
    unfolding parse_incoming_def s1
    by (simp only: sum.case prod.case Let_def hdr nz le if_False s2 pl s3 nth_Cons_0)
qed

lemma parse_to_bytes: "fits msg \<Longrightarrow> parse_incoming (to_bytes msg @ rest) = Inr (msg, rest)"
proof (cases msg)
  case KeepAlive
  then show ?thesis by (simp add: parse_incoming_def read_exact_def from_be_bytes_def Let_def)
qed (simp_all add: fits_def parse_frame from_bytes_def)

interpretation wire: wire_format to_bytes parse_incoming fits
  by unfold_locales (rule parse_to_bytes)

lemma uni_stream_messages:
  assumes "\<forall>msg\<in>set ms. fits msg" and "\<forall>msg\<in>set ms. accept (Packet_new msg remote)"
  shows "handle_uni_stream accept remote (concat (map to_bytes ms) @ rest) =
     (map (\<lambda>msg. Packet_new msg remote) ms @ fst (handle_uni_stream accept remote rest),
      snd (handle_uni_stream accept remote rest))"
  using assms
proof (induction ms)
  case Nil
  then show ?case by simp
next
  case (Cons msg ms)
  then show ?case
    by (simp add: handle_uni_stream.simps[of accept remote "to_bytes msg @ _"] wire.dec_enc split: prod.splits)
qed

subsection \<open>Properties\<close>

text \<open>A stream that carries frames of messages within the limit and then ends is delivered
  to the dispatcher as exactly those messages, in order, before the loop ends with a protocol
  error at the end of the stream.\<close>

lemma stream_delivers_messages:
  assumes "\<forall>msg\<in>set ms. fits msg"
  shows "handle_uni_stream (\<lambda>_. True) remote (concat (map to_bytes ms)) =
     (map (\<lambda>msg. Packet_new msg remote) ms, Protocol)"
proof -
  have "handle_uni_stream (\<lambda>_. True) remote [] = ([], Protocol)"
    by (simp add: handle_uni_stream.simps parse_incoming_def read_exact_def)
  then show ?thesis using uni_stream_messages[OF assms, of "\<lambda>_. True" remote "[]"] by simp
qed

text \<open>No frame is the beginning of another, so two message sequences within the limit that
  produce the same bytes are the same sequence.\<close>

theorem frames_are_prefix_free:
  assumes "fits a" and "fits b" and "to_bytes a @ r = to_bytes b @ s"
  shows "a = b \<and> r = s"
  by (rule wire.enc_inject[OF assms])

theorem frames_are_prefix_free_witness: "DHT [1] = DHT [1] \<and> [9] = ([9] :: bytes)"
  by (rule frames_are_prefix_free) (simp_all add: fits_def unat_BUFFER_SIZE)

text \<open>\<open>to_bytes\<close> does not enforce the receiver's limit: every frame whose payload is at least
  \<open>BUFFER_SIZE\<close> bytes (and whose length still fits the header) is refused by
  \<open>parse_incoming\<close> with the message limit error.\<close>

lemma oversized_frame_refused:
  assumes "msg \<noteq> KeepAlive" and "unat BUFFER_SIZE \<le> length (payload_of msg)"
    and "length (payload_of msg) + 1 < 2 ^ 32"
  shows "parse_incoming (to_bytes msg @ rest) = Inl (MessageLimit (word_of_nat (length (payload_of msg) + 1)))"
proof -
  let ?p = "payload_of msg"
  let ?len = "word_of_nat (1 + length ?p) :: u32"
  obtain ident where fr: "to_bytes msg = frame ident ?p"
    using assms(1) by (cases msg) auto
  have un: "unat ?len = 1 + length ?p"
    using assms(3) by (simp add: unat_of_nat del: of_nat_Suc of_nat_add)
  have nz: "?len \<noteq> 0" using un by (metis unat_0 add_is_0 one_neq_zero)
  have lt: "BUFFER_SIZE < ?len"
    using un assms(2) by (simp add: word_less_nat_alt del: of_nat_Suc of_nat_add)
  have hdr: "word_of_nat (from_be_bytes (to_be_bytes_u32 ?len)) = ?len"
    by (simp del: of_nat_Suc of_nat_add)
  have s1: "read_exact 4 (frame ident ?p @ rest) = Inr (to_be_bytes_u32 ?len, ident # ?p @ rest)"
    using read_exact_append[of "to_be_bytes_u32 ?len" 4] by (simp add: frame_def)
  show ?thesis
    unfolding fr parse_incoming_def s1
    by (simp only: sum.case prod.case Let_def hdr nz lt if_False if_True add.commute)
qed

end
