(* ===== verification/Daemon.thy ===== *)
theory Daemon
  imports SessionManager Kademlia Pex Wire
begin

text \<open>
  The node as a whole: the operations of \<open>bqti.rs\<close> that add, remove, pause and resume torrents, the
  routing of incoming packets to the DHT, to peer exchange and to the sessions, and the command
  interface of \<open>ipc/server.rs\<close>. Decoders of packet payloads, the file system tree, the clock and the
  encoders are parameters; the text of error messages is omitted.
\<close>

subsection \<open>Torrents\<close>

datatype torrent_source = SourceMagnet magnet_link | SourceFile string

definition TorrentSource_parse :: "string \<Rightarrow> string + torrent_source" where
  "TorrentSource_parse uri =
     (if strip_prefix ''magnet:'' uri \<noteq> None
      then (case MagnetLink_new uri of None \<Rightarrow> Inl ''invalid magnet uri'' | Some m \<Rightarrow> Inr (SourceMagnet m))
      else Inr (SourceFile uri))"

record seeding_options =
  so_path :: path
  so_name :: "string option"
  so_piece_length :: u64
  so_announce :: "string list list"
  so_seeds :: "string list option"
  so_nodes :: "string list option"
  so_private :: bool
  so_comment :: "string option"
  so_created_by :: "string option"

datatype torrent_action = ActionDownload torrent_source path | ActionSeed seeding_options

datatype bqti_error =
    BqtiManager session_manager_error | BqtiBitTorrent bit_torrent_error | BqtiTorrent torrent_error | BqtiFailedToLoad | BqtiUnsupported string

record daemon_env =
  de_manager :: manager_env
  de_path :: "string \<Rightarrow> path"
  de_enc_info :: "bencode_info \<Rightarrow> bytes option"
  de_decode :: "bytes \<Rightarrow> bencode_torrent option"
  de_root :: fs_node
  de_open :: "path \<Rightarrow> bytes option"
  de_read :: "nat \<Rightarrow> bytes \<Rightarrow> nat"
  de_now :: u64
  de_version :: string

definition seed_torrent :: "daemon_env \<Rightarrow> seeding_options \<Rightarrow> bqti_error + torrent_file" where
  "seed_torrent env options =
     (case (case so_name options of Some n \<Rightarrow> Some n | None \<Rightarrow> path_file_name (so_path options)) of
        None \<Rightarrow> Inl BqtiFailedToLoad
      | Some file_name \<Rightarrow>
          let b = V1Builder_new file_name (so_path options) (as_i64 (so_piece_length options));
              b = builder_file (de_root env) b (so_path options);
              b = builder_announce_list b (so_announce options);
              b = builder_dht_nodes (nc_parse_socket (se_codec (me_session (de_manager env)))) b (so_nodes options);
              b = builder_web_seeds b (so_seeds options);
              b = builder_comment b (so_comment options);
              b = builder_private b (so_private options);
              b = builder_created_by b (so_created_by options)
          in case v1_build (se_sha1 (me_session (de_manager env))) (de_enc_info env) (de_open env) (de_read env) (de_now env) (de_version env) b of
               Inl e \<Rightarrow> Inl (BqtiTorrent e)
             | Inr t \<Rightarrow> Inr t)"

definition add_torrent :: "daemon_env \<Rightarrow> torrent_action \<Rightarrow> session_manager \<Rightarrow> (bqti_error + torrent_file) \<times> session_manager" where
  "add_torrent env action sm =
     (let se = me_session (de_manager env);
          r = (case action of
                 ActionDownload (SourceFile uri) user_space \<Rightarrow>
                   (case torrent_load (se_sha1 se) (se_sha256 se) (de_enc_info env) (se_codec se) (de_decode env) (sf_files (sm_fs sm)) (de_path env uri) of
                      Inl e \<Rightarrow> Inl (BqtiBitTorrent e)
                    | Inr t \<Rightarrow> Inr (t, SessionDownload user_space))
               | ActionDownload (SourceMagnet _) user_space \<Rightarrow> Inl (BqtiUnsupported ''magnet links'')
               | ActionSeed options \<Rightarrow>
                   (case seed_torrent env options of
                      Inl e \<Rightarrow> Inl e
                    | Inr t \<Rightarrow> Inr (t, SessionSeed (so_path options))))
      in case r of
           Inl e \<Rightarrow> (Inl e, sm)
         | Inr (torrent_file, mode) \<Rightarrow>
             (case torrent_validate (se_sha256 se) torrent_file of
                Inl e \<Rightarrow> (Inl (BqtiTorrent e), sm)
              | Inr _ \<Rightarrow>
                  (case sm_add (me_hex (de_manager env)) mode torrent_file sm of
                     (Inl e, sm) \<Rightarrow> (Inl (BqtiManager e), sm)
                   | (Inr _, sm) \<Rightarrow> (Inr torrent_file, sm))))"

definition remove_torrent :: "info_hash \<Rightarrow> session_manager \<Rightarrow> info_hash \<times> session_manager" where
  "remove_torrent info_hash sm = (info_hash, snd (sm_remove info_hash sm))"

definition bqti_command ::
  "(info_hash \<Rightarrow> session_manager \<Rightarrow> ((session_manager_error + unit) \<times> session_manager) option) \<Rightarrow> info_hash \<Rightarrow> session_manager
     \<Rightarrow> ((bqti_error + info_hash) \<times> session_manager) option" where
  "bqti_command run info_hash sm =
     map_option (\<lambda>(r, sm). (case r of Inl e \<Rightarrow> Inl (BqtiManager e) | Inr _ \<Rightarrow> Inr info_hash, sm)) (run info_hash sm)"

definition pause_torrent :: "daemon_env \<Rightarrow> info_hash \<Rightarrow> session_manager \<Rightarrow> ((bqti_error + info_hash) \<times> session_manager) option" where
  "pause_torrent env = bqti_command (sm_pause (de_manager env))"

definition resume_torrent :: "daemon_env \<Rightarrow> info_hash \<Rightarrow> session_manager \<Rightarrow> ((bqti_error + info_hash) \<times> session_manager) option" where
  "resume_torrent env = bqti_command (sm_resume (de_manager env))"

subsection \<open>Commands of clients\<close>

datatype ipc_request =
    ReqStatus "string option"
  | ReqAddDownload string string
  | ReqAddSeed "string option" string u64 "string list list" "string list option" "string list option" bool "string option" "string option"
  | ReqPauseSession string
  | ReqResumeSession string
  | ReqRemoveTorrent string
  | ReqTorrents
  | ReqShutdown
  | ReqEventStream

datatype ipc_response =
    RespHandled | RespTorrentAdded string | RespSeedAdded string | RespRemoved string | RespStatus string nat u64 u64 | RespTorrents "ipc_torrent list"

datatype ipc_failure = InvalidMagnet | InvalidInfoHash | CommandFailed bqti_error

record ipc_server =
  is_state :: ipc_state
  is_manager :: session_manager
  is_sent :: "ipc_event list"
  is_shutdown :: bool

definition ipc_emit :: "ipc_event \<Rightarrow> ipc_server \<Rightarrow> ipc_server" where
  "ipc_emit event srv =
     (case ipc_apply (is_state srv) event of
        (Some event, st) \<Rightarrow> srv\<lparr>is_state := st, is_sent := is_sent srv @ [event]\<rparr>
      | (None, st) \<Rightarrow> srv\<lparr>is_state := st\<rparr>)"

definition ipc_added :: "daemon_env \<Rightarrow> torrent_file \<Rightarrow> ipc_server \<Rightarrow> ipc_server" where
  "ipc_added env torrent_file srv =
     ipc_emit (TorrentAdded (info_hash_show (me_hex (de_manager env)) (torrent_info_hash torrent_file))
       (tc_name (torrent_common_of torrent_file)) IpcPending) srv"

definition ipc_command ::
  "(string \<Rightarrow> bytes option) \<Rightarrow> string \<Rightarrow> (info_hash \<Rightarrow> session_manager \<Rightarrow> ((bqti_error + info_hash) \<times> session_manager) option) \<Rightarrow> ipc_server
     \<Rightarrow> ((ipc_failure + info_hash) \<times> ipc_server) option" where
  "ipc_command hex_decode h run srv =
     (case info_hash_from_hex hex_decode h of
        None \<Rightarrow> Some (Inl InvalidInfoHash, srv)
      | Some info_hash \<Rightarrow>
          (case run info_hash (is_manager srv) of
             None \<Rightarrow> None
           | Some (Inl e, sm) \<Rightarrow> Some (Inl (CommandFailed e), srv\<lparr>is_manager := sm\<rparr>)
           | Some (Inr _, sm) \<Rightarrow> Some (Inr info_hash, srv\<lparr>is_manager := sm\<rparr>)))"

definition ipc_add ::
  "daemon_env \<Rightarrow> torrent_action \<Rightarrow> (string \<Rightarrow> ipc_response) \<Rightarrow> ipc_server \<Rightarrow> (ipc_failure + ipc_response) \<times> ipc_server" where
  "ipc_add env action response srv =
     (case add_torrent env action (is_manager srv) of
        (Inl e, sm) \<Rightarrow> (Inl (CommandFailed e), srv\<lparr>is_manager := sm\<rparr>)
      | (Inr torrent_file, sm) \<Rightarrow>
          (Inr (response (info_hash_show (me_hex (de_manager env)) (torrent_info_hash torrent_file))),
           ipc_added env torrent_file (srv\<lparr>is_manager := sm\<rparr>)))"

fun ipc_dispatch ::
  "daemon_env \<Rightarrow> (string \<Rightarrow> bytes option) \<Rightarrow> ipc_request \<Rightarrow> ipc_server \<Rightarrow> ((ipc_failure + ipc_response) \<times> ipc_server) option" where
  "ipc_dispatch env hex_decode (ReqStatus _) srv = Some (Inr (RespStatus (de_version env) 0 0 0), srv)"
| "ipc_dispatch env hex_decode (ReqAddDownload uri user_space) srv =
     (case TorrentSource_parse uri of
        Inl _ \<Rightarrow> Some (Inl InvalidMagnet, srv)
      | Inr source \<Rightarrow> Some (ipc_add env (ActionDownload source (de_path env user_space)) RespTorrentAdded srv))"
| "ipc_dispatch env hex_decode (ReqAddSeed name path piece_length announce seeds nodes private comment created_by) srv =
     Some (ipc_add env (ActionSeed \<lparr>so_path = de_path env path, so_name = name, so_piece_length = piece_length, so_announce = announce,
        so_seeds = seeds, so_nodes = nodes, so_private = private, so_comment = comment, so_created_by = created_by\<rparr>) RespSeedAdded srv)"
| "ipc_dispatch env hex_decode (ReqRemoveTorrent h) srv =
     (case ipc_command hex_decode h (\<lambda>ih sm. Some (Inr ih, snd (remove_torrent ih sm))) srv of
        None \<Rightarrow> None
      | Some (Inl e, srv) \<Rightarrow> Some (Inl e, srv)
      | Some (Inr ih, srv) \<Rightarrow>
          let s = info_hash_show (me_hex (de_manager env)) ih in Some (Inr (RespRemoved s), ipc_emit (TorrentRemoved s) srv))"
| "ipc_dispatch env hex_decode (ReqResumeSession h) srv =
     map_option (\<lambda>(r, srv). (case r of Inl e \<Rightarrow> Inl e | Inr _ \<Rightarrow> Inr RespHandled, srv)) (ipc_command hex_decode h (resume_torrent env) srv)"
| "ipc_dispatch env hex_decode (ReqPauseSession h) srv =
     (case ipc_command hex_decode h (pause_torrent env) srv of
        None \<Rightarrow> None
      | Some (Inl e, srv) \<Rightarrow> Some (Inl e, srv)
      | Some (Inr ih, srv) \<Rightarrow>
          Some (Inr RespHandled, ipc_emit (SessionStateChanged (info_hash_show (me_hex (de_manager env)) ih) '''' IpcPaused) srv))"
| "ipc_dispatch env hex_decode ReqTorrents srv = Some (Inr (RespTorrents (map snd (is_state srv))), srv)"
| "ipc_dispatch env hex_decode ReqShutdown srv = Some (Inr RespHandled, srv\<lparr>is_shutdown := True\<rparr>)"
| "ipc_dispatch env hex_decode ReqEventStream srv = Some (Inr RespHandled, srv)"

subsection \<open>Incoming packets\<close>

record ('k, 's) node_state =
  nd_conns :: "(sock_addr \<times> conn_state) list"
  nd_rpc :: rpc_handler
  nd_kademlia :: "('k, 's) kademlia"
  nd_pex :: pex_router
  nd_manager :: session_manager

text \<open>What one packet makes the node send, and the response it hands to a request of the node that
  waits for one: the number of the request and the payload.\<close>

record node_output =
  no_dht :: replies
  no_delivered :: "(u64 \<times> dht_response) list"
  no_pex :: "(sock_addr \<times> pex_message) list"
  no_announce :: "(key \<times> sock_addr) list"
  no_bep :: outbox

record decoders =
  dc_dht :: "bytes \<Rightarrow> dht_packet option"
  dc_pex :: "bytes \<Rightarrow> pex_message option"
  dc_standard :: "bytes \<Rightarrow> standard_message option"

definition nothing_sent :: node_output where
  "nothing_sent = \<lparr>no_dht = [], no_delivered = [], no_pex = [], no_announce = [], no_bep = []\<rparr>"

definition is_authenticated :: "conn_state \<Rightarrow> bool" where
  "is_authenticated c \<longleftrightarrow> conn_inbound c \<noteq> None \<or> conn_outbound c"

definition serve_dht ::
  "('k, 's) dht_env \<Rightarrow> dht_packet \<Rightarrow> sock_addr \<Rightarrow> conn_state \<Rightarrow> ('k, 's) node_state \<Rightarrow> (('k, 's) node_state \<times> node_output) option" where
  "serve_dht kenv packet src c nd =
     (case rpc_dispatch (nd_rpc nd) packet of
        (None, completed, rpc) \<Rightarrow>
          Some (nd\<lparr>nd_rpc := rpc\<rparr>, nothing_sent\<lparr>no_delivered := (case completed of None \<Rightarrow> [] | Some response \<Rightarrow> [response])\<rparr>)
      | (Some request, _, rpc) \<Rightarrow>
          (case handle_packet kenv (nd_kademlia nd) c request src of
             None \<Rightarrow> None
           | Some (_, kd, c, rs) \<Rightarrow>
               Some (nd\<lparr>nd_rpc := rpc, nd_kademlia := kd, nd_conns := AList.update src c (nd_conns nd)\<rparr>, nothing_sent\<lparr>no_dht := rs\<rparr>)))"

text \<open>The body of the loop of \<open>serve_forever\<close>, for one packet.\<close>

definition serve_packet ::
  "nat \<Rightarrow> ('k, 's) dht_env \<Rightarrow> manager_env \<Rightarrow> pex_net \<Rightarrow> decoders \<Rightarrow> packet \<Rightarrow> nat option \<Rightarrow> ('k, 's) node_state
     \<Rightarrow> (('k, 's) node_state \<times> node_output) option" where
  "serve_packet fuel kenv menv net dc pkt reply nd =
     (case map_of (nd_conns nd) (source_addr pkt) of
        None \<Rightarrow> Some (nd, nothing_sent)
      | Some connection \<Rightarrow>
          (case pk_message pkt of
             KeepAlive \<Rightarrow> Some (nd, nothing_sent)
           | DHT payload \<Rightarrow>
               (case dc_dht dc payload of
                  None \<Rightarrow> Some (nd, nothing_sent)
                | Some packet \<Rightarrow> serve_dht kenv packet (source_addr pkt) connection nd)
           | PEX payload \<Rightarrow>
               if \<not> is_authenticated connection then Some (nd, nothing_sent)
               else (case dc_pex dc payload of
                       None \<Rightarrow> Some (nd, nothing_sent)
                     | Some pex \<Rightarrow>
                         (case pex_handle_incoming net pex (source_addr pkt) (nd_pex nd) of
                            (_, pr, out, found) \<Rightarrow> Some (nd\<lparr>nd_pex := pr\<rparr>, nothing_sent\<lparr>no_pex := out, no_announce := found\<rparr>)))
           | Standard payload \<Rightarrow>
               if \<not> is_authenticated connection then Some (nd, nothing_sent)
               else (case dc_standard dc payload of
                       None \<Rightarrow> Some (nd, nothing_sent)
                     | Some msg \<Rightarrow>
                         map_option (\<lambda>(sm, out). (nd\<lparr>nd_manager := sm\<rparr>, nothing_sent\<lparr>no_bep := out\<rparr>))
                           (sm_dispatch fuel menv msg (source_addr pkt) reply (nd_manager nd) []))))"

subsection \<open>Properties\<close>

text \<open>One packet of a peer that has not authenticated.\<close>

lemma packet_confined:
  assumes conn: "map_of (nd_conns nd) (source_addr pkt) = Some c" and anon: "\<not> is_authenticated c"
    and run: "serve_packet fuel kenv menv net dc pkt reply nd = Some (nd', out)"
  shows "nd_manager nd' = nd_manager nd \<and> nd_pex nd' = nd_pex nd \<and> no_pex out = [] \<and> no_announce out = [] \<and> no_bep out = []
    \<and> (\<forall>a. a \<noteq> source_addr pkt \<longrightarrow> map_of (nd_conns nd') a = map_of (nd_conns nd) a)
    \<and> ((\<forall>payload h. pk_message pkt = DHT payload \<longrightarrow> dc_dht dc payload \<noteq> Some (HandShake h)) \<longrightarrow>
         nd_kademlia nd' = nd_kademlia nd \<and> map_of (nd_conns nd') (source_addr pkt) = Some c)"
proof (cases "pk_message pkt")
  case (DHT payload)
  show ?thesis
  proof (cases "dc_dht dc payload")
    case None
    then show ?thesis using conn run DHT by (auto simp: serve_packet_def nothing_sent_def)
  next
    case (Some packet)
    have s: "serve_dht kenv packet (source_addr pkt) c nd = Some (nd', out)" using conn run DHT Some by (simp add: serve_packet_def)
    have anon': "conn_inbound c = None" using anon by (simp add: is_authenticated_def)
    show ?thesis
    proof (cases packet)
      case (RequestPacket r)
      then have "nd' = nd\<lparr>nd_rpc := nd_rpc nd, nd_kademlia := nd_kademlia nd, nd_conns := AList.update (source_addr pkt) c (nd_conns nd)\<rparr>" "out = nothing_sent\<lparr>no_dht := []\<rparr>"
        using s anon' by (simp_all add: serve_dht_def rpc_dispatch_def)
      then show ?thesis using conn by (simp add: nothing_sent_def update_conv')
    next
      case (HandShake h)
      then show ?thesis
        using s DHT Some by (auto simp: serve_dht_def rpc_dispatch_def nothing_sent_def update_conv' split: option.splits)
    next
      case (ResponsePacket r)
      then show ?thesis using s conn by (auto simp: serve_dht_def rpc_dispatch_def nothing_sent_def split: if_splits)
    qed
  qed
qed (use conn anon run in \<open>auto simp: serve_packet_def nothing_sent_def\<close>)

text \<open>What a packet delivers to the waiting requests does not depend on who sent it: the number in the
  packet alone selects the request.\<close>

definition completes :: "decoders \<Rightarrow> packet \<Rightarrow> rpc_handler \<Rightarrow> (u64 \<times> dht_response) list" where
  "completes dc pkt rpc =
     (case pk_message pkt of
        DHT payload \<Rightarrow>
          (case dc_dht dc payload of
             Some (ResponsePacket r) \<Rightarrow> if pending rpc (env_id r) then [(env_id r, env_payload r)] else []
           | _ \<Rightarrow> [])
      | _ \<Rightarrow> [])"

lemma delivered_by_number:
  assumes conn: "map_of (nd_conns nd) (source_addr pkt) = Some c"
    and run: "serve_packet fuel kenv menv net dc pkt reply nd = Some (nd', out)"
  shows "no_delivered out = completes dc pkt (nd_rpc nd)
     \<and> pending (nd_rpc nd') = (\<lambda>i. pending (nd_rpc nd) i \<and> i \<notin> fst ` set (completes dc pkt (nd_rpc nd)))"
proof (cases "pk_message pkt")
  case (DHT payload)
  show ?thesis
  proof (cases "dc_dht dc payload")
    case None
    then show ?thesis using conn run DHT by (auto simp: serve_packet_def nothing_sent_def completes_def)
  next
    case (Some packet)
    have s: "serve_dht kenv packet (source_addr pkt) c nd = Some (nd', out)" using conn run DHT Some by (simp add: serve_packet_def)
    then show ?thesis
      by (cases packet) (auto simp: serve_dht_def rpc_dispatch_def nothing_sent_def completes_def DHT Some fun_eq_iff split: option.splits if_splits)
  qed
qed (use conn run in \<open>auto simp: serve_packet_def nothing_sent_def completes_def split: if_splits option.splits prod.splits\<close>)

text \<open>C9: what a packet of a peer that has not authenticated does. Whatever packet it sends, serving
  it leaves the sessions and the swarms untouched, sends no peer message and changes no other
  connection; unless it is a handshake of the DHT, the routing table, the stored values and the
  connection's own state are untouched too. The one other effect it can have is to complete a
  request of the node itself: a DHT response is handed to the request that waits under the number in
  it, and to no other, with the payload the peer chose, and that request waits no longer; every
  other packet completes nothing. (The number is all that is checked: such a response need not come
  from the peer that was asked, and what the waiting lookup does with it is outside this claim.)\<close>

theorem unauthenticated_packet_is_confined:
  assumes conn: "map_of (nd_conns nd) (source_addr pkt) = Some c" and anon: "\<not> is_authenticated c"
    and run: "serve_packet fuel kenv menv net dc pkt reply nd = Some (nd', out)"
  shows "nd_manager nd' = nd_manager nd \<and> nd_pex nd' = nd_pex nd \<and> no_pex out = [] \<and> no_announce out = [] \<and> no_bep out = []
    \<and> (\<forall>a. a \<noteq> source_addr pkt \<longrightarrow> map_of (nd_conns nd') a = map_of (nd_conns nd) a)
    \<and> ((\<forall>payload h. pk_message pkt = DHT payload \<longrightarrow> dc_dht dc payload \<noteq> Some (HandShake h)) \<longrightarrow>
         nd_kademlia nd' = nd_kademlia nd \<and> map_of (nd_conns nd') (source_addr pkt) = Some c)
    \<and> no_delivered out =
        (case pk_message pkt of
           DHT payload \<Rightarrow>
             (case dc_dht dc payload of
                Some (ResponsePacket r) \<Rightarrow> if pending (nd_rpc nd) (env_id r) then [(env_id r, env_payload r)] else []
              | _ \<Rightarrow> [])
         | _ \<Rightarrow> [])
    \<and> pending (nd_rpc nd') = (\<lambda>i. pending (nd_rpc nd) i \<and> i \<notin> fst ` set (no_delivered out))"
  using packet_confined[OF assms] delivered_by_number[OF conn run] unfolding completes_def by simp

definition sample_node :: "(nat, nat) node_state" where
  "sample_node = \<lparr>nd_conns = [(SocketV4 2 2, fresh_connection)], nd_rpc = RpcHandler_new, nd_kademlia = sample_kademlia,
     nd_pex = pex_create, nd_manager = one_session\<rparr>"

definition stranger_answer :: "dht_packet" where
  "stranger_answer = ResponsePacket \<lparr>env_id = 0, env_payload = HandshakeChallange 7\<rparr>"

definition sample_decoders :: decoders where
  "sample_decoders = \<lparr>dc_dht = (\<lambda>_. Some stranger_answer), dc_pex = (\<lambda>_. None), dc_standard = (\<lambda>_. Some Unchoke)\<rparr>"

theorem unauthenticated_packet_is_confined_witness:
  "\<exists>nd' out. serve_packet 5 Kademlia.sample_env sample_menv \<lparr>pn_encodes = (\<lambda>_. True), pn_reaches = (\<lambda>_. True)\<rparr> sample_decoders
     (Packet_new (DHT [1]) (SocketV4 2 2)) None (sample_node\<lparr>nd_rpc := snd (rpc_begin RpcHandler_new)\<rparr>) = Some (nd', out)
     \<and> nd_manager nd' = one_session \<and> no_delivered out = [(0, HandshakeChallange 7)] \<and> \<not> pending (nd_rpc nd') 0"
proof -
  let ?p = "Packet_new (DHT [1]) (SocketV4 2 2)" and ?net = "\<lparr>pn_encodes = (\<lambda>_. True), pn_reaches = (\<lambda>_. True)\<rparr>"
  let ?nd = "sample_node\<lparr>nd_rpc := snd (rpc_begin RpcHandler_new)\<rparr>"
  have anon: "\<not> is_authenticated fresh_connection" by (simp add: is_authenticated_def fresh_connection_def)
  have c: "map_of (nd_conns ?nd) (source_addr ?p) = Some fresh_connection" by (simp add: sample_node_def Packet_new_def)
  have waits: "pending (nd_rpc ?nd) 0" by (simp add: rpc_begin_def alloc_id_def RpcHandler_new_def)
  obtain nd' out where r: "serve_packet 5 Kademlia.sample_env sample_menv ?net sample_decoders ?p None ?nd = Some (nd', out)"
    using c waits by (simp add: serve_packet_def Packet_new_def sample_decoders_def stranger_answer_def serve_dht_def rpc_dispatch_def)
  have dec: "dc_dht sample_decoders [1] = Some (ResponsePacket \<lparr>env_id = 0, env_payload = HandshakeChallange 7\<rparr>)"
    by (simp add: sample_decoders_def stranger_answer_def)
  have keep: "nd_manager ?nd = one_session" by (simp add: sample_node_def)
  note confined = unauthenticated_packet_is_confined[OF c anon r]
  have "nd_manager nd' = one_session" using confined[THEN conjunct1] keep by simp
  moreover have "no_delivered out = [(0, HandshakeChallange 7)]" using confined dec waits by (simp add: Packet_new_def)
  moreover have "\<not> pending (nd_rpc nd') 0" using confined calculation(2) by simp
  ultimately show ?thesis using r by blast
qed

subsection \<open>The log of events\<close>

text \<open>What can happen to the server: a command, or an event of a session that is passed on.\<close>

inductive ipc_reach :: "daemon_env \<Rightarrow> (string \<Rightarrow> bytes option) \<Rightarrow> ipc_server \<Rightarrow> ipc_server \<Rightarrow> bool" for env hex_decode where
  ipc_start: "ipc_reach env hex_decode srv srv"
| ipc_serve: "ipc_reach env hex_decode srv srv' \<Longrightarrow> ipc_dispatch env hex_decode request srv' = Some (reply, srv'') \<Longrightarrow> ipc_reach env hex_decode srv srv''"
| ipc_forward: "ipc_reach env hex_decode srv srv' \<Longrightarrow> ipc_reach env hex_decode srv (ipc_emit event srv')"
| ipc_sessions: "ipc_reach env hex_decode srv srv' \<Longrightarrow> ipc_reach env hex_decode srv (srv'\<lparr>is_manager := sm\<rparr>)"

definition logged :: "ipc_server \<Rightarrow> bool" where
  "logged srv \<longleftrightarrow> is_state srv = ipc_run [] (is_sent srv) \<and> ipc_wf (is_state srv)"

lemma ipc_apply_wf: "ipc_wf st \<Longrightarrow> ipc_wf (snd (ipc_apply st e))"
  by (cases e) (auto simp: ipc_wf_def distinct_update AList.delete_eq distinct_map_filter comp_def case_prod_beta dest!: set_update_subset)

lemma ipc_emit_apply: "ipc_emit e srv = srv\<lparr>is_state := snd (ipc_apply (is_state srv) e), is_sent := is_sent srv @ [e]\<rparr>"
  by (cases e) (simp_all add: ipc_emit_def)

lemma ipc_emit_logged: "logged srv \<Longrightarrow> logged (ipc_emit e srv)"
proof -
  assume l: "logged srv"
  then have "ipc_wf (snd (ipc_apply (is_state srv) e))" unfolding logged_def by (blast intro: ipc_apply_wf)
  then show ?thesis using l unfolding logged_def ipc_emit_apply by (simp add: ipc_run_def)
qed

lemma logged_manager [simp]: "logged (srv\<lparr>is_manager := sm\<rparr>) = logged srv" "logged (srv\<lparr>is_shutdown := b\<rparr>) = logged srv"
  by (simp_all add: logged_def)

lemma ipc_add_logged: "ipc_add env action response srv = (r, srv') \<Longrightarrow> logged srv \<Longrightarrow> logged srv'"
  by (auto simp: ipc_add_def ipc_added_def ipc_emit_logged split: prod.splits sum.splits)

lemma ipc_command_logged: "ipc_command hex_decode h run srv = Some (r, srv') \<Longrightarrow> logged srv \<Longrightarrow> logged srv'"
  by (auto simp: ipc_command_def split: option.splits sum.splits)

lemma ipc_command_step:
  assumes "ipc_command hex_decode h run srv = Some (r, srv')" and "logged srv"
  shows "logged srv' \<and> logged (ipc_emit e srv')"
  using ipc_command_logged[OF assms] ipc_emit_logged by blast

lemma ipc_dispatch_logged:
  assumes l: "logged srv" and run: "ipc_dispatch env hex_decode request srv = Some (reply, srv')"
  shows "logged srv'"
proof (cases request)
  case (ReqPauseSession h)
  then show ?thesis using run ipc_command_step[OF _ l] by (fastforce split: option.splits sum.splits)
next
  case (ReqResumeSession h)
  then obtain r where "ipc_command hex_decode h (resume_torrent env) srv = Some (r, srv')" using run by auto
  from ipc_command_step[OF this l] show ?thesis by blast
next
  case (ReqRemoveTorrent h)
  then show ?thesis using run ipc_command_step[OF _ l] by (fastforce simp: Let_def split: option.splits sum.splits)
qed (use l run in \<open>auto split: sum.splits dest: ipc_add_logged\<close>)

lemma ipc_reach_logged: "ipc_reach env hex_decode srv srv' \<Longrightarrow> logged srv \<Longrightarrow> logged srv'"
  by (induction rule: ipc_reach.induct) (auto intro: ipc_dispatch_logged ipc_emit_logged)

text \<open>The events the server broadcasts determine its state. After any sequence of commands and
  session events, replaying everything that was broadcast on the empty state gives the state of
  the server, so the list that a client gets on request is the one it would have built from the
  event stream.\<close>

lemma broadcast_determines_state:
  assumes "ipc_reach env hex_decode \<lparr>is_state = [], is_manager = sm, is_sent = [], is_shutdown = False\<rparr> srv"
  shows "ipc_dispatch env hex_decode ReqTorrents srv = Some (Inr (RespTorrents (map snd (ipc_run [] (is_sent srv)))), srv)
     \<and> distinct (map it_info_hash (map snd (ipc_run [] (is_sent srv))))"
proof -
  have l: "logged srv" by (rule ipc_reach_logged[OF assms]) (simp add: logged_def ipc_run_def ipc_wf_def)
  have "map it_info_hash (map snd (is_state srv)) = map fst (is_state srv)"
    unfolding map_map using l by (intro map_cong) (auto simp: logged_def ipc_wf_def)
  moreover have "distinct (map fst (is_state srv))" using l unfolding logged_def ipc_wf_def by blast
  ultimately have "distinct (map it_info_hash (map snd (is_state srv)))" by (simp only:)
  then show ?thesis using l by (simp add: logged_def)
qed

definition sample_denv :: daemon_env where
  "sample_denv = \<lparr>de_manager = sample_menv, de_path = (\<lambda>s. [s]), de_enc_info = (\<lambda>_. None), de_decode = (\<lambda>_. None), de_root = RegularFile,
     de_open = (\<lambda>_. None), de_read = (\<lambda>n _. n), de_now = 0, de_version = ''1''\<rparr>"

subsection \<open>Commands and sessions\<close>

text \<open>A magnet uri is parsed but cannot be added: every well-formed uri is refused as unsupported,
  although the node announces each torrent it seeds with one.\<close>

lemma magnet_links_unsupported:
  assumes "MagnetLink_new uri = Some m"
  shows "ipc_dispatch env hex_decode (ReqAddDownload uri user_space) srv = Some (Inl (CommandFailed (BqtiUnsupported ''magnet links'')), srv)"
proof -
  obtain query where "strip_prefix ''magnet:?'' uri = Some query" using assms by (auto simp: MagnetLink_new_def split: option.splits)
  then have "uri = ''magnet:'' @ (''?'' @ query)" by (simp add: strip_prefix_Some_iff)
  then have "strip_prefix ''magnet:'' uri \<noteq> None" using strip_prefix_Some_iff by blast
  then have "TorrentSource_parse uri = Inr (SourceMagnet m)" using assms by (simp add: TorrentSource_parse_def)
  then show ?thesis by (simp add: ipc_add_def add_torrent_def Let_def)
qed

text \<open>C20: a torrent whose download is accepted is started. When the command succeeds while the manager is
  running and nothing is queued, the torrent is valid, the client's list shows it as pending, and it is queued; and when its turn comes and its
  session can be created, the manager finds a downloading session for it under its info hash.\<close>

theorem accepted_download_is_started:
  assumes run: "ipc_dispatch env hex_decode (ReqAddDownload uri user_space) srv = Some (Inr (RespTorrentAdded h), srv')"
    and idle: "sm_queue (is_manager srv) = []" "\<not> sm_cancelled (is_manager srv)"
  shows "\<exists>t. torrent_validate (se_sha256 (me_session (de_manager env))) t = Inr () \<and> h = info_hash_show (me_hex (de_manager env)) (torrent_info_hash t)
    \<and> map_of (is_state srv') h = Some \<lparr>it_info_hash = h, it_name = tc_name (torrent_common_of t), it_state = IpcPending\<rparr>
    \<and> sm_queue (is_manager srv') = [(SessionDownload (de_path env user_space), t)]
    \<and> (\<forall>s fs. TorrentSession_new (me_session (de_manager env)) (SessionDownload (de_path env user_space)) t (sm_fs (is_manager srv)) = Some (Inr s, fs) \<longrightarrow>
         (\<exists>sm i. queue_worker (de_manager env) (is_manager srv') = Some sm \<and> sm_get (torrent_info_hash t) sm = Some i
           \<and> i < length (sm_sessions sm) \<and> sm_sessions sm ! i = s \<and> ts_metadata s = t \<and> current_mode (ts_state s) = ModeDownloading))"
proof -
  obtain source where src: "TorrentSource_parse uri = Inr source"
    and add: "ipc_add env (ActionDownload source (de_path env user_space)) RespTorrentAdded srv = (Inr (RespTorrentAdded h), srv')"
    using run by (auto split: sum.splits)
  obtain t sm1 where at: "add_torrent env (ActionDownload source (de_path env user_space)) (is_manager srv) = (Inr t, sm1)"
    and h: "h = info_hash_show (me_hex (de_manager env)) (torrent_info_hash t)" and srv': "srv' = ipc_added env t (srv\<lparr>is_manager := sm1\<rparr>)"
    using add by (auto simp: ipc_add_def split: prod.splits sum.splits)
  have v: "torrent_validate (se_sha256 (me_session (de_manager env))) t = Inr ()"
    and q: "sm_add (me_hex (de_manager env)) (SessionDownload (de_path env user_space)) t (is_manager srv) = (Inr (), sm1)"
    using at by (auto simp: add_torrent_def Let_def split: torrent_source.splits sum.splits prod.splits)
  have sm1: "sm1 = (is_manager srv)\<lparr>sm_queue := [(SessionDownload (de_path env user_space), t)]\<rparr>"
    using q idle by (auto simp: sm_add_def Let_def split: if_splits)
  have man: "is_manager srv' = sm1" by (simp add: srv' ipc_added_def ipc_emit_def)
  have shown: "map_of (is_state srv') h = Some \<lparr>it_info_hash = h, it_name = tc_name (torrent_common_of t), it_state = IpcPending\<rparr>"
    by (simp add: srv' ipc_added_def ipc_emit_def h update_conv')
  have "\<exists>sm i. queue_worker (de_manager env) sm1 = Some sm \<and> sm_get (torrent_info_hash t) sm = Some i \<and> i < length (sm_sessions sm)
      \<and> sm_sessions sm ! i = s \<and> ts_metadata s = t \<and> current_mode (ts_state s) = ModeDownloading"
    if new: "TorrentSession_new (me_session (de_manager env)) (SessionDownload (de_path env user_space)) t (sm_fs (is_manager srv)) = Some (Inr s, fs)" for s fs
  proof -
    have "ts_metadata s = t \<and> current_mode (ts_state s) = ModeDownloading"
      using new by (auto simp: TorrentSession_new_def transition_def transition_downloading_def swap_state_def session_initial_def Let_def
          split: prod.splits sum.splits option.splits)
    moreover have "queue_worker (de_manager env) sm1 = Some ((is_manager srv)\<lparr>sm_queue := [], sm_fs := fs, sm_sessions := sm_sessions (is_manager srv) @ [s],
        sm_by_hash := AList.update (torrent_info_hash t) (length (sm_sessions (is_manager srv))) (sm_by_hash (is_manager srv))\<rparr>)"
      using new idle by (simp add: queue_worker_def sm1 Let_def)
    ultimately show ?thesis by (auto simp: sm_get_def update_conv')
  qed
  then show ?thesis using v h shown man sm1 by auto
qed

definition loading_denv :: daemon_env where
  "loading_denv = sample_denv\<lparr>de_enc_info := (\<lambda>_. Some []), de_decode := (\<lambda>_. Some (bencode_torrent_from (\<lambda>_. []) sample_torrent))\<rparr>"

lemma sample_loads:
  obtains t where "torrent_load (se_sha1 SessionState.sample_env) (se_sha256 SessionState.sample_env) (\<lambda>_. Some []) sample_codec (de_decode loading_denv) (\<lambda>_. Some []) p = Inr t"
    "torrent_validate (se_sha256 SessionState.sample_env) t = Inr ()"
proof -
  have pl: "piece_length_validate 16384 = Inr ()" unfolding piece_length_valid_nat by (rule exI[of _ 14]) simp
  show thesis
    by (rule that, simp add: torrent_load_def loading_denv_def sample_torrent_def bencode_torrent_from_def bencode_info_from_def apply_from_metadata_def
         v1_from_bencode_def info_mode_def Let_def)
       (simp add: v1_validate_def v1_total_size_def common_from_def piece_length_from_def pl Let_def as_u64_def as_i64_def)
qed

definition loading_server :: ipc_server where
  "loading_server = \<lparr>is_state = [], is_manager = SessionManager_new (sample_fs\<lparr>sf_files := (\<lambda>_. Some [])\<rparr>), is_sent = [], is_shutdown = False\<rparr>"

theorem accepted_download_is_started_witness:
  "\<exists>h srv'. ipc_dispatch loading_denv (\<lambda>_. None) (ReqAddDownload ''f'' ''u'') loading_server = Some (Inr (RespTorrentAdded h), srv')
     \<and> map_option it_state (map_of (is_state srv') h) = Some IpcPending \<and> length (sm_queue (is_manager srv')) = 1"
proof -
  obtain t where t: "torrent_load (se_sha1 SessionState.sample_env) (se_sha256 SessionState.sample_env) (\<lambda>_. Some []) sample_codec (de_decode loading_denv) (\<lambda>_. Some []) [''f''] = Inr t"
    "torrent_validate (se_sha256 SessionState.sample_env) t = Inr ()" by (rule sample_loads)
  have env: "me_session (de_manager loading_denv) = SessionState.sample_env" "de_enc_info loading_denv = (\<lambda>_. Some [])" "de_path loading_denv = (\<lambda>s. [s])"
    by (simp_all add: loading_denv_def sample_denv_def sample_menv_def)
  have codec: "se_codec SessionState.sample_env = sample_codec" by (simp add: SessionState.sample_env_def)
  obtain h srv' where d: "ipc_dispatch loading_denv (\<lambda>_. None) (ReqAddDownload ''f'' ''u'') loading_server = Some (Inr (RespTorrentAdded h), srv')"
    using t by (simp add: TorrentSource_parse_def strip_prefix_def ipc_add_def add_torrent_def env codec loading_server_def SessionManager_new_def sm_add_def Let_def)
  have i: "sm_queue (is_manager loading_server) = []" "\<not> sm_cancelled (is_manager loading_server)"
    by (simp_all add: loading_server_def SessionManager_new_def)
  show ?thesis using d accepted_download_is_started[OF d i] by auto
qed

end
