(* ===== verification/EventStream.thy ===== *)
theory EventStream
  imports Daemon
begin

text \<open>
  The event stream between the daemon and its clients: \<open>accept_loop\<close>, \<open>handle_client\<close>,
  \<open>handle_event_stream\<close> and \<open>send_event\<close> of \<open>ipc/server.rs\<close>, the forwarding task of \<open>bqti.rs\<close>, the
  commands of \<open>cli.rs\<close> and how \<open>ipc/client.rs\<close> turns them into requests and follows the stream.
  A broadcast channel is the list of everything sent; a receiver is a position in it. JSON is a
  parameter; the terminal is not modelled. The theory shows when a client that asks for the list
  and then follows the stream ends up with the server's list, and how it can fail to.
\<close>

subsection \<open>The broadcast channel\<close>

definition EVENT_STREAM_BUFFER_SIZE :: nat where "EVENT_STREAM_BUFFER_SIZE = 64"

datatype 'e received = Received 'e | Lagged nat | NothingYet

definition bc_recv :: "nat \<Rightarrow> 'e list \<Rightarrow> nat \<Rightarrow> 'e received \<times> nat" where
  "bc_recv capacity log pos =
     (if pos + capacity < length log then (Lagged (length log - capacity - pos), length log - capacity)
      else if pos < length log then (Received (log ! pos), Suc pos)
      else (NothingYet, pos))"

subsection \<open>Emitting events\<close>

text \<open>\<open>emit\<close> and \<open>send_event\<close> alike: the state is updated under its lock, and the event is sent after
  the lock was given back. \<open>hb_applied\<close> are the events of tasks between the two halves.\<close>

record hub =
  hb_state :: ipc_state
  hb_applied :: "ipc_event list"
  hb_log :: "ipc_event list"

definition emit_apply :: "ipc_event \<Rightarrow> hub \<Rightarrow> hub" where
  "emit_apply event hb =
     (case ipc_apply (hb_state hb) event of
        (Some event, st) \<Rightarrow> hb\<lparr>hb_state := st, hb_applied := hb_applied hb @ [event]\<rparr>
      | (None, st) \<Rightarrow> hb\<lparr>hb_state := st\<rparr>)"

definition emit_send :: "ipc_event \<Rightarrow> hub \<Rightarrow> hub" where
  "emit_send event hb =
     (if event \<in> set (hb_applied hb)
      then hb\<lparr>hb_applied := remove1 event (hb_applied hb), hb_log := hb_log hb @ [event]\<rparr> else hb)"

definition send_event :: "ipc_event \<Rightarrow> hub \<Rightarrow> hub" where
  "send_event event hb = emit_send event (emit_apply event hb)"

text \<open>The task of \<open>serve_forever\<close> that passes the events of the sessions on; the loop ends at the
  first result of the channel that is not an event.\<close>

fun forward_events :: "ipc_event received list \<Rightarrow> hub \<Rightarrow> hub" where
  "forward_events [] hb = hb"
| "forward_events (Received event # rs) hb = forward_events rs (send_event event hb)"
| "forward_events (NothingYet # rs) hb = forward_events rs hb"
| "forward_events (Lagged n # rs) hb = hb"

subsection \<open>Serving one client\<close>

datatype stream_line = EventLine ipc_event | LagLine nat

datatype write_result = Written | BrokenPipeWrite | WriteFails

datatype stream_end = StreamOpen | StreamOk | StreamError

record event_client =
  ec_pos :: nat
  ec_lines :: "stream_line list"
  ec_end :: stream_end

definition stream_subscribe :: "hub \<Rightarrow> event_client" where
  "stream_subscribe hb = \<lparr>ec_pos = length (hb_log hb), ec_lines = [], ec_end = StreamOpen\<rparr>"

text \<open>\<open>taken\<close> is how many lines of the snapshot the socket takes before it fails, if it does.\<close>

definition stream_snapshot :: "nat option \<Rightarrow> hub \<Rightarrow> event_client \<Rightarrow> event_client" where
  "stream_snapshot taken hb ec =
     (let lines = map EventLine (ipc_replicate (hb_state hb))
      in case taken of
           None \<Rightarrow> ec\<lparr>ec_lines := ec_lines ec @ lines\<rparr>
         | Some n \<Rightarrow> if n < length lines then ec\<lparr>ec_lines := ec_lines ec @ take n lines, ec_end := StreamError\<rparr>
                     else ec\<lparr>ec_lines := ec_lines ec @ lines\<rparr>)"

definition stream_next :: "write_result \<Rightarrow> hub \<Rightarrow> event_client \<Rightarrow> event_client" where
  "stream_next w hb ec =
     (if ec_end ec \<noteq> StreamOpen then ec
      else case bc_recv EVENT_STREAM_BUFFER_SIZE (hb_log hb) (ec_pos ec) of
        (Received event, pos) \<Rightarrow>
          (case w of
             Written \<Rightarrow> ec\<lparr>ec_pos := pos, ec_lines := ec_lines ec @ [EventLine event]\<rparr>
           | BrokenPipeWrite \<Rightarrow> ec\<lparr>ec_pos := pos, ec_end := StreamOk\<rparr>
           | WriteFails \<Rightarrow> ec\<lparr>ec_pos := pos, ec_end := StreamError\<rparr>)
      | (Lagged n, pos) \<Rightarrow>
          ec\<lparr>ec_pos := pos, ec_lines := (if w = Written then ec_lines ec @ [LagLine n] else ec_lines ec), ec_end := StreamOk\<rparr>
      | (NothingYet, pos) \<Rightarrow> ec)"

text \<open>\<open>handle_client\<close> up to the event stream: one line is read, decoded and answered. The result says
  whether the connection goes on as an event stream. \<open>None\<close> inside is the end of the input.\<close>

datatype ipc_reply = ReplyOk ipc_response | ReplyErr ipc_failure | ReplyInvalid

definition ipc_handle_client ::
  "daemon_env \<Rightarrow> (string \<Rightarrow> bytes option) \<Rightarrow> (string \<Rightarrow> ipc_request option) \<Rightarrow> string option \<Rightarrow> ipc_server
     \<Rightarrow> (ipc_reply option \<times> bool \<times> ipc_server) option" where
  "ipc_handle_client env hex_decode from_json line srv =
     (case line of
        None \<Rightarrow> Some (None, False, srv)
      | Some buf \<Rightarrow>
          (case from_json buf of
             None \<Rightarrow> Some (Some ReplyInvalid, False, srv)
           | Some request \<Rightarrow>
               map_option (\<lambda>(r, srv). (Some (case r of Inr resp \<Rightarrow> ReplyOk resp | Inl e \<Rightarrow> ReplyErr e), request = ReqEventStream, srv))
                 (ipc_dispatch env hex_decode request srv)))"

text \<open>\<open>accept_loop\<close>: what each turn of its loop selects. The result counts the clients served and
  says whether the loop ended.\<close>

datatype accept_turn = SawCancelled | AcceptedClient | AcceptError

fun accept_loop :: "accept_turn list \<Rightarrow> nat \<times> bool" where
  "accept_loop [] = (0, False)"
| "accept_loop (SawCancelled # ts) = accept_loop ts"
| "accept_loop (AcceptedClient # ts) = (case accept_loop ts of (n, ended) \<Rightarrow> (Suc n, ended))"
| "accept_loop (AcceptError # ts) = (0, True)"

subsection \<open>Commands of the user\<close>

datatype download_command =
    CmdAdd bool string | CmdStop string | CmdPause string | CmdResume string | CmdList

datatype daemon_command =
    CmdDownload download_command
  | CmdSeed string "string option" "string list list" "string list option" "string list option" u64 bool "string option" "string option"
  | CmdStatus "string option"

definition get_pwd :: "string \<Rightarrow> string \<Rightarrow> string" where
  "get_pwd cwd uri =
     (if strip_prefix ''/'' uri \<noteq> None then uri
      else if cwd \<noteq> [] \<and> last cwd = CHR ''/'' then cwd @ uri else cwd @ ''/'' @ uri)"

definition resolve_link :: "string \<Rightarrow> string \<Rightarrow> string" where
  "resolve_link cwd torrent = (if strip_prefix ''magnet:'' torrent \<noteq> None then torrent else get_pwd cwd torrent)"

fun client_download :: "string \<Rightarrow> download_command \<Rightarrow> ipc_request" where
  "client_download cwd (CmdAdd watch torrent) = ReqAddDownload (resolve_link cwd torrent) cwd"
| "client_download cwd (CmdStop info_hash) = ReqRemoveTorrent info_hash"
| "client_download cwd (CmdPause info_hash) = ReqPauseSession info_hash"
| "client_download cwd (CmdResume info_hash) = ReqResumeSession info_hash"
| "client_download cwd CmdList = ReqTorrents"

fun client_command :: "string \<Rightarrow> daemon_command \<Rightarrow> ipc_request" where
  "client_command cwd (CmdDownload command) = client_download cwd command"
| "client_command cwd (CmdSeed path name announce seeds nodes piece_length private comment created_by) =
     ReqAddSeed name (get_pwd cwd path) piece_length announce seeds nodes private comment created_by"
| "client_command cwd (CmdStatus info_hash) = ReqTorrents"

text \<open>What the command does with the answer; the printed lines are not modelled.\<close>

datatype client_action = ClientDone | ClientFails | FollowStatus string | FollowSingle string | ShowStatus "string option" "ipc_torrent list"

fun client_next :: "daemon_command \<Rightarrow> ipc_failure + ipc_response \<Rightarrow> client_action" where
  "client_next command (Inl e) = ClientFails"
| "client_next (CmdDownload (CmdAdd watch torrent)) (Inr response) =
     (case response of RespTorrentAdded info_hash \<Rightarrow> if watch then FollowStatus info_hash else ClientDone | _ \<Rightarrow> ClientDone)"
| "client_next (CmdDownload _) (Inr response) = ClientDone"
| "client_next (CmdSeed _ _ _ _ _ _ _ _ _) (Inr response) =
     (case response of RespSeedAdded info_hash \<Rightarrow> FollowSingle info_hash | _ \<Rightarrow> ClientFails)"
| "client_next (CmdStatus info_hash) (Inr response) =
     (case response of
        RespTorrents torrents \<Rightarrow> (case status_start info_hash torrents of Inl missing \<Rightarrow> ClientFails | Inr torrents \<Rightarrow> ShowStatus info_hash torrents)
      | _ \<Rightarrow> ClientFails)"

text \<open>The address and tier arguments. \<open>replace_all\<close> is \<open>str::replace\<close>.\<close>

definition parse_tier :: "string \<Rightarrow> string list" where
  "parse_tier s = split_on (CHR '','') s"

function replace_all :: "string \<Rightarrow> string \<Rightarrow> string \<Rightarrow> string" where
  "replace_all pat by s =
     (if pat = [] then s
      else case s of
        [] \<Rightarrow> []
      | c # cs \<Rightarrow> (case strip_prefix pat s of Some rest \<Rightarrow> by @ replace_all pat by rest | None \<Rightarrow> c # replace_all pat by cs))"
  by pat_completeness auto
termination
  by (relation "measure (\<lambda>(_, _, s). length s)") (auto simp: strip_prefix_Some_iff)

declare replace_all.simps [simp del]

definition parse_addr :: "string \<Rightarrow> string" where
  "parse_addr addr =
     (if strip_prefix '':'' addr \<noteq> None then ''127.0.0.1'' @ addr
      else if strip_prefix ''localhost'' addr \<noteq> None then replace_all ''localhost'' ''127.0.0.1'' addr
      else addr)"

subsection \<open>Watching one torrent\<close>

datatype watch_result = WatchOn "nat option" | WatchDone | WatchExposed string string

text \<open>One event of \<open>watch_single\<close>; the number is the position of the progress bar, if there is one.\<close>

fun watch_event :: "string \<Rightarrow> nat option \<Rightarrow> ipc_event \<Rightarrow> watch_result" where
  "watch_event info_hash pb (SessionStateChanged h name state) =
     (if h \<noteq> info_hash then WatchOn pb
      else case state of
        IpcVerifying done_pieces total_pieces \<Rightarrow> if done_pieces = total_pieces then WatchDone else WatchOn (Some (unat done_pieces))
      | _ \<Rightarrow> WatchOn None)"
| "watch_event info_hash pb (ExposeTorrent h magnet) = WatchExposed h magnet"
| "watch_event info_hash pb event = WatchOn pb"

fun watch_single :: "string \<Rightarrow> nat option \<Rightarrow> ipc_event list \<Rightarrow> watch_result" where
  "watch_single info_hash pb [] = WatchOn pb"
| "watch_single info_hash pb (e # es) =
     (case watch_event info_hash pb e of WatchOn pb \<Rightarrow> watch_single info_hash pb es | r \<Rightarrow> r)"

subsection \<open>Undisturbed emitting\<close>

lemma emits_every_event: "fst (ipc_apply st e) = Some e"
  by (cases e) simp_all

lemma emit_apply_simps [simp]:
  "hb_state (emit_apply e hb) = snd (ipc_apply (hb_state hb) e)" "hb_applied (emit_apply e hb) = hb_applied hb @ [e]"
  "hb_log (emit_apply e hb) = hb_log hb"
  using emits_every_event[of "hb_state hb" e]
  by (cases "ipc_apply (hb_state hb) e"; simp add: emit_apply_def)+

lemma send_event_simps [simp]:
  "hb_state (send_event e hb) = snd (ipc_apply (hb_state hb) e)" "hb_log (send_event e hb) = hb_log hb @ [e]"
  by (simp_all add: send_event_def emit_send_def)

lemma send_events_simps:
  "hb_state (foldl (\<lambda>hb e. send_event e hb) hb es) = ipc_run (hb_state hb) es"
  "hb_log (foldl (\<lambda>hb e. send_event e hb) hb es) = hb_log hb @ es"
  by (induction es arbitrary: hb) (simp_all add: ipc_run_def)

text \<open>The emitter of the command interface is this one, run without interruption.\<close>

lemma ipc_emit_is_send_event:
  "\<lparr>hb_state = is_state (ipc_emit e srv), hb_applied = [], hb_log = is_sent (ipc_emit e srv)\<rparr> =
     send_event e \<lparr>hb_state = is_state srv, hb_applied = [], hb_log = is_sent srv\<rparr>"
  using emits_every_event[of "is_state srv" e]
  by (cases "ipc_apply (is_state srv) e") (simp add: ipc_emit_def send_event_def emit_apply_def emit_send_def)

subsection \<open>Reading the stream\<close>

text \<open>A client that has not lagged has been sent exactly what was emitted since it subscribed, up to
  its position, after the snapshot.\<close>

definition in_step :: "nat \<Rightarrow> stream_line list \<Rightarrow> hub \<Rightarrow> event_client \<Rightarrow> bool" where
  "in_step start snapshot hb ec \<longleftrightarrow> start \<le> ec_pos ec \<and> ec_pos ec \<le> length (hb_log hb) \<and>
     ec_lines ec = snapshot @ map EventLine (take (ec_pos ec - start) (drop start (hb_log hb)))"

lemma in_step_send: "in_step start snap hb ec \<Longrightarrow> in_step start snap (send_event e hb) ec"
  by (auto simp: in_step_def)

lemma in_step_next:
  assumes "in_step start snap hb ec" and "ec_end (stream_next w hb ec) = StreamOpen"
  shows "in_step start snap hb (stream_next w hb ec)"
proof -
  have "take (Suc (ec_pos ec - start)) (drop start (hb_log hb)) = take (ec_pos ec - start) (drop start (hb_log hb)) @ [hb_log hb ! ec_pos ec]"
    if "start \<le> ec_pos ec" "ec_pos ec < length (hb_log hb)"
    using that by (subst take_Suc_conv_app_nth) auto
  then show ?thesis
    using assms by (auto simp: in_step_def stream_next_def bc_recv_def Suc_diff_le split: if_splits write_result.splits)
qed

datatype stream_action = Emitted ipc_event | Pulled write_result

fun stream_step :: "hub \<times> event_client \<Rightarrow> stream_action \<Rightarrow> hub \<times> event_client" where
  "stream_step (hb, ec) (Emitted e) = (send_event e hb, ec)"
| "stream_step (hb, ec) (Pulled w) = (hb, stream_next w hb ec)"

fun emitted :: "stream_action list \<Rightarrow> ipc_event list" where
  "emitted [] = []"
| "emitted (Emitted e # as) = e # emitted as"
| "emitted (Pulled w # as) = emitted as"

lemma stream_closed: "ec_end ec \<noteq> StreamOpen \<Longrightarrow> ec_end (snd (foldl stream_step (hb, ec) as)) = ec_end ec"
proof (induction as arbitrary: hb ec)
  case (Cons a as)
  then show ?case by (cases a) (auto simp: stream_next_def)
qed simp

lemma stream_run:
  assumes "in_step start snap hb ec" and "foldl stream_step (hb, ec) as = (hb', ec')" and "ec_end ec' = StreamOpen"
  shows "in_step start snap hb' ec' \<and> hb_state hb' = ipc_run (hb_state hb) (emitted as) \<and> hb_log hb' = hb_log hb @ emitted as"
  using assms
proof (induction as arbitrary: hb ec)
  case (Cons a as)
  show ?case
  proof (cases a)
    case (Emitted e)
    then show ?thesis using Cons.IH[OF in_step_send[OF Cons.prems(1)]] Cons.prems(2,3) by (simp add: ipc_run_Cons)
  next
    case (Pulled w)
    have "ec_end (stream_next w hb ec) = StreamOpen"
      using stream_closed[of "stream_next w hb ec" hb as] Cons.prems(2,3) Pulled by fastforce
    then show ?thesis using Cons.IH[OF in_step_next[OF Cons.prems(1)]] Cons.prems(2,3) Pulled by simp
  qed
qed (simp add: ipc_run_def)

subsection \<open>The client's list\<close>

lemma listed_snapshot:
  assumes "ipc_wf st"
  shows "listed (foldl (status_event None) ts (ipc_replicate st)) =
     (\<lambda>h. case listed ts h of None \<Rightarrow> None | Some s \<Rightarrow> Some (case map_of st h of None \<Rightarrow> s | Some u \<Rightarrow> it_state u))"
  using assms
proof (induction st arbitrary: ts)
  case Nil
  then show ?case by (simp add: ipc_replicate_def fun_eq_iff split: option.split)
next
  case (Cons kt st)
  obtain k t where kt: "kt = (k, t)" by fastforce
  have k: "it_info_hash t = k" "map_of st k = None" "ipc_wf st"
    using Cons.prems kt by (auto simp: ipc_wf_def map_of_eq_None_iff)
  have "ipc_replicate (kt # st) = SessionStateChanged k (it_name t) (it_state t) # ipc_replicate st"
    by (simp add: ipc_replicate_def kt k(1))
  then show ?case
    using Cons.IH[OF k(3), of "update_first k (it_state t) ts"] k(2)
    by (auto simp: kt relevant_def listed_update_first fun_eq_iff split: option.splits)
qed

fun touches :: "ipc_event \<Rightarrow> string \<Rightarrow> bool" where
  "touches (SessionStateChanged h _ _) h' \<longleftrightarrow> h' = h"
| "touches (TorrentAdded h _ _) h' \<longleftrightarrow> h' = h"
| "touches (TorrentRemoved h) h' \<longleftrightarrow> h' = h"
| "touches _ h' \<longleftrightarrow> False"

lemma untouched: "\<forall>e\<in>set es. \<not> touches e h \<Longrightarrow> map_of (ipc_run st es) h = map_of st h"
proof (induction es arbitrary: st)
  case (Cons e es)
  have "map_of (snd (ipc_apply st e)) h = map_of st h"
    using Cons.prems unfolding apply_lookup by (cases e) auto
  then show ?case using Cons by (simp add: ipc_run_Cons del: ipc_apply.simps)
qed (simp add: ipc_run_def)

text \<open>Events that are replayed on a list that already knows their outcome end in that outcome.\<close>

lemma replay_converges:
  assumes "\<forall>h. (listed ts h = None) = (shown st h = None)" and "\<forall>h. (\<forall>e\<in>set es. \<not> touches e h) \<longrightarrow> listed ts h = shown st h"
    and "fresh_adds st es"
  shows "listed (foldl (status_event None) ts es) = shown (ipc_run st es)"
  using assms
proof (induction es arbitrary: ts st)
  case Nil
  then show ?case by (simp add: ipc_run_def fun_eq_iff)
next
  case (Cons e es)
  let ?ts = "status_event None ts e" and ?st = "snd (ipc_apply st e)"
  have listed_e: "listed ?ts h = (case e of
      SessionStateChanged i n s \<Rightarrow> if h = i then map_option (\<lambda>_. s) (listed ts h) else listed ts h
    | TorrentAdded i n s \<Rightarrow> if h = i \<and> listed ts h = None then Some s else listed ts h
    | TorrentRemoved i \<Rightarrow> if h = i then None else listed ts h
    | _ \<Rightarrow> listed ts h)" for h
    by (cases e) (auto simp: relevant_def listed_update_first listed_filter listed_append listed_def[of "[_]"] split: option.split)
  have shown_e: "shown ?st h = (case e of
      SessionStateChanged i n s \<Rightarrow> if h = i then map_option (\<lambda>_. s) (shown st h) else shown st h
    | TorrentAdded i n s \<Rightarrow> if h = i then Some s else shown st h
    | TorrentRemoved i \<Rightarrow> if h = i then None else shown st h
    | _ \<Rightarrow> shown st h)" for h
    unfolding shown_def apply_lookup by (cases e) (auto simp: option.map_comp comp_def)
  have new: "case e of TorrentAdded i n s \<Rightarrow> shown st i = None | _ \<Rightarrow> True" and rest: "fresh_adds ?st es"
    using Cons.prems(3) by (auto simp: shown_def split: ipc_event.splits)
  have same: "(listed ts h = None) = (shown st h = None)" for h using Cons.prems(1) by blast
  have dom: "\<forall>h. (listed ?ts h = None) = (shown ?st h = None)"
    unfolding listed_e shown_e using same by (auto split: ipc_event.split) (metis option.exhaust)
  have "listed ?ts h = shown ?st h" if "\<forall>e\<in>set es. \<not> touches e h" for h
  proof (cases "touches e h")
    case True
    then show ?thesis unfolding listed_e shown_e using same[of h] new by (cases e; cases "listed ts h"; cases "shown st h") auto
  next
    case False
    then have "listed ts h = shown st h" using that Cons.prems(2) by simp
    then show ?thesis unfolding listed_e shown_e using False by (cases e) auto
  qed
  then show ?case using Cons.IH[OF dom _ rest] by (simp add: ipc_run_Cons del: ipc_apply.simps)
qed

lemma ipc_run_append: "ipc_run st (es @ fs) = ipc_run (ipc_run st es) fs"
  by (simp add: ipc_run_def)

lemma ipc_run_wf: "ipc_wf st \<Longrightarrow> ipc_wf (ipc_run st es)"
  by (induction es arbitrary: st) (simp_all add: ipc_run_def ipc_apply_wf del: ipc_apply.simps)

lemma fresh_adds_append: "fresh_adds st (es @ fs) \<longleftrightarrow> fresh_adds st es \<and> fresh_adds (ipc_run st es) fs"
  by (induction es arbitrary: st) (auto simp: ipc_run_def simp del: ipc_apply.simps)

definition only_changes :: "ipc_event list \<Rightarrow> bool" where
  "only_changes es \<longleftrightarrow> (\<forall>e\<in>set es. case e of TorrentAdded _ _ _ \<Rightarrow> False | TorrentRemoved _ \<Rightarrow> False | _ \<Rightarrow> True)"

lemma only_changes_dom: "only_changes es \<Longrightarrow> (map_of (ipc_run st es) h = None) = (map_of st h = None)"
proof (induction es arbitrary: st)
  case (Cons e es)
  have "(map_of (snd (ipc_apply st e)) h = None) = (map_of st h = None)"
    using Cons.prems unfolding apply_lookup by (cases e) (auto simp: only_changes_def)
  moreover have "only_changes es" using Cons.prems by (simp add: only_changes_def)
  ultimately show ?case using Cons.IH by (simp add: ipc_run_Cons del: ipc_apply.simps)
qed (simp add: ipc_run_def)

text \<open>The snapshot is taken after the subscription, so the events in between reach the client twice;
  the list it builds is that of the server all the same.\<close>

lemma snapshot_then_replay:
  assumes wf: "ipc_wf st" and gap: "only_changes g" and fresh: "fresh_adds st (g @ d)"
  shows "listed (foldl (status_event None) (map snd st) (ipc_replicate (ipc_run st (g @ d)) @ d)) = shown (ipc_run st (g @ d))"
proof -
  let ?st1 = "ipc_run st g" and ?st2 = "ipc_run (ipc_run st g) d"
  let ?ts = "foldl (status_event None) (map snd st) (ipc_replicate ?st2)"
  note start = listed_start[OF wf]
  have ts: "listed ?ts h = (case shown st h of None \<Rightarrow> None | Some s \<Rightarrow> Some (case map_of ?st2 h of None \<Rightarrow> s | Some u \<Rightarrow> it_state u))" for h
    using listed_snapshot[OF ipc_run_wf[OF ipc_run_wf[OF wf]], where ts = "map snd st"] by (simp add: start)
  have dom: "(shown st h = None) = (shown ?st1 h = None)" for h
    using only_changes_dom[OF gap, of st h] by (simp add: shown_def)
  have "listed (foldl (status_event None) ?ts d) = shown ?st2"
  proof (rule replay_converges)
    show "\<forall>h. (listed ?ts h = None) = (shown ?st1 h = None)" unfolding dom[symmetric] by (simp add: ts split: option.split)
    show "fresh_adds ?st1 d" using fresh by (simp add: fresh_adds_append)
    show "\<forall>h. (\<forall>e\<in>set d. \<not> touches e h) \<longrightarrow> listed ?ts h = shown ?st1 h"
    proof (intro allI impI)
      fix h assume "\<forall>e\<in>set d. \<not> touches e h"
      then have "map_of ?st2 h = map_of ?st1 h" by (rule untouched)
      then show "listed ?ts h = shown ?st1 h" using dom[of h] unfolding ts by (auto simp: shown_def split: option.split)
    qed
  qed
  then show ?thesis by (simp add: ipc_run_append)
qed

subsection \<open>Properties\<close>

text \<open>A client that asks for the torrents, subscribes and follows the stream to its end shows the
  server's torrents in the server's states: whatever was emitted between subscription and
  snapshot, between the reads and while it was reading, as long as it did not fall behind by more
  than the channel holds, no torrent is added while listed, events are emitted one at a time,
  and between the question and the subscription no torrent was added or removed.\<close>

lemma stream_converges:
  assumes wf: "ipc_wf (hb_state hb)" and gap: "only_changes g" and fresh: "fresh_adds (hb_state hb) (g @ d @ emitted as)"
    and hb1: "hb1 = foldl (\<lambda>hb e. send_event e hb) hb g" and hb2: "hb2 = foldl (\<lambda>hb e. send_event e hb) hb1 d"
    and run: "foldl stream_step (hb2, stream_snapshot None hb2 (stream_subscribe hb1)) as = (hb', ec')"
    and upto: "ec_end ec' = StreamOpen" "ec_pos ec' = length (hb_log hb')"
  shows "\<exists>events. ec_lines ec' = map EventLine events \<and>
     listed (foldl (status_event None) (map snd (hb_state hb)) events) = shown (hb_state hb')"
proof -
  let ?st = "hb_state hb" and ?snap = "ipc_replicate (hb_state hb2)"
  have st2: "hb_state hb2 = ipc_run ?st (g @ d)" and logs: "hb_log hb2 = hb_log hb1 @ d"
    by (simp_all add: hb1 hb2 send_events_simps ipc_run_append)
  have "in_step (length (hb_log hb1)) (map EventLine ?snap) hb2 (stream_snapshot None hb2 (stream_subscribe hb1))"
    by (simp add: in_step_def stream_snapshot_def stream_subscribe_def logs)
  from stream_run[OF this run upto(1)] have fin: "in_step (length (hb_log hb1)) (map EventLine ?snap) hb' ec'"
    "hb_state hb' = ipc_run ?st (g @ d @ emitted as)" "hb_log hb' = hb_log hb1 @ d @ emitted as"
    by (simp_all add: st2 logs ipc_run_append)
  have lines: "ec_lines ec' = map EventLine ((?snap @ d) @ emitted as)" using fin(1,3) upto(2) by (simp add: in_step_def)
  have "listed (foldl (status_event None) (map snd ?st) (?snap @ d)) = shown (ipc_run ?st (g @ d))"
    unfolding st2 by (rule snapshot_then_replay[OF wf gap]) (use fresh in \<open>simp add: fresh_adds_append\<close>)
  then have "listed (foldl (status_event None) (foldl (status_event None) (map snd ?st) (?snap @ d)) (emitted as)) = shown (ipc_run (ipc_run ?st (g @ d)) (emitted as))"
    by (rule status_run) (use fresh in \<open>simp add: fresh_adds_append ipc_run_append\<close>)
  then have "listed (foldl (status_event None) (map snd ?st) ((?snap @ d) @ emitted as)) = shown (hb_state hb')"
    using fin(2) by (simp add: ipc_run_append)
  then show ?thesis using lines by blast
qed

definition sample_hub :: hub where
  "sample_hub = \<lparr>hb_state = [(''a'', \<lparr>it_info_hash = ''a'', it_name = ''n'', it_state = IpcPending\<rparr>)], hb_applied = [], hb_log = []\<rparr>"

text \<open>Two tasks that emit at the same time can send in the other order than they changed the state:
  the client has then read everything and still shows the state the server has left.\<close>

lemma racing_emits_diverge:
  assumes wf: "ipc_wf (hb_state hb)" and t: "map_of (hb_state hb) h = Some t" and idle: "hb_applied hb = []"
    and a: "a = SessionStateChanged h n s1" and b: "b = SessionStateChanged h n s2" and "s1 \<noteq> s2"
    and hb': "hb' = emit_send a (emit_send b (emit_apply b (emit_apply a hb)))"
  shows "hb_log hb' = hb_log hb @ [b, a] \<and> hb_applied hb' = [] \<and> shown (hb_state hb') h = Some s2 \<and>
     listed (foldl (status_event None) (map snd (hb_state hb)) [b, a]) h = Some s1"
proof -
  have hb'': "hb_log hb' = hb_log hb @ [b, a]" "hb_applied hb' = []" "hb_state hb' = ipc_run (hb_state hb) [a, b]"
    using idle by (auto simp: hb' emit_send_def ipc_run_def)
  have "listed (foldl (status_event None) (map snd (hb_state hb)) [b, a]) = shown (ipc_run (hb_state hb) [b, a])"
    by (rule status_run[OF listed_start[OF wf]]) (simp add: a b)
  moreover have "shown (ipc_run (hb_state hb) [SessionStateChanged h n x, SessionStateChanged h n y]) h = Some y" for x y
    using t by (simp add: ipc_run_def shown_def apply_lookup del: ipc_apply.simps)
  ultimately show ?thesis using hb'' by (simp add: a b)
qed

text \<open>A torrent that is added between the question and the subscription is never listed, however
  often its state changes afterwards: neither the snapshot nor the stream creates it.\<close>

lemma update_first_unknown: "h \<notin> it_info_hash ` set ts \<Longrightarrow> update_first h s ts = ts"
  by (induction ts) auto

lemma changes_do_not_list:
  assumes "h \<notin> it_info_hash ` set ts" and "only_changes es"
  shows "h \<notin> it_info_hash ` set (foldl (status_event sel) ts es)"
  using assms
proof (induction es arbitrary: ts)
  case (Cons e es)
  have hashes: "it_info_hash ` set (update_first h' s ts) = it_info_hash ` set ts" for h' s ts
    by (induction ts) auto
  have "h \<notin> it_info_hash ` set (status_event sel ts e)" using Cons.prems hashes by (cases e) (auto simp: only_changes_def)
  moreover have "only_changes es" using Cons.prems(2) by (simp add: only_changes_def)
  ultimately show ?case using Cons.IH by simp
qed simp

lemma torrent_added_in_gap_is_missed:
  assumes "map_of (hb_state hb) h = None" and "ipc_wf (hb_state hb)" and "only_changes es"
  shows "h \<notin> it_info_hash ` set (foldl (status_event None) (map snd (hb_state hb))
     (ipc_replicate (hb_state (send_event (TorrentAdded h n s) hb)) @ es))"
proof -
  have "h \<notin> it_info_hash ` set (map snd (hb_state hb))"
    using assms(1,2) by (force simp: map_of_eq_None_iff ipc_wf_def)
  moreover have "only_changes (ipc_replicate st)" for st by (auto simp: only_changes_def ipc_replicate_def)
  then have "only_changes (ipc_replicate (hb_state (send_event (TorrentAdded h n s) hb)) @ es)"
    using assms(3) unfolding only_changes_def by fastforce
  ultimately show ?thesis by (rule changes_do_not_list)
qed

text \<open>A request to shut down does not end the loop that accepts clients: it turns on the spot, and
  still serves whoever connects.\<close>

lemma shutdown_does_not_end_accepting: "AcceptError \<notin> set ts \<Longrightarrow> \<not> snd (accept_loop ts)"
  by (induction ts rule: accept_loop.induct) (auto split: prod.split)

lemma cancelled_accepting_spins: "accept_loop (replicate n SawCancelled @ AcceptedClient # ts) = map_prod Suc id (accept_loop ts)"
  by (induction n) (auto split: prod.split)

text \<open>After a session event was missed, the task that passes them on is gone, and clients hear
  nothing of the sessions any more.\<close>

lemma lag_ends_forwarding: "forward_events (map Received es @ Lagged n # rs) hb = foldl (\<lambda>hb e. send_event e hb) hb es"
  by (induction es arbitrary: hb) simp_all

text \<open>The command that seeds waits for an event of its torrent, but ends with the magnet link of
  whichever torrent is announced first; and when its own torrent was verified and announced before
  it subscribed, nothing in the snapshot ends the wait.\<close>

lemma watch_ends_with_any_torrent: "watch_single info_hash pb (ExposeTorrent h magnet # es) = WatchExposed h magnet"
  by simp

lemma watch_misses_early_announcement:
  assumes "\<forall>(k, t)\<in>set st. \<forall>v n. it_state t \<noteq> IpcVerifying v n"
  shows "\<exists>pb'. watch_single info_hash pb (ipc_replicate st) = WatchOn pb'"
  using assms
proof (induction st arbitrary: pb)
  case (Cons kt st)
  then show ?case by (cases kt; cases "it_state (snd kt)") (auto simp: ipc_replicate_def)
qed (simp add: ipc_replicate_def)

text \<open>A client that falls behind by more than the channel holds is told so and disconnected.\<close>

lemma lagging_client_is_dropped:
  assumes "ec_end ec = StreamOpen" and "ec_pos ec + 64 < length (hb_log hb)"
  shows "ec_end (stream_next Written hb ec) = StreamOk \<and>
     ec_lines (stream_next Written hb ec) = ec_lines ec @ [LagLine (length (hb_log hb) - 64 - ec_pos ec)]"
  using assms by (simp add: stream_next_def bc_recv_def EVENT_STREAM_BUFFER_SIZE_def)

subsection \<open>Arguments\<close>

lemma parse_tier_joins: "concat (map (\<lambda>w. w @ '','') (parse_tier s)) = s @ '',''"
proof -
  have "split_on c s \<noteq> []" for c s by (induction c s rule: split_on.induct) (auto split: list.split)
  then have "concat (map (\<lambda>w. w @ [c]) (split_on c s)) = s @ [c]" for c
    by (induction c s rule: split_on.induct) (auto split: list.splits)
  then show ?thesis by (simp add: parse_tier_def)
qed

text \<open>A relative link to a torrent file becomes an absolute one, and an absolute one stays.\<close>

lemma resolve_link_idem:
  assumes "strip_prefix ''/'' cwd \<noteq> None"
  shows "resolve_link cwd' (resolve_link cwd torrent) = resolve_link cwd torrent"
proof -
  have abs: "strip_prefix ''/'' (get_pwd cwd torrent) \<noteq> None" using assms by (auto simp: get_pwd_def strip_prefix_Some_iff)
  then have "get_pwd cwd' (get_pwd cwd torrent) = get_pwd cwd torrent" by (simp add: get_pwd_def)
  moreover have "strip_prefix ''magnet:'' (get_pwd cwd torrent) = None"
    using abs by (auto simp: strip_prefix_Some_iff) (simp add: strip_prefix_def)
  ultimately show ?thesis by (simp add: resolve_link_def)
qed

text \<open>\<open>download add --watch\<close>: once the daemon has accepted the download, the status command that
  follows finds it and does not fail as "not found".\<close>

lemma added_download_can_be_watched:
  assumes wf: "ipc_wf (is_state srv)"
    and add: "ipc_dispatch env hex_decode (client_command cwd (CmdDownload (CmdAdd True t))) srv = Some (r, srv')"
    and follow: "client_next (CmdDownload (CmdAdd True t)) r = FollowStatus h"
  shows "\<exists>reply torrents. ipc_dispatch env hex_decode (client_command cwd (CmdStatus (Some h))) srv' = Some (reply, srv') \<and>
     client_next (CmdStatus (Some h)) reply = ShowStatus (Some h) torrents \<and> torrents \<noteq> []"
proof -
  obtain source where "TorrentSource_parse (resolve_link cwd t) = Inr source"
    and ok: "ipc_add env (ActionDownload source (de_path env cwd)) RespTorrentAdded srv = (r, srv')"
    using add follow by (auto split: sum.splits)
  then obtain torrent sm where h: "h = info_hash_show (me_hex (de_manager env)) (torrent_info_hash torrent)"
    and srv': "srv' = ipc_added env torrent (srv\<lparr>is_manager := sm\<rparr>)"
    using follow by (auto simp: ipc_add_def split: sum.splits prod.splits)
  let ?e = "TorrentAdded h (tc_name (torrent_common_of torrent)) IpcPending"
  have st: "is_state srv' = snd (ipc_apply (is_state srv) ?e)"
    by (cases "ipc_apply (is_state srv) ?e") (auto simp: srv' h ipc_added_def ipc_emit_def split: option.split)
  then obtain u where "map_of (is_state srv') h = Some u" using apply_lookup[of "is_state srv" ?e h] by auto
  moreover have "ipc_wf (is_state srv')" unfolding st by (rule ipc_apply_wf[OF wf])
  ultimately have "(h, u) \<in> set (is_state srv')" "it_info_hash u = h" by (auto simp: ipc_wf_def dest!: map_of_SomeD)
  then have "filter (\<lambda>t. it_info_hash t = h) (map snd (is_state srv')) \<noteq> []" by (force simp: filter_empty_conv)
  then show ?thesis by (auto simp: status_start_def Let_def)
qed

end
