(* ===== verification/Enclave.thy ===== *)
theory Enclave
  imports Auth
begin

text \<open>
  The enclave, from the Rust wrapper of \<open>bqti-tee/src/keystone/\<close> over the host functions of
  \<open>bqti-enclave/src/host/enclave_ffi.cpp\<close> to the application \<open>bqti-enclave/src/eapp/bqti.c\<close> that runs
  inside, with \<open>TeeProver\<close> of \<open>dht/auth/pow.rs\<close> on top. Requests and answers are unions in C and
  therefore byte strings here, with the layout of \<open>protocol.h\<close> on the little-endian machine the
  enclave runs on. The key pair that TweetNaCl derives from the sealing key, SHA-256, the
  attestation of the security monitor and whether the runtime executes the application are
  parameters. \<open>None\<close> is a search without end or an access outside a buffer.
\<close>

subsection \<open>Memory\<close>

definition peek :: "nat \<Rightarrow> nat \<Rightarrow> bytes \<Rightarrow> bytes" where
  "peek off n mem = take n (drop off mem)"

definition poke :: "nat \<Rightarrow> bytes \<Rightarrow> bytes \<Rightarrow> bytes" where
  "poke off bs mem = take off mem @ bs @ drop (off + length bs) mem"

definition get_u32 :: "nat \<Rightarrow> bytes \<Rightarrow> u32" where
  "get_u32 off mem = word_of_nat (from_be_bytes (rev (peek off 4 mem)))"

definition get_u64 :: "nat \<Rightarrow> bytes \<Rightarrow> u64" where
  "get_u64 off mem = word_of_nat (from_be_bytes (rev (peek off 8 mem)))"

definition REQUEST_SIZE :: nat where "REQUEST_SIZE = 1032"
definition ATTEST_REPORT_SIZE :: nat where "ATTEST_REPORT_SIZE = 1352"
definition DATA_MAX_LENGTH :: nat where "DATA_MAX_LENGTH = 1024"

definition OP_HASH :: u32 where "OP_HASH = 1"
definition OP_SIGN :: u32 where "OP_SIGN = 2"
definition OP_POW :: u32 where "OP_POW = 3"
definition OP_FETCH_PUBKEY :: u32 where "OP_FETCH_PUBKEY = 4"
definition OP_ATTEST :: u32 where "OP_ATTEST = 5"

lemmas op_defs = OP_HASH_def OP_SIGN_def OP_POW_def OP_FETCH_PUBKEY_def OP_ATTEST_def

record enclave_req =
  rq_op :: u32
  rq_body :: bytes

record enclave_res =
  rs_op :: u32
  rs_status :: u32
  rs_body :: bytes

record enclave_env =
  ev_sha256 :: "bytes \<Rightarrow> bytes"
  ev_pk :: bytes
  ev_sign :: "bytes \<Rightarrow> bytes"
  ev_attest :: "bytes \<Rightarrow> bytes option"
  ev_runs :: bool

subsection \<open>The application inside\<close>

definition meets_difficulty :: "bytes \<Rightarrow> u32 \<Rightarrow> bool option" where
  "meets_difficulty hash difficulty =
     (let full_bytes = unat (difficulty div 8); remaining_bits = unat (difficulty mod 8)
      in if \<not> list_all (\<lambda>b. b = 0) (take full_bytes hash) then Some False
         else if length hash < full_bytes then None
         else if 0 < remaining_bits
         then (if full_bytes < length hash then Some ((hash ! full_bytes) AND push_bit (8 - remaining_bits) 0xFF = 0) else None)
         else Some True)"

partial_function (option) eapp_pow :: "(bytes \<Rightarrow> bytes) \<Rightarrow> bytes \<Rightarrow> u32 \<Rightarrow> u32 \<Rightarrow> u32 \<Rightarrow> (u32 \<times> bytes) option" where
  "eapp_pow sha256 pk challenge difficulty nonce =
     (let hash = sha256 (pk @ to_be_bytes_u32 challenge @ to_be_bytes_u32 nonce)
      in case meets_difficulty hash difficulty of
           None \<Rightarrow> None
         | Some ok \<Rightarrow> if ok then Some (nonce, hash) else eapp_pow sha256 pk challenge difficulty (nonce + 1))"

definition eapp_main :: "enclave_env \<Rightarrow> enclave_req \<Rightarrow> enclave_res option" where
  "eapp_main env rq =
     (let body = rq_body rq; zero = replicate ATTEST_REPORT_SIZE 0;
          res = (\<lambda>status b. Some \<lparr>rs_op = rq_op rq, rs_status = status, rs_body = b\<rparr>)
      in if rq_op rq = OP_HASH
         then let data_len = unat (get_u64 256 body)
              in if REQUEST_SIZE < data_len then None else res 0 (poke 0 (ev_sha256 env (peek 0 data_len body)) zero)
         else if rq_op rq = OP_SIGN
         then let data_len = unat (get_u64 1024 body)
              in if REQUEST_SIZE < data_len then None
                 else res 0 (poke 64 (ev_pk env) (poke 0 (ev_sign env (peek 0 data_len body)) zero))
         else if rq_op rq = OP_POW
         then (case eapp_pow (ev_sha256 env) (ev_pk env) (get_u32 0 body) (get_u32 4 body) 0 of
                 None \<Rightarrow> None
               | Some (nonce, hash) \<Rightarrow>
                   res 0 (poke 36 (ev_pk env) (poke 68 (ev_sign env hash) (poke 4 hash (poke 0 (to_le_bytes_u32 nonce) zero)))))
         else if rq_op rq = OP_FETCH_PUBKEY then res 0 (poke 0 (ev_pk env) zero)
         else if rq_op rq = OP_ATTEST
         then let nonce_len = unat (get_u64 64 body)
              in if REQUEST_SIZE < nonce_len then None
                 else (case ev_attest env (peek 0 nonce_len body) of
                         None \<Rightarrow> res (-1) zero
                       | Some report \<Rightarrow> res 0 (poke 0 report zero))
         else res (-2) zero)"

subsection \<open>The host\<close>

record enclave_host =
  eh_enclave :: bool
  eh_request :: enclave_req
  eh_response :: enclave_res
  eh_initialized :: bool

definition ffi_init :: "enclave_host \<Rightarrow> int \<times> enclave_host" where
  "ffi_init h = (0, h\<lparr>eh_enclave := True, eh_initialized := True\<rparr>)"

definition ffi_destroy :: "enclave_host \<Rightarrow> enclave_host" where
  "ffi_destroy h = h\<lparr>eh_enclave := False, eh_initialized := False\<rparr>"

text \<open>\<open>Enclave::run\<close> serves the two calls of the application; its own result is ignored.\<close>

definition run_enclave :: "enclave_env \<Rightarrow> enclave_host \<Rightarrow> enclave_host option" where
  "run_enclave env h =
     (if ev_runs env then map_option (\<lambda>res. h\<lparr>eh_response := res\<rparr>) (eapp_main env (eh_request h)) else Some h)"

definition ffi_call :: "enclave_env \<Rightarrow> u32 \<Rightarrow> bytes \<Rightarrow> enclave_host \<Rightarrow> (int \<times> bytes \<times> enclave_host) option" where
  "ffi_call env op body h =
     map_option (\<lambda>h. (sint (rs_status (eh_response h)), rs_body (eh_response h), h))
       (run_enclave env (h\<lparr>eh_request := \<lparr>rq_op = op, rq_body = body\<rparr>\<rparr>))"

record pow_out =
  po_pow :: bytes
  po_nonce :: u32
  po_sig :: bytes
  po_pub_key :: bytes

definition ffi_run_pow :: "enclave_env \<Rightarrow> u32 \<Rightarrow> u32 \<Rightarrow> pow_out \<Rightarrow> enclave_host \<Rightarrow> (int \<times> pow_out \<times> enclave_host) option" where
  "ffi_run_pow env challenge difficulty out h =
     (if \<not> eh_initialized h then Some (-1, out, h)
      else map_option (\<lambda>(status, body, h).
             (status, \<lparr>po_pow = peek 4 32 body, po_nonce = get_u32 0 body, po_sig = peek 68 64 body, po_pub_key = peek 36 32 body\<rparr>, h))
           (ffi_call env OP_POW (poke 4 (to_le_bytes_u32 difficulty) (poke 0 (to_le_bytes_u32 challenge) (rq_body (eh_request h)))) h))"

definition ffi_get_pubkey :: "enclave_env \<Rightarrow> bytes \<Rightarrow> enclave_host \<Rightarrow> (int \<times> bytes \<times> enclave_host) option" where
  "ffi_get_pubkey env out h =
     (if \<not> eh_initialized h then Some (-1, out, h)
      else map_option (\<lambda>(status, body, h). (status, peek 0 32 body, h)) (ffi_call env OP_FETCH_PUBKEY (rq_body (eh_request h)) h))"

definition ffi_sign :: "enclave_env \<Rightarrow> bytes \<Rightarrow> bytes \<Rightarrow> enclave_host \<Rightarrow> (int \<times> bytes \<times> enclave_host) option" where
  "ffi_sign env data out h =
     (if \<not> eh_initialized h then Some (-1, out, h)
      else if DATA_MAX_LENGTH < length data then Some (-8, out, h)
      else map_option (\<lambda>(status, body, h). (status, peek 0 64 body, h))
           (ffi_call env OP_SIGN (poke 1024 (to_le_bytes_u64 (of_nat (length data))) (poke 0 data (rq_body (eh_request h)))) h))"

text \<open>The nonce is copied without a check of its length: over the end of its field into the rest of
  the union, and past the union into whatever follows.\<close>

definition ffi_attest :: "enclave_env \<Rightarrow> bytes \<Rightarrow> bytes \<Rightarrow> enclave_host \<Rightarrow> (int \<times> bytes \<times> enclave_host) option" where
  "ffi_attest env nonce out h =
     (if \<not> eh_initialized h then Some (-1, out, h)
      else if REQUEST_SIZE < length nonce then None
      else map_option (\<lambda>(status, body, h). (status, peek 0 ATTEST_REPORT_SIZE body, h))
           (ffi_call env OP_ATTEST (poke 64 (to_le_bytes_u64 (of_nat (length nonce))) (poke 0 nonce (rq_body (eh_request h)))) h))"

subsection \<open>The wrapper\<close>

datatype tee_error = InitFailed int | PowFailed int | SignatureFailed int | PublicKeyFailed int | AttestFailed int

text \<open>Every operation starts the enclave, makes one call and destroys it, under one lock.\<close>

definition with_enclave ::
  "(int \<Rightarrow> tee_error) \<Rightarrow> (enclave_host \<Rightarrow> (int \<times> 'a \<times> enclave_host) option) \<Rightarrow> enclave_host \<Rightarrow> ((tee_error + 'a) \<times> enclave_host) option" where
  "with_enclave failed call h =
     (case ffi_init h of
        (code, h) \<Rightarrow>
          if code \<noteq> 0 then Some (Inl (InitFailed code), h)
          else (case call h of
                  None \<Rightarrow> None
                | Some (result, out, h) \<Rightarrow> Some (if result \<noteq> 0 then Inl (failed result) else Inr out, ffi_destroy h)))"

definition tee_pow :: "enclave_env \<Rightarrow> u32 \<Rightarrow> u32 \<Rightarrow> enclave_host \<Rightarrow> ((tee_error + pow_out) \<times> enclave_host) option" where
  "tee_pow env challange difficulty =
     with_enclave PowFailed (ffi_run_pow env challange difficulty
       \<lparr>po_pow = replicate 32 0, po_nonce = 0, po_sig = replicate 64 0, po_pub_key = replicate 32 0\<rparr>)"

definition tee_sign_data :: "enclave_env \<Rightarrow> bytes \<Rightarrow> enclave_host \<Rightarrow> ((tee_error + bytes) \<times> enclave_host) option" where
  "tee_sign_data env data = with_enclave SignatureFailed (ffi_sign env data (replicate 64 0))"

definition tee_get_pubkey :: "enclave_env \<Rightarrow> enclave_host \<Rightarrow> ((tee_error + bytes) \<times> enclave_host) option" where
  "tee_get_pubkey env = with_enclave PublicKeyFailed (ffi_get_pubkey env (replicate 32 0))"

definition parse_attest_report :: "bytes \<Rightarrow> attest_report" where
  "parse_attest_report bs =
     \<lparr>ar_enclave = \<lparr>er_hash = peek 0 64 bs, er_data_len = get_u64 64 bs, er_data = peek 72 1024 bs, er_signature = peek 1096 64 bs\<rparr>,
      ar_sm = \<lparr>sm_hash = peek 1160 64 bs, sm_public_key = peek 1224 32 bs, sm_signature = peek 1256 64 bs\<rparr>,
      dev_public_key = peek 1320 32 bs\<rparr>"

definition tee_attest :: "enclave_env \<Rightarrow> bytes \<Rightarrow> enclave_host \<Rightarrow> ((tee_error + attest_report) \<times> enclave_host) option" where
  "tee_attest env nonce h =
     map_option (\<lambda>(r, h). (map_sum id parse_attest_report r, h))
       (with_enclave AttestFailed (ffi_attest env nonce (replicate ATTEST_REPORT_SIZE 0)) h)"

subsection \<open>The prover\<close>

definition tee_prove :: "enclave_env \<Rightarrow> u32 \<Rightarrow> u32 \<Rightarrow> enclave_host \<Rightarrow> ((tee_error + pow) \<times> enclave_host) option" where
  "tee_prove env challenge difficulty h =
     (case tee_pow env challenge difficulty h of
        None \<Rightarrow> None
      | Some (Inl e, h) \<Rightarrow> Some (Inl e, h)
      | Some (Inr p, h) \<Rightarrow>
          map_option (\<lambda>(r, h). (map_sum id (\<lambda>report. \<lparr>pow_value = po_pow p, pow_challange = challenge, pow_nonce = po_nonce p,
              pow_signature = Some (po_sig p), pow_attestation = Some report, pow_difficulty = difficulty\<rparr>) r, h))
            (tee_attest env (po_pow p) h))"

subsection \<open>Reading back what was written\<close>

named_theorems mem_simps \<open>reading a field after writing one\<close>

lemma length_poke [mem_simps]: "off + length bs \<le> length mem \<Longrightarrow> length (poke off bs mem) = length mem"
  by (simp add: poke_def)

lemma peek_poke [mem_simps]: "off \<le> length mem \<Longrightarrow> n = length bs \<Longrightarrow> peek off n (poke off bs mem) = bs"
  by (simp add: peek_def poke_def)

lemma peek_poke_after [mem_simps]: "off + n \<le> off' \<Longrightarrow> off' \<le> length mem \<Longrightarrow> peek off n (poke off' bs mem) = peek off n mem"
  by (simp add: peek_def poke_def take_drop)

lemma peek_poke_before [mem_simps]: "off' + length bs \<le> off \<Longrightarrow> off' \<le> length mem \<Longrightarrow> peek off n (poke off' bs mem) = peek off n mem"
  by (simp add: peek_def poke_def)

lemma rev_le_bytes: "from_be_bytes (rev (to_le_bytes_u32 w)) = unat w" "from_be_bytes (rev (to_le_bytes_u64 x)) = unat x"
  "length (to_le_bytes_u64 x) = 8"
proof -
  have "unat x < 256 ^ 8" using unsigned_less[of x] by simp
  then show "from_be_bytes (rev (to_le_bytes_u64 x)) = unat x" by (simp add: to_le_bytes_u64_def from_be_be_bytes)
  show "from_be_bytes (rev (to_le_bytes_u32 w)) = unat w"
    using from_to_be_bytes_u32[of w] by (simp add: to_le_bytes_u32_def to_be_bytes_u32_def)
qed (simp add: to_le_bytes_u64_def)

lemma get_put [mem_simps]:
  "off \<le> length mem \<Longrightarrow> get_u32 off (poke off (to_le_bytes_u32 w) mem) = w"
  "off \<le> length mem \<Longrightarrow> get_u64 off (poke off (to_le_bytes_u64 x) mem) = x"
  by (simp_all add: get_u32_def get_u64_def mem_simps rev_le_bytes)

lemma get_poke_other [mem_simps]:
  "off + 4 \<le> off' \<or> off' + length bs \<le> off \<Longrightarrow> off' \<le> length mem \<Longrightarrow> get_u32 off (poke off' bs mem) = get_u32 off mem"
  "off + 8 \<le> off' \<or> off' + length bs \<le> off \<Longrightarrow> off' \<le> length mem \<Longrightarrow> get_u64 off (poke off' bs mem) = get_u64 off mem"
  by (auto simp: get_u32_def get_u64_def mem_simps)

lemma length_u64: "n < 2 ^ 64 \<Longrightarrow> unat (of_nat n :: u64) = n"
  by (simp add: unsigned_of_nat take_bit_nat_eq_self)

subsection \<open>The search inside agrees with the one outside\<close>

lemma zero_bytes_list_all:
  "zero_bytes hash n = (if \<not> list_all (\<lambda>b. b = 0) (take n hash) then Some False else if length hash < n then None else Some True)"
  by (induction hash n rule: zero_bytes.induct) auto

lemma meets_difficulty_validate: "meets_difficulty = pow_validate"
proof (intro ext)
  fix hash and difficulty :: u32
  have "unat (difficulty div 8) = unat difficulty div 8" "unat (difficulty mod 8) = unat difficulty mod 8"
    by (simp_all add: unat_div unat_mod)
  then show "meets_difficulty hash difficulty = pow_validate hash difficulty"
    by (auto simp: meets_difficulty_def pow_validate_def zero_bytes_list_all Let_def)
qed

definition enclave_signer :: "enclave_env \<Rightarrow> signer" where
  "enclave_signer env = \<lparr>signer_pub_key = ev_pk env, signer_sign = (\<lambda>m. Some (ev_sign env m))\<rparr>"

definition software_proof :: "enclave_env \<Rightarrow> u32 \<Rightarrow> u32 \<Rightarrow> u32 \<times> bytes \<Rightarrow> pow" where
  "software_proof env challenge difficulty r = \<lparr>pow_value = snd r, pow_challange = challenge, pow_nonce = fst r,
     pow_signature = Some (ev_sign env (snd r)), pow_attestation = None, pow_difficulty = difficulty\<rparr>"

lemma eapp_pow_sound:
  "eapp_pow H pk c d n = Some r \<Longrightarrow>
     prove_loop H (enclave_signer env) pk c d n = Some (Some (Inr (software_proof env c d r)))"
proof (induction rule: eapp_pow.raw_induct[rotated, consumes 1])
  case (1 eapp H pk c d n r)
  show ?case
  proof (cases "pow_validate (pow_calculate H pk c n) d")
    case None
    then show ?thesis using 1 by (simp add: meets_difficulty_validate pow_calculate_def Let_def)
  next
    case (Some ok)
    then show ?thesis
      using 1 by (subst prove_loop.simps)
        (auto simp: meets_difficulty_validate pow_calculate_def Let_def enclave_signer_def software_proof_def split: if_splits)
  qed
qed

lemma eapp_pow_complete:
  "prove_loop H (enclave_signer env) pk c d n = Some r \<Longrightarrow> r = Some (Inr p) \<Longrightarrow> eapp_pow H pk c d n = Some (pow_nonce p, pow_value p)"
proof (induction rule: prove_loop.raw_induct[rotated, consumes 1])
  case (1 loop H sg pk c d n r)
  show ?case
  proof (cases "pow_validate (pow_calculate H pk c n) d")
    case None
    then show ?thesis using 1 by (simp add: Let_def)
  next
    case (Some ok)
    then show ?thesis
      using 1 by (subst eapp_pow.simps)
        (auto simp: meets_difficulty_validate pow_calculate_def Let_def split: if_splits option.splits)
  qed
qed

subsection \<open>Calls that succeed\<close>

definition enclave_ok :: "enclave_env \<Rightarrow> bool" where
  "enclave_ok env \<longleftrightarrow> ev_runs env \<and> length (ev_pk env) = 32 \<and> (\<forall>m. length (ev_sign env m) = 64) \<and> (\<forall>m. length (ev_sha256 env m) = 32)"

definition host_ok :: "enclave_host \<Rightarrow> bool" where
  "host_ok h \<longleftrightarrow> length (rq_body (eh_request h)) = REQUEST_SIZE"

lemma eapp_pow_length: "eapp_pow H pk c d n = Some r \<Longrightarrow> \<forall>m. length (H m) = 32 \<Longrightarrow> length (snd r) = 32"
proof (induction rule: eapp_pow.raw_induct[rotated, consumes 1])
  case (1 eapp H pk c d n r)
  then show ?case by (auto simp: Let_def split: option.splits if_splits)
qed

lemmas tee_defs = with_enclave_def ffi_init_def ffi_destroy_def ffi_call_def run_enclave_def eapp_main_def op_defs Let_def

lemma tee_pow_result:
  assumes "enclave_ok env" and "host_ok h" and found: "eapp_pow (ev_sha256 env) (ev_pk env) c d 0 = Some (nonce, hash)"
  shows "\<exists>h'. tee_pow env c d h = Some (Inr \<lparr>po_pow = hash, po_nonce = nonce, po_sig = ev_sign env hash, po_pub_key = ev_pk env\<rparr>, h') \<and>
     host_ok h' \<and> \<not> eh_initialized h'"
proof -
  have "length hash = 32" using eapp_pow_length[OF found] assms(1) by (simp add: enclave_ok_def)
  then show ?thesis
    using assms by (simp add: tee_pow_def ffi_run_pow_def tee_defs mem_simps enclave_ok_def host_ok_def REQUEST_SIZE_def ATTEST_REPORT_SIZE_def)
qed

lemma tee_sign_result:
  assumes "enclave_ok env" and "host_ok h" and "length data \<le> DATA_MAX_LENGTH"
  shows "\<exists>h'. tee_sign_data env data h = Some (Inr (ev_sign env data), h') \<and> host_ok h' \<and> \<not> eh_initialized h'"
  using assms by (simp add: tee_sign_data_def ffi_sign_def tee_defs mem_simps enclave_ok_def host_ok_def REQUEST_SIZE_def ATTEST_REPORT_SIZE_def
      DATA_MAX_LENGTH_def rev_le_bytes length_u64)

lemma tee_attest_result:
  assumes "enclave_ok env" and "host_ok h" and "length nonce \<le> 64" and "ev_attest env nonce = Some report" and "length report = ATTEST_REPORT_SIZE"
  shows "\<exists>h'. tee_attest env nonce h = Some (Inr (parse_attest_report report), h') \<and> host_ok h' \<and> \<not> eh_initialized h'"
  using assms by (simp add: tee_attest_def ffi_attest_def tee_defs mem_simps enclave_ok_def host_ok_def REQUEST_SIZE_def ATTEST_REPORT_SIZE_def
      rev_le_bytes length_u64)

lemma tee_get_pubkey_result:
  assumes "enclave_ok env" and "host_ok h"
  shows "\<exists>h'. tee_get_pubkey env h = Some (Inr (ev_pk env), h') \<and> host_ok h' \<and> \<not> eh_initialized h'"
  using assms by (simp add: tee_get_pubkey_def ffi_get_pubkey_def tee_defs mem_simps enclave_ok_def host_ok_def ATTEST_REPORT_SIZE_def)

subsection \<open>Reports\<close>

text \<open>The bytes of a report as the security monitor lays them out.\<close>

record monitor =
  mo_hash :: bytes
  mo_sig :: bytes
  mo_sm_hash :: bytes
  mo_sm_key :: bytes
  mo_sm_sig :: bytes
  mo_dev_key :: bytes

definition report_bytes :: "monitor \<Rightarrow> bytes \<Rightarrow> bytes" where
  "report_bytes mo data = mo_hash mo @ to_le_bytes_u64 (of_nat (length data)) @ (data @ replicate (1024 - length data) 0) @ mo_sig mo @
     mo_sm_hash mo @ mo_sm_key mo @ mo_sm_sig mo @ mo_dev_key mo"

definition monitor_sizes :: "monitor \<Rightarrow> bool" where
  "monitor_sizes mo \<longleftrightarrow> length (mo_hash mo) = 64 \<and> length (mo_sig mo) = 64 \<and> length (mo_sm_hash mo) = 64 \<and> length (mo_sm_key mo) = 32 \<and>
     length (mo_sm_sig mo) = 64 \<and> length (mo_dev_key mo) = 32"

definition monitor_signs :: "verifier \<Rightarrow> monitor \<Rightarrow> bytes \<Rightarrow> bool" where
  "monitor_signs ed_verify mo data \<longleftrightarrow> ed_verify (mo_dev_key mo) (mo_sm_hash mo @ mo_sm_key mo) (mo_sm_sig mo) \<and>
     ed_verify (mo_sm_key mo) (mo_hash mo @ to_le_bytes_u64 (of_nat (length data)) @ data) (mo_sig mo)"

lemma length_report: "monitor_sizes mo \<Longrightarrow> length data \<le> 1024 \<Longrightarrow> length (report_bytes mo data) = ATTEST_REPORT_SIZE"
  by (simp add: report_bytes_def monitor_sizes_def rev_le_bytes ATTEST_REPORT_SIZE_def)

lemma parse_report:
  assumes "monitor_sizes mo" and "length data \<le> 1024"
  shows "parse_attest_report (report_bytes mo data) =
     \<lparr>ar_enclave = \<lparr>er_hash = mo_hash mo, er_data_len = of_nat (length data), er_data = data @ replicate (1024 - length data) 0, er_signature = mo_sig mo\<rparr>,
      ar_sm = \<lparr>sm_hash = mo_sm_hash mo, sm_public_key = mo_sm_key mo, sm_signature = mo_sm_sig mo\<rparr>, dev_public_key = mo_dev_key mo\<rparr>"
  using assms unfolding parse_attest_report_def report_bytes_def monitor_sizes_def get_u64_def peek_def
  by (simp add: rev_le_bytes)

lemma report_verifies:
  assumes "monitor_sizes mo" and "0 < length data" "length data \<le> 1024" and "monitor_signs ed_verify mo data"
  shows "keystone_verify ed_verify (parse_attest_report (report_bytes mo data)) data (mo_hash mo) (mo_dev_key mo) = Some True"
  using assms(2-4) unfolding parse_report[OF assms(1,3)] keystone_verify_def monitor_signs_def
  by (simp add: Let_def length_u64)

subsection \<open>Properties\<close>

lemma enclave_search:
  assumes "enclave_ok env" and "unat d \<le> 256" and "pow_validate (pow_calculate (ev_sha256 env) (ev_pk env) c n) d = Some True"
  obtains p where "pow_prove (ev_sha256 env) (enclave_signer env) (ev_pk env) c d = Some (Some (Inr p))"
    "eapp_pow (ev_sha256 env) (ev_pk env) c d 0 = Some (pow_nonce p, pow_value p)" "length (pow_value p) = 32"
    "pow_value p = pow_calculate (ev_sha256 env) (ev_pk env) c (pow_nonce p)" "pow_validate (pow_value p) d = Some True"
proof -
  have len: "length (pow_calculate (ev_sha256 env) (ev_pk env) c k) = 32" for k using assms(1) by (simp add: enclave_ok_def pow_calculate_def)
  have total: "\<exists>b. pow_validate (pow_calculate (ev_sha256 env) (ev_pk env) c k) d = Some b" for k
    using pow_validate_zeros[OF len assms(2)] by blast
  have sg: "\<exists>s. signer_sign (enclave_signer env) m = Some s" for m by (simp add: enclave_signer_def)
  obtain k s where loop: "prove_loop (ev_sha256 env) (enclave_signer env) (ev_pk env) c d 0 =
      Some (Some (Inr \<lparr>pow_value = pow_calculate (ev_sha256 env) (ev_pk env) c k, pow_challange = c, pow_nonce = k,
        pow_signature = Some s, pow_attestation = None, pow_difficulty = d\<rparr>))"
    "pow_validate (pow_calculate (ev_sha256 env) (ev_pk env) c k) d = Some True"
    using prove_loop_finds[OF total assms(3) sg, of 0] by auto
  show ?thesis
    by (rule that[OF loop(1)[folded pow_prove_def]]) (use eapp_pow_complete[OF loop(1) refl] loop(2) len in simp_all)
qed

text \<open>C18: the enclave proves its work the way the rest of the network checks it. When some nonce meets
  the difficulty, the prover that searches inside the enclave returns, through every layer of the
  host, a proof with the hash and the nonce that the software prover finds for the same key; a
  verifier of the network accepts the proof; its report, if the security monitor signs what it
  is given, is accepted for this proof and the hash of the enclave; and no enclave is left
  running.\<close>

theorem enclave_proof_is_accepted:
  assumes ok: "enclave_ok env" "host_ok h" and keys: "\<forall>m. verify (ev_pk env) m (ev_sign env m)"
    and hit: "unat difficulty \<le> 256" "pow_validate (pow_calculate (ev_sha256 env) (ev_pk env) challenge n) difficulty = Some True"
    and mo: "\<forall>data. length data = 32 \<longrightarrow> ev_attest env data = Some (report_bytes (mo data) data) \<and> monitor_sizes (mo data) \<and>
      monitor_signs ed_verify (mo data) data \<and> mo_hash (mo data) = enclave_hash \<and> mo_dev_key (mo data) = dev_key"
  shows "\<exists>p p' r h'. pow_prove (ev_sha256 env) (enclave_signer env) (ev_pk env) challenge difficulty = Some (Some (Inr p)) \<and>
     tee_prove env challenge difficulty h = Some (Inr p', h') \<and> pow_value p' = pow_value p \<and> pow_nonce p' = pow_nonce p \<and>
     pow_verify (ev_sha256 env) verify p' (ev_pk env) = Some True \<and>
     pow_attestation p' = Some r \<and> keystone_verify ed_verify r (pow_value p') enclave_hash dev_key = Some True \<and> \<not> eh_initialized h'"
proof -
  obtain p where p: "pow_prove (ev_sha256 env) (enclave_signer env) (ev_pk env) challenge difficulty = Some (Some (Inr p))"
    "eapp_pow (ev_sha256 env) (ev_pk env) challenge difficulty 0 = Some (pow_nonce p, pow_value p)" "length (pow_value p) = 32"
    "pow_value p = pow_calculate (ev_sha256 env) (ev_pk env) challenge (pow_nonce p)" "pow_validate (pow_value p) difficulty = Some True"
    using enclave_search[OF ok(1) hit] by blast
  let ?m = "mo (pow_value p)" and ?data = "pow_value p"
  have m: "ev_attest env ?data = Some (report_bytes ?m ?data)" "monitor_sizes ?m" "monitor_signs ed_verify ?m ?data"
    "mo_hash ?m = enclave_hash" "mo_dev_key ?m = dev_key" using mo p(3) by auto
  obtain h1 where h1: "tee_pow env challenge difficulty h =
      Some (Inr \<lparr>po_pow = ?data, po_nonce = pow_nonce p, po_sig = ev_sign env ?data, po_pub_key = ev_pk env\<rparr>, h1)" "host_ok h1"
    using tee_pow_result[OF ok p(2)] by blast
  have len: "length (report_bytes ?m ?data) = ATTEST_REPORT_SIZE" by (rule length_report[OF m(2)]) (simp add: p(3))
  obtain h2 where h2: "tee_attest env ?data h1 = Some (Inr (parse_attest_report (report_bytes ?m ?data)), h2)" "\<not> eh_initialized h2"
    using tee_attest_result[OF ok(1) h1(2) _ m(1) len] p(3) by auto
  have rep: "keystone_verify ed_verify (parse_attest_report (report_bytes ?m ?data)) ?data enclave_hash dev_key = Some True"
    using report_verifies[OF m(2) _ _ m(3)] m(4,5) p(3) by simp
  show ?thesis
    using p(1,4,5) h1(1) h2 rep keys by (simp add: tee_prove_def pow_verify_def Let_def)
qed

definition sample_monitor :: monitor where
  "sample_monitor = \<lparr>mo_hash = replicate 64 1, mo_sig = replicate 64 2, mo_sm_hash = replicate 64 3, mo_sm_key = replicate 32 4,
     mo_sm_sig = replicate 64 5, mo_dev_key = replicate 32 6\<rparr>"

definition sample_enclave :: enclave_env where
  "sample_enclave = \<lparr>ev_sha256 = (\<lambda>_. replicate 32 0), ev_pk = replicate 32 7, ev_sign = (\<lambda>_. replicate 64 8),
     ev_attest = (\<lambda>data. Some (report_bytes sample_monitor data)), ev_runs = True\<rparr>"

definition idle_host :: enclave_host where
  "idle_host = \<lparr>eh_enclave = False, eh_request = \<lparr>rq_op = 0, rq_body = replicate 1032 0\<rparr>,
     eh_response = \<lparr>rs_op = 0, rs_status = 0, rs_body = replicate 1352 0\<rparr>, eh_initialized = False\<rparr>"

theorem enclave_proof_is_accepted_witness:
  "\<exists>p' r h'. tee_prove sample_enclave 5 8 idle_host = Some (Inr p', h') \<and> pow_attestation p' = Some r \<and>
     keystone_verify (\<lambda>_ _ _. True) r (pow_value p') (replicate 64 1) (replicate 32 6) = Some True"
proof -
  have "enclave_ok sample_enclave" "host_ok idle_host"
    by (simp_all add: enclave_ok_def sample_enclave_def host_ok_def idle_host_def REQUEST_SIZE_def)
  moreover have "pow_validate (pow_calculate (ev_sha256 sample_enclave) (ev_pk sample_enclave) 5 0) 8 = Some True"
    unfolding meets_difficulty_validate[symmetric] meets_difficulty_def
    by (simp add: sample_enclave_def pow_calculate_def list_all_length)
  moreover have "monitor_sizes sample_monitor" "\<forall>data. monitor_signs (\<lambda>_ _ _. True) sample_monitor data"
    "mo_hash sample_monitor = replicate 64 1" "mo_dev_key sample_monitor = replicate 32 6"
    by (simp_all add: monitor_sizes_def monitor_signs_def sample_monitor_def)
  ultimately show ?thesis
    using enclave_proof_is_accepted[of sample_enclave idle_host "\<lambda>_ _ _. True" 8 5 0 "\<lambda>_. sample_monitor" "\<lambda>_ _ _. True" "replicate 64 1" "replicate 32 6"]
    by (force simp: sample_enclave_def)
qed

subsection \<open>What the host does not check\<close>

text \<open>When the runtime does not execute the application, the answer of the call before is still in
  place, whatever call that was: its bytes are returned as the signature.\<close>

lemma failed_run_returns_stale_answer:
  assumes "\<not> ev_runs env" and "rs_status (eh_response h) = 0" and "length data \<le> DATA_MAX_LENGTH"
  shows "\<exists>h'. tee_sign_data env data h = Some (Inr (peek 0 64 (rs_body (eh_response h))), h')"
  using assms by (simp add: tee_sign_data_def ffi_sign_def with_enclave_def ffi_init_def ffi_call_def run_enclave_def)

text \<open>Starting the enclave cannot fail for the wrapper.\<close>

lemma enclave_init_never_fails: "with_enclave failed call h = Some (Inl (InitFailed e), h') \<Longrightarrow> \<exists>code. failed code = InitFailed e"
  by (auto simp: with_enclave_def ffi_init_def split: option.splits if_splits)

text \<open>A nonce longer than its field is attested with its own length written into it.\<close>

lemma long_nonce_is_overwritten:
  assumes "72 \<le> length nonce" "length nonce \<le> REQUEST_SIZE" and "length body = REQUEST_SIZE"
  shows "peek 0 (length nonce) (poke 64 (to_le_bytes_u64 (of_nat (length nonce))) (poke 0 nonce body)) =
     poke 64 (to_le_bytes_u64 (of_nat (length nonce))) nonce"
  using assms by (simp add: peek_def poke_def rev_le_bytes)

text \<open>A request for a signature over more than \<open>DATA_MAX_LENGTH\<close> bytes is refused without running.\<close>

lemma long_data_is_refused: "DATA_MAX_LENGTH < length data \<Longrightarrow> \<exists>h'. tee_sign_data env data h = Some (Inl (SignatureFailed (-8)), h')"
  by (simp add: tee_sign_data_def ffi_sign_def with_enclave_def ffi_init_def)

end
