(* ===== verification/Identity.thy ===== *)
theory Identity
  imports Enclave Kademlia Builder
begin

text \<open>
  Keys of the node and of the swarm: \<open>certs/soft.rs\<close>, \<open>certs/tee.rs\<close> and \<open>certs/config.rs\<close>, the files of
  \<open>utils/certs.rs\<close>, the signed manifest of \<open>dht/manifest.rs\<close> and the command \<open>certs\<close> of \<open>standalone.rs\<close>.
  Key pairs, certificates, PGP and HTTP belong to packages: their functions are the fields of the
  records \<open>key_lib\<close> and \<open>pgp_lib\<close> and the arguments of \<open>Manifest_get\<close>. A fresh key pair is an
  argument, \<open>None\<close> when generating one fails. The file system is a map from paths to bytes with the
  paths that can be read and written.
\<close>

subsection \<open>Software identities\<close>

datatype cert_error = CertFailed | Rcgen | TeeErr tee_error

record 'k key_lib =
  kl_parse :: "bytes \<Rightarrow> 'k option"
  kl_der :: "'k \<Rightarrow> bytes"
  kl_public :: "'k \<Rightarrow> bytes"
  kl_sign :: "'k \<Rightarrow> bytes \<Rightarrow> bytes option"
  kl_self_signed :: "string \<Rightarrow> bool \<Rightarrow> 'k \<Rightarrow> bytes option"
  kl_signed_by :: "string \<Rightarrow> bool \<Rightarrow> bytes \<Rightarrow> 'k \<Rightarrow> 'k \<Rightarrow> bytes option"

record 'k identity =
  id_key :: 'k
  id_cert :: bytes

definition from_bytes_der :: "'k key_lib \<Rightarrow> bytes \<Rightarrow> bytes \<Rightarrow> cert_error + 'k identity" where
  "from_bytes_der lib cert_bytes priv_key_bytes =
     (case kl_parse lib priv_key_bytes of
        None \<Rightarrow> Inl Rcgen
      | Some key_pair \<Rightarrow> Inr \<lparr>id_key = key_pair, id_cert = cert_bytes\<rparr>)"

definition to_bytes_der :: "'k key_lib \<Rightarrow> 'k identity \<Rightarrow> bytes \<times> bytes" where
  "to_bytes_der lib i = (id_cert i, kl_der lib (id_key i))"

definition root_identity :: "'k key_lib \<Rightarrow> 'k option \<Rightarrow> string \<Rightarrow> cert_error + 'k identity" where
  "root_identity lib fresh common_name =
     (case fresh of
        None \<Rightarrow> Inl Rcgen
      | Some key_pair \<Rightarrow>
          (case kl_self_signed lib common_name True key_pair of
             None \<Rightarrow> Inl Rcgen
           | Some cert \<Rightarrow> Inr \<lparr>id_key = key_pair, id_cert = cert\<rparr>))"

definition leaf_identity :: "'k key_lib \<Rightarrow> 'k option \<Rightarrow> 'k identity \<Rightarrow> string \<Rightarrow> bool \<Rightarrow> cert_error + 'k identity" where
  "leaf_identity lib fresh i common_name as_ca =
     (case fresh of
        None \<Rightarrow> Inl Rcgen
      | Some leaf_key \<Rightarrow>
          (case kl_signed_by lib common_name as_ca (id_cert i) (id_key i) leaf_key of
             None \<Rightarrow> Inl Rcgen
           | Some cert \<Rightarrow> Inr \<lparr>id_key = leaf_key, id_cert = cert\<rparr>))"

definition id_sign :: "'k key_lib \<Rightarrow> 'k identity \<Rightarrow> bytes \<Rightarrow> cert_error + bytes" where
  "id_sign lib i data = (case kl_sign lib (id_key i) data of None \<Rightarrow> Inl CertFailed | Some s \<Rightarrow> Inr s)"

definition identity_signer :: "'k key_lib \<Rightarrow> 'k identity \<Rightarrow> signer" where
  "identity_signer lib i = \<lparr>signer_pub_key = kl_public lib (id_key i), signer_sign = kl_sign lib (id_key i)\<rparr>"

text \<open>The identity inside the enclave: the key never leaves it, and a leaf is a self-signed
  certificate for the same key. \<open>rc_tbs\<close> builds the bytes to be signed, \<open>rc_assemble\<close> the certificate.\<close>

record tee_identity =
  te_cert :: bytes
  te_pub_key :: bytes

record cert_lib =
  rc_tbs :: "string \<Rightarrow> bool \<Rightarrow> bytes \<Rightarrow> bytes option"
  rc_assemble :: "bytes \<Rightarrow> bytes \<Rightarrow> bytes"

definition tee_self_signed ::
  "enclave_env \<Rightarrow> cert_lib \<Rightarrow> string \<Rightarrow> bool \<Rightarrow> bytes \<Rightarrow> enclave_host \<Rightarrow> ((cert_error + tee_identity) \<times> enclave_host) option" where
  "tee_self_signed env rc common_name as_ca pk h =
     (case rc_tbs rc common_name as_ca pk of
        None \<Rightarrow> Some (Inl Rcgen, h)
      | Some tbs \<Rightarrow>
          map_option (\<lambda>(r, h). (case r of Inl _ \<Rightarrow> Inl Rcgen | Inr sig \<Rightarrow> Inr \<lparr>te_cert = rc_assemble rc tbs sig, te_pub_key = pk\<rparr>, h))
            (tee_sign_data env tbs h))"

definition TeeKeyIdentity_new :: "enclave_env \<Rightarrow> cert_lib \<Rightarrow> enclave_host \<Rightarrow> ((cert_error + tee_identity) \<times> enclave_host) option" where
  "TeeKeyIdentity_new env rc h =
     (case tee_get_pubkey env h of
        None \<Rightarrow> None
      | Some (Inl e, h) \<Rightarrow> Some (Inl (TeeErr e), h)
      | Some (Inr pk, h) \<Rightarrow> tee_self_signed env rc ''bqti'' True pk h)"

definition tee_leaf ::
  "enclave_env \<Rightarrow> cert_lib \<Rightarrow> tee_identity \<Rightarrow> string \<Rightarrow> bool \<Rightarrow> enclave_host \<Rightarrow> ((cert_error + tee_identity) \<times> enclave_host) option" where
  "tee_leaf env rc i common_name as_ca h = tee_self_signed env rc common_name as_ca (te_pub_key i) h"

definition tee_sign :: "enclave_env \<Rightarrow> bytes \<Rightarrow> enclave_host \<Rightarrow> ((cert_error + bytes) \<times> enclave_host) option" where
  "tee_sign env data h =
     map_option (\<lambda>(r, h). (case r of Inl _ \<Rightarrow> Inl (TeeErr (SignatureFailed (-1))) | Inr s \<Rightarrow> Inr s, h)) (tee_sign_data env data h)"

text \<open>The verifier of server certificates that the endpoints use.\<close>

definition verify_server_cert :: "bytes \<Rightarrow> bytes list \<Rightarrow> string \<Rightarrow> bool" where
  "verify_server_cert end_entity intermediates server_name = True"

subsection \<open>Certificate files\<close>

definition CERTIFICATE_ROOT_PATH :: string where "CERTIFICATE_ROOT_PATH = ''ca.der''"

definition PRIVATE_KEY_PATH :: string where "PRIVATE_KEY_PATH = ''root_pk.der''"

definition SWARM_PGP_PUBKEY :: string where "SWARM_PGP_PUBKEY = ''swarm.asc''"

record key_files =
  kf_files :: "path \<rightharpoonup> bytes"
  kf_readable :: "path \<Rightarrow> bool"
  kf_writable :: "path \<Rightarrow> bool"
  kf_data_dir :: "path option"

datatype key_file_error = NoDirectory | CannotCreate path | CannotWrite path | NotFound path | CannotRead path | BadCert cert_error

definition certs_dir :: "key_files \<Rightarrow> path option" where
  "certs_dir fs = map_option (\<lambda>d. d @ [''certs'']) (kf_data_dir fs)"

definition swarm_dir :: "key_files \<Rightarrow> path option" where
  "swarm_dir fs = map_option (\<lambda>d. d @ [''swarm'']) (kf_data_dir fs)"

definition resolve_dir :: "key_files \<Rightarrow> path option \<Rightarrow> key_file_error + path" where
  "resolve_dir fs options = (case options of Some dir \<Rightarrow> Inr dir
     | None \<Rightarrow> (case certs_dir fs of None \<Rightarrow> Inl NoDirectory | Some dir \<Rightarrow> Inr dir))"

definition write_file :: "path \<Rightarrow> bytes \<Rightarrow> key_files \<Rightarrow> (key_file_error + unit) \<times> key_files" where
  "write_file p data fs =
     (if kf_writable fs p then (Inr (), fs\<lparr>kf_files := (kf_files fs)(p \<mapsto> data)\<rparr>) else (Inl (CannotWrite p), fs))"

definition read_file :: "path \<Rightarrow> key_files \<Rightarrow> key_file_error + bytes" where
  "read_file p fs =
     (case kf_files fs p of Some data \<Rightarrow> if kf_readable fs p then Inr data else Inl (CannotRead p) | None \<Rightarrow> Inl (CannotRead p))"

text \<open>A directory can be created when it can be written.\<close>

definition ensure_dir :: "path \<Rightarrow> key_files \<Rightarrow> key_file_error + unit" where
  "ensure_dir dir fs = (if kf_writable fs dir then Inr () else Inl (CannotCreate dir))"

definition ensure_directories :: "key_files \<Rightarrow> key_file_error + unit" where
  "ensure_directories fs = (case swarm_dir fs of None \<Rightarrow> Inl NoDirectory | Some dir \<Rightarrow> ensure_dir dir fs)"

definition store_cert :: "'k key_lib \<Rightarrow> 'k identity \<Rightarrow> path option \<Rightarrow> key_files \<Rightarrow> (key_file_error + unit) \<times> key_files" where
  "store_cert lib cert options fs =
     (case resolve_dir fs options of
        Inl e \<Rightarrow> (Inl e, fs)
      | Inr dir \<Rightarrow>
          (case ensure_dir dir fs of
             Inl e \<Rightarrow> (Inl e, fs)
           | Inr _ \<Rightarrow>
               let (cert_der, pk_der) = to_bytes_der lib cert
               in (case write_file (dir @ [CERTIFICATE_ROOT_PATH]) cert_der fs of
                     (Inl e, fs) \<Rightarrow> (Inl e, fs)
                   | (Inr _, fs) \<Rightarrow> write_file (dir @ [PRIVATE_KEY_PATH]) pk_der fs)))"

definition read_cert :: "'k key_lib \<Rightarrow> path option \<Rightarrow> key_files \<Rightarrow> key_file_error + 'k identity" where
  "read_cert lib options fs =
     (case resolve_dir fs options of
        Inl e \<Rightarrow> Inl e
      | Inr dir \<Rightarrow>
          let ca_path = dir @ [CERTIFICATE_ROOT_PATH]; pk_path = dir @ [PRIVATE_KEY_PATH]
          in if kf_files fs ca_path = None then Inl (NotFound ca_path)
             else if kf_files fs pk_path = None then Inl (NotFound pk_path)
             else case read_file pk_path fs of
                    Inl e \<Rightarrow> Inl e
                  | Inr pk \<Rightarrow>
                      (case read_file ca_path fs of
                         Inl e \<Rightarrow> Inl e
                       | Inr ca \<Rightarrow> map_sum BadCert id (from_bytes_der lib ca pk)))"

definition make_ca_root :: "'k key_lib \<Rightarrow> 'k option \<Rightarrow> key_files \<Rightarrow> (key_file_error + 'k identity) \<times> key_files" where
  "make_ca_root lib fresh fs =
     (case read_cert lib (certs_dir fs) fs of
        Inr certificate \<Rightarrow> (Inr certificate, fs)
      | Inl _ \<Rightarrow>
          (case root_identity lib fresh ''BQTI - Certificate'' of
             Inl e \<Rightarrow> (Inl (BadCert e), fs)
           | Inr ca_root \<Rightarrow>
               (case store_cert lib ca_root (certs_dir fs) fs of
                  (Inl e, fs) \<Rightarrow> (Inl e, fs)
                | (Inr _, fs) \<Rightarrow> (Inr ca_root, fs))))"

text \<open>The command \<open>certs\<close>; \<open>fresh_root\<close> and \<open>fresh_leaf\<close> are the key pairs it would generate.\<close>

datatype cert_type = CertRoot | CertLeaf

definition handle_certs ::
  "'k key_lib \<Rightarrow> 'k option \<Rightarrow> 'k option \<Rightarrow> cert_type \<Rightarrow> path option \<Rightarrow> key_files \<Rightarrow> (key_file_error + unit) \<times> key_files" where
  "handle_certs lib fresh_root fresh_leaf kind out fs =
     (case (case out of Some path \<Rightarrow> Some path | None \<Rightarrow> certs_dir fs) of
        None \<Rightarrow> (Inl NoDirectory, fs)
      | Some dir \<Rightarrow>
          (case make_ca_root lib fresh_root fs of
             (Inl e, fs) \<Rightarrow> (Inl e, fs)
           | (Inr ca_root, fs) \<Rightarrow>
               (case kind of
                  CertRoot \<Rightarrow> store_cert lib ca_root (Some dir) fs
                | CertLeaf \<Rightarrow>
                    (case leaf_identity lib fresh_leaf ca_root ''localhost'' True of
                       Inl e \<Rightarrow> (Inl (BadCert e), fs)
                     | Inr leaf \<Rightarrow>
                         (case store_cert lib ca_root (Some dir) fs of
                            (Inl e, fs) \<Rightarrow> (Inl e, fs)
                          | (Inr _, fs) \<Rightarrow> store_cert lib leaf (Some dir) fs)))))"

subsection \<open>Swarm keys\<close>

record ('k, 's) pgp_lib =
  gl_armor :: "bytes \<Rightarrow> 'k option"
  gl_bytes :: "'k \<Rightarrow> bytes option"
  gl_signature :: "bytes \<Rightarrow> 's option"

text \<open>\<open>Path::extension\<close> of a file name: what follows the last dot, if something precedes it.\<close>

definition extension :: "string \<Rightarrow> string option" where
  "extension name =
     (let tail = takeWhile (\<lambda>c. c \<noteq> CHR ''.'') (rev name); front = drop (length tail) (rev name)
      in if length front \<le> 1 then None else Some (rev tail))"

definition extract_swarm_id :: "(bytes \<Rightarrow> bytes) \<Rightarrow> ('k, 's) pgp_lib \<Rightarrow> 'k \<Rightarrow> bytes option" where
  "extract_swarm_id sha256 lib public_key = map_option sha256 (gl_bytes lib public_key)"

fun load_pgp_keys ::
  "(bytes \<Rightarrow> bytes) \<Rightarrow> ('k, 's) pgp_lib \<Rightarrow> key_files \<Rightarrow> path list \<Rightarrow> (bytes \<times> 'k) list \<Rightarrow> (bytes \<times> 'k) list option" where
  "load_pgp_keys sha256 lib fs [] keys = Some keys"
| "load_pgp_keys sha256 lib fs (file_path # files) keys =
     (if file_path = [] \<or> extension (last file_path) \<noteq> Some ''asc'' then load_pgp_keys sha256 lib fs files keys
      else case read_file file_path fs of
        Inl _ \<Rightarrow> None
      | Inr armor \<Rightarrow>
          (case gl_armor lib armor of
             None \<Rightarrow> None
           | Some public_key \<Rightarrow>
               (case extract_swarm_id sha256 lib public_key of
                  None \<Rightarrow> None
                | Some swarm_id \<Rightarrow> load_pgp_keys sha256 lib fs files (AList.update swarm_id public_key keys))))"

text \<open>The thread that watches the directory of the swarm keys. \<open>listing\<close> is what reading the directory
  gives at that moment. A key set is loaded as a whole or not at all.\<close>

datatype watch_kind = KeyCreate | KeyModify | KeyRemove | KeyOther

definition swarm_files :: "(bytes \<Rightarrow> bytes) \<Rightarrow> ('k, 's) pgp_lib \<Rightarrow> key_files \<Rightarrow> path list option \<Rightarrow> (bytes \<times> 'k) list option" where
  "swarm_files sha256 lib fs listing = Option.bind listing (\<lambda>files. load_pgp_keys sha256 lib fs files [])"

definition watch_start ::
  "(bytes \<Rightarrow> bytes) \<Rightarrow> ('k, 's) pgp_lib \<Rightarrow> key_files \<Rightarrow> path list option \<Rightarrow> (bytes \<times> 'k) list \<Rightarrow> (bytes \<times> 'k) list" where
  "watch_start sha256 lib fs listing keys = (case swarm_files sha256 lib fs listing of None \<Rightarrow> keys | Some k \<Rightarrow> AList.merge keys k)"

fun key_event ::
  "(bytes \<Rightarrow> bytes) \<Rightarrow> ('k, 's) pgp_lib \<Rightarrow> key_files \<Rightarrow> path list option \<Rightarrow> watch_kind \<Rightarrow> path list \<Rightarrow> (bytes \<times> 'k) list \<Rightarrow> (bytes \<times> 'k) list" where
  "key_event sha256 lib fs listing KeyRemove event_paths keys =
     (case swarm_files sha256 lib fs listing of Some k \<Rightarrow> if k \<noteq> [] then AList.merge [] k else [] | None \<Rightarrow> [])"
| "key_event sha256 lib fs listing KeyOther event_paths keys = keys"
| "key_event sha256 lib fs listing _ event_paths keys =
     (case load_pgp_keys sha256 lib fs event_paths [] of Some k \<Rightarrow> if k \<noteq> [] then AList.merge keys k else keys | None \<Rightarrow> keys)"

definition load_pgp_signature :: "(bytes \<Rightarrow> bytes) \<Rightarrow> ('k, 's) pgp_lib \<Rightarrow> key_files \<Rightarrow> (bytes \<times> 's) option" where
  "load_pgp_signature sha256 lib fs =
     (case certs_dir fs of
        None \<Rightarrow> None
      | Some dir \<Rightarrow>
          let swarm_pubkey = dir @ [SWARM_PGP_PUBKEY]; pgp_signature = dir @ [CERTIFICATE_ROOT_PATH @ ''.sig'']
          in if kf_files fs pgp_signature = None \<or> kf_files fs swarm_pubkey = None then None
             else case (read_file pgp_signature fs, read_file swarm_pubkey fs) of
                    (Inr sig_bytes, Inr armor) \<Rightarrow>
                      (case Option.bind (gl_armor lib armor) (extract_swarm_id sha256 lib) of
                         None \<Rightarrow> None
                       | Some swarm_id \<Rightarrow> map_option (\<lambda>signature. (swarm_id, signature)) (gl_signature lib sig_bytes))
                  | _ \<Rightarrow> None)"

subsection \<open>The signed manifest\<close>

definition MAIN_CA_PUBLIC_KEY :: bytes where
  "MAIN_CA_PUBLIC_KEY =
    [0x38, 0x6f, 0x42, 0x54, 0x99, 0xc3, 0x10, 0xcc, 0xd6, 0x8f, 0xa8, 0x22, 0x97, 0x08, 0xef, 0x09,
     0x1d, 0x16, 0x65, 0x4d, 0x13, 0x81, 0x30, 0xea, 0xd6, 0x22, 0xb9, 0x6d, 0x14, 0x29, 0x7c, 0x69]"

datatype manifest_error = Http | InvalidSignature | VersionMismatch string string | InvalidHash

record manifest =
  mf_version :: string
  mf_enclave_hash :: string

text \<open>\<open>manifest\<close> and \<open>signature\<close> are the bodies of the two downloads, \<open>None\<close> for a failed one.\<close>

definition Manifest_get :: "verifier \<Rightarrow> (bytes \<Rightarrow> manifest option) \<Rightarrow> bytes option \<Rightarrow> bytes option \<Rightarrow> manifest_error + manifest" where
  "Manifest_get verify from_json web_manifest web_signature =
     (case (web_manifest, web_signature) of
        (Some manifest, Some signature) \<Rightarrow>
          if \<not> verify MAIN_CA_PUBLIC_KEY manifest signature then Inl InvalidSignature
          else (case from_json manifest of None \<Rightarrow> Inl InvalidHash | Some m \<Rightarrow> Inr m)
      | _ \<Rightarrow> Inl Http)"

definition get_enclave_hash ::
  "verifier \<Rightarrow> (bytes \<Rightarrow> manifest option) \<Rightarrow> (string \<Rightarrow> bytes option) \<Rightarrow> bytes option \<Rightarrow> bytes option \<Rightarrow> string \<Rightarrow> manifest_error + bytes" where
  "get_enclave_hash verify from_json hex_decode web_manifest web_signature version =
     (case Manifest_get verify from_json web_manifest web_signature of
        Inl e \<Rightarrow> Inl e
      | Inr manifest \<Rightarrow>
          if mf_version manifest \<noteq> version then Inl (VersionMismatch version (mf_version manifest))
          else (case hex_decode (mf_enclave_hash manifest) of
                  None \<Rightarrow> Inl InvalidHash
                | Some h \<Rightarrow> if length h = 64 then Inr h else Inl InvalidHash))"

subsection \<open>Storing and reading identities\<close>

lemma write_file_simps:
  "write_file p data fs = (Inr (), fs') \<longleftrightarrow> kf_writable fs p \<and> fs' = fs\<lparr>kf_files := (kf_files fs)(p \<mapsto> data)\<rparr>"
  "write_file p data fs = (Inl e, fs') \<longleftrightarrow> \<not> kf_writable fs p \<and> e = CannotWrite p \<and> fs' = fs"
  by (auto simp: write_file_def)

lemma store_cert_ok:
  assumes "store_cert lib i options fs = (Inr (), fs')"
  obtains dir where "resolve_dir fs options = Inr dir"
    "fs' = fs\<lparr>kf_files := (kf_files fs)(dir @ [CERTIFICATE_ROOT_PATH] \<mapsto> id_cert i, dir @ [PRIVATE_KEY_PATH] \<mapsto> kl_der lib (id_key i))\<rparr>"
  using assms by (auto simp: store_cert_def to_bytes_der_def write_file_simps split: sum.splits prod.splits)

definition key_round_trip :: "'k key_lib \<Rightarrow> bool" where
  "key_round_trip lib \<longleftrightarrow> (\<forall>k. kl_parse lib (kl_der lib k) = Some k)"

lemma resolve_dir_files [simp]: "resolve_dir (fs\<lparr>kf_files := f\<rparr>) options = resolve_dir fs options"
  "certs_dir (fs\<lparr>kf_files := f\<rparr>) = certs_dir fs"
  by (simp_all add: resolve_dir_def certs_dir_def split: option.split)

lemma store_read_cert:
  assumes "store_cert lib i options fs = (Inr (), fs')" and "key_round_trip lib" and "\<forall>p. kf_readable fs p"
  shows "read_cert lib options fs' = Inr i"
proof -
  obtain dir where "resolve_dir fs options = Inr dir"
    "fs' = fs\<lparr>kf_files := (kf_files fs)(dir @ [CERTIFICATE_ROOT_PATH] \<mapsto> id_cert i, dir @ [PRIVATE_KEY_PATH] \<mapsto> kl_der lib (id_key i))\<rparr>"
    using assms(1) by (rule store_cert_ok)
  then show ?thesis
    using assms(2,3)
    by (simp add: read_cert_def read_file_def from_bytes_der_def key_round_trip_def CERTIFICATE_ROOT_PATH_def PRIVATE_KEY_PATH_def Let_def)
qed

lemma store_cert_readable: "store_cert lib i options fs = (r, fs') \<Longrightarrow> kf_readable fs' = kf_readable fs \<and> certs_dir fs' = certs_dir fs"
  by (auto simp: store_cert_def to_bytes_der_def write_file_def split: sum.splits prod.splits if_splits)

lemma make_ca_root_ok:
  assumes "make_ca_root lib fresh fs = (Inr i, fs')" and "key_round_trip lib" and "\<forall>p. kf_readable fs p"
  shows "read_cert lib (certs_dir fs') fs' = Inr i" "certs_dir fs' = certs_dir fs" "\<forall>p. kf_readable fs' p"
proof -
  have "read_cert lib (certs_dir fs') fs' = Inr i \<and> certs_dir fs' = certs_dir fs \<and> kf_readable fs' = kf_readable fs"
  proof (cases "read_cert lib (certs_dir fs) fs")
    case (Inl e)
    then have st: "store_cert lib i (certs_dir fs) fs = (Inr (), fs')"
      using assms(1) by (auto simp: make_ca_root_def split: sum.splits prod.splits)
    show ?thesis using store_read_cert[OF st assms(2,3)] store_cert_readable[OF st] by simp
  qed (use assms(1) in \<open>auto simp: make_ca_root_def\<close>)
  then show "read_cert lib (certs_dir fs') fs' = Inr i" "certs_dir fs' = certs_dir fs" "\<forall>p. kf_readable fs' p"
    using assms(3) by auto
qed

text \<open>The identity of a node is stable: once \<open>make_ca_root\<close> has returned a certificate, every later
  call, whatever key pair it could generate, returns the same certificate and key and leaves the
  files alone, as long as keys survive their own encoding and the files can be read. In particular
  the node keeps its public key and with it its identifier in the DHT.\<close>

lemma root_identity_is_stable:
  assumes "make_ca_root lib fresh fs = (Inr i, fs')" and "key_round_trip lib" and "\<forall>p. kf_readable fs p"
  shows "make_ca_root lib fresh' fs' = (Inr i, fs') \<and> identity_signer lib (projr (fst (make_ca_root lib fresh' fs'))) = identity_signer lib i"
  using make_ca_root_ok[OF assms] by (simp add: make_ca_root_def)

definition sample_keys :: "nat key_lib" where
  "sample_keys = \<lparr>kl_parse = (\<lambda>b. Some (length b)), kl_der = (\<lambda>k. replicate k 0), kl_public = (\<lambda>k. [of_nat k]),
     kl_sign = (\<lambda>k m. Some (of_nat k # m)), kl_self_signed = (\<lambda>n ca k. Some [of_nat k]), kl_signed_by = (\<lambda>n ca c i k. Some [7])\<rparr>"

definition sample_files :: key_files where
  "sample_files = \<lparr>kf_files = Map.empty, kf_readable = (\<lambda>_. True), kf_writable = (\<lambda>_. True), kf_data_dir = Some [''bqti'']\<rparr>"

subsection \<open>Losing an identity\<close>

text \<open>Issuing a leaf without naming a directory stores it over the root: from then on the node runs
  under the leaf's key, although the command reports files of their own for the leaf.\<close>

lemma leaf_replaces_root:
  assumes run: "handle_certs lib fresh_root (Some leaf_key) CertLeaf None fs = (Inr (), fs')" and "key_round_trip lib" and "\<forall>p. kf_readable fs p"
    and root: "make_ca_root lib fresh_root fs = (Inr ca_root, fs1)"
  shows "\<exists>leaf. leaf_identity lib (Some leaf_key) ca_root ''localhost'' True = Inr leaf \<and> id_key leaf = leaf_key \<and>
     make_ca_root lib fresh fs' = (Inr leaf, fs')"
proof -
  note ok = make_ca_root_ok[OF root assms(2,3)]
  obtain dir where dir: "certs_dir fs = Some dir" using run by (auto simp: handle_certs_def split: option.splits)
  obtain leaf where leaf: "leaf_identity lib (Some leaf_key) ca_root ''localhost'' True = Inr leaf"
    using run root dir by (auto simp: handle_certs_def split: sum.splits)
  obtain fs2 where st: "store_cert lib ca_root (Some dir) fs1 = (Inr (), fs2)" "store_cert lib leaf (Some dir) fs2 = (Inr (), fs')"
    using run root dir leaf by (auto simp: handle_certs_def split: sum.splits prod.splits)
  have "\<forall>p. kf_readable fs2 p" "certs_dir fs2 = Some dir" using store_cert_readable[OF st(1)] ok(2,3) dir by auto
  then have "read_cert lib (certs_dir fs') fs' = Inr leaf"
    using store_read_cert[OF st(2) assms(2)] store_cert_readable[OF st(2)] by simp
  moreover have "id_key leaf = leaf_key" using leaf by (auto simp: leaf_identity_def split: option.splits)
  ultimately show ?thesis using leaf by (simp add: make_ca_root_def)
qed

text \<open>A certificate file that cannot be read or parsed, for whatever reason, is taken for a missing
  one: the node generates a new root and writes it over the old files.\<close>

lemma unreadable_identity_is_replaced:
  assumes "read_cert lib (certs_dir fs) fs = Inl e" and "root_identity lib fresh ''BQTI - Certificate'' = Inr i"
    and "store_cert lib i (certs_dir fs) fs = (Inr (), fs')"
  shows "make_ca_root lib fresh fs = (Inr i, fs')"
  using assms by (simp add: make_ca_root_def)

text \<open>The certificate is written before the key. When the key cannot be written, the new certificate
  stays beside the old key, and reading the pair succeeds.\<close>

lemma torn_store_mixes_identities:
  assumes "resolve_dir fs options = Inr dir" and "kf_writable fs dir" "kf_writable fs (dir @ [CERTIFICATE_ROOT_PATH])"
    and "\<not> kf_writable fs (dir @ [PRIVATE_KEY_PATH])" and "kf_files fs (dir @ [PRIVATE_KEY_PATH]) = Some (kl_der lib old)"
    and "key_round_trip lib" and "\<forall>p. kf_readable fs p"
  shows "\<exists>fs'. store_cert lib i options fs = (Inl (CannotWrite (dir @ [PRIVATE_KEY_PATH])), fs') \<and>
     read_cert lib options fs' = Inr \<lparr>id_key = old, id_cert = id_cert i\<rparr>"
  using assms
  by (simp add: store_cert_def ensure_dir_def to_bytes_der_def write_file_def read_cert_def read_file_def from_bytes_der_def key_round_trip_def
      CERTIFICATE_ROOT_PATH_def PRIVATE_KEY_PATH_def Let_def)

text \<open>In the enclave every identity, root or leaf, has the one public key of the enclave.\<close>

lemma tee_self_signed_key: "tee_self_signed env rc name as_ca pk h = Some (Inr i, h') \<Longrightarrow> te_pub_key i = pk"
proof -
  assume signed: "tee_self_signed env rc name as_ca pk h = Some (Inr i, h')"
  then obtain tbs where "rc_tbs rc name as_ca pk = Some tbs" by (auto simp: tee_self_signed_def split: option.splits)
  then obtain r where "(case r of Inl (_::tee_error) \<Rightarrow> Inl Rcgen | Inr sig \<Rightarrow> Inr \<lparr>te_cert = rc_assemble rc tbs sig, te_pub_key = pk\<rparr>) = Inr i"
    using signed by (auto simp: tee_self_signed_def)
  then show ?thesis by (cases r) auto
qed

lemma tee_leaf_shares_key: "tee_leaf env rc i name as_ca h = Some (Inr leaf, h') \<Longrightarrow> te_pub_key leaf = te_pub_key i"
  by (simp add: tee_leaf_def tee_self_signed_key)

lemma tee_root_is_enclave_key:
  assumes "enclave_ok env" "host_ok h" and "TeeKeyIdentity_new env rc h = Some (Inr i, h')"
  shows "te_pub_key i = ev_pk env"
  using tee_get_pubkey_result[OF assms(1,2)] assms(3) by (auto simp: TeeKeyIdentity_new_def dest: tee_self_signed_key)

subsection \<open>Swarm keys\<close>

definition filed_by_digest :: "(bytes \<Rightarrow> bytes) \<Rightarrow> ('k, 's) pgp_lib \<Rightarrow> (bytes \<times> 'k) list \<Rightarrow> bool" where
  "filed_by_digest sha256 lib keys \<longleftrightarrow> (\<forall>i k. map_of keys i = Some k \<longrightarrow> extract_swarm_id sha256 lib k = Some i)"

lemma update_filed: "filed_by_digest H lib keys \<Longrightarrow> extract_swarm_id H lib k = Some i \<Longrightarrow> filed_by_digest H lib (AList.update i k keys)"
  by (auto simp: filed_by_digest_def update_conv')

lemma load_pgp_keys_filed:
  "load_pgp_keys H lib fs files keys = Some k \<Longrightarrow> filed_by_digest H lib keys \<Longrightarrow> filed_by_digest H lib k"
  by (induction H lib fs files keys rule: load_pgp_keys.induct) (simp_all add: update_filed split: if_splits sum.splits option.splits)

lemma merge_filed: "filed_by_digest H lib a \<Longrightarrow> filed_by_digest H lib b \<Longrightarrow> filed_by_digest H lib (AList.merge a b)"
  by (auto simp: filed_by_digest_def merge_conv' map_add_def split: option.splits)

lemma no_keys_filed [simp]: "filed_by_digest H lib []"
  by (simp add: filed_by_digest_def)

lemma swarm_files_filed: "swarm_files H lib fs listing = Some k \<Longrightarrow> filed_by_digest H lib k"
  by (auto simp: swarm_files_def bind_eq_Some_conv dest!: load_pgp_keys_filed)

lemma key_event_filed: "filed_by_digest H lib keys \<Longrightarrow> filed_by_digest H lib (key_event H lib fs listing kind ps keys)"
  by (cases kind) (auto intro!: merge_filed dest: load_pgp_keys_filed swarm_files_filed split: option.splits)

definition watch_run ::
  "(bytes \<Rightarrow> bytes) \<Rightarrow> ('k, 's) pgp_lib \<Rightarrow> (key_files \<times> path list option \<times> watch_kind \<times> path list) list \<Rightarrow> (bytes \<times> 'k) list \<Rightarrow> (bytes \<times> 'k) list" where
  "watch_run H lib = fold (\<lambda>(fs, listing, kind, ps). key_event H lib fs listing kind ps)"

lemma watch_run_filed: "filed_by_digest H lib keys \<Longrightarrow> filed_by_digest H lib (watch_run H lib events keys)"
  by (induction events arbitrary: keys) (auto simp: watch_run_def key_event_filed)

text \<open>The swarm keys a node trusts. Through any sequence of changes to the watched directory,
  each with the files as they are at that moment, every key is filed under the digest of its own
  bytes, so that a token naming a swarm is checked with that swarm's key and no other; and after
  a removal exactly the keys of the directory remain.\<close>

lemma swarm_keys_filed_by_digest:
  "filed_by_digest H lib (watch_run H lib events (watch_start H lib fs0 listing0 [])) \<and>
   map_of (watch_run H lib (events @ [(fs, listing, KeyRemove, ps)]) keys) =
     (case swarm_files H lib fs listing of None \<Rightarrow> Map.empty | Some k \<Rightarrow> map_of k)"
proof
  have "filed_by_digest H lib (watch_start H lib fs0 listing0 [])"
    by (auto simp: watch_start_def intro: merge_filed swarm_files_filed split: option.split)
  then show "filed_by_digest H lib (watch_run H lib events (watch_start H lib fs0 listing0 []))" by (rule watch_run_filed)
qed (simp add: watch_run_def merge_conv' split: option.split)

text \<open>A key file that is overwritten leaves the key it held before in force, until some file is
  removed; and one file that does not parse keeps every key of the directory out.\<close>

lemma replaced_key_stays_trusted:
  assumes "map_of keys i = Some old" and "load_pgp_keys H lib fs [f] [] = Some [(j, new)]" and "j \<noteq> i"
  shows "map_of (key_event H lib fs listing KeyModify [f] keys) i = Some old \<and> map_of (key_event H lib fs listing KeyModify [f] keys) j = Some new"
  using assms by (simp add: merge_conv' map_add_def update_conv')

lemma load_pgp_keys_bad_file:
  assumes "f \<in> set files" and "f \<noteq> []" "extension (last f) = Some ''asc''" and "\<forall>armor. read_file f fs = Inr armor \<longrightarrow> gl_armor lib armor = None"
  shows "load_pgp_keys H lib fs files keys = None"
  using assms(1)
proof (induction files arbitrary: keys)
  case (Cons g files)
  then show ?case using assms(2-4) by (cases "g = f") (auto split: sum.split option.split)
qed simp

lemma bad_file_clears_keys:
  assumes "f \<in> set files" and "f \<noteq> []" "extension (last f) = Some ''asc''" and "\<forall>armor. read_file f fs = Inr armor \<longrightarrow> gl_armor lib armor = None"
  shows "watch_start H lib fs (Some files) keys = keys" "key_event H lib fs (Some files) KeyRemove ps keys = []"
  using load_pgp_keys_bad_file[OF assms] by (simp_all add: watch_start_def swarm_files_def)

subsection \<open>The manifest\<close>

text \<open>The hash of the enclave is that of a manifest signed by the project for the asked version, and
  has 64 bytes; in every other case there is an error, and the manifest of a token issuer is such a
  function.\<close>

lemma enclave_hash_is_signed:
  "get_enclave_hash verify from_json hex_decode wm ws version = Inr h \<longleftrightarrow>
     (\<exists>manifest signature m. wm = Some manifest \<and> ws = Some signature \<and> verify MAIN_CA_PUBLIC_KEY manifest signature \<and>
        from_json manifest = Some m \<and> mf_version m = version \<and> hex_decode (mf_enclave_hash m) = Some h \<and> length h = 64)"
  by (auto simp: get_enclave_hash_def Manifest_get_def split: option.splits if_splits)

end
