(* ===== verification/I2p.thy ===== *)
theory I2p
  imports Bqti_Prelude "HOL-Library.Sublist"
begin

text \<open>
  The I2P transport: \<open>i2p/dest_map.rs\<close>, the datagram socket of \<open>i2p/socket.rs\<close>, the replies of the SAM
  bridge in \<open>i2p/session.rs\<close>, and the address resolvers of \<open>network/resolver.rs\<close>. A string is the list
  of its bytes, so lengths and prefixes are those of the source; whitespace is that of ASCII, which
  the bridge uses. Parsing an IP address, the check for UTF-8 and the order in which the hash map of
  destinations is walked are parameters. A panic is \<open>None\<close>.
\<close>

subsection \<open>Destinations and addresses\<close>

record dest_map =
  dest_to_addr :: "(bytes \<times> sock_addr) list"
  addr_to_dest :: "sock_addr \<rightharpoonup> bytes"
  next_ip :: u32

definition DestMap_new :: dest_map where
  "DestMap_new = \<lparr>dest_to_addr = [], addr_to_dest = Map.empty, next_ip = 1\<rparr>"

definition dm_resolve :: "dest_map \<Rightarrow> sock_addr \<Rightarrow> bytes option" where
  "dm_resolve m addr = addr_to_dest m addr"

definition related :: "bytes \<Rightarrow> bytes \<Rightarrow> bool" where
  "related k dest \<longleftrightarrow> prefix dest k \<or> prefix k dest"

definition i2p_addr :: "u32 \<Rightarrow> sock_addr option" where
  "i2p_addr ip = (if 0x0A000000 + unat ip < 2 ^ 32 then Some (SocketV4 (0x0A000000 + ip) 4242) else None)"

definition get_or_insert ::
  "((bytes \<times> sock_addr) list \<Rightarrow> (bytes \<times> sock_addr) list) \<Rightarrow> dest_map \<Rightarrow> bytes \<Rightarrow> (sock_addr \<times> dest_map) option" where
  "get_or_insert order m dest =
     (case map_of (dest_to_addr m) dest of
        Some addr \<Rightarrow> Some (addr, m)
      | None \<Rightarrow>
          (case find (\<lambda>(k, _). related k dest) (order (dest_to_addr m)) of
             Some (_, addr) \<Rightarrow>
               let m = m\<lparr>dest_to_addr := AList.update dest addr (dest_to_addr m)\<rparr>
               in Some (addr,
                    case addr_to_dest m addr of
                      Some existing \<Rightarrow>
                        if length existing < length dest then m\<lparr>addr_to_dest := (addr_to_dest m)(addr \<mapsto> dest)\<rparr> else m
                    | None \<Rightarrow> m)
           | None \<Rightarrow>
               let ip = next_ip m; m = m\<lparr>next_ip := ip + 1\<rparr>
               in (case i2p_addr ip of
                     None \<Rightarrow> None
                   | Some addr \<Rightarrow>
                       Some (addr, m\<lparr>dest_to_addr := AList.update dest addr (dest_to_addr m),
                                     addr_to_dest := (addr_to_dest m)(addr \<mapsto> dest)\<rparr>))))"

subsection \<open>Resolvers\<close>

definition ends_with :: "bytes \<Rightarrow> bytes \<Rightarrow> bool" where
  "ends_with xs ys \<longleftrightarrow> suffix ys xs"

definition ascii :: "string \<Rightarrow> bytes" where
  "ascii s = map (\<lambda>c. word_of_nat (of_char c)) s"

definition ip_resolve :: "(bytes \<Rightarrow> sock_addr option) \<Rightarrow> 'm \<Rightarrow> bytes \<Rightarrow> (sock_addr option \<times> 'm) option" where
  "ip_resolve parse m addr = Some (parse addr, m)"

definition i2p_resolve ::
  "(bytes \<Rightarrow> sock_addr option) \<Rightarrow> ((bytes \<times> sock_addr) list \<Rightarrow> (bytes \<times> sock_addr) list) \<Rightarrow> dest_map \<Rightarrow> bytes
     \<Rightarrow> (sock_addr option \<times> dest_map) option" where
  "i2p_resolve parse order m addr =
     (case parse addr of
        Some socket_addr \<Rightarrow> Some (Some socket_addr, m)
      | None \<Rightarrow>
          if ends_with addr (ascii ''.b32.i2p'') \<or> 200 < length addr
          then map_option (\<lambda>(a, m). (Some a, m)) (get_or_insert order m addr)
          else Some (None, m))"

definition resolve_address ::
  "(bytes \<Rightarrow> (sock_addr option \<times> 'm) option) \<Rightarrow> 'm \<Rightarrow> bytes \<Rightarrow> (sock_addr option \<times> 'm) option" where
  "resolve_address resolver m addr = (if addr = [] then Some (None, m) else resolver addr)"

subsection \<open>The datagram socket\<close>

text \<open>One datagram of \<open>recv_loop\<close>: the sender's destination up to the newline, then the payload.\<close>

definition recv_datagram ::
  "(bytes \<Rightarrow> bool) \<Rightarrow> ((bytes \<times> sock_addr) list \<Rightarrow> (bytes \<times> sock_addr) list) \<Rightarrow> dest_map \<Rightarrow> bytes
     \<Rightarrow> ((bytes \<times> sock_addr) option \<times> dest_map) option" where
  "recv_datagram is_utf8 order m data =
     (let source = takeWhile (\<lambda>b. b \<noteq> 10) data
      in if length source = length data then Some (None, m)
         else if \<not> is_utf8 source then Some (None, m)
         else map_option (\<lambda>(src_addr, m). (Some (drop (length source + 1) data, src_addr), m)) (get_or_insert order m source))"

definition try_send :: "bytes \<Rightarrow> dest_map \<Rightarrow> sock_addr \<Rightarrow> bytes \<Rightarrow> bytes option" where
  "try_send session_id m destination contents =
     (case dm_resolve m destination of
        None \<Rightarrow> None
      | Some d \<Rightarrow> Some (ascii ''3.0 '' @ session_id @ ascii '' '' @ d @ [10] @ contents))"

datatype poll_error = BrokenPipe

text \<open>\<open>bufs\<close> are the lengths of the buffers, \<open>disconnected\<close> that the channel is closed; no slot
  filled is \<open>Pending\<close>.\<close>

fun poll_recv ::
  "bool \<Rightarrow> nat list \<Rightarrow> (bytes \<times> sock_addr) list \<Rightarrow> (bytes \<times> sock_addr) list
     \<Rightarrow> (poll_error + (bytes \<times> sock_addr) list) \<times> (bytes \<times> sock_addr) list" where
  "poll_recv disconnected [] rx filled = (Inr filled, rx)"
| "poll_recv disconnected (buf # bufs) [] filled = (if disconnected then Inl BrokenPipe else Inr filled, [])"
| "poll_recv disconnected (buf # bufs) ((packet, src_addr) # rx) filled =
     poll_recv disconnected bufs rx (filled @ [(take (min (length packet) buf) packet, src_addr)])"

subsection \<open>Replies of the bridge\<close>

definition is_space :: "u8 \<Rightarrow> bool" where
  "is_space b \<longleftrightarrow> b = 32 \<or> (9 \<le> b \<and> b \<le> 13)"

function split_whitespace :: "bytes \<Rightarrow> bytes list" where
  "split_whitespace bs =
     (let rest = dropWhile is_space bs
      in if rest = [] then []
         else takeWhile (\<lambda>b. \<not> is_space b) rest # split_whitespace (dropWhile (\<lambda>b. \<not> is_space b) rest))"
  by pat_completeness auto
termination
proof (relation "measure length", simp, goal_cases)
  case (1 bs)
  then have h: "\<not> is_space (hd (dropWhile is_space bs))" by (simp add: hd_dropWhile)
  have "length (dropWhile (\<lambda>b. \<not> is_space b) r) < length r" if "r \<noteq> []" "\<not> is_space (hd r)" for r
    using that by (cases r) (simp_all add: le_imp_less_Suc length_dropWhile_le)
  from this[OF _ h] 1 show ?case using length_dropWhile_le[of is_space bs] by (simp add: order.strict_trans2)
qed

declare split_whitespace.simps [simp del]

text \<open>\<open>split_once('=')\<close> always finds the sign, as the field starts with the name and a sign.\<close>

definition parse_field :: "bytes \<Rightarrow> bytes \<Rightarrow> bytes option" where
  "parse_field reply field =
     map_option (\<lambda>s. drop 1 (dropWhile (\<lambda>b. b \<noteq> 61) s)) (find (\<lambda>s. prefix (field @ [61]) s) (split_whitespace reply))"

datatype sam_error = SamIo | Bridge bytes | MissingField

definition ensure_ok :: "bytes \<Rightarrow> sam_error + unit" where
  "ensure_ok reply =
     (if \<not> sublist (ascii ''RESULT=OK'') reply
      then Inl (Bridge (case parse_field reply (ascii ''MESSAGE'') of Some v \<Rightarrow> v | None \<Rightarrow> reply))
      else Inr ())"

text \<open>\<open>exchange\<close> sends a line and reads the trimmed reply.\<close>

definition sam_lookup :: "(bytes \<Rightarrow> sam_error + bytes) \<Rightarrow> bytes \<Rightarrow> sam_error + bytes" where
  "sam_lookup exchange name =
     (case exchange (ascii ''NAMING LOOKUP NAME='' @ name @ [10]) of
        Inl e \<Rightarrow> Inl e
      | Inr reply \<Rightarrow>
          (case ensure_ok reply of
             Inl e \<Rightarrow> Inl e
           | Inr _ \<Rightarrow> (case parse_field reply (ascii ''VALUE'') of None \<Rightarrow> Inl MissingField | Some v \<Rightarrow> Inr v)))"

text \<open>Opening a session: the greeting, the creation with a transient destination, its full name
  and the short address derived from it. Decoding base 64 and encoding base 32 are parameters.\<close>

record sam_session =
  session_id :: bytes
  destination :: bytes
  b32_addr :: bytes

definition calculate_b32_address ::
  "(bytes \<Rightarrow> bytes) \<Rightarrow> (bytes \<Rightarrow> bytes option) \<Rightarrow> (bytes \<Rightarrow> bytes) \<Rightarrow> bytes \<Rightarrow> sam_error + bytes" where
  "calculate_b32_address sha256 b64_decode b32_lower dest =
     (let normalized = map (\<lambda>b. if b = 126 then 47 else if b = 45 then 43 else b) dest
      in case b64_decode normalized of
           None \<Rightarrow> Inl MissingField
         | Some decoded \<Rightarrow> Inr (b32_lower (sha256 decoded) @ ascii ''.b32.i2p''))"

definition sam_from_addr ::
  "(bytes \<Rightarrow> sam_error + bytes) \<Rightarrow> (bytes \<Rightarrow> bytes) \<Rightarrow> (bytes \<Rightarrow> bytes option) \<Rightarrow> (bytes \<Rightarrow> bytes) \<Rightarrow> bytes \<Rightarrow> bytes \<Rightarrow> bytes
     \<Rightarrow> sam_error + sam_session" where
  "sam_from_addr exchange sha256 b64_decode b32_lower sid udp_host udp_port =
     (case exchange (ascii ''HELLO VERSION MIN=3.0 MAX=3.1'' @ [10]) of
        Inl e \<Rightarrow> Inl e
      | Inr reply \<Rightarrow>
          (case ensure_ok reply of
             Inl e \<Rightarrow> Inl e
           | Inr _ \<Rightarrow>
               (case exchange (ascii ''SESSION CREATE STYLE=DATAGRAM ID='' @ sid @ ascii '' DESTINATION=TRANSIENT HOST='' @ udp_host
                       @ ascii '' PORT='' @ udp_port @ [10]) of
                  Inl e \<Rightarrow> Inl e
                | Inr reply \<Rightarrow>
                    (case ensure_ok reply of
                       Inl e \<Rightarrow> Inl e
                     | Inr _ \<Rightarrow>
                         (case parse_field reply (ascii ''DESTINATION'') of
                            None \<Rightarrow> Inl MissingField
                          | Some raw_dest \<Rightarrow>
                              (case sam_lookup exchange raw_dest of
                                 Inl e \<Rightarrow> Inl e
                               | Inr dest \<Rightarrow>
                                   (case calculate_b32_address sha256 b64_decode b32_lower dest of
                                      Inl e \<Rightarrow> Inl e
                                    | Inr b32 \<Rightarrow> Inr \<lparr>session_id = sid, destination = dest, b32_addr = b32\<rparr>)))))))"

subsection \<open>Names that are not prefixes of one another\<close>

text \<open>Every name resolves back, every address was handed out below the counter.\<close>

definition dm_exact :: "nat \<Rightarrow> dest_map \<Rightarrow> bool" where
  "dm_exact n m \<longleftrightarrow> unat (next_ip m) \<le> Suc n \<and> (\<forall>(d, a) \<in> set (dest_to_addr m). addr_to_dest m a = Some d) \<and>
     (\<forall>a \<in> dom (addr_to_dest m). \<exists>ip < next_ip m. i2p_addr ip = Some a)"

lemma i2p_addr_inject: "i2p_addr i = Some a \<Longrightarrow> i2p_addr j = Some a \<Longrightarrow> i = j"
  by (auto simp: i2p_addr_def split: if_splits)

lemma get_or_insert_exact:
  assumes ok: "dm_exact n m" and walk: "\<forall>xs. set (order xs) = set xs" and few: "n + 0x0A000001 < 2 ^ 32"
    and alone: "\<forall>(k, a) \<in> set (dest_to_addr m). related k d \<longrightarrow> k = d"
  obtains a m' where "get_or_insert order m d = Some (a, m')" and "dm_exact (Suc n) m'" and "(d, a) \<in> set (dest_to_addr m')"
    and "fst ` set (dest_to_addr m') = insert d (fst ` set (dest_to_addr m))"
proof (cases "map_of (dest_to_addr m) d")
  case (Some a)
  then have "(d, a) \<in> set (dest_to_addr m)" by (rule map_of_SomeD)
  moreover from this have "d \<in> fst ` set (dest_to_addr m)" by force
  ultimately show thesis
    using Some ok by (intro that[of a m]) (auto simp: get_or_insert_def dm_exact_def)
next
  case None
  then have new: "d \<notin> fst ` set (dest_to_addr m)" by (simp add: map_of_eq_None_iff)
  have free: "find (\<lambda>(k, _). related k d) (order (dest_to_addr m)) = None"
    unfolding find_None_iff using alone walk new by force
  have small: "unat (next_ip m) \<le> Suc n" using ok by (simp add: dm_exact_def)
  then obtain a where a: "i2p_addr (next_ip m) = Some a" using few by (simp add: i2p_addr_def)
  have "next_ip m \<noteq> 4294967295" using small few by auto
  moreover have "(- 1 :: u32) = 4294967295" by simp
  ultimately have "next_ip m \<noteq> - 1" by metis
  then have inc: "unat (next_ip m + 1) = Suc (unat (next_ip m))"
    by (subst add.commute, intro unatSuc) (simp add: add_eq_0_iff)
  then have less: "next_ip m < next_ip m + 1" by (simp add: word_less_nat_alt)
  have fresh: "a \<notin> dom (addr_to_dest m)"
  proof
    assume "a \<in> dom (addr_to_dest m)"
    then obtain ip where "ip < next_ip m" "i2p_addr ip = Some a" using ok unfolding dm_exact_def by blast
    with i2p_addr_inject[OF this(2) a] show False by simp
  qed
  define m' where "m' = m\<lparr>next_ip := next_ip m + 1, dest_to_addr := dest_to_addr m @ [(d, a)], addr_to_dest := (addr_to_dest m)(a \<mapsto> d)\<rparr>"
  have "dm_exact (Suc n) m'"
  proof -
    have "\<exists>ip < next_ip m + 1. i2p_addr ip = Some x" if "x \<in> dom (addr_to_dest m)" for x
      using that ok less unfolding dm_exact_def by (meson order.strict_trans)
    then show ?thesis using ok fresh inc less a unfolding dm_exact_def m'_def by auto
  qed
  then show thesis
    using None free a by (intro that[of a m']) (simp_all add: get_or_insert_def Let_def update_new[OF new] m'_def)
qed

lemma registered_all:
  assumes walk: "\<forall>xs. set (order xs) = set xs"
  shows "dm_exact n m \<Longrightarrow> n + length ds + 0x0A000001 < 2 ^ 32 \<Longrightarrow>
     \<forall>d \<in> set ds \<union> fst ` set (dest_to_addr m). \<forall>e \<in> set ds \<union> fst ` set (dest_to_addr m). prefix d e \<longrightarrow> d = e \<Longrightarrow>
     \<exists>m'. fold_opt (\<lambda>m d. map_option snd (get_or_insert order m d)) m ds = Some m' \<and> dm_exact (n + length ds) m' \<and>
       fst ` set (dest_to_addr m') = set ds \<union> fst ` set (dest_to_addr m)"
proof (induction ds arbitrary: n m)
  case (Cons d ds)
  have alone: "\<forall>(k, a) \<in> set (dest_to_addr m). related k d \<longrightarrow> k = d"
    using Cons.prems(3) unfolding related_def by force
  have few: "n + 0x0A000001 < 2 ^ 32" using Cons.prems(2) by simp
  obtain a m1 where g: "get_or_insert order m d = Some (a, m1)" and m1: "dm_exact (Suc n) m1"
    and names: "fst ` set (dest_to_addr m1) = insert d (fst ` set (dest_to_addr m))"
    by (rule get_or_insert_exact[OF Cons.prems(1) walk few alone])
  have all: "set ds \<union> fst ` set (dest_to_addr m1) = set (d # ds) \<union> fst ` set (dest_to_addr m)" by (simp add: names)
  have "Suc n + length ds + 0x0A000001 < 2 ^ 32" using Cons.prems(2) by simp
  from Cons.IH[OF m1 this, unfolded all, OF Cons.prems(3)] show ?case by (simp only: fold_opt.simps g option.map option.case snd_conv length_Cons add_Suc_right add_Suc)
qed simp

subsection \<open>Properties\<close>

text \<open>C33: destinations of which none is a prefix of another, registered in any order and any
  number of times, each get an address that resolves back to the destination, so that no two share
  one; up to four thousand million registrations do not overflow the address counter.\<close>

theorem destinations_round_trip:
  assumes walk: "\<forall>xs. set (order xs) = set xs" and few: "length ds < 4000000000"
    and apart: "\<forall>d \<in> set ds. \<forall>e \<in> set ds. prefix d e \<longrightarrow> d = e"
  shows "\<exists>m. fold_opt (\<lambda>m d. map_option snd (get_or_insert order m d)) DestMap_new ds = Some m \<and>
     (\<forall>d \<in> set ds. \<exists>a. get_or_insert order m d = Some (a, m) \<and> dm_resolve m a = Some d)"
proof -
  have "dm_exact 0 DestMap_new" by (simp add: dm_exact_def DestMap_new_def)
  then obtain m where m: "fold_opt (\<lambda>m d. map_option snd (get_or_insert order m d)) DestMap_new ds = Some m"
    and ex: "dm_exact (length ds) m" and names: "fst ` set (dest_to_addr m) = set ds"
    using registered_all[OF walk, of 0 DestMap_new ds] few apart by (auto simp: DestMap_new_def)
  have "\<exists>a. get_or_insert order m d = Some (a, m) \<and> dm_resolve m a = Some d" if "d \<in> set ds" for d
  proof -
    from that obtain a where a: "map_of (dest_to_addr m) d = Some a" using names by (metis map_of_eq_None_iff option.exhaust)
    then have "addr_to_dest m a = Some d" using ex map_of_SomeD[OF a] unfolding dm_exact_def by blast
    then show ?thesis using a by (simp add: get_or_insert_def dm_resolve_def)
  qed
  then show ?thesis using m by blast
qed

theorem destinations_round_trip_witness:
  "\<exists>m. fold_opt (\<lambda>m d. map_option snd (get_or_insert rev m d)) DestMap_new [[1, 2], [3], [1, 2], [1, 4]] = Some m \<and>
     (\<forall>d \<in> set [[1, 2], [3], [1, 2], [1, 4]]. \<exists>a. get_or_insert rev m d = Some (a, m) \<and> dm_resolve m a = Some d)"
  by (rule destinations_round_trip) simp_all

text \<open>A longer name takes over: whoever registers an extension of a known destination receives
  what is sent to that destination's address.\<close>

lemma longer_name_takes_over:
  assumes known: "map_of (dest_to_addr m) d = Some a" "dm_resolve m a = Some d" and walk: "\<forall>xs. set (order xs) = set xs"
    and longer: "prefix d e" "length d < length e" and new: "map_of (dest_to_addr m) e = None"
    and only: "\<forall>(k, a') \<in> set (dest_to_addr m). related k e \<longrightarrow> a' = a"
  shows "\<exists>m'. get_or_insert order m e = Some (a, m') \<and> dm_resolve m' a = Some e \<and> try_send sid m' a contents =
     Some (ascii ''3.0 '' @ sid @ ascii '' '' @ e @ [10] @ contents)"
proof -
  have "(d, a) \<in> set (order (dest_to_addr m))" using map_of_SomeD[OF known(1)] walk by blast
  then have "find (\<lambda>(k, _). related k e) (order (dest_to_addr m)) \<noteq> None"
    using longer(1) unfolding find_None_iff related_def by force
  then obtain k a' where f: "find (\<lambda>(k, _). related k e) (order (dest_to_addr m)) = Some (k, a')" by auto
  then have "(k, a') \<in> set (dest_to_addr m)" "related k e"
    using walk by (auto simp: find_Some_iff) (metis nth_mem)
  then have "a' = a" using only by blast
  then show ?thesis
    using f new known(2) longer(2) by (simp add: get_or_insert_def Let_def dm_resolve_def try_send_def)
qed

text \<open>A reply to a datagram goes to the destination it came from, when that is the name its address
  resolves to.\<close>

lemma reply_goes_to_source:
  assumes "recv_datagram is_utf8 order m (source @ [10] @ payload) = Some (Some (p, a), m')" and "10 \<notin> set source"
    and "dm_resolve m' a = Some source"
  shows "p = payload \<and> try_send sid m' a contents = Some (ascii ''3.0 '' @ sid @ ascii '' '' @ source @ [10] @ contents)"
proof -
  have "takeWhile (\<lambda>b. b \<noteq> 10) (source @ [10] @ payload) = source" using assms(2) by (subst takeWhile_append2) auto
  then show ?thesis using assms(1,3) by (auto simp: recv_datagram_def try_send_def Let_def split: if_splits)
qed

text \<open>A receive that finds the channel closed while buffers are left reports an error and drops
  the datagrams it had already taken.\<close>

lemma closed_channel_drops_datagrams:
  "length rx < length bufs \<Longrightarrow> poll_recv True bufs rx filled = (Inl BrokenPipe, [])"
  by (induction True bufs rx filled rule: poll_recv.induct) auto

lemma open_channel_delivers:
  "poll_recv False bufs rx filled =
     (Inr (filled @ map2 (\<lambda>buf (p, a). (take (min (length p) buf) p, a)) bufs rx), drop (length bufs) rx)"
  by (induction False bufs rx filled rule: poll_recv.induct) auto

subsection \<open>The receiving task\<close>

text \<open>\<open>recv_loop\<close>: what each turn of its loop sees. \<open>heard\<close> says whether the socket still listens on the
  channel. The result is what went into the channel, the map, and whether the task ended; \<open>None\<close> is
  the overflow of the address counter.\<close>

datatype recv_turn = RecvCancelled | RecvFailed | RecvData bytes

fun recv_loop ::
  "(bytes \<Rightarrow> bool) \<Rightarrow> ((bytes \<times> sock_addr) list \<Rightarrow> (bytes \<times> sock_addr) list) \<Rightarrow> bool \<Rightarrow> recv_turn list \<Rightarrow> dest_map
     \<Rightarrow> ((bytes \<times> sock_addr) list \<times> dest_map \<times> bool) option" where
  "recv_loop is_utf8 order heard [] m = Some ([], m, False)"
| "recv_loop is_utf8 order heard (RecvCancelled # ts) m = Some ([], m, True)"
| "recv_loop is_utf8 order heard (RecvFailed # ts) m = Some ([], m, True)"
| "recv_loop is_utf8 order heard (RecvData data # ts) m =
     (case recv_datagram is_utf8 order m data of
        None \<Rightarrow> None
      | Some (None, m) \<Rightarrow> recv_loop is_utf8 order heard ts m
      | Some (Some d, m) \<Rightarrow>
          if \<not> heard then Some ([], m, True)
          else map_option (\<lambda>(ds, m, ended). (d # ds, m, ended)) (recv_loop is_utf8 order heard ts m))"

definition I2pDatagramSocket_new ::
  "((bytes \<times> sock_addr) list \<Rightarrow> (bytes \<times> sock_addr) list) \<Rightarrow> sam_session \<Rightarrow> dest_map \<Rightarrow> (sock_addr \<times> dest_map) option" where
  "I2pDatagramSocket_new order sam m = get_or_insert order m (destination sam)"

text \<open>Datagrams from a sender that is known come through in order, each under the sender's address.\<close>

lemma known_sender_is_heard:
  assumes "map_of (dest_to_addr m) source = Some a" and "10 \<notin> set source" and "is_utf8 source"
  shows "recv_loop is_utf8 order True (map (\<lambda>c. RecvData (source @ 10 # c)) cs) m = Some (map (\<lambda>c. (c, a)) cs, m, False)"
proof (induction cs)
  case (Cons c cs)
  have "takeWhile (\<lambda>b. b \<noteq> 10) (source @ 10 # c) = source" using assms(2) by (subst takeWhile_append2) auto
  then have "recv_datagram is_utf8 order m (source @ 10 # c) = Some (Some (c, a), m)"
    using assms(1,3) by (simp add: recv_datagram_def get_or_insert_def Let_def)
  then show ?case using Cons by simp
qed simp

text \<open>One failed receive ends the task for good: the socket delivers what is queued and then reports a
  broken pipe to every receive.\<close>

lemma failed_receive_ends_socket:
  assumes "recv_loop is_utf8 order True ts m = Some (ds, m', False)"
  shows "recv_loop is_utf8 order True (ts @ RecvFailed # later) m = Some (ds, m', True)"
    and "bufs \<noteq> [] \<Longrightarrow> poll_recv True bufs [] [] = (Inl BrokenPipe, [])"
proof -
  show "recv_loop is_utf8 order True (ts @ RecvFailed # later) m = Some (ds, m', True)"
    using assms
  proof (induction ts arbitrary: m ds)
    case (Cons t ts)
    show ?case
    proof (cases t)
      case (RecvData data)
      then show ?thesis using Cons by (auto split: option.splits) blast
    qed (use Cons.prems in simp_all)
  qed simp
  show "bufs \<noteq> [] \<Longrightarrow> poll_recv True bufs [] [] = (Inl BrokenPipe, [])" by (cases bufs) simp_all
qed

end
