(* ===== verification/Commands.thy ===== *)
theory Commands
  imports EventStream Identity I2p
begin

text \<open>
  The commands that need no daemon and the start of the daemon: \<open>standalone.rs\<close>, \<open>daemon.rs\<close>, the
  endpoint builders of \<open>lib.rs\<close>, \<open>network/config.rs\<close> and \<open>i2p/builder.rs\<close>, \<open>network/peer.rs\<close> and
  \<open>network/endpoint.rs\<close>. Whitespace is that of ASCII. The TLS configuration of a builder is reduced to
  what the program chooses: the certificate shown, the roots trusted and whether the certificate of
  the other side is verified. Opening a socket and talking to the I2P bridge are parameters.
\<close>

subsection \<open>Creating a torrent\<close>

datatype version_arg = ArgV1 | ArgV2 | ArgHybrid

record create_args =
  ca_path :: path
  ca_name :: "string option"
  ca_files :: "path list"
  ca_version :: version_arg
  ca_announce :: "string list list"
  ca_seeds :: "string list option"
  ca_nodes :: "string list option"
  ca_piece_length :: u64
  ca_private :: bool
  ca_comment :: "string option"
  ca_created_by :: "string option"
  ca_output :: "path option"

record command_env =
  ce_sha1 :: "bytes \<Rightarrow> bytes"
  ce_sha256 :: "bytes \<Rightarrow> bytes"
  ce_enc_info :: "bencode_info \<Rightarrow> bytes option"
  ce_encode :: "bencode_torrent \<Rightarrow> bytes option"
  ce_decode :: "bytes \<Rightarrow> bencode_torrent option"
  ce_codec :: net_codec
  ce_root :: fs_node
  ce_open :: "path \<Rightarrow> bytes option"
  ce_read :: "nat \<Rightarrow> bytes \<Rightarrow> nat"
  ce_now :: u64
  ce_app_version :: string
  ce_is_dir :: "path \<Rightarrow> bool"
  ce_writable :: "path \<Rightarrow> bool"

definition file_name :: "create_args \<Rightarrow> bit_torrent_error + string" where
  "file_name args =
     (case ca_name args of
        Some name \<Rightarrow> Inr name
      | None \<Rightarrow> (case path_file_name (ca_path args) of None \<Rightarrow> Inl InvalidPath | Some name \<Rightarrow> Inr name))"

definition create_v1 :: "command_env \<Rightarrow> string \<Rightarrow> create_args \<Rightarrow> v1_builder" where
  "create_v1 env name args =
     (let b = V1Builder_new name (ca_path args) (as_i64 (ca_piece_length args));
          b = builder_file (ce_root env) b (ca_path args);
          b = builder_files (ce_root env) b (ca_files args);
          b = builder_announce_list b (ca_announce args);
          b = builder_dht_nodes (nc_parse_socket (ce_codec env)) b (ca_nodes args);
          b = builder_web_seeds b (ca_seeds args);
          b = builder_comment b (ca_comment args);
          b = builder_private b (ca_private args)
      in builder_created_by b (ca_created_by args))"

definition create_v2 :: "command_env \<Rightarrow> string \<Rightarrow> create_args \<Rightarrow> builder" where
  "create_v2 env name args =
     (let b = V2Builder_new name (ca_path args) (as_i64 (ca_piece_length args));
          b = builder_file (ce_root env) b (ca_path args);
          b = builder_files (ce_root env) b (ca_files args);
          b = builder_announce_list b (ca_announce args);
          b = builder_web_seeds b (ca_seeds args);
          b = builder_dht_nodes (nc_parse_socket (ce_codec env)) b (ca_nodes args);
          b = builder_comment b (ca_comment args)
      in builder_created_by b (ca_created_by args))"

definition create_build :: "command_env \<Rightarrow> create_args \<Rightarrow> bit_torrent_error + torrent_file" where
  "create_build env args =
     (case ca_version args of
        ArgV1 \<Rightarrow> (case file_name args of
          Inl e \<Rightarrow> Inl e
        | Inr name \<Rightarrow> map_sum TorrentErr id (v1_build (ce_sha1 env) (ce_enc_info env) (ce_open env) (ce_read env) (ce_now env) (ce_app_version env)
              (create_v1 env name args)))
      | ArgV2 \<Rightarrow> (case file_name args of
          Inl e \<Rightarrow> Inl e
        | Inr name \<Rightarrow> map_sum TorrentErr id (v2_build (ce_sha1 env) (ce_sha256 env) (ce_enc_info env) (ce_open env) (ce_read env) (ce_now env)
              (ce_app_version env) (create_v2 env name args)))
      | ArgHybrid \<Rightarrow> Inl (TorrentErr (UnsupportedVersion 0)))"

text \<open>\<open>split_whitespace\<close> and \<open>join\<close> on the name.\<close>

definition is_space :: "char \<Rightarrow> bool" where
  "is_space c \<longleftrightarrow> c \<in> {CHR '' '', CHR 0x09, CHR 0x0A, CHR 0x0B, CHR 0x0C, CHR 0x0D}"

fun words_of :: "string \<Rightarrow> string \<Rightarrow> string list" where
  "words_of [] w = (if w = [] then [] else [w])"
| "words_of (c # cs) w = (if is_space c then (if w = [] then words_of cs [] else w # words_of cs []) else words_of cs (w @ [c]))"

fun join_with :: "string \<Rightarrow> string list \<Rightarrow> string" where
  "join_with sep [] = []"
| "join_with sep [w] = w"
| "join_with sep (w # v # ws) = w @ sep @ join_with sep (v # ws)"

definition clean_name :: "string \<Rightarrow> string" where
  "clean_name name = join_with ''_'' (words_of name [])"

definition output_path :: "command_env \<Rightarrow> create_args \<Rightarrow> torrent_file \<Rightarrow> path" where
  "output_path env args torrent =
     (let final_path = (case ca_output args of None \<Rightarrow> [''.''] | Some p \<Rightarrow> p)
      in if ce_is_dir env final_path then push_path final_path (clean_name (tc_name (torrent_common_of torrent)) @ ''.torrent'') else final_path)"

definition create :: "command_env \<Rightarrow> create_args \<Rightarrow> (path \<Rightarrow> bytes option) \<Rightarrow> bit_torrent_error + path \<times> (path \<Rightarrow> bytes option)" where
  "create env args disk =
     (case create_build env args of
        Inl e \<Rightarrow> Inl e
      | Inr torrent \<Rightarrow>
          let final_path = output_path env args torrent
          in (case torrent_save (ce_codec env) (ce_encode env) (ce_writable env) disk final_path torrent of
                Inl e \<Rightarrow> Inl e
              | Inr disk \<Rightarrow> Inr (final_path, disk)))"

text \<open>\<open>inspect\<close> panics where loading fails; what it prints is not modelled.\<close>

definition load_file :: "command_env \<Rightarrow> (path \<Rightarrow> bytes option) \<Rightarrow> path \<Rightarrow> bit_torrent_error + torrent_file" where
  "load_file env disk p = torrent_load (ce_sha1 env) (ce_sha256 env) (ce_enc_info env) (ce_codec env) (ce_decode env) disk p"

definition inspect :: "command_env \<Rightarrow> (path \<Rightarrow> bytes option) \<Rightarrow> path \<Rightarrow> torrent_file option" where
  "inspect env disk torrent = (case load_file env disk torrent of Inr t \<Rightarrow> Some t | Inl _ \<Rightarrow> None)"

definition validate :: "command_env \<Rightarrow> (path \<Rightarrow> bytes option) \<Rightarrow> path \<Rightarrow> bit_torrent_error + unit" where
  "validate env disk torrent =
     (case load_file env disk torrent of
        Inl e \<Rightarrow> Inl e
      | Inr t \<Rightarrow> map_sum TorrentErr id (torrent_validate (ce_sha256 env) t))"

datatype torrent_command = Create create_args | Inspect path | Validate path

text \<open>\<open>None\<close> is the panic of \<open>inspect\<close>.\<close>

fun handle_torrent ::
  "command_env \<Rightarrow> torrent_command \<Rightarrow> (path \<Rightarrow> bytes option) \<Rightarrow> ((bit_torrent_error + unit) \<times> (path \<Rightarrow> bytes option)) option" where
  "handle_torrent env (Create args) disk = Some (case create env args disk of Inl e \<Rightarrow> (Inl e, disk) | Inr (_, disk) \<Rightarrow> (Inr (), disk))"
| "handle_torrent env (Inspect torrent) disk = map_option (\<lambda>_. (Inr (), disk)) (inspect env disk torrent)"
| "handle_torrent env (Validate torrent) disk = Some (validate env disk torrent, disk)"

subsection \<open>Endpoints\<close>

record peer =
  peer_name :: string
  peer_address :: sock_addr

definition Peer_new :: "(string \<Rightarrow> sock_addr option) \<Rightarrow> string \<Rightarrow> string \<Rightarrow> peer option" where
  "Peer_new parse server_name addr = map_option (\<lambda>a. \<lparr>peer_name = server_name, peer_address = a\<rparr>) (parse addr)"

definition Peer_from_socket :: "sock_addr \<Rightarrow> peer" where
  "Peer_from_socket socket = \<lparr>peer_name = ''locahost'', peer_address = socket\<rparr>"

record endpoint_options =
  eo_certs :: "bytes list"
  eo_shown :: bytes
  eo_skip_cert_verify :: bool
  eo_keep_alive_secs :: nat
  eo_idle_millis :: nat

datatype endpoint_builder = QuicBuilder sock_addr endpoint_options | I2pBuilder endpoint_options

definition QuicEndpointBuilder_new :: "sock_addr \<Rightarrow> bytes list \<Rightarrow> bytes \<Rightarrow> endpoint_builder" where
  "QuicEndpointBuilder_new addr certs certified = QuicBuilder addr \<lparr>eo_certs = certs, eo_shown = certified, eo_skip_cert_verify = False,
     eo_keep_alive_secs = 1, eo_idle_millis = 10000\<rparr>"

definition I2pEndpointBuilder_new :: "bytes list \<Rightarrow> bytes \<Rightarrow> endpoint_builder" where
  "I2pEndpointBuilder_new certs certified = I2pBuilder \<lparr>eo_certs = certs, eo_shown = certified, eo_skip_cert_verify = False,
     eo_keep_alive_secs = 5, eo_idle_millis = 60000\<rparr>"

fun dangerous_no_cert_verify :: "endpoint_builder \<Rightarrow> endpoint_builder" where
  "dangerous_no_cert_verify (QuicBuilder addr eo) = QuicBuilder addr (eo\<lparr>eo_skip_cert_verify := True\<rparr>)"
| "dangerous_no_cert_verify (I2pBuilder eo) = I2pBuilder (eo\<lparr>eo_skip_cert_verify := True\<rparr>)"

text \<open>What a server of the endpoint shows: one certificate, whatever the client says, and the
  protocol; it asks the client for none.\<close>

definition server_crypto :: "endpoint_options \<Rightarrow> bytes \<times> string" where
  "server_crypto eo = (eo_shown eo, ''bittorrent-quic'')"

text \<open>How a client of the endpoint decides on the certificate of a server. \<open>webpki\<close> is the check of the
  library against the given roots.\<close>

definition client_accepts :: "(bytes list \<Rightarrow> bytes \<Rightarrow> string \<Rightarrow> bool) \<Rightarrow> endpoint_options \<Rightarrow> bytes \<Rightarrow> string \<Rightarrow> bool" where
  "client_accepts webpki eo cert server_name =
     (if eo_skip_cert_verify eo then verify_server_cert cert [] server_name else webpki (eo_certs eo) cert server_name)"

datatype network_endpoint = Standard_endpoint sock_addr endpoint_options | I2P_endpoint sam_session dest_map endpoint_options

fun endpoint_resolver ::
  "(bytes \<Rightarrow> sock_addr option) \<Rightarrow> ((bytes \<times> sock_addr) list \<Rightarrow> (bytes \<times> sock_addr) list) \<Rightarrow> network_endpoint \<Rightarrow> bytes
     \<Rightarrow> (sock_addr option \<times> dest_map) option" where
  "endpoint_resolver parse order (Standard_endpoint addr eo) name = ip_resolve parse DestMap_new name"
| "endpoint_resolver parse order (I2P_endpoint sam m eo) name = i2p_resolve parse order m name"

text \<open>\<open>bind\<close> is whether the address can be bound, \<open>sam\<close> the outcome of opening a session.\<close>

fun endpoint_build :: "(sock_addr \<Rightarrow> bool) \<Rightarrow> (sam_error + sam_session) \<Rightarrow> endpoint_builder \<Rightarrow> network_endpoint option" where
  "endpoint_build bind sam (QuicBuilder addr eo) = (if bind addr then Some (Standard_endpoint addr eo) else None)"
| "endpoint_build bind sam (I2pBuilder eo) = (case sam of Inl _ \<Rightarrow> None | Inr session \<Rightarrow> Some (I2P_endpoint session DestMap_new eo))"

subsection \<open>Starting the daemon\<close>

text \<open>\<open>handle_serve\<close> up to the endpoint, with the software identity; \<open>fresh_root\<close> and \<open>fresh_leaf\<close> are the key
  pairs it would generate.\<close>

definition handle_serve ::
  "'k key_lib \<Rightarrow> 'k option \<Rightarrow> 'k option \<Rightarrow> (string \<Rightarrow> sock_addr option) \<Rightarrow> (sock_addr \<Rightarrow> bool) \<Rightarrow> (sam_error + sam_session)
     \<Rightarrow> string \<Rightarrow> bool \<Rightarrow> bool \<Rightarrow> key_files \<Rightarrow> (network_endpoint \<times> 'k identity) option \<times> key_files" where
  "handle_serve lib fresh_root fresh_leaf parse bind sam addr no_cert i2p fs =
     (case Peer_new parse ''localhost'' addr of
        None \<Rightarrow> (None, fs)
      | Some my_self \<Rightarrow>
          (case ensure_directories fs of
             Inl _ \<Rightarrow> (None, fs)
           | Inr _ \<Rightarrow>
               (case make_ca_root lib fresh_root fs of
                  (Inl _, fs) \<Rightarrow> (None, fs)
                | (Inr ca_root, fs) \<Rightarrow>
                    (case leaf_identity lib fresh_leaf ca_root ''localhost'' False of
                       Inl _ \<Rightarrow> (None, fs)
                     | Inr leaf_quic \<Rightarrow>
                         let certs = [id_cert leaf_quic, id_cert ca_root];
                             config = (if i2p then I2pEndpointBuilder_new certs (id_cert leaf_quic)
                                       else QuicEndpointBuilder_new (peer_address my_self) certs (id_cert leaf_quic));
                             config = (if no_cert then dangerous_no_cert_verify config else dangerous_no_cert_verify config)
                         in (map_option (\<lambda>e. (e, ca_root)) (endpoint_build bind sam config), fs)))))"

subsection \<open>What was created can be used\<close>

lemma create_v1_fields:
  "b_piece_length (create_v1 env name args) = ca_piece_length args" "b_private (create_v1 env name args) = ca_private args"
proof -
  have files: "b_piece_length (builder_files root b ps) = b_piece_length b" for root ps and b :: "'a builder_scheme"
    by (induction ps arbitrary: b) (simp_all add: builder_files_def builder_file_def)
  show "b_piece_length (create_v1 env name args) = ca_piece_length args"
    by (simp add: create_v1_def Let_def builder_created_by_def builder_private_def builder_comment_def builder_web_seeds_def builder_dht_nodes_def
        builder_announce_list_def files builder_file_def V1Builder_new_def)
  show "b_private (create_v1 env name args) = ca_private args"
    by (simp add: create_v1_def Let_def builder_created_by_def builder_private_def)
qed

lemma build_private: "v1_build sha1 enc_info open_file rd now version b = Inr t \<Longrightarrow> is_private t = b_private b"
  by (auto simp: v1_build_def split: sum.splits if_splits prod.splits)

lemma hashes_of_content:
  assumes "0 < n" and "xs \<noteq> []" and "\<forall>d. length (sha1 d) = 20"
  shows "concat (map sha1 (chunks n xs)) \<noteq> []"
proof -
  have "sha1 (take n xs) \<noteq> []" using assms(3) by (metis list.size(3) zero_neq_numeral)
  then show ?thesis using assms(1,2) by (subst chunks.simps) simp
qed

text \<open>C17: creating, validating and using a torrent from the command line. When \<open>create\<close> succeeds for
  version one over readable files with some content, the file it wrote loads again, \<open>inspect\<close> does
  not panic, \<open>validate\<close> accepts it, the loaded torrent is private exactly when that was asked for,
  and it accepts every piece of the content under its index.\<close>

theorem created_torrent_is_usable:
  assumes create: "create env args disk = Inr (p, disk')" and v1: "ca_version args = ArgV1" and name: "file_name args = Inr name"
    and b: "b = create_v1 env name args" and xs: "xs = builder_content (ce_open env) b"
    and rd: "reads_all (ce_read env)" and op: "\<forall>p\<in>set (paths (b_files b)). ce_open env p \<noteq> None"
    and sha: "\<forall>d. length (ce_sha1 env d) = 20" and some: "xs \<noteq> []" and small: "length xs + 2 ^ 27 < 2 ^ 64"
    and codec: "\<forall>m bs. ce_encode env m = Some bs \<longrightarrow> ce_decode env bs = Some m"
  shows "\<exists>t. inspect env disk' p = Some t \<and> validate env disk' p = Inr () \<and> is_private t = ca_private args \<and>
     (\<forall>index. unat index < length (chunks (unat (ca_piece_length args)) xs) \<longrightarrow>
        verify_hash (ce_sha1 env) (ce_sha256 env) t index (chunks (unat (ca_piece_length args)) xs ! unat index) = Inr ())"
proof -
  obtain t0 where build: "v1_build (ce_sha1 env) (ce_enc_info env) (ce_open env) (ce_read env) (ce_now env) (ce_app_version env) b = Inr t0"
    and save: "torrent_save (ce_codec env) (ce_encode env) (ce_writable env) disk p t0 = Inr disk'"
    using create v1 name b by (auto simp: create_def create_build_def Let_def map_sum_def split: sum.splits)
  obtain v0 where v0: "t0 = TorrentFileV1 v0" "tc_piece_length (v1_info v0) = b_piece_length b" "piece_length_validate (b_piece_length b) = Inr ()"
    "v1_pieces v0 = concat (map (ce_sha1 env) (chunks (unat (b_piece_length b)) xs))"
    "map ef_length (mode_files (v1_mode_of v0)) = map (\<lambda>p. int (length (the (ce_open env p)))) (paths (b_files b))"
    using built_v1[OF build rd op] xs by metis
  have "v1_pieces v0 \<noteq> []"
    using hashes_of_content[OF _ some sha, of "unat (b_piece_length b)"] piece_length_valid_bounds[OF v0(3)] v0(4) by simp
  then obtain t where t: "apply_from_metadata (ce_sha1 env) (ce_sha256 env) (ce_enc_info env) (ce_codec env)
      (bencode_torrent_from (nc_show_ip (ce_codec env)) t0) = Inr t"
    "raw_pieces t = raw_pieces t0" "is_private t = is_private t0" "tc_piece_length (torrent_common_of t) = tc_piece_length (torrent_common_of t0)"
    "map ef_length (torrent_files t) = map ef_length (torrent_files t0)"
    using apply_built[OF build] v0(1) by fastforce
  then obtain v where v: "t = TorrentFileV1 v" using \<open>v1_pieces v0 \<noteq> []\<close> v0(1) by (cases t) auto
  have load: "load_file env disk' p = Inr t" unfolding load_file_def load_saved[OF save codec] t(1) by simp
  have "tc_piece_length (v1_info v) = ca_piece_length args" using t(4) v v0(1,2) create_v1_fields(1) b by simp
  moreover have "torrent_validate (ce_sha256 env) t = Inr () \<and>
     (\<forall>index. unat index < length (chunks (unat (tc_piece_length (v1_info v))) xs) \<longrightarrow>
        verify_hash (ce_sha1 env) (ce_sha256 env) t index (chunks (unat (tc_piece_length (v1_info v))) xs ! unat index) = Inr ())"
    unfolding v xs by (rule v1_accepts_content) (use t v v0 sha some small in \<open>simp_all add: xs\<close>)
  moreover have "is_private t = ca_private args" using t(3) build_private[OF build] b create_v1_fields(2) by simp
  ultimately show ?thesis using load by (simp add: inspect_def validate_def)
qed

definition sample_args :: create_args where
  "sample_args = \<lparr>ca_path = [''d''], ca_name = Some ''t'', ca_files = [], ca_version = ArgV1, ca_announce = [], ca_seeds = None,
     ca_nodes = None, ca_piece_length = 16384, ca_private = True, ca_comment = None, ca_created_by = None, ca_output = Some [''f'']\<rparr>"

definition sample_command_env :: "(bencode_torrent \<Rightarrow> bytes option) \<Rightarrow> (bytes \<Rightarrow> bencode_torrent option) \<Rightarrow> command_env" where
  "sample_command_env encode decode = \<lparr>ce_sha1 = (\<lambda>d. replicate 20 (hd (d @ [0]))), ce_sha256 = id, ce_enc_info = (\<lambda>i. Some []),
     ce_encode = encode, ce_decode = decode, ce_codec = sample_codec,
     ce_root = Directory [(''d'', Directory [(''a'', RegularFile), (''b'', RegularFile)])],
     ce_open = sample_open, ce_read = (\<lambda>s r. s), ce_now = 0, ce_app_version = ''v'', ce_is_dir = (\<lambda>_. False), ce_writable = (\<lambda>_. True)\<rparr>"

lemma sample_create_files:
  "paths (b_files (create_v1 (sample_command_env e d) ''t'' sample_args)) = [[''d'', ''a''], [''d'', ''b'']]"
  by (simp add: create_v1_def sample_args_def sample_command_env_def Let_def builder_created_by_def builder_private_def builder_comment_def
      builder_web_seeds_def builder_dht_nodes_def builder_announce_list_def builder_files_def builder_file_def V1Builder_new_def
      TorrentPath_new_def path_add_def)

theorem created_torrent_is_usable_witness:
  "\<exists>env p disk' t. create env sample_args Map.empty = Inr (p, disk') \<and> inspect env disk' p = Some t \<and> validate env disk' p = Inr () \<and> is_private t"
proof -
  let ?e0 = "sample_command_env (\<lambda>_. None) (\<lambda>_. None)"
  define b where "b = create_v1 ?e0 ''t'' sample_args"
  have files: "paths (b_files b) = [[''d'', ''a''], [''d'', ''b'']]" unfolding b_def by (rule sample_create_files)
  have pl: "piece_length_validate (b_piece_length b) = Inr ()"
    unfolding b_def create_v1_fields by (simp add: sample_args_def piece_length_valid_nat) (intro exI[of _ 14], simp)
  obtain pieces mode where "hasher_finalize (\<lambda>d. replicate 20 (hd (d @ [0]))) sample_open (\<lambda>s r. s) (builder_hasher b) = Inr (pieces, mode)"
    using hasher_finalize_total by blast
  then obtain t0 where t0: "v1_build (\<lambda>d. replicate 20 (hd (d @ [0]))) (\<lambda>i. Some []) sample_open (\<lambda>s r. s) 0 ''v'' b = Inr t0"
    using pl files by (auto simp: v1_build_def path_is_empty_def v1_builder_info_hash_def)
  define m where "m = bencode_torrent_from (nc_show_ip sample_codec) t0"
  define env where "env = sample_command_env (\<lambda>x. if x = m then Some [1] else None) (\<lambda>bs. if bs = [1] then Some m else None)"
  have b': "create_v1 env ''t'' sample_args = b" by (simp add: b_def env_def create_v1_def sample_command_env_def Let_def)
  have name: "file_name sample_args = Inr ''t''" "ca_version sample_args = ArgV1" by (simp_all add: file_name_def sample_args_def)
  have run: "create env sample_args Map.empty = Inr ([''f''], [[''f''] \<mapsto> [1]])"
    using t0 name b' by (simp add: create_def create_build_def env_def sample_command_env_def output_path_def sample_args_def torrent_save_def m_def Let_def)
  have codec: "\<forall>x bs. ce_encode env x = Some bs \<longrightarrow> ce_decode env bs = Some x" by (simp add: env_def sample_command_env_def)
  have op: "\<forall>p\<in>set (paths (b_files b)). ce_open env p \<noteq> None" "builder_content (ce_open env) b = [1, 2, 3]"
    by (simp_all add: files builder_content_def env_def sample_command_env_def sample_open_def)
  have "reads_all (ce_read env)" "\<forall>d. length (ce_sha1 env d) = 20" by (simp_all add: env_def sample_command_env_def reads_all_def)
  then have "\<exists>t. inspect env [[''f''] \<mapsto> [1]] [''f''] = Some t \<and> validate env [[''f''] \<mapsto> [1]] [''f''] = Inr () \<and> is_private t = ca_private sample_args"
    using created_torrent_is_usable[OF run name(2,1) b'[symmetric] refl _ op(1) _ _ _ codec] op(2) by auto
  moreover have "ca_private sample_args" by (simp add: sample_args_def)
  ultimately show ?thesis using run by blast
qed

subsection \<open>Names and trust\<close>

lemma words_of_clean: "(\<forall>c\<in>set w. \<not> is_space c) \<Longrightarrow> v \<in> set (words_of s w) \<Longrightarrow> c \<in> set v \<Longrightarrow> \<not> is_space c"
  by (induction s w rule: words_of.induct) (auto split: if_splits)

lemma join_with_set: "c \<in> set (join_with sep ws) \<Longrightarrow> c \<in> set sep \<or> (\<exists>w\<in>set ws. c \<in> set w)"
  by (induction sep ws rule: join_with.induct) auto

text \<open>The name of the file that \<open>create\<close> writes into a directory has no whitespace.\<close>

lemma clean_name_no_space: "c \<in> set (clean_name name) \<Longrightarrow> \<not> is_space c"
  using words_of_clean[of "[]" _ name c] join_with_set[of c "''_''" "words_of name []"] by (auto simp: clean_name_def is_space_def)

text \<open>A version two torrent cannot be made private: the option is not passed on.\<close>

lemma create_v2_ignores_private: "create_v2 env name (args\<lparr>ca_private := p\<rparr>) = create_v2 env name args"
  by (simp add: create_v2_def)

text \<open>Inspecting a file that does not load panics.\<close>

lemma inspect_panics: "load_file env disk p = Inl e \<Longrightarrow> handle_torrent env (Inspect p) disk = None"
  by (simp add: inspect_def)

fun endpoint_opts :: "network_endpoint \<Rightarrow> endpoint_options" where
  "endpoint_opts (Standard_endpoint _ eo) = eo"
| "endpoint_opts (I2P_endpoint _ _ eo) = eo"

lemma serve_result:
  assumes "handle_serve lib fresh_root fresh_leaf parse bind sam addr no_cert i2p fs = (Some (e, ca_root), fs')"
  shows "make_ca_root lib fresh_root fs = (Inr ca_root, fs')" "eo_skip_cert_verify (endpoint_opts e)"
  using assms
  by (auto simp: handle_serve_def Let_def QuicEndpointBuilder_new_def I2pEndpointBuilder_new_def split: option.splits sum.splits prod.splits if_splits)

text \<open>Whatever the flag \<open>no_cert\<close> says, a daemon accepts every certificate for every name.\<close>

lemma daemon_accepts_every_certificate:
  assumes "handle_serve lib fresh_root fresh_leaf parse bind sam addr no_cert i2p fs = (Some (e, ca_root), fs')"
  shows "client_accepts webpki (endpoint_opts e) cert server_name"
  using serve_result(2)[OF assms] by (simp add: client_accepts_def verify_server_cert_def)

text \<open>With verification on, no peer could be dialed: the name that is checked is not the name the
  certificates are made for.\<close>

lemma dialed_name_is_not_certified: "peer_name (Peer_from_socket addr) \<noteq> ''localhost''"
  by (simp add: Peer_from_socket_def)

text \<open>A daemon that is started again keeps its identity.\<close>

lemma restarted_daemon_keeps_identity:
  assumes "handle_serve lib fresh_root fresh_leaf parse bind sam addr no_cert i2p fs = (Some (e, ca_root), fs')"
    and "handle_serve lib fresh_root' fresh_leaf' parse' bind' sam' addr' no_cert' i2p' fs' = (Some (e', ca_root'), fs'')"
    and "key_round_trip lib" and "\<forall>p. kf_readable fs p"
  shows "ca_root' = ca_root"
  using make_ca_root_ok[OF serve_result(1)[OF assms(1)] assms(3,4)] serve_result(1)[OF assms(2)] by (simp add: make_ca_root_def)

end
