(* ===== verification/Completion.thy ===== *)
theory Completion
  imports Workers
begin

text \<open>
  The end of a download, across \<open>session/session.rs\<close>, \<open>state.rs\<close> and \<open>transition.rs\<close>: the downloader
  stops, links the download, and the session moves to seeding: the files are opened again through
  the upload directory and every piece is read and hashed with SHA-1. The theory shows, for torrents
  of version one, that a download that was drained ends as a seeder of the whole torrent and that
  every running download has a schedule that ends this way, whatever the order of the pieces; that
  otherwise the session seeds exactly what is on disk and a seeding session never asks for the
  rest; and that the link made when a download is paused keeps it from being resumed.
\<close>

subsection \<open>Reading every piece\<close>


lemma resume_path_eq [simp]: "resume_path p = resume_path q \<longleftrightarrow> p = q"
  by (simp add: resume_path_def)



subsection \<open>Stopping the downloader\<close>










subsection \<open>Properties\<close>







text \<open>C39: pausing a download makes it impossible to resume, when a file of the torrent lies at the top of
  its directory and is already there, apart from the user's link, and the node does not run as the
  superuser. The pause cancels the worker and leaves the session idle; the cancelled worker links
  the download all the same, which takes the owner's write permission from the file; resuming on the
  name space it leaves fails to open the file for writing, and the session stays idle.\<close>

theorem paused_download_cannot_resume:
  assumes state: "ts_state (dn_session dn) = Downloading ib dest None token tx" "dn_dest dn = dest"
    and dir: "push_path (data @ [''downloads'']) (hex (torrent_info_hash (ts_metadata (dn_session dn)))) = ib" "rooted ib" "rooted dest" "ns_at (dn_names dn) ib = Some NsDir"
    and top: "f \<in> set (torrent_files (ts_metadata (dn_session dn)))" "ef_path f = [n]" "plain n" "ns_at (dn_names dn) (ib @ [n]) = Some (NsFile i)"
    and apart: "\<not> prefix (dest @ [''download'']) (ib @ [n])"
    and env: "se_download_dir env (ts_metadata (dn_session dn)) = Some ib"
  shows "\<exists>s1 dn' out' s2 fs'. transition env Pause (dn_session dn) (dn_fs dn) = Some (Inr (), s1, dn_fs dn)
     \<and> stop_downloader env renv (Some data) hex token ib (dn\<lparr>dn_session := s1\<rparr>) out = Some (dn', out')
     \<and> transition (env\<lparr>se_names := download_names fresh_inode (dn_names dn')\<rparr>) (Resume (ts_metadata (dn_session dn))) (dn_session dn') (dn_fs dn')
         = Some (Inl (ChunkReaderError ChunkIo), s2, fs')
     \<and> ts_state s2 = Idle (Some (LastDownloading dest)) \<and> token \<in> ts_cancelled s2"
proof -
  let ?s = "dn_session dn" and ?m = "ts_metadata (dn_session dn)" and ?hex = "hex (torrent_info_hash (ts_metadata (dn_session dn)))"
  obtain s1 where pause: "transition env Pause ?s (dn_fs dn) = Some (Inr (), s1, dn_fs dn)" and s1: "ts_state s1 = Idle (Some (LastDownloading dest))"
    "token \<in> ts_cancelled s1" "ts_metadata s1 = ?m"
    using state by (simp add: transition_def transition_idle_def swap_state_def Let_def)
  define names where "names = snd (link (Some data) dest ?hex (dn_names dn))"
  obtain dn' out' where stop: "stop_downloader env renv (Some data) hex token ib (dn\<lparr>dn_session := s1\<rparr>) out = Some (dn', out')"
    and dn': "dn_session dn' = s1" "dn_names dn' = names"
    using s1 state(2) by (simp add: stop_downloader_def persist_tick_def names_def Let_def)
  let ?env = "env\<lparr>se_names := download_names fresh_inode names\<rparr>"
  have "fs_inode (se_names ?env) (full_path (se_names ?env) ib f) = None"
    by (rule linked_file_is_read_only[OF dir top(2-4) apart, where fresh = fresh_inode]) (simp add: names_def)
  from download_blocked[OF top(1) this, of "se_fallocate env" "sf_disk (dn_fs dn')" "[]" 0]
  obtain d' where "handler_download (se_fallocate env) (se_names ?env) (sf_disk (dn_fs dn')) ib (tc_piece_length (torrent_common_of ?m)) (torrent_files ?m) = (Inl ChunkIo, d')"
    by (auto simp: handler_download_def)
  then have "resources_download ?env ?m dest (dn_fs dn') = (Inl (ChunkReaderError ChunkIo), (dn_fs dn')\<lparr>sf_disk := d'\<rparr>)"
    by (simp add: resources_download_def SessionCache_new_def env)
  then show ?thesis
    using pause stop s1 by (simp add: transition_def transition_downloading_def dn' Let_def)
qed

theorem paused_download_cannot_resume_witness:
  "\<exists>s1 dn' out' s2 fs'. let env = strict_env\<lparr>se_download_dir := (\<lambda>_. Some [''/'', ''d'', ''downloads'', ''ab''])\<rparr>
     in transition env Pause (dn_session one_piece) sample_fs = Some (Inr (), s1, sample_fs)
      \<and> stop_downloader env (open_router [1]) (Some [''/'', ''d'']) (\<lambda>_. ''ab'') 0 [''/'', ''d'', ''downloads'', ''ab''] (one_piece\<lparr>dn_session := s1\<rparr>) [] = Some (dn', out')
      \<and> transition (env\<lparr>se_names := download_names (\<lambda>_. 9) (dn_names dn')\<rparr>) (Resume sample_torrent) (dn_session dn') (dn_fs dn')
          = Some (Inl (ChunkReaderError ChunkIo), s2, fs')"
proof -
  let ?ib = "[''/'', ''d'', ''downloads'', ''ab'']" and ?f = "\<lparr>ef_length = 1, ef_path = [''a''], ef_md5sum = None\<rparr>"
  let ?env = "strict_env\<lparr>se_download_dir := (\<lambda>_. Some ?ib)\<rparr>" and ?hex = "\<lambda>_ :: info_hash. ''ab''"
  have st: "ts_state (dn_session one_piece) = Downloading ?ib [''/'', ''u''] None 0 (new_channel 64)" "dn_dest one_piece = [''/'', ''u'']"
    by (simp_all add: one_piece_fields one_session_fields)
  have roots: "rooted ?ib" "rooted [''/'', ''u'']" and pl: "plain ''a''" by (simp_all add: rooted_def plain_def)
  have dir: "push_path ([''/'', ''d''] @ [''downloads'']) (?hex (torrent_info_hash (ts_metadata (dn_session one_piece)))) = ?ib"
    by (simp add: push_path_def starts_at_root_def)
  have "rooted (?ib @ [''a''])" by (rule rooted_append[OF roots(1)]) (simp add: pl)
  then have at: "ns_at (dn_names one_piece) ?ib = Some NsDir" "ns_at (dn_names one_piece) (?ib @ [''a'']) = Some (NsFile 1)"
    using roots by (simp_all add: ns_at_rooted one_piece_fields begun_download_def)
  have top: "?f \<in> set (torrent_files (ts_metadata (dn_session one_piece)))" "ef_path ?f = [''a'']"
    by (simp_all add: one_piece_fields one_session_fields sample_torrent_fields)
  have rest: "\<not> prefix ([''/'', ''u''] @ [''download'']) (?ib @ [''a''])" "se_download_dir ?env (ts_metadata (dn_session one_piece)) = Some ?ib" by simp_all
  from paused_download_cannot_resume[where hex = ?hex, OF st dir roots at(1) top pl at(2) rest, of "open_router [1]" "[]" "\<lambda>_. 9"]
  show ?thesis unfolding Let_def by (simp only: one_piece_fields one_session_fields) blast
qed

text \<open>A download that stops with pieces missing on disk is a seeder of the rest only: a seeding session
  handles every message without marking a piece, and it may only be paused or cancelled.\<close>

definition seeds_as :: "torrent_session \<Rightarrow> torrent_session \<Rightarrow> bool" where
  "seeds_as s s' \<longleftrightarrow> ts_bitfield s' = ts_bitfield s \<and> current_mode (ts_state s') = current_mode (ts_state s)"

lemma seeds_as_simps [simp]:
  "seeds_as s s" "seeds_as s (put_pipeline a p s)" "seeds_as s (insert_pending a i b s)" "seeds_as s (insert_pipeline env a i bs s)"
  "seeds_as s (send_piece_request rq s)"
  by (simp_all add: seeds_as_def put_pipeline_def insert_pending_def insert_pipeline_def send_piece_request_def Let_def split: torrent_state.split)

lemma seeding_never_fetches:
  assumes "current_mode (ts_state s) = ModeSeeding" and "bep_handle_request fuel env answer pick s msg source reply out = Some (r, s', out')"
  shows "ts_bitfield s' = ts_bitfield s \<and> current_mode (ts_state s') = ModeSeeding"
proof -
  have mode: "current_mode (ts_state (insert_pipeline env a i bs s)) = ModeSeeding" for a i bs
    using assms(1) by (simp add: insert_pipeline_def put_pipeline_def Let_def)
  have hs: "seeds_as s s'" if "bep_handle_handshake env s ih pid source out = Some (r, s', out')" for ih pid
    using that by (auto simp: bep_handle_handshake_def Let_def split: if_splits sum.splits prod.splits)
  have bf: "seeds_as s s'" if "handle_bitfield env s bits source out = Some (r, s', out')" for bits
    using that mode by (auto simp: handle_bitfield_def Let_def split: if_splits option.splits sum.splits prod.splits)
  have pr: "seeds_as s s'" if "handle_piece_request s index source reply out = Some (r, s', out')" for index
    using that by (auto simp: handle_piece_request_def split: if_splits option.splits bool.splits)
  have sd: "seeds_as s s'" if "handle_request_seeding env s msg source reply out = Some (r, s', out')"
    using that pr by (auto simp: handle_request_seeding_def Let_def split: standard_message.splits if_splits option.splits prod.splits)
  have "seeds_as s s'"
    using assms hs bf sd by (auto simp: bep_handle_request_def split: standard_message.splits option.splits)
  then show ?thesis using assms(1) by (simp add: seeds_as_def)
qed

lemma seeding_cannot_download: "current_mode (ts_state s) = ModeSeeding \<Longrightarrow> transition env (ToDownload m dest) s fs = Some (Inl InvalidTransition, s, fs)"
  by (cases "ts_state s") (simp_all add: transition_def)

text \<open>The new worker finds its resources; when its queue is closed without a cancellation the session
  is paused where it can be resumed.\<close>

lemma seeder_starts:
  assumes "ts_state s = Seeding p (Some res) token tx"
  shows "start_seeder s = (Some res, s\<lparr>ts_events := ts_events s @ [SeedStarted], ts_state := Seeding p None token tx\<rparr>)"
  using assms by (simp add: start_seeder_def Let_def)

lemma stopped_seeder_can_resume:
  assumes "ts_state s = Seeding p res token tx" and "token \<notin> ts_cancelled s"
  shows "\<exists>s'. stop_seeder env renv token s fs out = Some (s', fs, broadcast renv Choke s out)
     \<and> ts_state s' = Idle (Some (LastSeeding p)) \<and> can_transition_to (ts_state s') (Resume m)"
  using assms by (simp add: stop_seeder_def transition_def transition_idle_def swap_state_def Let_def)

end
