(* ===== verification/Connections.thy ===== *)
theory Connections
  imports Bqti_Prelude
begin

text \<open>
  The table of connections (\<open>network/manager.rs\<close>). A connection is its identifier; the state
  records, beside the table, which connections the manager closed when it took them out of the
  table or turned them away, which ones the DHT server closed on its own (it leaves them in the
  table until their end is reported), and which disconnects were announced. The
  address the node takes for its own (\<open>get_local_ip\<close>, \<open>None\<close> when it cannot be found) and the
  outcome of a dial are parameters. Dialing is split where other tasks can run: the check, the
  claim of the address, and the end of the handshake; a dial may also be dropped half-way, as the
  callers do when they time out. Streams and messages on a connection are in \<open>Streams\<close>.
\<close>

datatype connection_manager_error =
    ConnectErr | QuicConnectionErr | StreamErr | EstablishError | SelfConnectionError | LocalIpError

record connection_manager =
  cm_connections :: "(sock_addr \<times> u64) list"
  cm_connecting :: "sock_addr set"
  cm_next_id :: u64
  cm_closed :: "u64 set"
  cm_rejected :: "u64 set"
  cm_disconnects :: "sock_addr list"

definition ConnectionManager_new :: connection_manager where
  "ConnectionManager_new = \<lparr>cm_connections = [], cm_connecting = {}, cm_next_id = 0, cm_closed = {}, cm_rejected = {}, cm_disconnects = []\<rparr>"

definition cm_close :: "u64 \<Rightarrow> connection_manager \<Rightarrow> connection_manager" where
  "cm_close c cm = cm\<lparr>cm_closed := insert c (cm_closed cm)\<rparr>"

text \<open>\<open>connection.close()\<close> of the DHT server on a peer that handed in a forged or a replayed token: the
  manager is not told, so the entry stays until \<open>handle_connection\<close> ends and reports.\<close>

definition cm_reject :: "u64 \<Rightarrow> connection_manager \<Rightarrow> connection_manager" where
  "cm_reject c cm = cm\<lparr>cm_rejected := insert c (cm_rejected cm)\<rparr>"

definition cm_disconnect :: "sock_addr \<Rightarrow> connection_manager \<Rightarrow> connection_manager" where
  "cm_disconnect addr cm =
     (case map_of (cm_connections cm) addr of
        None \<Rightarrow> cm
      | Some conn \<Rightarrow> cm_close conn (cm\<lparr>cm_connections := AList.delete addr (cm_connections cm)\<rparr>))"

definition cm_fresh_id :: "connection_manager \<Rightarrow> u64 \<times> connection_manager" where
  "cm_fresh_id cm = (cm_next_id cm, cm\<lparr>cm_next_id := cm_next_id cm + 1\<rparr>)"

definition on_disconnect_handler :: "u64 \<Rightarrow> sock_addr \<Rightarrow> connection_manager \<Rightarrow> connection_manager" where
  "on_disconnect_handler connection_id addr cm =
     (if map_of (cm_connections cm) addr \<noteq> Some connection_id then cm
      else cm\<lparr>cm_connections := AList.delete addr (cm_connections cm), cm_disconnects := cm_disconnects cm @ [addr]\<rparr>)"

definition append_connection ::
  "sock_addr option \<Rightarrow> u64 \<Rightarrow> sock_addr \<Rightarrow> connection_manager \<Rightarrow> (connection_manager_error + unit) \<times> connection_manager" where
  "append_connection get_local_ip connection peer_addr cm =
     (case get_local_ip of
        None \<Rightarrow> (Inl LocalIpError, cm)
      | Some local_addr \<Rightarrow>
          (case map_of (cm_connections cm) peer_addr of
             None \<Rightarrow> (Inr (), cm\<lparr>cm_connections := AList.update peer_addr connection (cm_connections cm)\<rparr>)
           | Some old \<Rightarrow>
               if local_addr < peer_addr then (Inr (), cm_close connection cm)
               else (Inr (), cm_close old (cm\<lparr>cm_connections := AList.update peer_addr connection (AList.delete peer_addr (cm_connections cm))\<rparr>))))"

text \<open>One incoming connection of \<open>start_listening\<close>: refused at the limit, otherwise numbered and
  appended when its handshake completed and its control stream opened.\<close>

definition max_connections :: nat where "max_connections = 50"

definition accept_incoming ::
  "sock_addr option \<Rightarrow> nat \<Rightarrow> bool \<Rightarrow> bool \<Rightarrow> sock_addr \<Rightarrow> connection_manager \<Rightarrow> connection_manager" where
  "accept_incoming get_local_ip open_connections handshaken opened peer_addr cm =
     (if max_connections \<le> open_connections \<or> \<not> handshaken then cm
      else let (next_id, cm) = cm_fresh_id cm
           in if \<not> opened then cm else snd (append_connection get_local_ip next_id peer_addr cm))"

fun ip_is_loopback :: "ip_addr \<Rightarrow> bool" where
  "ip_is_loopback (V4 a) \<longleftrightarrow> drop_bit 24 a = 127"
| "ip_is_loopback (V6 a) \<longleftrightarrow> a = 1"

fun ip_is_unspecified :: "ip_addr \<Rightarrow> bool" where
  "ip_is_unspecified (V4 a) \<longleftrightarrow> a = 0"
| "ip_is_unspecified (V6 a) \<longleftrightarrow> a = 0"

definition is_self_connection :: "sock_addr \<Rightarrow> sock_addr \<Rightarrow> bool" where
  "is_self_connection peer_addr local_addr \<longleftrightarrow>
     addr_port peer_addr = addr_port local_addr \<and>
     (ip_is_loopback (addr_ip peer_addr) \<or> ip_is_unspecified (addr_ip peer_addr) \<or> addr_ip peer_addr = addr_ip local_addr)"

text \<open>The three parts of \<open>connect\<close>. The check may return at once; the claim fails when another
  task dials the address.\<close>

definition connect_check :: "sock_addr option \<Rightarrow> sock_addr \<Rightarrow> connection_manager \<Rightarrow> (connection_manager_error + unit) option" where
  "connect_check get_local_ip peer_addr cm =
     (case get_local_ip of
        None \<Rightarrow> Some (Inl LocalIpError)
      | Some local_addr \<Rightarrow>
          if is_self_connection peer_addr local_addr then Some (Inl SelfConnectionError)
          else if map_of (cm_connections cm) peer_addr \<noteq> None \<or> peer_addr \<in> cm_connecting cm then Some (Inr ())
          else None)"

definition connect_claim :: "sock_addr \<Rightarrow> connection_manager \<Rightarrow> (u64 \<times> connection_manager) option" where
  "connect_claim peer_addr cm =
     (if peer_addr \<in> cm_connecting cm then None
      else Some (cm_fresh_id (cm\<lparr>cm_connecting := insert peer_addr (cm_connecting cm)\<rparr>)))"

datatype dial_result = DialEstablished | DialRefused connection_manager_error

definition connect_finish ::
  "sock_addr option \<Rightarrow> dial_result \<Rightarrow> u64 \<Rightarrow> sock_addr \<Rightarrow> connection_manager \<Rightarrow> (connection_manager_error + unit) \<times> connection_manager" where
  "connect_finish get_local_ip dial connection peer_addr cm =
     (let (handshake, cm) = (case dial of
            DialRefused e \<Rightarrow> (Inl e, cm)
          | DialEstablished \<Rightarrow> append_connection get_local_ip connection peer_addr cm)
      in (handshake, cm\<lparr>cm_connecting := cm_connecting cm - {peer_addr}\<rparr>))"

definition connect :: "sock_addr option \<Rightarrow> dial_result \<Rightarrow> sock_addr \<Rightarrow> connection_manager \<Rightarrow> (connection_manager_error + unit) \<times> connection_manager" where
  "connect get_local_ip dial peer_addr cm =
     (case connect_check get_local_ip peer_addr cm of
        Some r \<Rightarrow> (r, cm)
      | None \<Rightarrow>
          (case connect_claim peer_addr cm of
             None \<Rightarrow> (Inr (), cm)
           | Some (connection, cm) \<Rightarrow> connect_finish get_local_ip dial connection peer_addr cm))"

text \<open>\<open>send\<close> and \<open>request\<close> find their connection alike.\<close>

definition find_connection :: "sock_addr option \<Rightarrow> sock_addr \<Rightarrow> connection_manager \<Rightarrow> connection_manager_error + u64" where
  "find_connection get_local_ip peer_addr cm =
     (case get_local_ip of
        None \<Rightarrow> Inl LocalIpError
      | Some local_addr \<Rightarrow>
          if is_self_connection peer_addr local_addr then Inl SelfConnectionError
          else case map_of (cm_connections cm) peer_addr of None \<Rightarrow> Inl EstablishError | Some c \<Rightarrow> Inr c)"

definition cm_shutdown :: "connection_manager \<Rightarrow> connection_manager" where
  "cm_shutdown cm = foldl (\<lambda>cm (_, c). cm_close c cm) (cm\<lparr>cm_connections := []\<rparr>) (cm_connections cm)"

subsection \<open>Interleavings\<close>

text \<open>The manager with the dials under way. A connection may be closed by the DHT server, and its end
  reported, at any time. Numbers are handed out from a 64-bit counter; the
  relation stops when it is used up.\<close>

inductive conn_step :: "sock_addr option \<Rightarrow> connection_manager \<times> (sock_addr \<times> u64) list \<Rightarrow> connection_manager \<times> (sock_addr \<times> u64) list \<Rightarrow> bool" for local where
  accepts: "cm_next_id cm \<noteq> - 1 \<Longrightarrow> conn_step local (cm, ds) (accept_incoming local n handshaken opened peer cm, ds)"
| claims: "cm_next_id cm \<noteq> - 1 \<Longrightarrow> connect_claim peer cm = Some (c, cm') \<Longrightarrow> conn_step local (cm, ds) (cm', (peer, c) # ds)"
| finishes: "(peer, c) \<in> set ds \<Longrightarrow> conn_step local (cm, ds) (snd (connect_finish local dial c peer cm), remove1 (peer, c) ds)"
| drops: "conn_step local (cm, ds) (cm, remove1 d ds)"
| loses: "conn_step local (cm, ds) (on_disconnect_handler c peer cm, ds)"
| rejects: "conn_step local (cm, ds) (cm_reject c cm, ds)"
| disconnects: "conn_step local (cm, ds) (cm_disconnect peer cm, ds)"
| shuts: "conn_step local (cm, ds) (cm_shutdown cm, ds)"

inductive conn_reach :: "sock_addr option \<Rightarrow> connection_manager \<times> (sock_addr \<times> u64) list \<Rightarrow> connection_manager \<times> (sock_addr \<times> u64) list \<Rightarrow> bool" for local where
  here: "conn_reach local s s"
| further: "conn_reach local s s' \<Longrightarrow> conn_step local s' s'' \<Longrightarrow> conn_reach local s s''"

subsection \<open>The table\<close>

text \<open>\<open>D\<close> is the set of numbers handed out to dials under way.\<close>

definition table_ok :: "connection_manager \<Rightarrow> u64 set \<Rightarrow> bool" where
  "table_ok cm D \<longleftrightarrow> distinct (map fst (cm_connections cm)) \<and> distinct (map snd (cm_connections cm))
     \<and> (\<forall>c \<in> snd ` set (cm_connections cm) \<union> D \<union> cm_closed cm. c < cm_next_id cm)
     \<and> snd ` set (cm_connections cm) \<inter> cm_closed cm = {} \<and> D \<inter> (snd ` set (cm_connections cm) \<union> cm_closed cm) = {}"

lemma table_ok_less: "table_ok cm D \<Longrightarrow> D' \<subseteq> D \<Longrightarrow> table_ok cm D'"
  unfolding table_ok_def by (elim conjE, intro conjI) (assumption | blast)+

lemma table_ok_connecting [simp]: "table_ok (cm\<lparr>cm_connecting := x\<rparr>) D = table_ok cm D"
  by (simp add: table_ok_def)

lemma fresh_id_ok:
  assumes "table_ok cm D" and "cm_next_id cm \<noteq> - 1"
  shows "table_ok (snd (cm_fresh_id cm)) (insert (cm_next_id cm) D)" and "cm_next_id cm \<notin> D"
proof -
  have lt: "c < cm_next_id cm + 1" if "c \<le> cm_next_id cm" for c
  proof -
    have "unat (1 + cm_next_id cm) = Suc (unat (cm_next_id cm))" using assms(2) by (intro unatSuc) (simp add: add_eq_0_iff)
    then show ?thesis using that by (simp add: word_less_nat_alt word_le_nat_alt add.commute)
  qed
  have "c < cm_next_id cm" if "c \<in> snd ` set (cm_connections cm) \<union> D \<union> cm_closed cm" for c using that assms(1) by (simp add: table_ok_def)
  then show "table_ok (snd (cm_fresh_id cm)) (insert (cm_next_id cm) D)" "cm_next_id cm \<notin> D"
    using assms(1) lt by (auto simp: table_ok_def cm_fresh_id_def order_less_imp_le)
qed

lemma close_and_forget:
  assumes "table_ok cm D" and "(peer, old) \<in> set (cm_connections cm)"
  shows "table_ok (cm_close old (cm\<lparr>cm_connections := AList.delete peer (cm_connections cm)\<rparr>)) D"
proof -
  have only: "x = peer" if "(x, old) \<in> set (cm_connections cm)" for x
  proof -
    have "inj_on snd (set (cm_connections cm))" using assms(1) by (simp add: table_ok_def distinct_map)
    from inj_onD[OF this, of "(x, old)" "(peer, old)"] show ?thesis using that assms(2) by simp
  qed
  define T where "T = snd ` set (cm_connections cm)"
  define T' where "T' = snd ` set (AList.delete peer (cm_connections cm))"
  have sub: "T' \<subseteq> T" and old: "old \<in> T" using assms(2) by (force simp: T_def T'_def AList.delete_eq)+
  have gone: "old \<notin> T'" using only by (auto simp: T'_def AList.delete_eq)
  have keep: "distinct (map fst (AList.delete peer (cm_connections cm)))" "distinct (map snd (AList.delete peer (cm_connections cm)))"
    using assms(1) by (simp_all add: table_ok_def AList.delete_eq distinct_map_filter)
  have "\<forall>c \<in> T \<union> D \<union> cm_closed cm. c < cm_next_id cm" "T \<inter> cm_closed cm = {}" "D \<inter> (T \<union> cm_closed cm) = {}"
    using assms(1) by (simp_all add: table_ok_def T_def)
  then have "\<forall>c \<in> T' \<union> D \<union> insert old (cm_closed cm). c < cm_next_id cm" "T' \<inter> insert old (cm_closed cm) = {}"
    "D \<inter> (T' \<union> insert old (cm_closed cm)) = {}"
    using sub old gone by blast+
  then show ?thesis using keep by (simp add: table_ok_def cm_close_def T'_def)
qed

lemma append_ok:
  assumes ok: "table_ok cm (insert c D)" and new: "c \<notin> D"
  shows "table_ok (snd (append_connection local c peer cm)) D"
proof (cases "local = None \<or> (map_of (cm_connections cm) peer \<noteq> None \<and> the local < peer)")
  case True
  then show ?thesis using ok new by (auto simp: append_connection_def table_ok_def cm_close_def split: option.split)
next
  case False
  have add: "table_ok (cm'\<lparr>cm_connections := cm_connections cm' @ [(peer, c)]\<rparr>) D"
    if "table_ok cm' (insert c D)" and "peer \<notin> fst ` set (cm_connections cm')" for cm'
    using that new by (auto simp: table_ok_def)
  show ?thesis
  proof (cases "map_of (cm_connections cm) peer")
    case None
    then have fresh: "peer \<notin> fst ` set (cm_connections cm)" by (simp add: map_of_eq_None_iff)
    show ?thesis using add[OF ok fresh] None False by (auto simp: append_connection_def update_new[OF fresh])
  next
    case (Some old)
    let ?cm = "cm_close old (cm\<lparr>cm_connections := AList.delete peer (cm_connections cm)\<rparr>)"
    have "table_ok ?cm (insert c D)" by (rule close_and_forget[OF ok map_of_SomeD[OF Some]])
    moreover have fresh: "peer \<notin> fst ` set (AList.delete peer (cm_connections cm))" by (auto simp: AList.delete_eq)
    ultimately have "table_ok (?cm\<lparr>cm_connections := AList.delete peer (cm_connections cm) @ [(peer, c)]\<rparr>) D"
      using add[of ?cm] by (simp add: cm_close_def)
    moreover have "snd (append_connection local c peer cm) = ?cm\<lparr>cm_connections := AList.delete peer (cm_connections cm) @ [(peer, c)]\<rparr>"
      using False Some by (auto simp: append_connection_def cm_close_def update_new[OF fresh])
    ultimately show ?thesis by simp
  qed
qed

lemma accept_ok:
  assumes ok: "table_ok cm D" and more: "cm_next_id cm \<noteq> - 1"
  shows "table_ok (accept_incoming local n handshaken opened peer cm) D"
proof -
  note f = fresh_id_ok[OF assms]
  have "table_ok (snd (append_connection local (cm_next_id cm) peer (snd (cm_fresh_id cm)))) D" by (rule append_ok[OF f])
  moreover have "table_ok (snd (cm_fresh_id cm)) D" by (rule table_ok_less[OF f(1)]) blast
  ultimately show ?thesis using ok by (simp add: accept_incoming_def cm_fresh_id_def)
qed

lemma loses_ok: "table_ok cm D \<Longrightarrow> table_ok (on_disconnect_handler c peer cm) D"
  unfolding on_disconnect_handler_def table_ok_def AList.delete_eq by (auto simp: distinct_map_filter)

lemma table_ok_reject [simp]: "table_ok (cm_reject c cm) D = table_ok cm D"
  by (simp add: cm_reject_def table_ok_def)

lemma reject_connecting [simp]: "cm_connecting (cm_reject c cm) = cm_connecting cm"
  by (simp add: cm_reject_def)

lemma disconnect_ok: "table_ok cm D \<Longrightarrow> table_ok (cm_disconnect peer cm) D"
  by (auto simp: cm_disconnect_def dest!: map_of_SomeD intro: close_and_forget split: option.split)

lemma fold_close: "foldl (\<lambda>cm (_, c). cm_close c cm) cm cs = cm\<lparr>cm_closed := snd ` set cs \<union> cm_closed cm\<rparr>"
  by (induction cs arbitrary: cm) (auto simp: cm_close_def)

lemma shutdown_connecting [simp]: "cm_connecting (cm_shutdown cm) = cm_connecting cm"
  by (simp add: cm_shutdown_def fold_close)

lemma shutdown_ok: "table_ok cm D \<Longrightarrow> table_ok (cm_shutdown cm) D"
  by (auto simp: cm_shutdown_def fold_close table_ok_def)

subsection \<open>The invariant of all interleavings\<close>

definition conn_inv :: "connection_manager \<times> (sock_addr \<times> u64) list \<Rightarrow> bool" where
  "conn_inv = (\<lambda>(cm, ds). table_ok cm (snd ` set ds) \<and> distinct (map fst ds) \<and> distinct (map snd ds)
     \<and> fst ` set ds \<subseteq> cm_connecting cm)"

lemma append_connecting [simp]: "cm_connecting (snd (append_connection local c peer cm)) = cm_connecting cm"
  by (simp add: append_connection_def cm_close_def split: option.split)

lemma remove1_dial:
  assumes "distinct (map fst ds)" and "distinct (map snd ds)" and "(peer, c) \<in> set ds"
  shows "snd ` set ds = insert c (snd ` set (remove1 (peer, c) ds))" and "c \<notin> snd ` set (remove1 (peer, c) ds)"
    and "peer \<notin> fst ` set (remove1 (peer, c) ds)"
proof -
  have "distinct ds" using assms(1) by (simp add: distinct_map)
  then have s: "set (remove1 (peer, c) ds) = set ds - {(peer, c)}" by (rule set_remove1_eq)
  have inj: "inj_on fst (set ds)" "inj_on snd (set ds)" using assms(1,2) by (simp_all add: distinct_map)
  show "snd ` set ds = insert c (snd ` set (remove1 (peer, c) ds))" using assms(3) by (force simp: s)
  show "c \<notin> snd ` set (remove1 (peer, c) ds)" using inj(2) assms(3) by (force simp: s inj_on_def)
  show "peer \<notin> fst ` set (remove1 (peer, c) ds)" using inj(1) assms(3) by (force simp: s inj_on_def)
qed

lemma distinct_map_remove1: "distinct (map f xs) \<Longrightarrow> distinct (map f (remove1 x xs))"
  by (induction xs) (auto dest: notin_set_remove1 set_remove1_subset[THEN subsetD])

lemma conn_step_inv:
  assumes "conn_step local s s'" and "conn_inv s"
  shows "conn_inv s'"
  using assms
proof (cases rule: conn_step.cases)
  case (accepts cm ds n handshaken opened peer)
  have "cm_connecting (accept_incoming local n handshaken opened peer cm) = cm_connecting cm"
    by (simp add: accept_incoming_def cm_fresh_id_def)
  then show ?thesis using accepts assms(2) by (simp add: conn_inv_def accept_ok)
next
  case (claims cm peer c cm' ds)
  let ?cm = "cm\<lparr>cm_connecting := insert peer (cm_connecting cm)\<rparr>"
  have c: "c = cm_next_id cm" "cm' = snd (cm_fresh_id ?cm)" "peer \<notin> cm_connecting cm"
    using claims(4) by (auto simp: connect_claim_def cm_fresh_id_def split: if_splits)
  have ok: "table_ok ?cm (snd ` set ds)" using claims assms(2) by (simp add: conn_inv_def)
  have more: "cm_next_id ?cm \<noteq> - 1" using claims(3) by simp
  have "table_ok cm' (insert c (snd ` set ds))" "c \<notin> snd ` set ds" using fresh_id_ok[OF ok more] c by simp_all
  moreover have "cm_connecting cm' = insert peer (cm_connecting cm)" by (simp add: c cm_fresh_id_def)
  ultimately show ?thesis using claims assms(2) c(3) by (auto simp: conn_inv_def)
next
  case (finishes peer c ds cm dial)
  have inv: "table_ok cm (snd ` set ds)" "distinct (map fst ds)" "distinct (map snd ds)" "fst ` set ds \<subseteq> cm_connecting cm"
    using finishes assms(2) by (simp_all add: conn_inv_def)
  note r = remove1_dial[OF inv(2,3) finishes(3)]
  have ok: "table_ok cm (insert c (snd ` set (remove1 (peer, c) ds)))" using inv(1) r(1) by simp
  have "table_ok (snd (connect_finish local dial c peer cm)) (snd ` set (remove1 (peer, c) ds))"
    using append_ok[OF ok r(2)] table_ok_less[OF ok] by (auto simp: connect_finish_def case_prod_beta Let_def split: dial_result.split)
  moreover have "cm_connecting (snd (connect_finish local dial c peer cm)) = cm_connecting cm - {peer}"
    by (auto simp: connect_finish_def case_prod_beta Let_def split: dial_result.split)
  moreover have "fst ` set (remove1 (peer, c) ds) \<subseteq> cm_connecting cm - {peer}"
    using inv(4) r(3) set_remove1_subset[of "(peer, c)" ds] by blast
  ultimately show ?thesis using finishes(2) inv(2,3) by (simp add: conn_inv_def distinct_map_remove1)
next
  case (drops cm ds d)
  have "set (remove1 d ds) \<subseteq> set ds" by (rule set_remove1_subset)
  then show ?thesis
    using drops assms(2) table_ok_less[of cm "snd ` set ds" "snd ` set (remove1 d ds)"]
    by (auto simp: conn_inv_def distinct_map_remove1)
next
  case (loses cm ds c peer)
  then show ?thesis using assms(2) by (simp add: conn_inv_def loses_ok) (simp add: on_disconnect_handler_def)
next
  case (rejects cm ds c)
  then show ?thesis using assms(2) by (simp add: conn_inv_def)
next
  case (disconnects cm ds peer)
  then show ?thesis using assms(2) by (simp add: conn_inv_def disconnect_ok) (simp add: cm_disconnect_def cm_close_def split: option.split)
next
  case (shuts cm ds)
  then show ?thesis using assms(2) by (simp add: conn_inv_def shutdown_ok)
qed

lemma conn_reach_inv: "conn_reach local s s' \<Longrightarrow> conn_inv s \<Longrightarrow> conn_inv s'"
  by (induction rule: conn_reach.induct) (auto intro: conn_step_inv)

lemma conn_inv_new: "conn_inv (ConnectionManager_new, [])"
  by (simp add: conn_inv_def table_ok_def ConnectionManager_new_def)

subsection \<open>Properties\<close>

text \<open>The report of a connection that stands in the table, whoever closed it, takes out its entry and
  no other, and is announced.\<close>

lemma reported_connection_leaves:
  assumes "distinct (map fst (cm_connections cm))" and "(addr, c) \<in> set (cm_connections cm)"
  shows "map_of (cm_connections (on_disconnect_handler c addr cm)) = (map_of (cm_connections cm))(addr := None)
     \<and> cm_disconnects (on_disconnect_handler c addr cm) = cm_disconnects cm @ [addr]"
  using assms by (simp add: on_disconnect_handler_def delete_conv' fun_eq_iff)

text \<open>C14: in every interleaving of incoming connections, dials, abandoned dials, disconnects,
  shutdowns, connections the DHT server closes and reports that a connection ended: the connections
  in the table stand there for one address each, and the manager has closed none of them; at most
  one dial for an address is under way; the report that a connection went down which the manager
  closed (because another took its place, or it was refused as a duplicate, disconnected or shut
  down) does not touch the table, however late it comes; and the report of a connection that is in
  the table, which one closed by the DHT server still is, removes exactly its entry and announces
  the address.\<close>

theorem connection_table_sound:
  assumes "conn_reach local (ConnectionManager_new, []) (cm, ds)"
  shows "(\<forall>(addr, c)\<in>set (cm_connections cm). c \<notin> cm_closed cm)
     \<and> distinct (map snd (cm_connections cm)) \<and> distinct (map fst (cm_connections cm)) \<and> distinct (map fst ds)
     \<and> (\<forall>c\<in>cm_closed cm. \<forall>addr. on_disconnect_handler c addr cm = cm)
     \<and> (\<forall>(addr, c)\<in>set (cm_connections cm).
          map_of (cm_connections (on_disconnect_handler c addr cm)) = (map_of (cm_connections cm))(addr := None)
          \<and> cm_disconnects (on_disconnect_handler c addr cm) = cm_disconnects cm @ [addr])"
proof -
  have inv: "conn_inv (cm, ds)" by (rule conn_reach_inv[OF assms conn_inv_new])
  then have cl: "snd ` set (cm_connections cm) \<inter> cm_closed cm = {}"
    and keys: "distinct (map fst (cm_connections cm))" by (simp_all add: conn_inv_def table_ok_def)
  have "\<forall>(addr, c)\<in>set (cm_connections cm). c \<notin> cm_closed cm" using cl by force
  moreover have "\<forall>c\<in>cm_closed cm. \<forall>addr. on_disconnect_handler c addr cm = cm"
  proof (intro ballI allI)
    fix c addr
    assume "c \<in> cm_closed cm"
    then have "map_of (cm_connections cm) addr \<noteq> Some c" using cl by (force dest: map_of_SomeD)
    then show "on_disconnect_handler c addr cm = cm" by (simp add: on_disconnect_handler_def)
  qed
  moreover have "\<forall>(addr, c)\<in>set (cm_connections cm).
      map_of (cm_connections (on_disconnect_handler c addr cm)) = (map_of (cm_connections cm))(addr := None)
      \<and> cm_disconnects (on_disconnect_handler c addr cm) = cm_disconnects cm @ [addr]"
    using reported_connection_leaves[OF keys] by blast
  ultimately show ?thesis using inv by (simp add: conn_inv_def table_ok_def)
qed

theorem connection_table_sound_witness:
  "\<exists>cm. conn_reach (Some (SocketV4 9 9)) (ConnectionManager_new, []) (cm, []) \<and> cm_closed cm = {0} \<and> cm_rejected cm = {1}
     \<and> cm_connections cm = [(SocketV4 1 1, 1)] \<and> on_disconnect_handler 0 (SocketV4 1 1) cm = cm
     \<and> cm_disconnects (on_disconnect_handler 1 (SocketV4 1 1) cm) = [SocketV4 1 1]"
proof -
  let ?l = "Some (SocketV4 9 9)"
  let ?cm1 = "accept_incoming ?l 0 True True (SocketV4 1 1) ConnectionManager_new"
  let ?cm2 = "accept_incoming ?l 0 True True (SocketV4 1 1) ?cm1"
  let ?cm3 = "cm_reject 1 ?cm2"
  have less: "\<not> SocketV4 9 9 < SocketV4 1 1" by (simp add: less_sock_addr_def)
  have one: "?cm1 = \<lparr>cm_connections = [(SocketV4 1 1, 0)], cm_connecting = {}, cm_next_id = 1, cm_closed = {}, cm_rejected = {}, cm_disconnects = []\<rparr>"
    by (simp add: accept_incoming_def max_connections_def cm_fresh_id_def append_connection_def ConnectionManager_new_def)
  have three: "?cm3 = \<lparr>cm_connections = [(SocketV4 1 1, 1)], cm_connecting = {}, cm_next_id = 2, cm_closed = {0}, cm_rejected = {1}, cm_disconnects = []\<rparr>"
    unfolding one by (simp add: accept_incoming_def max_connections_def cm_fresh_id_def append_connection_def less cm_close_def cm_reject_def)
  have r1: "conn_reach ?l (ConnectionManager_new, []) (?cm1, [])"
    by (rule further[OF here accepts]) (simp add: ConnectionManager_new_def)
  have r2: "conn_reach ?l (ConnectionManager_new, []) (?cm2, [])"
    by (rule further[OF r1 accepts]) (simp add: one)
  have r3: "conn_reach ?l (ConnectionManager_new, []) (?cm3, [])" by (rule further[OF r2 rejects])
  have "\<forall>c\<in>cm_closed ?cm3. \<forall>addr. on_disconnect_handler c addr ?cm3 = ?cm3"
    "\<forall>(addr, c)\<in>set (cm_connections ?cm3). cm_disconnects (on_disconnect_handler c addr ?cm3) = cm_disconnects ?cm3 @ [addr]"
    using connection_table_sound[OF r3] by blast+
  then show ?thesis using r3 by (intro exI[of _ ?cm3]) (simp add: three)
qed

text \<open>When two nodes dial each other at the same time, two connections are established between
  them, and each node keeps one: the node with the lower address the first it registered, the
  other the last. If the nodes register the two in opposite orders they keep the same connection
  and both close the other; if they register them in the same order, each closes the connection
  the other keeps, and once the closings are reported neither has any.\<close>

lemma simultaneous_dial:
  assumes less: "a < b" and new: "map_of (cm_connections ca) b = None" "map_of (cm_connections cb) a = None"
    and ids: "i1 \<noteq> i2" "j1 \<noteq> j2"
  shows "(let ca' = snd (append_connection (Some a) i2 b (snd (append_connection (Some a) i1 b ca)));
              opposite = snd (append_connection (Some b) j1 a (snd (append_connection (Some b) j2 a cb)));
              same = snd (append_connection (Some b) j2 a (snd (append_connection (Some b) j1 a cb)))
     in map_of (cm_connections ca') b = Some i1 \<and> i2 \<in> cm_closed ca'
      \<and> map_of (cm_connections opposite) a = Some j1 \<and> j2 \<in> cm_closed opposite
      \<and> map_of (cm_connections same) a = Some j2 \<and> j1 \<in> cm_closed same
      \<and> map_of (cm_connections (on_disconnect_handler i1 b ca')) b = None
      \<and> map_of (cm_connections (on_disconnect_handler j2 a same)) a = None)"
  using assms order_less_not_sym[OF less]
  by (simp add: append_connection_def cm_close_def on_disconnect_handler_def update_conv' delete_conv' Let_def)

text \<open>A dial that is dropped half-way blocks its address for good. The address stays claimed, so
  in every later state, as long as no connection to it comes in, \<open>connect\<close> reports success at
  once without dialing, and every message to the address fails.\<close>

lemma abandoned_dial_blocks_peer:
  assumes claimed: "peer \<in> cm_connecting cm" and gone: "peer \<notin> fst ` set ds"
    and later: "conn_reach (Some l) (cm, ds) (cm', ds')"
    and other: "\<not> is_self_connection peer l"
  shows "connect (Some l) dial peer cm' = (Inr (), cm')
     \<and> (map_of (cm_connections cm') peer = None \<longrightarrow> find_connection (Some l) peer cm' = Inl EstablishError)"
proof -
  have "peer \<in> cm_connecting (fst s') \<and> peer \<notin> fst ` set (snd s')" if "conn_reach (Some l) s s'" "peer \<in> cm_connecting (fst s)" "peer \<notin> fst ` set (snd s)" for s s'
    using that
  proof (induction rule: conn_reach.induct)
    case (further s s1 s2)
    have ih: "peer \<in> cm_connecting (fst s1)" "peer \<notin> fst ` set (snd s1)" using further.IH further.prems by blast+
    from further.hyps(2) show ?case
    proof (cases rule: conn_step.cases)
      case (finishes p c ds cm dial)
      then have "p \<noteq> peer" using ih(2) by force
      then show ?thesis
        using ih finishes set_remove1_subset[of "(p, c)" ds]
        by (auto simp: connect_finish_def case_prod_beta Let_def split: dial_result.split)
    next
      case (drops cm ds d)
      then show ?thesis using ih set_remove1_subset[of d ds] by auto
    qed (use ih in \<open>auto simp: accept_incoming_def cm_fresh_id_def connect_claim_def on_disconnect_handler_def cm_disconnect_def cm_close_def split: option.splits if_splits\<close>)
  qed simp
  from this[OF later] have "peer \<in> cm_connecting cm'" using claimed gone by simp
  then show ?thesis using other by (simp add: connect_def connect_check_def find_connection_def)
qed

subsection \<open>Listening\<close>

text \<open>\<open>start_listening\<close>: each incoming connection below the limit gets a task that waits for its
  handshake; the tasks end in any order, and cancelling ends the loop and drops those that still
  wait. \<open>None\<close> is the panic of a node without a local address.\<close>

record listener =
  ls_manager :: connection_manager
  ls_waiting :: "sock_addr list"
  ls_running :: bool

datatype listen_event = Incoming nat sock_addr | HandshakeEnds nat bool bool | CancelListening

definition listen_step :: "sock_addr option \<Rightarrow> listener \<Rightarrow> listen_event \<Rightarrow> listener" where
  "listen_step get_local_ip ls ev =
     (if \<not> ls_running ls then ls
      else case ev of
             Incoming open_connections peer \<Rightarrow>
               if max_connections \<le> open_connections then ls else ls\<lparr>ls_waiting := ls_waiting ls @ [peer]\<rparr>
           | HandshakeEnds i handshaken opened \<Rightarrow>
               if i < length (ls_waiting ls)
               then ls\<lparr>ls_manager := accept_incoming get_local_ip 0 handshaken opened (ls_waiting ls ! i) (ls_manager ls),
                       ls_waiting := take i (ls_waiting ls) @ drop (Suc i) (ls_waiting ls)\<rparr>
               else ls
           | CancelListening \<Rightarrow> ls\<lparr>ls_waiting := [], ls_running := False\<rparr>)"

definition start_listening :: "sock_addr option \<Rightarrow> connection_manager \<Rightarrow> listen_event list \<Rightarrow> listener option" where
  "start_listening get_local_ip cm evs =
     (if get_local_ip = None then None
      else Some (foldl (listen_step get_local_ip) \<lparr>ls_manager = cm, ls_waiting = [], ls_running = True\<rparr> evs))"

text \<open>Listening alone is a run of the interleavings above, as long as the connection numbers last; after
  the cancellation nothing is accepted any more.\<close>

lemma listening_is_a_run:
  assumes "conn_reach local (cm0, []) (ls_manager ls, ds)"
    and "\<forall>n\<le>length evs. cm_next_id (ls_manager (foldl (listen_step local) ls (take n evs))) \<noteq> - 1"
  shows "conn_reach local (cm0, []) (ls_manager (foldl (listen_step local) ls evs), ds)"
  using assms
proof (induction evs arbitrary: ls)
  case (Cons ev evs)
  have "cm_next_id (ls_manager ls) \<noteq> - 1" using Cons.prems(2)[rule_format, of 0] by simp
  then have "conn_reach local (cm0, []) (ls_manager (listen_step local ls ev), ds)"
    using Cons.prems(1) by (auto simp: listen_step_def intro: further accepts split: listen_event.split)
  moreover have "\<forall>n\<le>length evs. cm_next_id (ls_manager (foldl (listen_step local) (listen_step local ls ev) (take n evs))) \<noteq> - 1"
    using Cons.prems(2)[rule_format, of "Suc _"] by simp
  ultimately show ?case using Cons.IH by simp
qed simp

lemma cancelled_listener_accepts_nothing: "\<not> ls_running ls \<Longrightarrow> foldl (listen_step local) ls evs = ls"
  by (induction evs) (simp_all add: listen_step_def)

end
