(* ===== verification/Streams.thy ===== *)
theory Streams
  imports Wire Connections Workers
begin

text \<open>
  Sending on a connection, and the task that serves it: \<open>network/connection.rs\<close>, with \<open>send\<close> and
  \<open>request\<close> of \<open>network/manager.rs\<close>. Control messages share one outgoing stream, which is dropped
  when a write fails and opened again for the next message; a request has a stream of its own,
  whose other half carries the reply. QUIC itself is a parameter: whether a stream opens, how much
  of a write it takes before it fails, and what comes back. What it takes it delivers in order. The
  theory shows that the receiver sees exactly the control messages whose sending succeeded, that a
  request is answered by what the dispatcher replied within the limit, and that a piece above the
  limit cannot be fetched.
\<close>

subsection \<open>Connections\<close>

record connection =
  co_id :: u64
  co_control :: "nat option"
  co_streams :: "bytes list"
  co_cancelled :: bool


definition connection_close :: "connection \<Rightarrow> connection" where
  "connection_close co = co\<lparr>co_cancelled := True\<rparr>"

text \<open>\<open>write_all\<close> on a stream that fails after \<open>room\<close> bytes, or never.\<close>

definition write_all :: "nat option \<Rightarrow> bytes \<Rightarrow> bytes \<times> bool" where
  "write_all room bs =
     (case room of
        Some k \<Rightarrow> if k < length bs then (take k bs, False) else (bs, True)
      | None \<Rightarrow> (bs, True))"

definition send_control :: "bool \<Rightarrow> nat option \<Rightarrow> message \<Rightarrow> connection \<Rightarrow> (connection_error + unit) \<times> connection" where
  "send_control opens room msg co =
     (if co_control co = None \<and> \<not> opens then (Inl Protocol, co)
      else let co = (if co_control co = None
                     then co\<lparr>co_control := Some (length (co_streams co)), co_streams := co_streams co @ [[]]\<rparr> else co);
               i = the (co_control co);
               (sent, ok) = write_all room (to_bytes msg);
               co = co\<lparr>co_streams := (co_streams co)[i := co_streams co ! i @ sent]\<rparr>
           in if ok then (Inr (), co) else (Inl Protocol, co\<lparr>co_control := None\<rparr>))"

definition read_to_end :: "nat \<Rightarrow> bytes \<Rightarrow> connection_error + bytes" where
  "read_to_end size_limit recv = (if length recv \<le> size_limit then Inr recv else Inl Protocol)"

text \<open>\<open>far_half\<close> is what the other half of the stream yields for the bytes sent, \<open>None\<close> when it is lost.\<close>

definition request :: "bool \<Rightarrow> nat option \<Rightarrow> bool \<Rightarrow> (bytes \<Rightarrow> bytes option) \<Rightarrow> message \<Rightarrow> connection_error + bytes" where
  "request opens room finishes far_half msg =
     (if \<not> opens then Inl Protocol
      else let (sent, ok) = write_all room (to_bytes msg)
           in if \<not> ok \<or> \<not> finishes then Inl Protocol
              else case far_half sent of
                     None \<Rightarrow> Inl Protocol
                   | Some recv \<Rightarrow> read_to_end (unat BUFFER_SIZE) recv)"

text \<open>The receiving half of a request. The dispatcher's answer is \<open>None\<close> when it dropped the reply
  channel. The result is the packet handed on, the outcome, and the bytes written back.\<close>

definition handle_bidi_stream ::
  "(packet \<Rightarrow> bool) \<Rightarrow> bool \<Rightarrow> (packet \<Rightarrow> bytes option) \<Rightarrow> nat option \<Rightarrow> bool \<Rightarrow> sock_addr \<Rightarrow> bytes
   \<Rightarrow> packet option \<times> (connection_error + unit) \<times> bytes" where
  "handle_bidi_stream accept cancelled reply room finishes remote recv =
     (case parse_incoming recv of
        Inl e \<Rightarrow> (None, Inl e, [])
      | Inr (msg, _) \<Rightarrow>
          let packet = Packet_with_reply msg remote
          in if \<not> accept packet then (None, Inl DispatcherClosed, [])
             else if cancelled then (Some packet, Inr (), [])
             else case reply packet of
                    None \<Rightarrow> (Some packet, Inr (), [])
                  | Some answer \<Rightarrow>
                      (case write_all room answer of
                         (sent, ok) \<Rightarrow> (Some packet, if ok \<and> finishes then Inr () else Inl Protocol, sent)))"

text \<open>The accept loop: a stream is handed to a task of its own until the connection is cancelled or
  accepting fails; then the manager is told.\<close>

datatype stream_event = TokenCancelled | UniFailed | BiFailed | UniAccepted nat | BiAccepted nat

fun ends_loop :: "stream_event \<Rightarrow> bool" where
  "ends_loop (UniAccepted _) = False"
| "ends_loop (BiAccepted _) = False"
| "ends_loop _ = True"

fun handle_connection :: "stream_event list \<Rightarrow> stream_event list \<times> bool" where
  "handle_connection [] = ([], False)"
| "handle_connection (e # es) =
     (if ends_loop e then ([], True)
      else case handle_connection es of (served, down) \<Rightarrow> (e # served, down))"

definition connection_task :: "u64 \<Rightarrow> sock_addr \<Rightarrow> stream_event list \<Rightarrow> connection_manager \<Rightarrow> connection_manager" where
  "connection_task ident peer es cm =
     (if snd (handle_connection es) then on_disconnect_handler ident peer cm else cm)"

subsection \<open>Sending through the manager\<close>

text \<open>\<open>conns\<close> are the connections by identifier.\<close>

definition cm_send ::
  "sock_addr option \<Rightarrow> bool \<Rightarrow> nat option \<Rightarrow> sock_addr \<Rightarrow> message \<Rightarrow> connection_manager \<Rightarrow> (u64 \<Rightarrow> connection)
   \<Rightarrow> (connection_manager_error + unit) \<times> (u64 \<Rightarrow> connection)" where
  "cm_send get_local_ip opens room peer msg cm conns =
     (case find_connection get_local_ip peer cm of
        Inl e \<Rightarrow> (Inl e, conns)
      | Inr c \<Rightarrow>
          (case send_control opens room msg (conns c) of
             (r, co) \<Rightarrow> (case r of Inl _ \<Rightarrow> Inl StreamErr | Inr _ \<Rightarrow> Inr (), conns(c := co))))"

definition cm_request ::
  "sock_addr option \<Rightarrow> bool \<Rightarrow> nat option \<Rightarrow> bool \<Rightarrow> (u64 \<Rightarrow> bytes \<Rightarrow> bytes option) \<Rightarrow> sock_addr \<Rightarrow> message \<Rightarrow> connection_manager
   \<Rightarrow> connection_manager_error + bytes" where
  "cm_request get_local_ip opens room finishes far_half peer msg cm =
     (case find_connection get_local_ip peer cm of
        Inl e \<Rightarrow> Inl e
      | Inr c \<Rightarrow> (case request opens room finishes (far_half c) msg of Inl _ \<Rightarrow> Inl StreamErr | Inr response \<Rightarrow> Inr response))"

text \<open>\<open>get_local_ip\<close>: an unspecified address is replaced by the one the routing table of the host
  would use, keeping the port. \<open>probe\<close> is the result of the probing socket.\<close>

fun socket_of_ip :: "ip_addr \<Rightarrow> u16 \<Rightarrow> sock_addr" where
  "socket_of_ip (V4 a) port = SocketV4 a port"
| "socket_of_ip (V6 a) port = SocketV6 a port 0 0"

definition get_local_ip :: "sock_addr option \<Rightarrow> ip_addr option \<Rightarrow> connection_manager_error + sock_addr" where
  "get_local_ip endpoint_addr probe =
     (case endpoint_addr of
        None \<Rightarrow> Inl LocalIpError
      | Some addr \<Rightarrow>
          if \<not> ip_is_unspecified (addr_ip addr) then Inr addr
          else case probe of
                 None \<Rightarrow> Inl LocalIpError
               | Some ip \<Rightarrow> Inr (socket_of_ip ip (addr_port addr)))"

subsection \<open>Truncated frames\<close>







subsection \<open>The control stream\<close>






subsection \<open>Properties\<close>






text \<open>Requests. The other side sees exactly the message, and the caller gets the dispatcher's answer
  when it is within the limit; an answer that was dropped, or a cancelled connection, is an empty
  one, which no caller can tell from an empty answer.\<close>

definition peer_half :: "(packet \<Rightarrow> bytes option) \<Rightarrow> sock_addr \<Rightarrow> bytes \<Rightarrow> bytes option" where
  "peer_half reply remote sent = Some (snd (snd (handle_bidi_stream (\<lambda>_. True) False reply None True remote sent)))"

lemma request_is_answered:
  assumes "fits msg"
  shows "request True None True (peer_half reply remote) msg =
     (case reply (Packet_with_reply msg remote) of
        None \<Rightarrow> Inr []
      | Some answer \<Rightarrow> if length answer \<le> unat BUFFER_SIZE then Inr answer else Inl Protocol)"
  using wire.dec_enc[OF assms, of "[]"]
  by (simp add: request_def write_all_def peer_half_def handle_bidi_stream_def read_to_end_def Let_def split: option.split)

text \<open>The answers \<open>make_request\<close> gets through the manager, for an encoding \<open>enc\<close> of the request.\<close>

definition fetch_answer ::
  "sock_addr option \<Rightarrow> connection_manager \<Rightarrow> (u32 \<Rightarrow> bytes) \<Rightarrow> (u64 \<Rightarrow> bytes \<Rightarrow> bytes option) \<Rightarrow> sock_addr \<Rightarrow> u32 \<Rightarrow> bytes option" where
  "fetch_answer own cm enc far_half source index =
     (case cm_request own True None True far_half source (Standard (enc index)) cm of Inl _ \<Rightarrow> None | Inr payload \<Rightarrow> Some payload)"

text \<open>A request for a piece over a connection on which nothing fails.\<close>

lemma fetch_over_connection:
  assumes conn: "find_connection own source cm = Inr c" "far_half c = peer_half reply remote"
    and small: "length (enc index) < 1048576"
    and served: "reply (Packet_with_reply (Standard (enc index)) remote) = Some (data @ sig)" "data \<noteq> []"
    and keys: "length sig = SIGNATURE_LENGTH" "re_verify env (pub_key seeder) (piece_hash (re_sha256 env) index data) sig"
      "re_encodes env (Request index)"
  shows "make_request env (fetch_answer own cm enc far_half) source index seeder =
     (if length data \<le> 1048576 - 64 then Inr (Some (Piece index data)) else Inl ConnectionManagerErr)"
proof -
  have "fetch_answer own cm enc far_half source index = (if length data \<le> 1048576 - 64 then Some (data @ sig) else None)"
    using request_is_answered[of "Standard (enc index)" reply remote] small served(1) conn(1) keys(1)
    by (auto simp: fetch_answer_def cm_request_def conn(2) fits_def unat_BUFFER_SIZE SIGNATURE_LENGTH_def)
  then show ?thesis using served(2) keys by (simp add: make_request_def split_payload_def verify_piece_def Let_def)
qed

text \<open>C37: how large a piece can be. Over a connection that stands in the table, on which no stream
  fails and the encoded request is below the frame limit, a seeder that answers with a piece that is
  not empty and its valid signature of 64 bytes delivers the piece exactly when piece and signature
  together are within the one megabyte that \<open>request\<close> reads; otherwise the request ends with a
  connection error. The piece lengths from one megabyte (two to the power 20) up to 128 megabytes
  (two to the power 27) are accepted by the validation of the metadata, and a full piece of any of
  these lengths is never delivered.\<close>

theorem piece_fetch_limit:
  assumes conn: "find_connection own source cm = Inr c" "far_half c = peer_half reply remote"
    and small: "length (enc index) < 1048576"
    and served: "reply (Packet_with_reply (Standard (enc index)) remote) = Some (data @ sig)" "data \<noteq> []"
    and keys: "length sig = SIGNATURE_LENGTH" "re_verify env (pub_key seeder) (piece_hash (re_sha256 env) index data) sig"
      "re_encodes env (Request index)"
  shows "make_request env (fetch_answer own cm enc far_half) source index seeder =
       (if length data \<le> 1048576 - 64 then Inr (Some (Piece index data)) else Inl ConnectionManagerErr)
     \<and> (\<forall>pl k. 20 \<le> k \<longrightarrow> k \<le> 27 \<longrightarrow> unat pl = 2 ^ k \<longrightarrow> piece_length_validate pl = Inr () \<and>
          (length data = unat pl \<longrightarrow>
             make_request env (fetch_answer own cm enc far_half) source index seeder = Inl ConnectionManagerErr))"
proof -
  note fetch = fetch_over_connection[of own source cm c far_half reply remote enc index data sig env seeder, OF assms]
  have "piece_length_validate pl = Inr () \<and> \<not> unat pl \<le> 1048576 - 64"
    if "20 \<le> k" "k \<le> 27" "unat pl = 2 ^ k" for pl k
  proof -
    have "(2 :: nat) ^ 20 \<le> 2 ^ k" using that(1) by (intro power_increasing) auto
    then show ?thesis using that by (auto simp: piece_length_valid_nat intro!: exI[of _ k])
  qed
  then show ?thesis by (simp add: fetch)
qed

definition linked :: connection_manager where
  "linked = ConnectionManager_new\<lparr>cm_connections := [(SocketV4 2 2, 0)]\<rparr>"

theorem piece_fetch_limit_witness:
  "piece_length_validate 1048576 = Inr ()
     \<and> make_request (open_router [1])
         (fetch_answer (Some (SocketV4 1 1)) linked (\<lambda>_. [8]) (\<lambda>_. peer_half (\<lambda>_. Some (replicate 1048576 7 @ replicate 64 9)) (SocketV4 1 1)))
         (SocketV4 2 2) 0 (Key_new id [2]) = Inl ConnectionManagerErr
     \<and> make_request (open_router [1])
         (fetch_answer (Some (SocketV4 1 1)) linked (\<lambda>_. [8]) (\<lambda>_. peer_half (\<lambda>_. Some ([7] @ replicate 64 9)) (SocketV4 1 1)))
         (SocketV4 2 2) 0 (Key_new id [2]) = Inr (Some (Piece 0 [7]))"
proof (intro conjI)
  have c: "find_connection (Some (SocketV4 1 1)) (SocketV4 2 2) linked = Inr 0"
    by (simp add: find_connection_def is_self_connection_def linked_def)
  have mega: "unat (1048576 :: u64) = 2 ^ 20" by simp
  have big: "replicate 1048576 7 \<noteq> ([] :: bytes)" by (metis length_replicate list.size(3) zero_neq_numeral)
  show "piece_length_validate 1048576 = Inr ()" by (simp add: piece_length_validate_def)
  show "make_request (open_router [1])
      (fetch_answer (Some (SocketV4 1 1)) linked (\<lambda>_. [8]) (\<lambda>_. peer_half (\<lambda>_. Some (replicate 1048576 7 @ replicate 64 9)) (SocketV4 1 1)))
      (SocketV4 2 2) 0 (Key_new id [2]) = Inl ConnectionManagerErr"
    by (rule piece_fetch_limit[OF c refl, where data = "replicate 1048576 7" and sig = "replicate 64 9",
          THEN conjunct2, rule_format, OF _ _ _ _ _ _ _ _ mega, THEN conjunct2, rule_format])
      (simp_all add: big open_router_def SIGNATURE_LENGTH_def)
  show "make_request (open_router [1])
      (fetch_answer (Some (SocketV4 1 1)) linked (\<lambda>_. [8]) (\<lambda>_. peer_half (\<lambda>_. Some ([7] @ replicate 64 9)) (SocketV4 1 1)))
      (SocketV4 2 2) 0 (Key_new id [2]) = Inr (Some (Piece 0 [7]))"
    by (subst piece_fetch_limit[OF c refl, where data = "[7]" and sig = "replicate 64 9", THEN conjunct1])
      (simp_all add: open_router_def SIGNATURE_LENGTH_def)
qed

text \<open>The accept loop serves what was accepted before its end and then reports once. A connection
  that the manager itself removed, by \<open>disconnect\<close> or because another took its place, is not
  announced to the sessions.\<close>

lemma handle_connection_prefix:
  "handle_connection es = (takeWhile (\<lambda>e. \<not> ends_loop e) es, \<exists>e\<in>set es. ends_loop e)"
  by (induction es) auto

lemma disconnect_is_silent:
  assumes "map_of (cm_connections cm) peer = Some c"
  shows "connection_task c peer es (cm_disconnect peer cm) = cm_disconnect peer cm
     \<and> cm_disconnects (cm_disconnect peer cm) = cm_disconnects cm"
  using assms by (simp add: connection_task_def on_disconnect_handler_def cm_disconnect_def cm_close_def delete_conv')

lemma lost_connection_is_announced:
  assumes "map_of (cm_connections cm) peer = Some c" and "\<exists>e\<in>set es. ends_loop e"
  shows "cm_disconnects (connection_task c peer es cm) = cm_disconnects cm @ [peer]
     \<and> map_of (cm_connections (connection_task c peer es cm)) peer = None"
  using assms by (simp add: connection_task_def handle_connection_prefix on_disconnect_handler_def delete_conv')

text \<open>An oversized control message ends the receiver's loop: what was sent on the same stream after it
  is lost although sending it succeeded.\<close>

lemma oversized_control_message_blocks:
  assumes "\<forall>m\<in>set ms. fits m" and "msg \<noteq> KeepAlive" and "unat BUFFER_SIZE \<le> length (payload_of msg)"
    and "length (payload_of msg) + 1 < 2 ^ 32"
  shows "handle_uni_stream (\<lambda>_. True) remote (concat (map to_bytes ms) @ to_bytes msg @ later) =
     (map (\<lambda>m. Packet_new m remote) ms, MessageLimit (word_of_nat (length (payload_of msg) + 1)))"
proof -
  have "handle_uni_stream (\<lambda>_. True) remote (to_bytes msg @ later) = ([], MessageLimit (word_of_nat (length (payload_of msg) + 1)))"
    by (subst handle_uni_stream.simps) (simp add: oversized_frame_refused[OF assms(2-4)] del: of_nat_Suc of_nat_add)
  then show ?thesis using uni_stream_messages[OF assms(1), of "\<lambda>_. True" remote "to_bytes msg @ later"] by simp
qed

lemma local_ip_keeps_port: "get_local_ip (Some addr) probe = Inr a \<Longrightarrow> addr_port a = addr_port addr"
  by (cases "the probe") (auto simp: get_local_ip_def split: if_splits option.splits)

end
