(* ===== verification/Delivery.thy ===== *)
theory Delivery
  imports Streams
begin

text \<open>
  The path of the content from the files of one node to the files of another, across the
  components: the builder hashes the files, a seeding session serves their pieces over a stream of
  a connection, and the downloading side asks for each piece, checks its signature and its hash and
  writes it through its chunk handler.
\<close>

text \<open>What the seeding node answers to a packet with a reply channel: the message goes to the session of
  the torrent, whose worker then serves its queue. \<open>dec\<close> decodes peer messages.\<close>

definition seeder_reply ::
  "(bytes \<Rightarrow> standard_message option) \<Rightarrow> (bytes \<Rightarrow> bytes) \<Rightarrow> signer \<Rightarrow> seeding multi_file_handler \<Rightarrow> disk \<Rightarrow> router_env \<Rightarrow> torrent_session \<Rightarrow> packet \<Rightarrow> bytes option" where
  "seeder_reply dec sha256 prover h d renv s packet =
     (case pk_message packet of
        Standard bs \<Rightarrow>
          (case dec bs of
             None \<Rightarrow> None
           | Some msg \<Rightarrow>
               (case bep_handle_request 0 renv (\<lambda>_ _. None) (\<lambda>_. 0) s msg (source_addr packet) (Some 0) [] of
                  Some (Inr _, s', _) \<Rightarrow>
                    (case seeder_round sha256 prover h d s' of Some (Some (_, payload), _) \<Rightarrow> Some payload | _ \<Rightarrow> None)
                | _ \<Rightarrow> None))
      | _ \<Rightarrow> None)"

text \<open>A session that seeds everything and has nothing queued, with a peer it serves.\<close>

definition serves :: "torrent_session \<Rightarrow> sock_addr \<Rightarrow> nat \<Rightarrow> bool" where
  "serves s peer n \<longleftrightarrow> (\<exists>path res token tx p. ts_state s = Seeding path res token tx \<and> ch_open tx \<and> ch_queue tx = []
     \<and> token \<notin> ts_cancelled s \<and> get_pipeline s peer = Some p \<and> \<not> am_choking p)
     \<and> (\<forall>i < n. bf_have (ts_bitfield s) i = Some True)"

text \<open>A key pair whose signatures have the length of the protocol and verify.\<close>

definition signs_all :: "verifier \<Rightarrow> signer \<Rightarrow> bool" where
  "signs_all verify prover \<longleftrightarrow>
     (\<forall>m. \<exists>sig. signer_sign prover m = Some sig \<and> length sig = SIGNATURE_LENGTH \<and> verify (signer_pub_key prover) m sig)"

definition fetched_data :: "bep_router_error + standard_message option \<Rightarrow> bytes" where
  "fetched_data r = (case r of Inr (Some (Piece _ data)) \<Rightarrow> data | _ \<Rightarrow> [])"

lemma seeder_reply_piece:
  assumes "serves s remote n" and "unat index < n" and "dec (enc index) = Some (Request index)"
    and "read_piece h d index = Inr data" and "signs_all verify prover"
  shows "\<exists>sig. seeder_reply dec sha256 prover h d renv s (Packet_with_reply (Standard (enc index)) remote) = Some (data @ sig)
     \<and> length sig = SIGNATURE_LENGTH \<and> verify (signer_pub_key prover) (piece_hash sha256 index data) sig"
proof -
  obtain sig where sig: "signer_sign prover (piece_hash sha256 index data) = Some sig" "length sig = SIGNATURE_LENGTH"
    "verify (signer_pub_key prover) (piece_hash sha256 index data) sig" using assms(5) by (auto simp: signs_all_def)
  obtain path res token tx p where s: "ts_state s = Seeding path res token tx" "ch_open tx" "ch_queue tx = []" "token \<notin> ts_cancelled s"
    "get_pipeline s remote = Some p" "\<not> am_choking p" "bf_have (ts_bitfield s) (unat index) = Some True"
    using assms(1,2) by (auto simp: serves_def)
  from seeder_answers[OF s assms(4) sig(1), of 0 renv "\<lambda>_ _. None" "\<lambda>_. 0" 0 "[]"] show ?thesis
    using sig(2,3) assms(3) by (auto simp: seeder_reply_def Packet_with_reply_def)
qed

lemma built_total_length:
  assumes lens: "map ef_length files = map (\<lambda>p. int (length (the (open_file p)))) (paths (b_files b))"
    and small: "length (builder_content open_file b) < 2 ^ 64"
  shows "sum_list (map (\<lambda>f. unat (as_u64 (ef_length f))) files) = length (builder_content open_file b)"
proof -
  have "unat (as_u64 (int (length (the (open_file p))))) = length (the (open_file p))" if "p \<in> set (paths (b_files b))" for p
  proof -
    have "length (the (open_file p)) \<le> length (builder_content open_file b)"
      using that by (auto simp: builder_content_def length_concat intro: member_le_sum_list)
    then show ?thesis using small by (simp add: as_u64_def unsigned_of_nat take_bit_nat_eq_self)
  qed
  moreover have "map (\<lambda>f. unat (as_u64 (ef_length f))) files = map (\<lambda>l. unat (as_u64 l)) (map ef_length files)" by simp
  ultimately have "map (\<lambda>f. unat (as_u64 (ef_length f))) files = map (\<lambda>p. length (the (open_file p))) (paths (b_files b))"
    unfolding lens by simp
  then show ?thesis by (simp add: builder_content_def length_concat comp_def)
qed

subsection \<open>Property\<close>

text \<open>C1: content travels unchanged. A torrent is built from some files; one node seeds files with that
  content to a peer it serves; the peer asks for the pieces over a connection on which nothing
  fails. Then every request returns a piece with a valid signature that passes the hash check of
  the torrent, and after the pieces are written, in any order, through a handler opened for the
  download, the files of the download hold exactly the content. The pieces have to fit a reply.\<close>

theorem content_travels:
  assumes build: "v1_build sha1 enc_info open_file rd now version b = Inr t" "reads_all rd"
      "\<forall>p\<in>set (paths (b_files b)). open_file p \<noteq> None" "\<forall>x. length (sha1 x) = 20"
    and xs: "xs = builder_content open_file b" "xs \<noteq> []" "length xs + 2 ^ 27 < 2 ^ 64" "n = length (chunks (unat (b_piece_length b)) xs)" "n \<le> 2 ^ 32"
    and limit: "unat (b_piece_length b) \<le> 1048576 - 64"
    and seeder: "handler_seed sn sd sbase (b_piece_length b) (torrent_files t) = Inr h" "seed_content sn sd sbase (torrent_files t) = xs"
      "distinct (map (\<lambda>f. the (fs_inode sn (full_path sn sbase f))) (torrent_files t))" "serves s remote n"
    and keys: "signs_all (re_verify env) prover" "pub_key seeder = signer_pub_key prover"
    and wire: "find_connection own source cm = Inr c" "far_half c = peer_half (seeder_reply dec (re_sha256 env) prover h sd renv s) remote"
      "\<forall>i. dec (enc i) = Some (Request i) \<and> length (enc i) < 1048576 \<and> re_encodes env (Request i)"
    and client: "handler_download fallocate dn d dbase (b_piece_length b) (torrent_files t) = (Inr g, d0)"
      "distinct (map (\<lambda>f. the (fs_inode dn (full_path dn dbase f))) (torrent_files t))"
  shows "(\<forall>index. unat index < n \<longrightarrow> (\<exists>data. make_request env (fetch_answer own cm enc far_half) source index seeder = Inr (Some (Piece index data))
           \<and> verify_hash sha1 sha256 t index data = Inr ()))
     \<and> (\<forall>order. distinct order \<and> set order = {i. unat i < n} \<longrightarrow>
          flat (foldl (\<lambda>d i. snd (write_piece g d i (fetched_data (make_request env (fetch_answer own cm enc far_half) source i seeder)))) d0 order) (targets g) = xs)"
proof -
  let ?pl = "unat (b_piece_length b)" and ?get = "\<lambda>i. make_request env (fetch_answer own cm enc far_half) source i seeder"
  obtain v where v: "t = TorrentFileV1 v" "piece_length_validate (b_piece_length b) = Inr ()"
    "map ef_length (mode_files (v1_mode_of v)) = map (\<lambda>p. int (length (the (open_file p)))) (paths (b_files b))"
    by (rule built_v1[OF build(1-3)])
  have pl: "0 < ?pl" "?pl \<le> 2 ^ 32" "length xs + ?pl \<le> 2 ^ 64" using piece_length_valid_bounds[OF v(2)] xs(3) by simp_all
  have sum: "sum_list (map (\<lambda>f. unat (as_u64 (ef_length f))) (torrent_files t)) = length xs"
    using built_total_length[OF v(3)] xs(1,3) v(1) by simp
  have get: "?get i = Inr (Some (Piece i (chunks ?pl xs ! unat i)))" if "unat i < n" for i
  proof -
    let ?data = "chunks ?pl xs ! unat i"
    have "?data \<in> set (chunks ?pl xs)" using that xs(4) by simp
    then have data: "?data \<noteq> []" "length ?data \<le> ?pl" using set_chunks_length[of ?data ?pl xs] by simp_all
    have in_xs: "unat i * ?pl < length xs" by (rule chunk_inside[OF pl(1)]) (use that xs(4) in simp)
    have "read_piece h sd i = Inr ?data" using seeded_piece_is_slice[OF seeder(1) pl(1,2) seeder(3), of i] in_xs seeder(2) pl(3) by simp
    from seeder_reply_piece[OF seeder(4) that _ this keys(1), of dec enc "re_sha256 env" renv] obtain sig where
      "seeder_reply dec (re_sha256 env) prover h sd renv s (Packet_with_reply (Standard (enc i)) remote) = Some (?data @ sig)"
      "length sig = SIGNATURE_LENGTH" "re_verify env (pub_key seeder) (piece_hash (re_sha256 env) i ?data) sig"
      using wire(3) keys(2) by auto
    from fetch_over_connection[of own source cm c far_half _ remote enc i ?data sig env seeder, OF wire(1,2) _ this(1) data(1) this(2,3)] show ?thesis using wire(3) data(2) limit by simp
  qed
  have hash: "verify_hash sha1 sha256 t i (chunks ?pl xs ! unat i) = Inr ()" if "unat i < n" for i
    using built_torrent_accepts_its_content[OF build(1-4)] xs that by simp
  have wf: "handler_wf g d0" "mf_piece_length g = ?pl" and "total_length g = length xs"
    using handler_download_wf[OF client(1) pl(1,2) client(2)] pl(3) by (simp_all add: sum)
  moreover have "foldl (\<lambda>d i. snd (write_piece g d i (fetched_data (?get i)))) d0 order = foldl (\<lambda>d i. snd (write_piece g d i (chunks ?pl xs ! unat i))) d0 order"
    if "set order = {i. unat i < n}" for order
    by (rule foldl_cong) (use that get in \<open>auto simp: fetched_data_def\<close>)
  ultimately have "flat (foldl (\<lambda>d i. snd (write_piece g d i (fetched_data (?get i)))) d0 order) (targets g) = xs"
    if "distinct order \<and> set order = {i. unat i < n}" for order
    using all_pieces_written[OF wf(1), of xs order] that wf(2) xs(4,5) by simp
  then show ?thesis using get hash by blast
qed

definition far_disk :: disk where "far_disk = [1 \<mapsto> [1, 2], 2 \<mapsto> [3]]"

definition far_handler :: "seeding multi_file_handler" where
  "far_handler = \<lparr>targets = [FileChunk_new 1 0 2, FileChunk_new 2 2 1], mf_piece_length = 16384, total_length = 3, mf_state = SeedingMode\<rparr>"

definition far_node :: "u64 \<Rightarrow> bytes \<Rightarrow> bytes option" where
  "far_node c = peer_half (seeder_reply (\<lambda>bs. Some (Request (word_of_nat (from_be_bytes bs)))) id sample_signer far_handler far_disk
     (open_router [2]) seed_session) (SocketV4 1 1)"

definition near_names :: fs_names where
  "near_names = \<lparr>fs_is_file = (\<lambda>_. False), fs_inode = (\<lambda>p. if p = [''a''] then Some 1 else Some 2)\<rparr>"

definition near_fetch :: "u32 \<Rightarrow> bep_router_error + standard_message option" where
  "near_fetch i = make_request (open_router [1]) (fetch_answer (Some (SocketV4 1 1)) linked to_be_bytes_u32 far_node) (SocketV4 2 2) i (Key_new id [2])"

lemma sample_built:
  obtains t where "v1_build (\<lambda>x. replicate 20 (hd (x @ [0]))) (\<lambda>i. Some []) sample_open (\<lambda>s r. s) 0 ''v'' sample_builder = Inr t"
    "torrent_files t = [\<lparr>ef_length = 2, ef_path = [''a''], ef_md5sum = None\<rparr>, \<lparr>ef_length = 1, ef_path = [''b''], ef_md5sum = None\<rparr>]"
proof -
  obtain t where t: "v1_build (\<lambda>x. replicate 20 (hd (x @ [0]))) (\<lambda>i. Some []) sample_open (\<lambda>s r. s) 0 ''v'' sample_builder = Inr t"
    using sample_builds by blast
  let ?h = "builder_hasher sample_builder"
  have pf: "ph_files ?h = [\<lparr>absolute = [''d'', ''a''], relative = [''a'']\<rparr>, \<lparr>absolute = [''d'', ''b''], relative = [''b'']\<rparr>]"
    by (simp add: path_build_def sample_builder_def builder_files_def builder_file_def V1Builder_new_def TorrentPath_new_def path_add_def strip_path_def)
  have op: "\<forall>f\<in>set (ph_files ?h). sample_open (absolute f) \<noteq> None" unfolding pf by (simp add: sample_open_def)
  have rd: "reads_all (\<lambda>s r. s)" by (simp add: reads_all_def)
  have pl: "0 < ph_piece_length ?h" by simp
  obtain pieces mode raw where hf: "hasher_finalize (\<lambda>x. replicate 20 (hd (x @ [0]))) sample_open (\<lambda>s r. s) ?h = Inr (pieces, mode)"
    and t': "t = TorrentFileV1 \<lparr>v1_info = builder_common 0 ''v'' (InfoHashV1_new (\<lambda>x. replicate 20 (hd (x @ [0]))) raw) sample_builder,
        v1_private = b_private sample_builder, v1_pieces = pieces, v1_mode_of = mode\<rparr>"
    by (rule v1_build_elim[OF t])
  have "mode = MultiFile [\<lparr>ef_length = 2, ef_path = [''a''], ef_md5sum = None\<rparr>, \<lparr>ef_length = 1, ef_path = [''b''], ef_md5sum = None\<rparr>]"
    using hf unfolding hasher_finalize_chunks[OF pl rd op] pf Let_def by (simp add: sample_open_def)
  then show thesis using that[OF t] t' by simp
qed

theorem content_travels_witness:
  "\<exists>t g d0. v1_build (\<lambda>x. replicate 20 (hd (x @ [0]))) (\<lambda>i. Some []) sample_open (\<lambda>s r. s) 0 ''v'' sample_builder = Inr t
     \<and> handler_download (\<lambda>_. FallocateOk) near_names Map.empty [] 16384 (torrent_files t) = (Inr g, d0)
     \<and> flat (snd (write_piece g d0 0 (fetched_data (near_fetch 0)))) (targets g) = [1, 2, 3]"
proof -
  obtain t where t: "v1_build (\<lambda>x. replicate 20 (hd (x @ [0]))) (\<lambda>i. Some []) sample_open (\<lambda>s r. s) 0 ''v'' sample_builder = Inr t"
    and files: "torrent_files t = [\<lparr>ef_length = 2, ef_path = [''a''], ef_md5sum = None\<rparr>, \<lparr>ef_length = 1, ef_path = [''b''], ef_md5sum = None\<rparr>]"
    by (rule sample_built)
  have rd: "reads_all (\<lambda>s r. s)" by (simp add: reads_all_def)
  have op: "\<forall>p\<in>set (paths (b_files sample_builder)). sample_open p \<noteq> None" by (simp add: sample_open_def)
  have sha: "\<forall>x. length (replicate 20 (hd (x @ [0])) :: bytes) = 20" by simp
  have n: "1 = length (chunks (unat (b_piece_length sample_builder)) [1, 2, 3 :: u8])" by (simp add: chunks_short)
  have seed: "handler_seed near_names far_disk [] (b_piece_length sample_builder) (torrent_files t) = Inr far_handler"
    "seed_content near_names far_disk [] (torrent_files t) = [1, 2, 3]"
    by (simp_all add: files handler_seed_def near_names_def full_path_eval far_disk_def far_handler_def seed_content_def FileChunk_new_def add64_def)
  have dist: "distinct (map (\<lambda>f. the (fs_inode near_names (full_path near_names [] f))) (torrent_files t))"
    by (simp add: files near_names_def full_path_eval)
  have srv: "serves seed_session (SocketV4 1 1) 1"
    by (simp add: serves_def seed_session_def new_channel_def session_initial_def get_pipeline_def pl_unchoke_def bf_have_def from_wire_def Let_def)
  have keys: "signs_all (re_verify (open_router [1])) sample_signer" "pub_key (Key_new id [2]) = signer_pub_key sample_signer"
    by (simp_all add: signs_all_def open_router_def sample_signer_def SIGNATURE_LENGTH_def Key_new_def)
  have conn: "find_connection (Some (SocketV4 1 1)) (SocketV4 2 2) linked = Inr 0"
    by (simp add: find_connection_def is_self_connection_def linked_def)
  have far: "far_node 0 = peer_half (seeder_reply (\<lambda>bs. Some (Request (word_of_nat (from_be_bytes bs)))) (re_sha256 (open_router [1])) sample_signer
      far_handler far_disk (open_router [2]) seed_session) (SocketV4 1 1)" by (simp add: far_node_def open_router_def)
  have codec: "\<forall>i. Some (Request (word_of_nat (from_be_bytes (to_be_bytes_u32 i)))) = Some (Request i) \<and> length (to_be_bytes_u32 i) < 1048576
      \<and> re_encodes (open_router [1]) (Request i)" by (simp add: open_router_def)
  obtain g d0 where dl: "handler_download (\<lambda>_. FallocateOk) near_names Map.empty [] (b_piece_length sample_builder) (torrent_files t) = (Inr g, d0)"
    by (simp add: files handler_download_def near_names_def full_path_eval preallocate_def Let_def)
  have set: "distinct [0 :: u32] \<and> set [0 :: u32] = {i. unat i < 1}" by (auto simp: unsigned_eq_0_iff)
  have "flat (foldl (\<lambda>d i. snd (write_piece g d i (fetched_data (near_fetch i)))) d0 [0]) (targets g) = [1, 2, 3]"
    using content_travels[where far_half = far_node and enc = to_be_bytes_u32 and dec = "\<lambda>bs. Some (Request (word_of_nat (from_be_bytes bs)))", OF t rd op sha _ _ _ n _ _ seed dist srv keys conn far codec dl dist, THEN conjunct2, THEN spec, of "[0]", THEN mp, OF _ _ _ _ _ set]
    by (simp add: near_fetch_def)
  then show ?thesis using t dl by (intro exI[of _ t] exI[of _ g] exI[of _ d0]) simp
qed

end
