(* ===== verification/IpcSocket.thy ===== *)
theory IpcSocket
  imports EventStream Directories "HOL-Library.Countable"
begin

text \<open>
  The local socket: \<open>bqti-ipc/src/socket.rs\<close>, \<open>socket_path\<close> of \<open>bqti-ipc/src/lib.rs\<close>, \<open>start\<close> and \<open>drop\<close> of
  \<open>IpcServer\<close> and \<open>handle_client\<close> in \<open>ipc/server.rs\<close>, and \<open>ipc\<close>, \<open>event_stream\<close> and \<open>handle_status\<close> of
  \<open>ipc/client.rs\<close>. Each message is one line of text. What one side can still read is the text that will
  arrive and whether the stream then breaks or is closed; JSON is a record of printers and
  parsers, which do not fail on these types when printing. A socket in the name space is a file, its inode the listener. The
  theory shows that the lines carry requests, replies and events unchanged, so that a client that
  follows the status over the socket shows the daemon's torrents, and what a second daemon does to the
  socket of the first.
\<close>

subsection \<open>Lines\<close>

definition newline :: char where "newline = CHR 0x0A"

record inbound =
  in_text :: string
  in_broken :: bool

text \<open>\<open>read_line\<close>: the line with its end, the rest of the text where it has none, \<open>None\<close> an error.\<close>

definition read_line :: "inbound \<Rightarrow> string option \<times> inbound" where
  "read_line i =
     (case dropWhile (\<lambda>c. c \<noteq> newline) (in_text i) of
        c # rest \<Rightarrow> (Some (takeWhile (\<lambda>c. c \<noteq> newline) (in_text i) @ [c]), i\<lparr>in_text := rest\<rparr>)
      | [] \<Rightarrow> (if in_broken i then None else Some (in_text i), i\<lparr>in_text := []\<rparr>))"

record ipc_json =
  j_request :: "ipc_request \<Rightarrow> string"
  j_request_of :: "string \<Rightarrow> ipc_request option"
  j_reply :: "ipc_reply \<Rightarrow> string"
  j_reply_of :: "string \<Rightarrow> ipc_reply option"
  j_event :: "ipc_event \<Rightarrow> string"
  j_event_of :: "string \<Rightarrow> ipc_event option"
  j_lagged :: "nat \<Rightarrow> string"

subsection \<open>The client's socket\<close>

text \<open>\<open>far\<close> is what the daemon sends in answer to the text written, \<open>None\<close> a write that fails.\<close>

definition Socket_send :: "ipc_json \<Rightarrow> (string \<Rightarrow> inbound option) \<Rightarrow> ipc_request \<Rightarrow> (ipc_reply \<times> inbound) option" where
  "Socket_send json far request =
     (case far (j_request json request @ [newline]) of
        None \<Rightarrow> None
      | Some i \<Rightarrow>
          (case read_line i of
             (None, i) \<Rightarrow> None
           | (Some buf, i) \<Rightarrow> map_option (\<lambda>reply. (reply, i)) (j_reply_of json buf)))"

datatype 'e stream_item = Item 'e | ItemError

definition event_stream_next :: "ipc_json \<Rightarrow> inbound \<Rightarrow> (ipc_event stream_item \<times> inbound) option" where
  "event_stream_next json i =
     (case read_line i of
        (None, i) \<Rightarrow> Some (ItemError, i)
      | (Some buf, i) \<Rightarrow>
          if buf = [] then None
          else Some (case j_event_of json buf of Some e \<Rightarrow> Item e | None \<Rightarrow> ItemError, i))"

text \<open>\<open>ipc\<close> and \<open>event_stream\<close> of the client; \<open>connect\<close> says whether the daemon can be reached.\<close>

definition client_ipc :: "ipc_json \<Rightarrow> bool \<Rightarrow> (string \<Rightarrow> inbound option) \<Rightarrow> ipc_request \<Rightarrow> ipc_response option" where
  "client_ipc json connect far request =
     (if \<not> connect then None
      else case Socket_send json far request of Some (ReplyOk response, _) \<Rightarrow> Some response | _ \<Rightarrow> None)"

definition client_event_stream :: "ipc_json \<Rightarrow> bool \<Rightarrow> (string \<Rightarrow> inbound option) \<Rightarrow> inbound option" where
  "client_event_stream json connect far =
     (if \<not> connect then None
      else case Socket_send json far ReqEventStream of Some (ReplyOk response, i) \<Rightarrow> Some i | _ \<Rightarrow> None)"

lemma read_line_shorter: "read_line i = (Some buf, i') \<Longrightarrow> buf \<noteq> [] \<Longrightarrow> length (in_text i') < length (in_text i)"
  using length_dropWhile_le[of "\<lambda>c. c \<noteq> newline" "in_text i"]
  by (auto simp: read_line_def split: list.splits if_splits)

lemma event_stream_next_shorter: "event_stream_next json i = Some (Item e, i') \<Longrightarrow> length (in_text i') < length (in_text i)"
  by (auto simp: event_stream_next_def dest: read_line_shorter split: prod.splits option.splits if_splits)

text \<open>The loop of \<open>handle_status\<close>: every event changes the list; the loop ends with the stream and fails
  at the first item that is not an event.\<close>

function status_loop :: "ipc_json \<Rightarrow> string option \<Rightarrow> ipc_torrent list \<Rightarrow> inbound \<Rightarrow> ipc_torrent list option" where
  "status_loop json sel torrents i =
     (case event_stream_next json i of
        None \<Rightarrow> Some torrents
      | Some (ItemError, _) \<Rightarrow> None
      | Some (Item event, i') \<Rightarrow> status_loop json sel (status_event sel torrents event) i')"
  by pat_completeness auto
termination by (relation "measure (\<lambda>(_, _, _, i). length (in_text i))") (auto dest: event_stream_next_shorter)

declare status_loop.simps [simp del]

definition handle_status ::
  "ipc_json \<Rightarrow> bool \<Rightarrow> (string \<Rightarrow> inbound option) \<Rightarrow> bool \<Rightarrow> (string \<Rightarrow> inbound option) \<Rightarrow> string option \<Rightarrow> ipc_torrent list option" where
  "handle_status json connect far connect' far' info_hash =
     (case client_ipc json connect far ReqTorrents of
        Some (RespTorrents torrents) \<Rightarrow>
          (case status_start info_hash torrents of
             Inl _ \<Rightarrow> None
           | Inr torrents \<Rightarrow>
               (case client_event_stream json connect' far' of
                  None \<Rightarrow> None
                | Some stream \<Rightarrow> status_loop json info_hash torrents stream))
      | _ \<Rightarrow> None)"

subsection \<open>The daemon's end\<close>

text \<open>\<open>handle_client\<close> up to the event stream: the line read, the reply written, whether a stream
  follows.\<close>

definition serve_client ::
  "daemon_env \<Rightarrow> (string \<Rightarrow> bytes option) \<Rightarrow> ipc_json \<Rightarrow> inbound \<Rightarrow> ipc_server \<Rightarrow> (string \<times> bool \<times> ipc_server) option" where
  "serve_client env hex_decode json i srv =
     (case read_line i of
        (None, _) \<Rightarrow> Some ([], False, srv)
      | (Some buf, _) \<Rightarrow>
          map_option (\<lambda>(reply, stream, srv). (case reply of None \<Rightarrow> [] | Some r \<Rightarrow> j_reply json r @ [newline], stream, srv))
            (ipc_handle_client env hex_decode (j_request_of json) (if buf = [] then None else Some buf) srv))"

fun line_text :: "ipc_json \<Rightarrow> stream_line \<Rightarrow> string" where
  "line_text json (EventLine event) = j_event json event @ [newline]"
| "line_text json (LagLine n) = j_lagged json n @ [newline]"

text \<open>A client at the daemon: the answer to its line, and the lines of the stream when it asked for
  one, until the daemon closes.\<close>

definition daemon_far ::
  "daemon_env \<Rightarrow> (string \<Rightarrow> bytes option) \<Rightarrow> ipc_json \<Rightarrow> stream_line list \<Rightarrow> ipc_server \<Rightarrow> string \<Rightarrow> inbound option" where
  "daemon_far env hex_decode json lines srv text =
     (case serve_client env hex_decode json \<lparr>in_text = text, in_broken = False\<rparr> srv of
        None \<Rightarrow> None
      | Some (reply, stream, _) \<Rightarrow>
          Some \<lparr>in_text = reply @ (if stream then concat (map (line_text json) lines) else []), in_broken = False\<rparr>)"

subsection \<open>Lines arrive whole\<close>

text \<open>What the text format promises: no line end inside a value, values read back with the line end
  behind them, and the report of a lag is not an event.\<close>

definition json_ok :: "ipc_json \<Rightarrow> bool" where
  "json_ok json \<longleftrightarrow>
     (\<forall>r. newline \<notin> set (j_request json r) \<and> j_request_of json (j_request json r @ [newline]) = Some r)
   \<and> (\<forall>r. newline \<notin> set (j_reply json r) \<and> j_reply_of json (j_reply json r @ [newline]) = Some r)
   \<and> (\<forall>e. newline \<notin> set (j_event json e) \<and> j_event_of json (j_event json e @ [newline]) = Some e)
   \<and> (\<forall>n. newline \<notin> set (j_lagged json n) \<and> j_event_of json (j_lagged json n @ [newline]) = None)"

lemma read_line_line:
  assumes "newline \<notin> set line"
  shows "read_line \<lparr>in_text = line @ newline # rest, in_broken = b\<rparr> = (Some (line @ [newline]), \<lparr>in_text = rest, in_broken = b\<rparr>)"
proof -
  have "\<forall>c\<in>set line. c \<noteq> newline" using assms by auto
  then show ?thesis by (simp add: read_line_def dropWhile_append2 takeWhile_append2)
qed

lemma send_to_daemon:
  assumes "json_ok json" and "ipc_dispatch env hex_decode request srv = Some (r, srv')"
  shows "Socket_send json (daemon_far env hex_decode json lines srv) request =
     Some (case r of Inr resp \<Rightarrow> ReplyOk resp | Inl e \<Rightarrow> ReplyErr e,
       \<lparr>in_text = if request = ReqEventStream then concat (map (line_text json) lines) else [], in_broken = False\<rparr>)"
proof -
  let ?reply = "case r of Inr resp \<Rightarrow> ReplyOk resp | Inl e \<Rightarrow> ReplyErr e"
  have rq: "newline \<notin> set (j_request json request)" "j_request_of json (j_request json request @ [newline]) = Some request"
    and rp: "newline \<notin> set (j_reply json ?reply)" "j_reply_of json (j_reply json ?reply @ [newline]) = Some ?reply"
    using assms(1) by (auto simp: json_ok_def)
  have "serve_client env hex_decode json \<lparr>in_text = j_request json request @ [newline], in_broken = False\<rparr> srv =
      Some (j_reply json ?reply @ [newline], request = ReqEventStream, srv')"
    using read_line_line[OF rq(1), of "[]" False] rq(2) assms(2) by (simp add: serve_client_def ipc_handle_client_def)
  then show ?thesis
    using read_line_line[OF rp(1), where b = False] rp(2) by (simp add: Socket_send_def daemon_far_def)
qed

lemma status_loop_events:
  assumes "json_ok json"
  shows "status_loop json sel torrents \<lparr>in_text = concat (map (line_text json) (map EventLine es @ rest)), in_broken = b\<rparr> =
     status_loop json sel (foldl (status_event sel) torrents es) \<lparr>in_text = concat (map (line_text json) rest), in_broken = b\<rparr>"
proof (induction es arbitrary: torrents)
  case (Cons e es)
  have e: "newline \<notin> set (j_event json e)" "j_event_of json (j_event json e @ [newline]) = Some e" using assms by (auto simp: json_ok_def)
  have "event_stream_next json \<lparr>in_text = concat (map (line_text json) (map EventLine (e # es) @ rest)), in_broken = b\<rparr> =
      Some (Item e, \<lparr>in_text = concat (map (line_text json) (map EventLine es @ rest)), in_broken = b\<rparr>)"
    using read_line_line[OF e(1)] e(2) by (simp add: event_stream_next_def)
  then show ?case using Cons.IH by (subst status_loop.simps) simp
qed simp

lemma status_loop_end: "status_loop json sel torrents \<lparr>in_text = [], in_broken = False\<rparr> = Some torrents"
  by (subst status_loop.simps) (simp add: event_stream_next_def read_line_def)

lemma status_loop_lagged:
  assumes "json_ok json"
  shows "status_loop json sel torrents \<lparr>in_text = line_text json (LagLine n), in_broken = b\<rparr> = None"
proof -
  have "newline \<notin> set (j_lagged json n)" "j_event_of json (j_lagged json n @ [newline]) = None" using assms by (auto simp: json_ok_def)
  then show ?thesis using read_line_line[of "j_lagged json n" "[]" b] by (subst status_loop.simps) (simp add: event_stream_next_def)
qed

lemma status_over_socket:
  assumes "json_ok json"
  shows "handle_status json True (daemon_far env hex_decode json [] srv) True (daemon_far env hex_decode json (map EventLine es) srv') None =
     Some (foldl (status_event None) (map snd (is_state srv)) es)"
  using send_to_daemon[OF assms, of env hex_decode ReqTorrents srv] send_to_daemon[OF assms, of env hex_decode ReqEventStream srv']
    status_loop_events[OF assms, of None _ es "[]" False]
  by (simp add: handle_status_def client_ipc_def client_event_stream_def status_start_def status_loop_end)

subsection \<open>The socket in the name space\<close>

text \<open>The variables \<open>BQTI_SOCKET\<close> and \<open>BQTI_INSTANCE\<close> and the user's number in decimal.\<close>

definition socket_path :: "string option \<Rightarrow> string option \<Rightarrow> string \<Rightarrow> path" where
  "socket_path socket_var instance_var uid =
     (case socket_var of
        Some p \<Rightarrow> push_path [] p
      | None \<Rightarrow> push_path [] (''/run/user/'' @ uid @ ''/bqti/'' @ (case instance_var of Some i \<Rightarrow> i | None \<Rightarrow> ''default'') @ ''.sock''))"

definition bind_socket :: "path \<Rightarrow> nat \<Rightarrow> name_space \<Rightarrow> bool \<times> name_space" where
  "bind_socket p listener ns =
     (if ns_at ns p \<noteq> None \<or> ns_follow ns (butlast (resolve_path p)) \<noteq> Some NsDir \<or> \<not> ns_grants ns p then (False, ns)
      else (True, ns_put p (NsFile listener) ns))"

definition IpcServer_start :: "path \<Rightarrow> nat \<Rightarrow> name_space \<Rightarrow> bool \<times> name_space" where
  "IpcServer_start p listener ns =
     (case ensure_parent_dirs p ns of
        (False, ns) \<Rightarrow> (False, ns)
      | (True, ns) \<Rightarrow>
          (case bind_socket p listener (snd (remove_file p ns)) of
             (False, ns) \<Rightarrow> (False, ns)
           | (True, ns) \<Rightarrow> (True, ns\<lparr>ns_mode := (ns_mode ns)(listener := 384)\<rparr>)))"

definition IpcServer_drop :: "path \<Rightarrow> name_space \<Rightarrow> name_space" where
  "IpcServer_drop p ns = snd (remove_file p ns)"

definition Socket_connect :: "path \<Rightarrow> name_space \<Rightarrow> nat option" where
  "Socket_connect p ns = (case ns_follow ns p of Some (NsFile listener) \<Rightarrow> Some listener | _ \<Rightarrow> None)"

lemma make_dirs_done: "\<forall>p\<in>set ps. ns_follow ns p = Some NsDir \<Longrightarrow> make_dirs ps ns = (True, ns)"
  by (induction ps) simp_all

text \<open>Replacing the file at one place leaves the directories elsewhere.\<close>

lemma dirs_stay:
  assumes "ns_follow ns q = Some NsDir" and "resolve_path q \<noteq> resolve_path p" and "ns_at ns p \<noteq> Some NsDir"
    and "\<And>x. x \<noteq> resolve_path p \<Longrightarrow> map_of E x = map_of (ns_entries ns) x"
  shows "ns_follow (ns\<lparr>ns_entries := E, ns_mode := m\<rparr>) q = Some NsDir"
proof -
  have at: "ns_at (ns\<lparr>ns_entries := E, ns_mode := m\<rparr>) r = ns_at ns r" if "resolve_path r \<noteq> resolve_path p" for r
    using assms(4) that by (simp add: ns_at_def)
  have "resolve_path r \<noteq> resolve_path p" if "ns_at ns r = Some NsDir" for r using that assms(3) by (auto simp: ns_at_def)
  then show ?thesis using assms(1,2) at by (auto simp: ns_follow_def split: option.splits name_entry.splits)
qed

lemma make_dirs_true:
  assumes "make_dirs ps ns = (True, ns')"
  shows "(\<forall>q\<in>set ps. ns_follow ns' q = Some NsDir) \<and> ns_grants ns' = ns_grants ns \<and> (\<forall>q e. ns_follow ns q = Some e \<longrightarrow> ns_follow ns' q = Some e)"
  using assms
proof (induction ps arbitrary: ns)
  case (Cons p ps)
  show ?case
  proof (cases "ns_follow ns p = Some NsDir")
    case True
    then show ?thesis using Cons by auto
  next
    case False
    then have new: "ns_at ns p = None" "make_dirs ps (ns_put p NsDir ns) = (True, ns')"
      using Cons.prems by (auto split: option.splits name_entry.splits if_splits)
    have at: "ns_at (ns_put p NsDir ns) q = (if resolve_path q = resolve_path p then Some NsDir else ns_at ns q)" for q
      by (simp add: ns_at_def ns_put_def update_conv')
    have mono: "ns_follow (ns_put p NsDir ns) q = Some e" if "ns_follow ns q = Some e" for q e
    proof -
      have "ns_at (ns_put p NsDir ns) r = Some e'" if "ns_at ns r = Some e'" for r e'
        using that new(1) unfolding at by (auto simp: ns_at_def)
      then show ?thesis using that by (auto simp: ns_follow_def split: option.splits name_entry.splits)
    qed
    have "ns_follow (ns_put p NsDir ns) p = Some NsDir" by (simp add: ns_follow_def at)
    moreover have "ns_grants (ns_put p NsDir ns) = ns_grants ns" by (simp add: ns_put_def)
    ultimately show ?thesis using Cons.IH[OF new(2)] mono by auto
  qed
qed simp

lemma started_server:
  assumes p: "rooted p" "p \<noteq> [''/'']" and start: "IpcServer_start p l ns = (True, ns')"
  shows "ns_at ns' p = Some (NsFile l)" and "ensure_parent_dirs p ns' = (True, ns')" and "ns_follow ns' (butlast p) = Some NsDir"
    and "ns_grants ns' = ns_grants ns" and "ns_mode ns' l = 384"
proof -
  let ?par = "butlast p" and ?ps = "tl (prefixes (butlast p))"
  have ne: "p \<noteq> []" "?par \<noteq> []" "prefix ?par p" using p by (auto simp: rooted_def prefixeq_butlast split: if_splits)
  have rp: "rooted ?par" by (rule rooted_prefix[OF p(1) ne(3,2)])
  have par: "path_parent p = Some ?par" using ne(1) p(2) by (simp add: path_parent_def)
  have ps: "q \<in> set ?ps \<longleftrightarrow> q \<noteq> [] \<and> prefix q ?par" for q by (cases ?par) (auto simp: prefix_Cons)
  have ens: "ensure_parent_dirs p n = make_dirs ?ps n" for n using rp by (simp add: ensure_parent_dirs_def par create_dir_all_def)
  obtain nd where nd: "make_dirs ?ps ns = (True, nd)" using start by (auto simp: IpcServer_start_def ens split: prod.splits bool.splits)
  note dirs = make_dirs_true[OF nd]
  have bound: "ns_at nd p \<noteq> Some NsDir" "\<And>x. x \<noteq> resolve_path p \<Longrightarrow> map_of (ns_entries ns') x = map_of (ns_entries nd) x"
    "map_of (ns_entries ns') p = Some (NsFile l)" "ns' = nd\<lparr>ns_entries := ns_entries ns', ns_mode := (ns_mode nd)(l := 384)\<rparr>"
    using start p(1) by (auto simp: IpcServer_start_def ens nd bind_socket_def remove_file_def ns_put_def ns_at_def update_conv' delete_conv'
        split: if_splits)
  have other: "resolve_path q \<noteq> resolve_path p" if "q \<in> set ?ps" for q
  proof -
    have "q \<noteq> []" "prefix q ?par" using that by (simp_all add: ps)
    then have "rooted q" "length q \<le> length ?par" using prefix_length_le[of q ?par] by (auto intro: rooted_prefix[OF rp] simp del: length_butlast)
    moreover have "length ?par < length p" using ne(1) by simp
    ultimately have "q \<noteq> p" by auto
    then show ?thesis using p(1) \<open>rooted q\<close> by simp
  qed
  have keep: "ns_follow ns' q = Some NsDir" if "q \<in> set ?ps" for q
    by (subst bound(4)) (rule dirs_stay[OF _ other[OF that] bound(1,2)], use dirs that in auto)
  have "ns_mode ns' = (ns_mode nd)(l := 384)" "ns_grants ns' = ns_grants nd" by (subst bound(4), simp)+
  then show "ns_at ns' p = Some (NsFile l)" "ns_mode ns' l = 384" "ns_grants ns' = ns_grants ns" using bound(3) dirs p(1) by (simp_all add: ns_at_def)
  show "ensure_parent_dirs p ns' = (True, ns')" unfolding ens by (rule make_dirs_done) (use keep in blast)
  show "ns_follow ns' ?par = Some NsDir" by (rule keep) (use ne in \<open>simp add: ps\<close>)
qed

subsection \<open>Properties\<close>

text \<open>A second daemon takes the socket of the first, and the first takes it away again. Starting
  removes whatever is at the path before binding, so a second start succeeds while the first daemon
  runs, and clients reach the second; when the first ends, its \<open>drop\<close> removes the path without looking
  whose socket is there, and no client reaches the daemon that is still running.\<close>

lemma second_daemon_loses_socket:
  assumes p: "rooted p" "p \<noteq> [''/'']" and may: "\<forall>q. ns_grants ns q" and start: "IpcServer_start p first ns = (True, ns1)"
  shows "\<exists>ns2. IpcServer_start p second ns1 = (True, ns2) \<and> Socket_connect p ns1 = Some first \<and> Socket_connect p ns2 = Some second
     \<and> Socket_connect p (IpcServer_drop p ns2) = None"
proof -
  note s1 = started_server[OF p start]
  let ?E = "AList.delete p (ns_entries ns1)"
  have "resolve_path (butlast p) \<noteq> resolve_path p"
  proof -
    have "rooted (butlast p)" using p by (intro rooted_prefix[OF p(1) prefixeq_butlast]) (auto simp: rooted_def split: if_splits)
    moreover have "butlast p \<noteq> p" using p by (metis append_butlast_last_id append_self_conv butlast.simps(1) list.distinct(1) rooted_def)
    ultimately show ?thesis using p(1) by simp
  qed
  then have "ns_follow (ns1\<lparr>ns_entries := ?E, ns_mode := ns_mode ns1\<rparr>) (butlast p) = Some NsDir"
    by (rule dirs_stay[OF s1(3)]) (use s1(1) p(1) in \<open>simp_all add: delete_conv'\<close>)
  then have par: "ns_follow (ns1\<lparr>ns_entries := ?E\<rparr>) (butlast p) = Some NsDir" by simp
  have "remove_file p ns1 = (True, ns1\<lparr>ns_entries := ?E\<rparr>)" using s1(1,4) may p(1) by (simp add: remove_file_def)
  then obtain ns2 where s2: "IpcServer_start p second ns1 = (True, ns2)"
    using par s1(2,4) may p(1) by (simp add: IpcServer_start_def bind_socket_def ns_at_def delete_conv')
  note t = started_server[OF p s2]
  have "Socket_connect p ns1 = Some first" "Socket_connect p ns2 = Some second" using s1(1) t(1) by (simp_all add: Socket_connect_def ns_follow_def)
  moreover have "Socket_connect p (IpcServer_drop p ns2) = None"
    using t(1,4) s1(4) may p(1) by (simp add: Socket_connect_def ns_follow_def IpcServer_drop_def remove_file_def ns_at_def delete_conv')
  ultimately show ?thesis using s2 by blast
qed

text \<open>C31: the status a client follows over the socket is the daemon's. A client that asks for the
  torrents, subscribes and reads lines until the daemon closes shows every torrent of the daemon in
  its state, whatever was emitted meanwhile, as long as it did not fall behind by more than the
  channel holds, no torrent is added while listed, events are emitted one at a time, and between the
  question and the subscription no torrent was added or removed.\<close>

theorem followed_status_is_the_daemons:
  assumes json: "json_ok json"
    and wf: "ipc_wf (hb_state hb)" and gap: "only_changes g" and fresh: "fresh_adds (hb_state hb) (g @ d @ emitted as)"
    and hb1: "hb1 = foldl (\<lambda>hb e. send_event e hb) hb g" and hb2: "hb2 = foldl (\<lambda>hb e. send_event e hb) hb1 d"
    and run: "foldl stream_step (hb2, stream_snapshot None hb2 (stream_subscribe hb1)) as = (hb', ec)"
    and upto: "ec_end ec = StreamOpen" "ec_pos ec = length (hb_log hb')"
    and srv: "is_state srv = hb_state hb"
  shows "\<exists>torrents. handle_status json True (daemon_far env hex_decode json [] srv) True (daemon_far env hex_decode json (ec_lines ec) srv') None = Some torrents
     \<and> listed torrents = shown (hb_state hb')"
proof -
  obtain events where "ec_lines ec = map EventLine events" "listed (foldl (status_event None) (map snd (hb_state hb)) events) = shown (hb_state hb')"
    using stream_converges[OF wf gap fresh hb1 hb2 run upto] by blast
  then show ?thesis using status_over_socket[OF json, of env hex_decode srv events srv'] by (simp add: srv)
qed

subsection \<open>A text format that keeps its promises\<close>

instance ipc_request :: countable by countable_datatype

instance ipc_torrent_state :: countable by countable_datatype

instance ipc_event :: countable by countable_datatype

instance ipc_torrent_ext :: (countable) countable
proof
  show "\<exists>f :: 'a ipc_torrent_scheme \<Rightarrow> nat. inj f"
    by (rule exI[of _ "\<lambda>t. to_nat (it_info_hash t, it_name t, it_state t, ipc_torrent.more t)"], rule injI) simp
qed

instance ipc_response :: countable by countable_datatype

instance torrent_error :: countable by countable_datatype

instance bit_torrent_error :: countable by countable_datatype

instance chunk_handler_error :: countable by countable_datatype

instance session_error :: countable by countable_datatype

instance session_manager_error :: countable by countable_datatype

instance bqti_error :: countable by countable_datatype

instance ipc_failure :: countable by countable_datatype

instance ipc_reply :: countable by countable_datatype

definition tally :: "'a :: countable \<Rightarrow> string" where
  "tally x = replicate (to_nat x) CHR ''x''"

definition of_tally :: "string \<Rightarrow> ('a :: countable) option" where
  "of_tally s = (if CHR ''y'' \<in> set s then None else Some (from_nat (length s - 1)))"

definition tally_json :: ipc_json where
  "tally_json = \<lparr>j_request = tally, j_request_of = of_tally, j_reply = tally, j_reply_of = of_tally, j_event = tally, j_event_of = of_tally, j_lagged = (\<lambda>_. ''y'')\<rparr>"

lemma tally_plain: "newline \<notin> set (tally x)" "of_tally (tally x @ [newline]) = Some x"
  by (simp_all add: tally_def of_tally_def newline_def)

lemma tally_json_ok: "json_ok tally_json"
  by (simp add: json_ok_def tally_json_def tally_plain) (simp add: of_tally_def newline_def)

theorem followed_status_is_the_daemons_witness:
  "\<exists>lines torrents. handle_status tally_json True (daemon_far sample_denv (\<lambda>_. None) tally_json [] (loading_server\<lparr>is_state := hb_state sample_hub\<rparr>))
       True (daemon_far sample_denv (\<lambda>_. None) tally_json lines loading_server) None = Some torrents
     \<and> listed torrents ''b'' = Some IpcPaused"
proof -
  let ?as = "[Pulled Written, Emitted (SessionStateChanged ''b'' ''m'' IpcPaused), Pulled Written]"
  let ?hb2 = "send_event (TorrentAdded ''b'' ''m'' IpcPending) sample_hub"
  obtain hb' ec' where run: "foldl stream_step (?hb2, stream_snapshot None ?hb2 (stream_subscribe sample_hub)) ?as = (hb', ec')"
    by fastforce
  have upto: "ec_end ec' = StreamOpen" "ec_pos ec' = length (hb_log hb')" and last: "shown (hb_state hb') ''b'' = Some IpcPaused"
    using run by (auto simp: stream_snapshot_def stream_subscribe_def stream_next_def bc_recv_def sample_hub_def EVENT_STREAM_BUFFER_SIZE_def shown_def)
  show ?thesis
    using followed_status_is_the_daemons[OF tally_json_ok _ _ _ _ _ run upto, of sample_hub "[]" "[TorrentAdded ''b'' ''m'' IpcPending]"
        "loading_server\<lparr>is_state := hb_state sample_hub\<rparr>" sample_denv "\<lambda>_. None" loading_server] last
    by (intro exI[of _ "ec_lines ec'"]) (auto simp: ipc_wf_def only_changes_def sample_hub_def)
qed

text \<open>A client that lagged is told so in a line that is not an event, and following the status fails.\<close>

lemma lagging_status_fails:
  assumes "json_ok json"
  shows "handle_status json True (daemon_far env hex_decode json [] srv) True (daemon_far env hex_decode json (map EventLine es @ [LagLine n]) srv') None = None"
  using send_to_daemon[OF assms, of env hex_decode ReqTorrents srv] send_to_daemon[OF assms, of env hex_decode ReqEventStream srv']
    status_loop_events[OF assms, of None _ es "[LagLine n]" False] status_loop_lagged[OF assms]
  by (simp add: handle_status_def client_ipc_def client_event_stream_def status_start_def)

text \<open>A stream that breaks yields errors without end; the client's loops stop at the first.\<close>

lemma broken_stream_repeats_errors: "event_stream_next json \<lparr>in_text = [], in_broken = True\<rparr> = Some (ItemError, \<lparr>in_text = [], in_broken = True\<rparr>)"
  by (simp add: event_stream_next_def read_line_def)

text \<open>An instance name with a slash moves the socket to another directory.\<close>

lemma default_socket: "socket_path None None ''1000'' = [''/'', ''run'', ''user'', ''1000'', ''bqti'', ''default.sock'']"
  by (simp add: socket_path_def push_path_def starts_at_root_def)

end
