(* ===== verification/Discovery.thy ===== *)
theory Discovery
  imports BepRouter Pex Join I2p
begin

text \<open>
  Finding peers: \<open>dht_bootstrap\<close> and the task of \<open>start_peer_discovery\<close> in \<open>session/bep/router.rs\<close>,
  \<open>announce\<close> and \<open>get_peers\<close> of \<open>dht/mod.rs\<close> on a running node, and the interest prober of
  \<open>session/session.rs\<close>. One turn of the task is one branch of its \<open>select!\<close>; every turn has its own
  environment: what the network answers, what the exchange table holds, the order in which the hash
  sets are walked and in which concurrent joins end. Attempts still running when one ends are
  dropped by the code and not listed by \<open>ye_completion\<close>. A panic or a search without end is \<open>None\<close>.
\<close>

subsection \<open>Environment and state\<close>

record ('k, 's, 'w, 'm) discovery_env =
  ye_fuel :: nat
  ye_dht :: "('k, 's) dht_env"
  ye_transport :: "'w transport"
  ye_resp :: "node \<Rightarrow> kademlia_error + dht_response"
  ye_store_resp :: "node \<Rightarrow> kademlia_error + dht_response"
  ye_pick :: "node list \<Rightarrow> nat"
  ye_order :: "node list \<Rightarrow> node list"
  ye_i2p :: "((bytes \<Rightarrow> sam_error + bytes) \<times> string) option"
  ye_resolver :: "'m \<Rightarrow> bytes \<Rightarrow> (sock_addr option \<times> 'm) option"
  ye_show :: "sock_addr \<Rightarrow> string"
  ye_completion :: "torrent_addr list \<Rightarrow> torrent_addr list"
  ye_iterate :: "string set \<Rightarrow> string list"
  ye_router :: router_env
  ye_dial :: "sock_addr \<Rightarrow> dial_outcome"
  ye_pex :: pex_router

record ('k, 's, 'w, 'm) discovery =
  dy_session :: torrent_session
  dy_out :: outbox
  dy_client :: "('k, 's, 'w) dht_client"
  dy_names :: 'm
  dy_rebootstrap :: bool

text \<open>\<open>BepRouter::new\<close>: \<open>leaf\<close> is the certificate derived for the router and \<open>local_addr\<close> the address of
  the endpoint, \<open>None\<close> where that fails. The result is the host.\<close>

definition BepRouter_new :: "signer option \<Rightarrow> sock_addr option \<Rightarrow> bep_router_error + bytes \<times> sock_addr" where
  "BepRouter_new leaf local_addr =
     (case leaf of
        None \<Rightarrow> Inl CertErr
      | Some bep_certificate \<Rightarrow>
          (case local_addr of None \<Rightarrow> Inl ConnectionManagerErr | Some addr \<Rightarrow> Inr (signer_pub_key bep_certificate, addr)))"

subsection \<open>Bootstrapping\<close>

fun contains_str :: "string \<Rightarrow> string \<Rightarrow> bool" where
  "contains_str [] pat \<longleftrightarrow> pat = []"
| "contains_str (c # cs) pat \<longleftrightarrow> prefix pat (c # cs) \<or> contains_str cs pat"

fun addr_show :: "(sock_addr \<Rightarrow> string) \<Rightarrow> torrent_addr \<Rightarrow> string" where
  "addr_show show (Ip addr) = show addr"
| "addr_show show (I2P dest) = dest"

text \<open>The name to resolve: on an I2P endpoint a short address is looked up first, and the attempt
  ends when the bridge does not know it.\<close>

definition bootstrap_target :: "('k, 's, 'w, 'm) discovery_env \<Rightarrow> torrent_addr \<Rightarrow> bytes option" where
  "bootstrap_target env addr =
     (let target_addr = addr_show (ye_show env) addr
      in case ye_i2p env of
           Some (exchange, _) \<Rightarrow>
             if contains_str target_addr ''b32.i2p''
             then (case sam_lookup exchange (ascii target_addr) of Inl _ \<Rightarrow> None | Inr dest \<Rightarrow> Some dest)
             else Some (ascii target_addr)
         | None \<Rightarrow> Some (ascii target_addr))"

fun bootstrap_attempts ::
  "('k, 's, 'w, 'm) discovery_env \<Rightarrow> torrent_addr list \<Rightarrow> ('k, 's, 'w) dht_client \<Rightarrow> 'm
     \<Rightarrow> (bool \<times> ('k, 's, 'w) dht_client \<times> 'm) option" where
  "bootstrap_attempts env [] cl m = Some (False, cl, m)"
| "bootstrap_attempts env (addr # addrs) cl m =
     (case bootstrap_target env addr of
        None \<Rightarrow> bootstrap_attempts env addrs cl m
      | Some target_addr \<Rightarrow>
          (case resolve_address (ye_resolver env m) m target_addr of
             None \<Rightarrow> None
           | Some (None, m) \<Rightarrow> bootstrap_attempts env addrs cl m
           | Some (Some addr_solved, m) \<Rightarrow>
               (case join_network (ye_fuel env) (ye_resp env) (ye_pick env) (ye_transport env) (ye_dht env)
                       (bootstrap_node (e_sha256 (ye_dht env)) addr_solved) cl of
                  None \<Rightarrow> None
                | Some (_, cl) \<Rightarrow> Some (True, cl, m))))"

definition dht_bootstrap ::
  "('k, 's, 'w, 'm) discovery_env \<Rightarrow> torrent_addr list \<Rightarrow> ('k, 's, 'w) dht_client \<Rightarrow> 'm
     \<Rightarrow> (bool \<times> ('k, 's, 'w) dht_client \<times> 'm) option" where
  "dht_bootstrap env addrs cl m = bootstrap_attempts env (ye_completion env addrs) cl m"

subsection \<open>Peers in the DHT\<close>

fun resolve_peers ::
  "('m \<Rightarrow> bytes \<Rightarrow> (sock_addr option \<times> 'm) option) \<Rightarrow> string list \<Rightarrow> 'm \<Rightarrow> (sock_addr list \<times> 'm) option" where
  "resolve_peers resolver [] m = Some ([], m)"
| "resolve_peers resolver (b64 # ps) m =
     (case resolver m (ascii b64) of
        None \<Rightarrow> None
      | Some (r, m) \<Rightarrow> map_option (\<lambda>(addrs, m). (case r of None \<Rightarrow> addrs | Some a \<Rightarrow> a # addrs, m)) (resolve_peers resolver ps m))"

definition dht_get_peers ::
  "('k, 's, 'w, 'm) discovery_env \<Rightarrow> key \<Rightarrow> ('k, 's, 'w) dht_client \<Rightarrow> 'm
     \<Rightarrow> ((kademlia_error + sock_addr list) \<times> ('k, 's, 'w) dht_client \<times> 'm) option" where
  "dht_get_peers env info_hash cl m =
     (case find_value (ye_fuel env) (e_sha256 (ye_dht env)) (ye_resp env) (ye_pick env) (kd_routes (cl_kd cl)) info_hash of
        None \<Rightarrow> None
      | Some (found_data, rt) \<Rightarrow>
          let cl = cl\<lparr>cl_kd := (cl_kd cl)\<lparr>kd_routes := rt\<rparr>\<rparr>
          in (case found_data of
                Some (I2Peers peers) \<Rightarrow>
                  map_option (\<lambda>(addrs, m). (Inr addrs, cl, m)) (resolve_peers (ye_resolver env) (ye_iterate env peers) m)
              | Some (DataPeers peers) \<Rightarrow> Some (Inr (sorted_list_of_set peers), cl, m)
              | _ \<Rightarrow> Some (Inl NoValue, cl, m)))"

definition dht_announce ::
  "('k, 's, 'w, 'm) discovery_env \<Rightarrow> key \<Rightarrow> ('k, 's, 'w) dht_client \<Rightarrow> ('k, 's, 'w) dht_client option" where
  "dht_announce env info_hash cl =
     map_option (\<lambda>kd. cl\<lparr>cl_kd := kd\<rparr>)
       (kd_store_value (ye_fuel env) (ye_dht env) (ye_resp env) (ye_store_resp env) (ye_pick env) (ye_order env) (cl_kd cl) info_hash
          (announce_data (map_option snd (ye_i2p env)) (node_addr (rt_host (kd_routes (cl_kd cl))))))"

subsection \<open>The discovery task\<close>

datatype discovery_tick = RebootstrapTick | DiscoveryTick | AnnounceTick | PexTick

definition dht_nodes :: "torrent_session \<Rightarrow> torrent_addr list option" where
  "dht_nodes s = tc_dht_nodes (torrent_common_of (ts_metadata s))"

definition rebootstrap_turn ::
  "('k, 's, 'w, 'm) discovery_env \<Rightarrow> ('k, 's, 'w, 'm) discovery \<Rightarrow> ('k, 's, 'w, 'm) discovery option" where
  "rebootstrap_turn env dy =
     (case dht_nodes (dy_session dy) of
        None \<Rightarrow> Some (dy\<lparr>dy_rebootstrap := False\<rparr>)
      | Some bootstrap_nodes \<Rightarrow>
          map_option (\<lambda>(ok, cl, m). dy\<lparr>dy_client := cl, dy_names := m, dy_rebootstrap := \<not> ok\<rparr>)
            (dht_bootstrap env bootstrap_nodes (dy_client dy) (dy_names dy)))"

definition add_found ::
  "('k, 's, 'w, 'm) discovery_env \<Rightarrow> sock_addr list \<Rightarrow> ('k, 's, 'w, 'm) discovery \<Rightarrow> ('k, 's, 'w, 'm) discovery" where
  "add_found env peers dy =
     (case add_discovered_peers (ye_router env) (ye_dial env) peers (dy_session dy) (dy_out dy) of
        (s, out) \<Rightarrow> dy\<lparr>dy_session := s, dy_out := out\<rparr>)"

definition discovery_turn ::
  "('k, 's, 'w, 'm) discovery_env \<Rightarrow> key \<Rightarrow> ('k, 's, 'w, 'm) discovery \<Rightarrow> ('k, 's, 'w, 'm) discovery option" where
  "discovery_turn env info_hash dy =
     (case dht_get_peers env info_hash (dy_client dy) (dy_names dy) of
        None \<Rightarrow> None
      | Some (r, cl, m) \<Rightarrow>
          let peers = (case r of Inr p \<Rightarrow> p | Inl _ \<Rightarrow> []);
              dy = dy\<lparr>dy_client := cl, dy_names := m, dy_rebootstrap := peers = []\<rparr>
          in Some (if peers = [] then dy else add_found env peers dy))"

definition announce_turn ::
  "('k, 's, 'w, 'm) discovery_env \<Rightarrow> key \<Rightarrow> ('k, 's, 'w, 'm) discovery \<Rightarrow> ('k, 's, 'w, 'm) discovery option" where
  "announce_turn env info_hash dy =
     (if current_mode (ts_state (dy_session dy)) \<noteq> ModeSeeding then Some dy
      else map_option (\<lambda>cl. dy\<lparr>dy_client := cl\<rparr>) (dht_announce env info_hash (dy_client dy)))"

definition pex_turn :: "('k, 's, 'w, 'm) discovery_env \<Rightarrow> key \<Rightarrow> ('k, 's, 'w, 'm) discovery \<Rightarrow> ('k, 's, 'w, 'm) discovery" where
  "pex_turn env info_hash dy =
     (let pex_peers = pex_get_peers (ye_pex env) info_hash
      in if pex_peers = [] then dy else add_found env pex_peers dy)"

text \<open>The guards of the branches, and the branch taken.\<close>

fun tick_enabled :: "bool \<Rightarrow> ('k, 's, 'w, 'm) discovery \<Rightarrow> discovery_tick \<Rightarrow> bool" where
  "tick_enabled private dy RebootstrapTick \<longleftrightarrow> dy_rebootstrap dy"
| "tick_enabled private dy PexTick \<longleftrightarrow> \<not> private"
| "tick_enabled private dy _ \<longleftrightarrow> True"

fun take_turn ::
  "key \<Rightarrow> ('k, 's, 'w, 'm) discovery_env \<Rightarrow> discovery_tick \<Rightarrow> ('k, 's, 'w, 'm) discovery \<Rightarrow> ('k, 's, 'w, 'm) discovery option" where
  "take_turn info_hash env RebootstrapTick dy = rebootstrap_turn env dy"
| "take_turn info_hash env DiscoveryTick dy = discovery_turn env info_hash dy"
| "take_turn info_hash env AnnounceTick dy = announce_turn env info_hash dy"
| "take_turn info_hash env PexTick dy = Some (pex_turn env info_hash dy)"

text \<open>The loop. A turn says whether anything else still owns the session, and \<open>own\<close> whether the task
  itself does; the router is owned by the session. The result says whether the task has ended.\<close>

type_synonym ('k, 's, 'w, 'm) turn = "bool \<times> ('k, 's, 'w, 'm) discovery_env \<times> discovery_tick"

fun discovery_loop ::
  "bool \<Rightarrow> bool \<Rightarrow> key \<Rightarrow> ('k, 's, 'w, 'm) turn list \<Rightarrow> ('k, 's, 'w, 'm) discovery \<Rightarrow> (bool \<times> ('k, 's, 'w, 'm) discovery) option" where
  "discovery_loop own private info_hash [] dy = Some (False, dy)"
| "discovery_loop own private info_hash ((owned, env, tick) # turns) dy =
     (if \<not> own \<and> \<not> owned then Some (True, dy)
      else if \<not> tick_enabled private dy tick then discovery_loop own private info_hash turns dy
      else case take_turn info_hash env tick dy of
             None \<Rightarrow> None
           | Some dy \<Rightarrow> discovery_loop own private info_hash turns dy)"

text \<open>The whole task. The reference it takes at the start lives as long as the task.\<close>

definition start_peer_discovery ::
  "('k, 's, 'w, 'm) discovery_env \<Rightarrow> ('k, 's, 'w, 'm) turn list \<Rightarrow> ('k, 's, 'w, 'm) discovery
     \<Rightarrow> (bool \<times> ('k, 's, 'w, 'm) discovery) option" where
  "start_peer_discovery env turns dy =
     (let run = (\<lambda>dy. discovery_loop True (is_private (ts_metadata (dy_session dy)))
                   (Key_new (e_sha256 (ye_dht env)) (info_hash_bytes (torrent_info_hash (ts_metadata (dy_session dy))))) turns
                   (dy\<lparr>dy_rebootstrap := False\<rparr>))
      in case dht_nodes (dy_session dy) of
           None \<Rightarrow> run dy
         | Some bootstrap_nodes \<Rightarrow>
             (case dht_bootstrap env bootstrap_nodes (dy_client dy) (dy_names dy) of
                None \<Rightarrow> None
              | Some (_, cl, m) \<Rightarrow> run (dy\<lparr>dy_client := cl, dy_names := m\<rparr>)))"

subsection \<open>The interest prober\<close>

definition probe_peer :: "router_env \<Rightarrow> torrent_session \<times> outbox \<Rightarrow> sock_addr \<times> peer_state \<Rightarrow> torrent_session \<times> outbox" where
  "probe_peer env = (\<lambda>(s, out) (peer, state).
     case state of
       Active p \<Rightarrow>
         (case evaluate_interest (ts_bitfield s) p of
            (interested, p) \<Rightarrow> (put_pipeline peer p s, if interested then snd (bep_send env peer Interested out) else out))
     | _ \<Rightarrow> (s, out))"

definition probe_interest :: "router_env \<Rightarrow> torrent_session \<Rightarrow> outbox \<Rightarrow> torrent_session \<times> outbox" where
  "probe_interest env s out = foldl (probe_peer env) (s, out) (ts_peers s)"

subsection \<open>Greeting found peers\<close>

definition greeting :: "router_env \<Rightarrow> torrent_session \<Rightarrow> standard_message" where
  "greeting env s = Handshake (info_hash_bytes (torrent_info_hash (ts_metadata s))) (re_host_id env)"

definition greetable :: "router_env \<Rightarrow> (sock_addr \<Rightarrow> dial_outcome) \<Rightarrow> torrent_session \<Rightarrow> sock_addr \<Rightarrow> bool" where
  "greetable env dial s a \<longleftrightarrow> dial a = Dialed \<and> re_connected env a \<and> re_encodes env (greeting env s) \<and> map_of (ts_peers s) a = None"

lemma discover_one:
  assumes "discover_peer env dial (s, out) a = (s', out')"
  shows "ts_metadata s' = ts_metadata s"
    and "map_of (ts_peers s') b = (if b = a \<and> greetable env dial s a then Some (Pending (re_host_id env) True) else map_of (ts_peers s) b)"
    and "out' = out @ (if greetable env dial s a then [(a, greeting env s)] else [])"
    and "s'\<lparr>ts_peers := ts_peers s\<rparr> = s"
  using assms
  by (auto simp: discover_peer_def handshake_def bep_send_def insert_pending_def terminate_with_def greetable_def greeting_def
      update_conv' delete_conv' Let_def split: if_splits)

lemma discover_all:
  assumes "distinct ps" and "foldl (discover_peer env dial) (s, out) ps = (s', out')"
  shows "map_of (ts_peers s') a = (if a \<in> set ps \<and> greetable env dial s a then Some (Pending (re_host_id env) True) else map_of (ts_peers s) a)"
    and "out' = out @ map (\<lambda>a. (a, greeting env s)) (filter (greetable env dial s) ps)"
    and "s'\<lparr>ts_peers := ts_peers s\<rparr> = s"
proof -
  have "map_of (ts_peers s') a = (if a \<in> set ps \<and> greetable env dial s a then Some (Pending (re_host_id env) True) else map_of (ts_peers s) a) \<and>
    out' = out @ map (\<lambda>a. (a, greeting env s)) (filter (greetable env dial s) ps) \<and> s'\<lparr>ts_peers := ts_peers s\<rparr> = s"
    using assms
  proof (induction ps arbitrary: s out)
    case (Cons p ps)
    obtain s1 out1 where one: "discover_peer env dial (s, out) p = (s1, out1)" by fastforce
    note d = discover_one[OF one]
    have g: "greeting env s1 = greeting env s" using d(1) by (simp add: greeting_def)
    have same: "greetable env dial s1 b = greetable env dial s b" if "b \<noteq> p" for b
      using that d(2)[of b] g by (simp add: greetable_def)
    have filt: "filter (greetable env dial s1) ps = filter (greetable env dial s) ps"
      by (rule filter_cong[OF refl], rule same) (use Cons.prems(1) in auto)
    have rest: "foldl (discover_peer env dial) (s1, out1) ps = (s', out')" using Cons.prems(2) one by simp
    have "s'\<lparr>ts_peers := ts_peers s\<rparr> = s"
      using Cons.IH[OF _ rest] Cons.prems(1) d(4) by (cases s, cases s1, cases s') simp
    then show ?case
      using Cons.IH[OF _ rest] Cons.prems(1) d(2)[of a] d(3) g filt same[of a] by auto
  qed auto
  then show "map_of (ts_peers s') a = (if a \<in> set ps \<and> greetable env dial s a then Some (Pending (re_host_id env) True) else map_of (ts_peers s) a)"
    "out' = out @ map (\<lambda>a. (a, greeting env s)) (filter (greetable env dial s) ps)" "s'\<lparr>ts_peers := ts_peers s\<rparr> = s"
    by blast+
qed

lemma distinct_remdups_adj_sorted: "sorted xs \<Longrightarrow> distinct (remdups_adj xs)" for xs :: "'a::linorder list"
  by (induction xs rule: remdups_adj.induct) (auto simp: less_le)

lemma add_found_greets:
  assumes "dy' = add_found env peers dy" and "peers \<noteq> []"
  shows "map_of (ts_peers (dy_session dy')) a =
      (if a \<in> set peers \<and> greetable (ye_router env) (ye_dial env) (dy_session dy) a then Some (Pending (re_host_id (ye_router env)) True)
       else map_of (ts_peers (dy_session dy)) a)"
    and "dy_out dy' = dy_out dy @ map (\<lambda>a. (a, greeting (ye_router env) (dy_session dy)))
        (filter (greetable (ye_router env) (ye_dial env) (dy_session dy)) (remdups_adj (sort peers)))"
    and "(dy_session dy')\<lparr>ts_peers := ts_peers (dy_session dy)\<rparr> = dy_session dy"
    and "dy_rebootstrap dy' = dy_rebootstrap dy" "dy_client dy' = dy_client dy" "dy_names dy' = dy_names dy"
proof -
  obtain s' out' where fold: "foldl (discover_peer (ye_router env) (ye_dial env)) (dy_session dy, dy_out dy) (remdups_adj (sort peers)) = (s', out')"
    by fastforce
  then have dy': "dy' = dy\<lparr>dy_session := s', dy_out := out'\<rparr>" using assms by (simp add: add_found_def add_discovered_peers_def)
  note all = discover_all[OF distinct_remdups_adj_sorted[OF sorted_sort] fold]
  show "map_of (ts_peers (dy_session dy')) a =
      (if a \<in> set peers \<and> greetable (ye_router env) (ye_dial env) (dy_session dy) a then Some (Pending (re_host_id (ye_router env)) True)
       else map_of (ts_peers (dy_session dy)) a)" using all(1)[of a] by (simp add: dy')
  show "dy_out dy' = dy_out dy @ map (\<lambda>a. (a, greeting (ye_router env) (dy_session dy)))
        (filter (greetable (ye_router env) (ye_dial env) (dy_session dy)) (remdups_adj (sort peers)))" using all(2) by (simp add: dy')
  show "(dy_session dy')\<lparr>ts_peers := ts_peers (dy_session dy)\<rparr> = dy_session dy" using all(3) by (simp add: dy')
qed (use assms in \<open>simp_all add: add_found_def split: prod.split\<close>)

subsection \<open>Turns do not look at the exchange table, but for its own\<close>

lemma bootstrap_attempts_pex [simp]:
  "bootstrap_attempts (env\<lparr>ye_pex := p\<rparr>) addrs cl m = bootstrap_attempts env addrs cl m"
proof (induction addrs arbitrary: cl m)
  case (Cons a addrs)
  have "bootstrap_target (env\<lparr>ye_pex := p\<rparr>) a = bootstrap_target env a" by (simp add: bootstrap_target_def)
  then show ?case using Cons.IH by (simp split: option.split prod.split)
qed simp

lemma turn_parts_pex [simp]:
  "add_found (env\<lparr>ye_pex := p\<rparr>) = add_found env" "dht_get_peers (env\<lparr>ye_pex := p\<rparr>) = dht_get_peers env"
  "dht_announce (env\<lparr>ye_pex := p\<rparr>) = dht_announce env" "dht_bootstrap (env\<lparr>ye_pex := p\<rparr>) = dht_bootstrap env"
  unfolding fun_eq_iff
  by (simp_all add: add_found_def dht_get_peers_def dht_announce_def dht_bootstrap_def Let_def split: option.split kademlia_data.split)

lemma take_turn_pex: "tick \<noteq> PexTick \<Longrightarrow> take_turn k (env\<lparr>ye_pex := p\<rparr>) tick dy = take_turn k env tick dy"
  by (cases tick) (simp_all add: rebootstrap_turn_def discovery_turn_def announce_turn_def Let_def split: option.split)

fun other_exchange ::
  "(('k, 's, 'w, 'm) discovery_env \<Rightarrow> pex_router) \<Rightarrow> ('k, 's, 'w, 'm) turn \<Rightarrow> ('k, 's, 'w, 'm) turn" where
  "other_exchange f (owned, env, tick) = (owned, env\<lparr>ye_pex := f env\<rparr>, tick)"

lemma private_loop_pex: "discovery_loop own True k (map (other_exchange f) turns) dy = discovery_loop own True k turns dy"
proof (induction turns arbitrary: dy)
  case (Cons t turns)
  obtain owned env tick where t: "t = (owned, env, tick)" by (cases t)
  show ?case
    using Cons.IH by (cases "tick = PexTick"; cases own) (simp_all add: t take_turn_pex split: option.split)
qed simp

subsection \<open>The loop keeps the session\<close>

lemma add_found_session: "dy_session dy = s \<Longrightarrow> (dy_session (add_found env peers dy))\<lparr>ts_peers := ts_peers s\<rparr> = s"
  using add_found_greets(3)[OF refl, of peers dy env] by (cases "peers = []") (auto simp: add_found_def add_discovered_peers_def)

lemma take_turn_session:
  assumes "take_turn k env tick dy = Some dy'"
  shows "(dy_session dy')\<lparr>ts_peers := ts_peers (dy_session dy)\<rparr> = dy_session dy"
  using assms
  by (cases tick) (auto simp: add_found_session rebootstrap_turn_def discovery_turn_def announce_turn_def pex_turn_def Let_def split: option.splits if_splits sum.splits)

subsection \<open>Properties\<close>

text \<open>C13: a peer that was announced and can be reached is found and greeted. The nodes that answers
  mention are finitely many, and the contacts of the well-formed routing table are among them; one
  of the closest contacts of the table holds a value for the torrent, fewer than \<open>KBUCKET_MAX\<close> nodes
  are nearer to the key than that contact, distances do not collide, and whatever values are held
  contain the address. The address is not in the session yet, dialing it succeeds and leaves a
  connection, and the handshake of the torrent can be encoded. Then one discovery turn of the
  task ends, however the answers are ordered, enters the peer into the session as contacted by us,
  sends it the handshake of the torrent, and switches the repeated bootstrapping off.\<close>

theorem announced_peer_is_greeted:
  assumes H: "H = e_sha256 (ye_dht env)" and rt: "rt = kd_routes (cl_kd (dy_client dy))" and fuel: "ye_fuel env = Suc (4 * card U)"
    and wf: "rt_wf H rt" and cw: "closed_world (ye_resp env) U" and known: "node_id ` set (rt_nodes rt) \<subseteq> U" and inj: "inj_on (dist_to H k) U"
    and near: "card {j \<in> U. j \<noteq> i \<and> dist_to H k j \<le> dist_to H k i} < KBUCKET_MAX"
    and contact: "i \<in> node_id ` set (get_closest_nodes H rt k KBUCKET_MAX)"
    and holds: "\<forall>n. node_id n = i \<longrightarrow> (\<exists>v. ye_resp env n = Inr (ValueResp i v))"
    and vals: "\<forall>m v. ye_resp env m = Inr (ValueResp (node_id m) v) \<longrightarrow> (\<exists>P. v = DataPeers P \<and> finite P \<and> a \<in> P)"
    and reach: "ye_dial env a = Dialed" "re_connected (ye_router env) a" "re_encodes (ye_router env) (greeting (ye_router env) (dy_session dy))"
      "map_of (ts_peers (dy_session dy)) a = None"
  shows "\<exists>dy'. take_turn k env DiscoveryTick dy = Some dy' \<and> \<not> dy_rebootstrap dy' \<and>
     map_of (ts_peers (dy_session dy')) a = Some (Pending (re_host_id (ye_router env)) True) \<and>
     (a, greeting (ye_router env) (dy_session dy)) \<in> set (dy_out dy')"
proof -
  obtain v rt' m where found: "find_value (ye_fuel env) H (ye_resp env) (ye_pick env) rt k = Some (Some v, rt')"
    and "ye_resp env m = Inr (ValueResp (node_id m) v)"
    using find_value_finds[OF wf cw known inj near contact holds, of "ye_pick env"] fuel by auto
  then obtain P where P: "v = DataPeers P" "finite P" "a \<in> P" using vals by blast
  define cl' where "cl' = (dy_client dy)\<lparr>cl_kd := (cl_kd (dy_client dy))\<lparr>kd_routes := rt'\<rparr>\<rparr>"
  define dy1 where "dy1 = dy\<lparr>dy_client := cl', dy_rebootstrap := False\<rparr>"
  have peers: "sorted_list_of_set P \<noteq> []" "set (sorted_list_of_set P) = P" using P by auto
  have "dht_get_peers env k (dy_client dy) (dy_names dy) = Some (Inr (sorted_list_of_set P), cl', dy_names dy)"
    using found P(1) by (simp add: dht_get_peers_def H rt cl'_def)
  then have turn: "take_turn k env DiscoveryTick dy = Some (add_found env (sorted_list_of_set P) dy1)"
    using peers(1) by (simp add: discovery_turn_def dy1_def)
  note g = add_found_greets[OF refl peers(1), where env = env and dy = dy1]
  have "dy_session dy1 = dy_session dy" by (simp add: dy1_def)
  moreover have "greetable (ye_router env) (ye_dial env) (dy_session dy) a" using reach by (simp add: greetable_def)
  ultimately show ?thesis using turn g(1)[of a] g(2,4) peers(2) P(3) by (auto simp: dy1_def)
qed

definition pad_sha :: "bytes \<Rightarrow> bytes" where
  "pad_sha b = b @ replicate (32 - length b) 0"

definition known_node :: node where
  "known_node = from_socket (Key_new pad_sha [1]) (SocketV4 1 1)"

definition known_table :: route_table where
  "known_table = (let h = RouteTable_new (from_socket (Key_new pad_sha [9]) (SocketV4 9 9))
     in put_home pad_sha h known_node (kb_insert (home_bucket pad_sha h known_node) known_node))"

lemma known_table_ok:
  "rt_wf pad_sha known_table" "set (rt_nodes known_table) = {known_node}" "node_id (rt_host known_table) \<noteq> node_id known_node"
proof -
  let ?h = "RouteTable_new (from_socket (Key_new pad_sha [9]) (SocketV4 9 9))"
  have wf: "rt_wf pad_sha ?h" by (rule rt_wf_new)
  have ne: "node_id known_node \<noteq> node_id (rt_host ?h)"
    by (simp add: known_node_def from_socket_def RouteTable_new_def Key_new_def pad_sha_def)
  have empty: "kb_nodes (home_bucket pad_sha ?h known_node) = []" "bucket_size (home_bucket pad_sha ?h known_node) = KBUCKET_MAX"
    using get_bucket_index_less[of pad_sha ?h "node_id known_node"]
    by (simp_all add: home_bucket_def RouteTable_new_def gen_kbuckets_def KBucket_new_def KEY_ID_LENGTH_def)
  have ack: "acknowledge (Suc 0) pad_sha (\<lambda>_. True) ?h known_node = Some known_table"
    using empty by (simp add: acknowledge_round[OF wf] known_table_def Let_def KBUCKET_MAX_def ne)
  have none: "set (rt_nodes ?h) = {}" by (simp add: rt_nodes_def RouteTable_new_def gen_kbuckets_def KBucket_new_def)
  show "rt_wf pad_sha known_table" "node_id (rt_host known_table) \<noteq> node_id known_node"
    using acknowledge_rel[OF wf ack] ne by (auto simp: ack_rel_def)
  have "kb_nodes (home_bucket pad_sha known_table known_node) = [known_node]"
    using empty wf by (simp add: known_table_def Let_def kb_insert_def kb_contains_def KBUCKET_MAX_def)
  moreover have "home_bucket pad_sha known_table known_node \<in> set (kbuckets known_table)"
    using get_bucket_index_less[of pad_sha known_table "node_id known_node"] acknowledge_rel[OF wf ack]
    by (simp add: home_bucket_def ack_rel_def rt_wf_def)
  ultimately have "known_node \<in> set (rt_nodes known_table)" unfolding rt_nodes_def set_concat set_map by (intro UN_I imageI) auto
  then show "set (rt_nodes known_table) = {known_node}" using acknowledge_rel[OF wf ack] none by (auto simp: ack_rel_def)
qed

definition sample_discovery_env :: "(nat, nat, unit, unit) discovery_env" where
  "sample_discovery_env = \<lparr>ye_fuel = 5, ye_dht = Kademlia.sample_env\<lparr>e_sha256 := pad_sha\<rparr>, ye_transport = (\<lambda>_ _ s. (Inl RpcTimeout, s)),
     ye_resp = (\<lambda>n. Inr (ValueResp (node_id n) (DataPeers {SocketV4 7 7}))), ye_store_resp = (\<lambda>n. Inr (Pong (node_id n))),
     ye_pick = (\<lambda>_. 0), ye_order = id, ye_i2p = None, ye_resolver = (\<lambda>m _. Some (None, m)), ye_show = (\<lambda>_. ''''),
     ye_completion = id, ye_iterate = (\<lambda>_. []), ye_router = open_router [1], ye_dial = (\<lambda>_. Dialed), ye_pex = pex_create\<rparr>"

definition sample_discovery :: "(nat, nat, unit, unit) discovery" where
  "sample_discovery = \<lparr>dy_session = session_initial sample_torrent, dy_out = [],
     dy_client = \<lparr>cl_kd = sample_kademlia\<lparr>kd_routes := known_table\<rparr>, cl_conns = Map.empty, cl_net = ()\<rparr>,
     dy_names = (), dy_rebootstrap = True\<rparr>"

lemma known_is_closest: "node_id known_node \<in> node_id ` set (get_closest_nodes pad_sha known_table k KBUCKET_MAX)"
proof -
  let ?ns = "filter (\<lambda>n. node_id n \<noteq> node_id (rt_host known_table)) (rt_nodes known_table)"
  have "set ?ns = {known_node}" using known_table_ok(2,3) by auto
  then have xs: "set (sort_key (\<lambda>n. key_id (distance pad_sha k (node_id n))) ?ns) = {known_node}" (is "set ?xs = _") by simp
  then obtain n ns where cons: "?xs = n # ns" by (metis list.exhaust empty_set insert_not_empty)
  then have "n = known_node" using xs by auto
  then show ?thesis unfolding get_closest_nodes_sort cons by (simp add: KBUCKET_MAX_def)
qed

theorem announced_peer_is_greeted_witness:
  "\<exists>dy'. take_turn (Key_new pad_sha [2]) sample_discovery_env DiscoveryTick sample_discovery = Some dy' \<and>
     \<not> dy_rebootstrap dy' \<and> map_of (ts_peers (dy_session dy')) (SocketV4 7 7) = Some (Pending [1] True)"
proof -
  have "ye_dial sample_discovery_env (SocketV4 7 7) = Dialed" "re_connected (ye_router sample_discovery_env) (SocketV4 7 7)"
      "re_encodes (ye_router sample_discovery_env) (greeting (ye_router sample_discovery_env) (dy_session sample_discovery))"
      "map_of (ts_peers (dy_session sample_discovery)) (SocketV4 7 7) = None"
    by (simp_all add: sample_discovery_env_def sample_discovery_def open_router_def session_initial_def)
  moreover have none: "{j \<in> {x}. j \<noteq> x \<and> P j} = {}" for P and x :: key by blast
  moreover have "card {j \<in> {node_id known_node}. j \<noteq> node_id known_node \<and>
      dist_to pad_sha (Key_new pad_sha [2]) j \<le> dist_to pad_sha (Key_new pad_sha [2]) (node_id known_node)} < KBUCKET_MAX"
    unfolding none by (simp add: KBUCKET_MAX_def)
  moreover have "\<forall>n. node_id n = node_id known_node \<longrightarrow> (\<exists>v. ye_resp sample_discovery_env n = Inr (ValueResp (node_id known_node) v))"
    by (simp add: sample_discovery_env_def)
  ultimately have "\<exists>dy'. take_turn (Key_new pad_sha [2]) sample_discovery_env DiscoveryTick sample_discovery = Some dy' \<and>
     \<not> dy_rebootstrap dy' \<and> map_of (ts_peers (dy_session dy')) (SocketV4 7 7) = Some (Pending (re_host_id (ye_router sample_discovery_env)) True) \<and>
     (SocketV4 7 7, greeting (ye_router sample_discovery_env) (dy_session sample_discovery)) \<in> set (dy_out dy')"
    using known_table_ok known_is_closest[of "Key_new pad_sha [2]"]
    by (intro announced_peer_is_greeted[where H = pad_sha and rt = known_table and U = "{node_id known_node}" and i = "node_id known_node"])
      (simp_all add: sample_discovery_env_def sample_discovery_def closed_world_def)
  then show ?thesis by (auto simp: sample_discovery_env_def open_router_def)
qed

text \<open>C32: the task of a private torrent takes no peers from the exchange: whatever the exchange tables
  hold at each turn, the session, the messages sent and the DHT node end up the same.\<close>

theorem private_discovery_ignores_exchange:
  assumes "is_private (ts_metadata (dy_session dy))"
  shows "start_peer_discovery env (map (other_exchange f) turns) dy = start_peer_discovery env turns dy"
  using assms by (simp add: start_peer_discovery_def private_loop_pex Let_def split: option.split)

definition private_session :: torrent_session where
  "private_session = session_initial (case sample_torrent of TorrentFileV1 t \<Rightarrow> TorrentFileV1 (t\<lparr>v1_private := True\<rparr>) | t \<Rightarrow> t)"

theorem private_discovery_ignores_exchange_witness:
  "start_peer_discovery sample_discovery_env
       (map (other_exchange (\<lambda>_. pex_announce (Key_new pad_sha [2]) (SocketV4 3 3) pex_create)) [(True, sample_discovery_env, PexTick)])
       (sample_discovery\<lparr>dy_session := private_session\<rparr>) =
     start_peer_discovery sample_discovery_env [(True, sample_discovery_env, PexTick)] (sample_discovery\<lparr>dy_session := private_session\<rparr>)"
  by (rule private_discovery_ignores_exchange) (simp add: private_session_def session_initial_def sample_torrent_def)

text \<open>Version two torrents are never private, whatever their dictionary says: the exchange is used.\<close>

lemma version_two_uses_exchange:
  assumes "ts_metadata (dy_session dy) = TorrentFileV2 t"
  shows "tick_enabled (is_private (ts_metadata (dy_session dy))) dy PexTick"
  using assms by simp

text \<open>A bootstrap node that resolves counts as joined even when joining it fails: the remaining
  nodes are not tried, and the repeated bootstrapping stops until a lookup finds nothing again.\<close>

lemma failed_join_counts:
  assumes "ye_completion env addrs = addr # rest" and "bootstrap_target env addr = Some target" and "target \<noteq> []"
    and "ye_resolver env (dy_names dy) target = Some (Some sock, m)" and "dht_nodes (dy_session dy) = Some addrs"
    and "join_network (ye_fuel env) (ye_resp env) (ye_pick env) (ye_transport env) (ye_dht env)
      (bootstrap_node (e_sha256 (ye_dht env)) sock) (dy_client dy) = Some (Inl e, cl)"
  shows "take_turn k env RebootstrapTick dy = Some (dy\<lparr>dy_client := cl, dy_names := m, dy_rebootstrap := False\<rparr>)"
  using assms by (simp add: rebootstrap_turn_def dht_bootstrap_def resolve_address_def)

text \<open>The reference the task takes at its start keeps the session: the task never ends, although its
  loop is written to end when nothing else owns the session.\<close>

lemma discovery_loop_own: "discovery_loop True private k turns dy = Some (ended, dy') \<Longrightarrow> \<not> ended"
  by (induction turns arbitrary: dy) (auto split: if_splits option.splits)

lemma discovery_outlives_session: "start_peer_discovery env turns dy = Some (ended, dy') \<Longrightarrow> \<not> ended"
  by (auto simp: start_peer_discovery_def Let_def dest: discovery_loop_own split: option.splits)

lemma weak_discovery_ends: "discovery_loop False private k ((False, env, tick) # turns) dy = Some (True, dy)"
  by simp

text \<open>The flag for bootstrapping again is up only after a lookup without result or a bootstrap
  without a resolvable node, and a torrent that does not seed is not announced.\<close>

lemma discovery_turn_flag:
  "dht_get_peers env k (dy_client dy) (dy_names dy) = Some (r, cl, m) \<Longrightarrow> take_turn k env DiscoveryTick dy = Some dy' \<Longrightarrow>
     dy_rebootstrap dy' \<longleftrightarrow> (\<forall>peers. r = Inr peers \<longrightarrow> peers = [])"
  by (cases r) (auto simp: discovery_turn_def add_found_def Let_def split: prod.splits if_splits)

lemma only_seeding_announces:
  "current_mode (ts_state (dy_session dy)) \<noteq> ModeSeeding \<Longrightarrow> take_turn k env AnnounceTick dy = Some dy"
  by (simp add: announce_turn_def)

text \<open>Without names to resolve, the peers are those of the specification of the lookup.\<close>

lemma dht_get_peers_ip:
  assumes "find_value (ye_fuel env) (e_sha256 (ye_dht env)) (ye_resp env) (ye_pick env) (kd_routes (cl_kd cl)) k = Some (found, rt)"
    and "\<forall>P. found \<noteq> Some (I2Peers P)" and "\<forall>P. found = Some (DataPeers P) \<longrightarrow> finite P"
  shows "\<exists>r cl'. dht_get_peers env k cl m = Some (r, cl', m) \<and> map_sum id set r = get_peers resolve found"
  using assms by (auto simp: dht_get_peers_def get_peers_def Let_def split: option.splits kademlia_data.splits)

subsection \<open>Interest\<close>

text \<open>A round of the prober tells exactly the peers that have something for us, once each.\<close>

lemma probe_round:
  assumes "\<forall>(a, st)\<in>set ps. re_connected env a" and "re_encodes env Interested"
  shows "foldl (probe_peer env) (s, out) ps = (s', out') \<Longrightarrow> ts_bitfield s' = ts_bitfield s \<and>
     out' = out @ map (\<lambda>(a, _). (a, Interested))
       (filter (\<lambda>(a, st). case st of Active p \<Rightarrow> difference (pl_bitfield p) (ts_bitfield s) \<noteq> [] | _ \<Rightarrow> False) ps)"
  using assms(1)
proof (induction ps arbitrary: s out)
  case (Cons p ps)
  obtain a st where p: "p = (a, st)" by fastforce
  obtain s1 out1 where one: "probe_peer env (s, out) p = (s1, out1)" by fastforce
  have "ts_bitfield s1 = ts_bitfield s"
    "out1 = out @ (case st of Active q \<Rightarrow> if difference (pl_bitfield q) (ts_bitfield s) \<noteq> [] then [(a, Interested)] else [] | _ \<Rightarrow> [])"
    using one Cons.prems assms(2) p
    by (auto simp: probe_peer_def evaluate_interest_def put_pipeline_def bep_send_def Let_def split: peer_state.splits if_splits)
  then show ?case using Cons.IH[of s1 out1] Cons.prems one by (auto simp: p split: peer_state.split)
qed simp

end
