(* ===== verification/Lifecycle.thy ===== *)
theory Lifecycle
  imports Daemon Discovery Connections
begin

text \<open>
  The life of a node: \<open>Bqti::new\<close> and \<open>serve_forever\<close> of \<open>bqti.rs\<close>. A node is put together from the
  components; the loop hands each packet to a task, modelled as run when the packet is taken, for
  packets in any order; it ends on the interrupt signal, and then every connection is closed. The
  theory carries what holds of one packet over to whole runs.
\<close>

definition Bqti_new ::
  "(bytes \<Rightarrow> bytes) \<Rightarrow> bytes \<Rightarrow> signer option \<Rightarrow> signer option \<Rightarrow> (bytes \<times> 's) option \<Rightarrow> bytes \<Rightarrow> sock_addr option \<Rightarrow> session_fs
   \<Rightarrow> (kademlia_error + bep_router_error) + ('k, 's) node_state" where
  "Bqti_new sha256 ca_root leaf bep_leaf pgp_signature salt local_addr fs =
     (case Kademlia_new sha256 ca_root leaf pgp_signature salt local_addr of
        Inl e \<Rightarrow> Inl (Inl e)
      | Inr kd \<Rightarrow>
          (case BepRouter_new bep_leaf local_addr of
             Inl e \<Rightarrow> Inl (Inr e)
           | Inr _ \<Rightarrow>
               Inr \<lparr>nd_conns = [], nd_rpc = RpcHandler_new, nd_kademlia = kd, nd_pex = pex_create, nd_manager = SessionManager_new fs\<rparr>))"

datatype node_event = PacketIn packet "nat option" | CtrlC

text \<open>The loop: \<open>None\<close> is a panic of a task, the flag says whether the signal ended the loop.\<close>

fun serve_loop ::
  "nat \<Rightarrow> ('k, 's) dht_env \<Rightarrow> manager_env \<Rightarrow> pex_net \<Rightarrow> decoders \<Rightarrow> node_event list \<Rightarrow> ('k, 's) node_state
   \<Rightarrow> (('k, 's) node_state \<times> node_output list \<times> bool) option" where
  "serve_loop fuel kenv menv net dc [] nd = Some (nd, [], False)"
| "serve_loop fuel kenv menv net dc (CtrlC # es) nd = Some (nd, [], True)"
| "serve_loop fuel kenv menv net dc (PacketIn pkt reply # es) nd =
     (case serve_packet fuel kenv menv net dc pkt reply nd of
        None \<Rightarrow> None
      | Some (nd, out) \<Rightarrow> map_option (\<lambda>(nd, outs, ended). (nd, out # outs, ended)) (serve_loop fuel kenv menv net dc es nd))"

definition serve_forever ::
  "bool \<Rightarrow> nat \<Rightarrow> ('k, 's) dht_env \<Rightarrow> manager_env \<Rightarrow> pex_net \<Rightarrow> decoders \<Rightarrow> node_event list \<Rightarrow> ('k, 's) node_state \<Rightarrow> connection_manager
   \<Rightarrow> ((unit + bool) \<times> ('k, 's) node_state \<times> node_output list \<times> connection_manager) option" where
  "serve_forever ipc_starts fuel kenv menv net dc es nd cm =
     (if \<not> ipc_starts then Some (Inl (), nd, [], cm)
      else map_option (\<lambda>(nd, outs, ended).
             if ended then (Inr True, nd\<lparr>nd_conns := []\<rparr>, outs, cm_shutdown cm) else (Inr False, nd, outs, cm))
           (serve_loop fuel kenv menv net dc es nd))"

subsection \<open>Runs\<close>

text \<open>The packets that were served when their sender had not authenticated.\<close>

fun only_strangers ::
  "nat \<Rightarrow> ('k, 's) dht_env \<Rightarrow> manager_env \<Rightarrow> pex_net \<Rightarrow> decoders \<Rightarrow> node_event list \<Rightarrow> ('k, 's) node_state \<Rightarrow> bool" where
  "only_strangers fuel kenv menv net dc [] nd = True"
| "only_strangers fuel kenv menv net dc (CtrlC # es) nd = True"
| "only_strangers fuel kenv menv net dc (PacketIn pkt reply # es) nd \<longleftrightarrow>
     (\<forall>c. map_of (nd_conns nd) (source_addr pkt) = Some c \<longrightarrow> \<not> is_authenticated c)
     \<and> (\<forall>nd' out. serve_packet fuel kenv menv net dc pkt reply nd = Some (nd', out) \<longrightarrow> only_strangers fuel kenv menv net dc es nd')"

lemma stranger_packet:
  assumes "\<forall>c. map_of (nd_conns nd) (source_addr pkt) = Some c \<longrightarrow> \<not> is_authenticated c"
    and "serve_packet fuel kenv menv net dc pkt reply nd = Some (nd', out)"
  shows "nd_manager nd' = nd_manager nd \<and> nd_pex nd' = nd_pex nd \<and> no_pex out = [] \<and> no_announce out = [] \<and> no_bep out = []"
proof (cases "map_of (nd_conns nd) (source_addr pkt)")
  case None
  then show ?thesis using assms(2) by (auto simp: serve_packet_def nothing_sent_def)
next
  case (Some c)
  then show ?thesis using packet_confined[OF Some _ assms(2)] assms(1) by simp
qed

text \<open>Packets of peers that never authenticate are not served to the torrents: over a whole run of
  packets, handshakes of the DHT included, each of which arrives from a peer that is not
  authenticated at that moment, serving them leaves the sessions and the swarms as they were, and
  nothing but answers of the DHT leaves the node. What such packets do deliver are responses to
  requests of the node that wait (\<open>delivered_by_number\<close>).\<close>

lemma strangers_reach_nothing:
  assumes "only_strangers fuel kenv menv net dc es nd" and "serve_loop fuel kenv menv net dc es nd = Some (nd', outs, ended)"
  shows "nd_manager nd' = nd_manager nd \<and> nd_pex nd' = nd_pex nd
     \<and> (\<forall>out\<in>set outs. no_pex out = [] \<and> no_announce out = [] \<and> no_bep out = [])"
  using assms
proof (induction es arbitrary: nd outs)
  case (Cons e es)
  show ?case
  proof (cases e)
    case (PacketIn pkt reply)
    obtain nd1 out outs' where one: "serve_packet fuel kenv menv net dc pkt reply nd = Some (nd1, out)"
      and rest: "serve_loop fuel kenv menv net dc es nd1 = Some (nd', outs', ended)" and outs: "outs = out # outs'"
      using Cons.prems(2) by (auto simp: PacketIn split: option.splits)
    have who: "\<forall>c. map_of (nd_conns nd) (source_addr pkt) = Some c \<longrightarrow> \<not> is_authenticated c"
      and then_only: "only_strangers fuel kenv menv net dc es nd1" using Cons.prems(1) one by (auto simp: PacketIn)
    show ?thesis using Cons.IH[OF then_only rest] stranger_packet[OF who one] outs by auto
  qed (use Cons.prems in auto)
qed simp

text \<open>Nothing is served after the signal, and then every connection is closed.\<close>

lemma signal_ends_service:
  assumes "serve_loop fuel kenv menv net dc es nd = Some (nd', outs, True)"
  shows "\<exists>k. k < length es \<and> es ! k = CtrlC \<and> length outs = k
     \<and> serve_loop fuel kenv menv net dc (take k es) nd = Some (nd', outs, False)"
  using assms
proof (induction es arbitrary: nd outs)
  case (Cons e es)
  show ?case
  proof (cases e)
    case (PacketIn pkt reply)
    obtain nd1 out outs' where one: "serve_packet fuel kenv menv net dc pkt reply nd = Some (nd1, out)"
      and rest: "serve_loop fuel kenv menv net dc es nd1 = Some (nd', outs', True)" and outs: "outs = out # outs'"
      using Cons.prems by (auto simp: PacketIn split: option.splits)
    obtain k where "k < length es" "es ! k = CtrlC" "length outs' = k" "serve_loop fuel kenv menv net dc (take k es) nd1 = Some (nd', outs', False)"
      using Cons.IH[OF rest] by blast
    then show ?thesis using one outs PacketIn by (intro exI[of _ "Suc k"]) simp
  next
    case CtrlC
    then show ?thesis using Cons.prems by (intro exI[of _ 0]) simp
  qed
qed simp

lemma shutdown_closes_all:
  assumes "serve_forever ipc_starts fuel kenv menv net dc es nd cm = Some (Inr True, nd', outs, cm')"
  shows "nd_conns nd' = [] \<and> cm_connections cm' = [] \<and> snd ` set (cm_connections cm) \<subseteq> cm_closed cm'"
  using assms by (force simp: serve_forever_def cm_shutdown_def fold_close split: if_splits)

text \<open>A new node knows no peer, so whoever connects first is a stranger to it.\<close>

lemma new_node_knows_nobody:
  "Bqti_new sha256 ca_root leaf bep_leaf pgp_signature salt local_addr fs = Inr nd \<Longrightarrow>
     nd_conns nd = [] \<and> sm_sessions (nd_manager nd) = [] \<and> nd_pex nd = pex_create"
  by (auto simp: Bqti_new_def SessionManager_new_def split: sum.splits)

end
