(* ===== verification/Spec2Isabelle.thy ===== *)
theory Spec2Isabelle
  imports Attacks Commands Completion Delivery IpcSocket Lifecycle
begin

text \<open>
  \<^bold>\<open>A model of bqti, a BitTorrent node with an authenticated DHT, and theorems about it.\<close>

  \<^bold>\<open>The program.\<close> A node keeps QUIC connections to peers (\<open>network/\<close>). Framed messages arrive as
  packets and go to one of three protocols (\<open>bqti.rs\<close>): the Kademlia DHT (\<open>dht/\<close>), which is open to
  peers that have not authenticated yet and authenticates them by a token or a proof of work; peer
  exchange (\<open>pex.rs\<close>); and the peer protocol (\<open>session/bep/\<close>), which transfers signed pieces. The
  session manager (\<open>session/manager.rs\<close>) routes peer messages to the session of their torrent. A
  session is a state machine (\<open>session/state.rs\<close>, \<open>transition.rs\<close>) with a downloader or a seeder as
  its worker (\<open>session/session.rs\<close>), which read and write the files of the torrent through the chunk
  handler (\<open>chunks/\<close>). Torrents are built, saved, loaded and checked by \<open>torrent/\<close> and \<open>bencode/\<close>.
  Clients command the node through a local socket (\<open>ipc/\<close>, \<open>bqti-ipc\<close>).

  \<^bold>\<open>Theories and sources.\<close>
  \<^item> \<open>Bqti_Prelude\<close>: machine types, byte encodings, chunking, socket addresses with their order, loops
    that can panic, requests in flight, association lists, and the three generic interfaces
    (\<open>preserved_by\<close>, \<open>panic_free\<close>, \<open>wire_format\<close>).
  \<^item> \<open>KeySpace\<close> (\<open>dht/key_id.rs\<close>, \<open>node.rs\<close>), \<open>RouteTable\<close> (\<open>k_bucket.rs\<close>, \<open>route_table.rs\<close>, \<open>acknowledge\<close> of
    \<open>kademlia/mod.rs\<close>), \<open>Auth\<close> (\<open>dht/auth/\<close> and the report check of \<open>bqti-tee\<close>), \<open>DhtStore\<close> (\<open>message.rs\<close>,
    \<open>store.rs\<close>), \<open>Kademlia\<close> (\<open>rpc.rs\<close>, \<open>kademlia/server.rs\<close>), \<open>Lookup\<close> (lookups of \<open>kademlia/client.rs\<close>, \<open>dht/mod.rs\<close>), \<open>Join\<close> (joining
    and authenticated requests of \<open>kademlia/client.rs\<close> and \<open>kademlia/mod.rs\<close>, run against \<open>Kademlia\<close>).
  \<^item> \<open>Wire\<close> (\<open>network/message.rs\<close>, the parser of \<open>connection.rs\<close>), \<open>Streams\<close> (the streams of \<open>connection.rs\<close>,
    \<open>send\<close> and \<open>request\<close> of \<open>network/manager.rs\<close>), \<open>Connections\<close> (the table of \<open>network/manager.rs\<close>), \<open>Pex\<close>
    (\<open>pex.rs\<close>), \<open>I2p\<close> (\<open>i2p/\<close>, \<open>network/resolver.rs\<close>).
  \<^item> \<open>Bencode\<close> (\<open>bencode/codec.rs\<close>), \<open>Metainfo\<close> and \<open>MetainfoV2\<close> (\<open>torrent/metainfo/\<close>, \<open>merkle.rs\<close>), \<open>Magnet\<close>
    (\<open>magnet.rs\<close>), \<open>PieceHash\<close> (\<open>piece_hash.rs\<close>, \<open>path.rs\<close>), \<open>Builder\<close> (\<open>torrent/builder/\<close>, load
    and save of \<open>bit_torrent/mod.rs\<close>), \<open>Paths\<close> (joining paths), \<open>Chunks\<close> (\<open>chunks/file_handler.rs\<close>),
    \<open>Directories\<close> (\<open>utils/bqti.rs\<close>).
  \<^item> \<open>BitField\<close> (\<open>session/bit_field.rs\<close>), \<open>Pipeline\<close> (\<open>bep/pipeline.rs\<close>), \<open>SessionState\<close> (\<open>resume.rs\<close>,
    \<open>cache.rs\<close>, \<open>state.rs\<close>, \<open>transition.rs\<close>), \<open>BepRouter\<close> (\<open>bep/router.rs\<close>, \<open>piece_auth.rs\<close>, the peer table
    of \<open>session.rs\<close>), \<open>Discovery\<close> (the discovery task of \<open>bep/router.rs\<close>, \<open>dht/mod.rs\<close>), \<open>Workers\<close> (the
    workers of \<open>session.rs\<close>), \<open>Completion\<close> (the end of a download across \<open>session.rs\<close>, \<open>state.rs\<close> and
    \<open>transition.rs\<close>), \<open>SessionManager\<close> (\<open>session/manager.rs\<close>).
  \<^item> \<open>Identity\<close> (\<open>certs/\<close>, \<open>utils/certs.rs\<close>, \<open>dht/manifest.rs\<close>), \<open>Enclave\<close> (\<open>bqti-tee\<close>, \<open>bqti-enclave\<close> and
    the prover of \<open>dht/auth/pow.rs\<close> on it).
  \<^item> \<open>IpcEvents\<close> (\<open>bqti-ipc\<close>, the status list of \<open>ipc/client.rs\<close>), \<open>EventStream\<close> (the event stream of
    \<open>ipc/server.rs\<close> and its client), \<open>IpcSocket\<close> (the lines of \<open>bqti-ipc/src/socket.rs\<close>, the socket of
    \<open>IpcServer\<close>, \<open>handle_status\<close> of \<open>ipc/client.rs\<close>), \<open>Commands\<close> (\<open>standalone.rs\<close>, \<open>daemon.rs\<close>, the endpoint builders), \<open>Daemon\<close>
    (packets and commands of \<open>bqti.rs\<close>, \<open>ipc/server.rs\<close>), \<open>Lifecycle\<close> (\<open>new\<close> and \<open>serve_forever\<close> of \<open>bqti.rs\<close>).
  \<^item> \<open>Delivery\<close> joins builder, seeder, streams and downloader end to end; \<open>Attacks\<close> runs the attacking
    builds (the \<open>ml_\<close> features) against the honest code.

  \<^bold>\<open>Reading the definitions.\<close> A struct is a record, an enum a datatype, a method a function of the
  record it changes; names follow the source, with the type in front where two would clash. A panic
  is \<open>None\<close>, an \<open>Err\<close> the left side of a sum; the text of error messages is left out. A hash map is an
  association list in the order iteration yields, so a statement holds for every order. Locks:
  a function models what runs without giving the lock away; where tasks interleave, a step relation
  composes such pieces: \<open>session_step\<close> for transitions; \<open>download_step\<close> for the downloader, where the
  router's handling of a piece is four sections (mark, clear the request, count the write, send once
  the queue of 64 has room) and a write task two; \<open>ack_step\<close> for acknowledgements, which release the
  routing table around their pings; \<open>conn_step\<close> for the connection table, with the closing of
  connections by the DHT server. The handlers of the peer protocol and of the DHT run one after the
  other, each to its end; a queue then lists all that was sent. Shared pipelines and sessions are
  written back where they are stored. The type states of the chunk handler are type parameters:
  only a seeding handler reads and only a downloading one writes.

  \<^bold>\<open>Numbers and the disk.\<close> Counters and indices of the protocol are words of their width. The 64-bit
  offsets of the chunk handler are numbers with the wrap-around of a release build written out
  (\<open>add64\<close>, \<open>sub64\<close>, \<open>mul64\<close>); theorems bound the torrent's length below 64 bits where it is needed.
  \<open>read_piece_io\<close> and \<open>write_piece_io\<close> take the number of bytes each system call transfers, which the source
  ignores (\<open>short_write_is_success\<close>); \<open>read_piece\<close> and \<open>write_piece\<close> are their instances for a system that
  transfers every buffer whole, and the theorems on content are about such a system. The name space
  of \<open>Directories\<close> has directories, files, links and permissions; which creations the system grants is
  a parameter.

  \<^bold>\<open>Parameters.\<close> SHA-1, SHA-256, signatures and their verification, PGP, the bencode and resume
  encoders, the clock, the outcome of sending and dialing, the answers of other nodes, the order in
  which requests complete (\<open>pick\<close>), the sizes of file reads and the result of \<open>fallocate\<close> are arguments.
  Theorems hold for all of them, or state what they need as a hypothesis with a witness.

  \<^bold>\<open>Termination and fuel.\<close> Loops whose end is not structural take fuel, and theorems show how much is
  enough: \<open>acknowledge\<close> three rounds; a lookup four times the number of reachable nodes plus one; the
  piece loop after an unchoke one more than the number of pieces; a transition six phases. The proof
  of work search ends whenever a nonce of the wanted difficulty exists.

  \<^bold>\<open>What the lemmas show.\<close> End to end: the content of the files a torrent was built from arrives, piece
  by piece and in any order, in the files of the downloading node.
  Routing table and lookups: an invariant of every sequence of operations; an acknowledgement that runs
  alone evicts no live contact, and two that overlap can; the closest nodes are returned, lookups end with live nodes; the peers a lookup finds are
  greeted, and a private torrent is not spread through peer exchange.
  Authentication: only a token or a proof in the packet itself authenticates a connection, tokens
  expire, rates are bounded; an honest node joins an honest bootstrap node and its token opens
  connections to others, as long as the salt does not rotate meanwhile; the
  enclave's proof is accepted like that of software; a replayed or self-issued token and a
  substituted piece are refused; a copied certificate is accepted. Swarm keys are filed by digest.
  Storage: what was downloaded is read back when the files are opened for seeding, the hasher cuts the concatenated
  files, a created torrent is valid and accepts its own content; a seeding session opens the user's
  own files; the names in a torrent can leave the download directory.
  Sessions: at most one live worker under every interleaving, a cancelled session stays cancelled,
  the resume file round-trips; a paused download loses the right to write its files.
  Peer protocol: no sequence of messages panics, the handshake activates both sides, an unchoke
  fetches every piece the peer has; a drained download is on disk, and the download may be declared
  done before the last write. For torrents of version one, a finished download becomes a seeder of the
  whole torrent and every running one can be carried to that end, in any order of the pieces; one that
  stops early seeds what is on disk.
  Connections: the table is sound under every interleaving; simultaneous dials can close each other;
  the receiver sees exactly the control messages whose sending succeeded, when they fit a frame; a piece
  above the limit of a reply cannot be fetched, which excludes piece lengths the metadata allows. I2P destinations and their addresses are inverse to each other unless one
  name is a prefix of another.
  Node: a packet of an unauthenticated peer changes nothing but what the DHT handshake and a response to
  a waiting request change, and a response is delivered by its number alone, whoever sends it; an accepted
  download is started; a client that follows the status over the socket shows the daemon's list, and
  a second daemon takes the socket from the first and loses it.

  \<^bold>\<open>Not modelled.\<close> Terminal output (\<open>utils/console.rs\<close>, \<open>utils/mod.rs\<close>): formatted text with floating-point
  percentages. Parsing the command line (clap), the serialised forms of serde (JSON, bencode), QUIC and TLS
  below the choices of the builders (quinn, rustls), key and certificate formats (ring, rcgen, pgp),
  the sockets of the I2P bridge and the Keystone runtime: other packages, parameters where their
  results matter. Build scripts and the benchmark programs under \<open>examples/\<close>. Memory limits, task
  scheduling beyond interleaving, and time-outs other than as outcomes.
\<close>

end
